(* ===== verification/Prelude.thy ===== *)
theory Prelude
  imports Main "HOL-Library.Monad_Syntax"
begin

section \<open>Shared vocabulary: C++ machine arithmetic and bit strings\<close>

text \<open>
  The C++ sources compute with \<^verbatim>\<open>uint8_t\<close>, \<^verbatim>\<open>uint16_t\<close> and \<^verbatim>\<open>uint32_t\<close> values.  The model
  keeps such a value as a natural number and writes the wrap-around of every operation that
  can leave the range: \<open>u8\<close>, \<open>u16\<close> and \<open>u32\<close> are the conversions to the unsigned
  types, \<open>sub32\<close> and \<open>not32\<close> the subtraction and the complement of \<^verbatim>\<open>uint32_t\<close>.
  Shifts are \<^const>\<open>push_bit\<close> and \<^const>\<open>drop_bit\<close>.  A C++ \<^verbatim>\<open>CHECK\<close> or \<^verbatim>\<open>THROW\<close> is the
  value \<^const>\<open>None\<close> of the option monad.

  The second half is the theory of big-endian bit strings that the bit stream, the
  Exp-Golomb codes and the arithmetic coder share: \<open>bitsBE n v\<close> are the low \<open>n\<close> bits
  of \<open>v\<close>, most significant first, and \<open>valBE\<close> reads a bit string as a number.
\<close>

unbundle bit_operations_syntax

named_theorems vtm_bits \<open>masks and shifts of the C++ code as div and mod\<close>
named_theorems be_simps \<open>big-endian bit strings\<close>

subsection \<open>Unsigned conversions\<close>

definition u8 :: "nat \<Rightarrow> nat" where
  "u8 x = x mod 2 ^ 8"

definition u16 :: "nat \<Rightarrow> nat" where
  "u16 x = x mod 2 ^ 16"

definition u32 :: "nat \<Rightarrow> nat" where
  "u32 x = x mod 2 ^ 32"

definition sub32 :: "nat \<Rightarrow> nat \<Rightarrow> nat" where
  "sub32 x y = (x + (2 ^ 32 - y mod 2 ^ 32)) mod 2 ^ 32"

definition not32 :: "nat \<Rightarrow> nat" where
  "not32 x = nat (take_bit 32 (NOT (int x)))"

lemma u8_less [simp]: "u8 x < 256"
  by (simp add: u8_def)

lemma u8_id: "x < 256 \<Longrightarrow> u8 x = x"
  by (simp add: u8_def)

lemma u16_less [simp]: "u16 x < 65536"
  by (simp add: u16_def)

lemma u16_id: "x < 65536 \<Longrightarrow> u16 x = x"
  by (simp add: u16_def)

lemma u32_less [simp]: "u32 x < 4294967296"
  by (simp add: u32_def)

lemma u32_id: "x < 4294967296 \<Longrightarrow> u32 x = x"
  by (simp add: u32_def)

lemma sub32_id: "y \<le> x \<Longrightarrow> x < 4294967296 \<Longrightarrow> sub32 x y = x - y"
  by (simp add: sub32_def mod_if)

subsection \<open>Masks\<close>

lemma bit_not32: "bit (not32 x) i \<longleftrightarrow> i < 32 \<and> \<not> bit x i"
  by (auto simp: not32_def bit_nat_iff bit_simps)

lemma bit_nat_lt_exp: "(x::nat) < 2 ^ n \<Longrightarrow> n \<le> i \<Longrightarrow> \<not> bit x i"
  by (metis bit_take_bit_iff leD take_bit_nat_eq_self_iff)

lemma and_not_mask_low [vtm_bits]:
  assumes "x < 2 ^ 32" and "k \<le> 32"
  shows "x AND u32 (push_bit k (not32 0)) = push_bit k (drop_bit k x)"
proof (rule bit_eqI)
  fix i
  have "i < 32" if "bit x i" using bit_nat_lt_exp [OF assms(1)] that by (meson not_less)
  then show "bit (x AND u32 (push_bit k (not32 0))) i = bit (push_bit k (drop_bit k x)) i"
    unfolding u32_def take_bit_eq_mod [symmetric] by (auto simp: bit_simps bit_not32)
qed

lemma and_not32_mask [vtm_bits]:
  assumes "x < 2 ^ 32"
  shows "x AND not32 (2 ^ k - 1) = push_bit k (drop_bit k x)"
proof (rule bit_eqI)
  fix i
  have "i < 32" if "bit x i" using bit_nat_lt_exp [OF assms] that by (meson not_less)
  then show "bit (x AND not32 (2 ^ k - 1)) i = bit (push_bit k (drop_bit k x)) i"
    unfolding mask_eq_exp_minus_1 [symmetric] by (auto simp: bit_simps bit_not32)
qed

lemma and_not_ff [vtm_bits]:
  assumes "x < 256" and "n \<le> 8"
  shows "x AND not32 (push_bit n 255) = x mod 2 ^ n"
proof -
  have *: "(255::nat) = mask 8" by (simp add: mask_numeral)
  have "x AND not32 (push_bit n 255) = take_bit n x"
  proof (rule bit_eqI)
    fix i
    have "\<not> bit x i" if "8 \<le> i"
      using bit_nat_lt_exp [of x 8 i] assms(1) that by simp
    then show "bit (x AND not32 (push_bit n 255)) i = bit (take_bit n x) i"
      unfolding * using assms(2)
      by (cases "i < 8") (auto simp: bit_simps bit_not32)
  qed
  then show ?thesis by (simp add: take_bit_eq_mod)
qed

lemma and_not_byte_mask:
  assumes "x < 2 ^ (k + 8)" and "k \<le> 24"
  shows "x AND not32 (u32 (push_bit k 255)) = x mod 2 ^ k"
proof -
  have *: "(255::nat) = mask 8" by (simp add: mask_numeral)
  have b255: "bit (255::nat) i \<longleftrightarrow> i < 8" for i unfolding * by (simp add: bit_simps)
  have "bit (u32 (push_bit k 255)) i \<longleftrightarrow> k \<le> i \<and> i < k + 8" for i
    using assms(2) unfolding u32_def take_bit_eq_mod [symmetric] by (auto simp: bit_simps b255)
  moreover have "\<not> bit x i" if "k + 8 \<le> i" for i using bit_nat_lt_exp [OF assms(1) that] .
  ultimately show ?thesis using assms(2)
    unfolding take_bit_eq_mod [symmetric] by (intro bit_eqI) (auto simp: bit_not32 bit_simps not_le)
qed
lemma and_mask_mod [vtm_bits]: "(x::nat) AND (2 ^ n - 1) = x mod 2 ^ n"
  by (simp only: take_bit_eq_mask take_bit_eq_mod [symmetric] mask_eq_exp_minus_1 [symmetric])

lemma or_shift_add [vtm_bits]: "y < 2 ^ n \<Longrightarrow> push_bit n x OR y = x * 2 ^ n + (y::nat)"
proof -
  assume y: "y < 2 ^ n"
  have "push_bit n x OR y = push_bit n x + y"
    by (rule disjunctive_add [symmetric])
      (use bit_nat_lt_exp [OF y] in \<open>auto simp: bit_push_bit_iff\<close>)
  then show ?thesis by (simp add: push_bit_eq_mult)
qed

subsection \<open>Big-endian bit strings\<close>

fun bitsBE :: "nat \<Rightarrow> nat \<Rightarrow> bool list" where
  "bitsBE 0 v = []"
| "bitsBE (Suc n) v = bitsBE n (v div 2) @ [odd v]"

definition valBE :: "bool list \<Rightarrow> nat" where
  "valBE bs = foldl (\<lambda>a b. 2 * a + of_bool b) 0 bs"

lemma length_bitsBE [simp]: "length (bitsBE n v) = n"
  by (induction n arbitrary: v) auto

lemma valBE_Nil [simp]: "valBE [] = 0"
  by (simp add: valBE_def)

lemma valBE_snoc [be_simps]: "valBE (bs @ [b]) = 2 * valBE bs + of_bool b"
  by (simp add: valBE_def)

lemma valBE_append [be_simps]: "valBE (as @ bs) = valBE as * 2 ^ length bs + valBE bs"
proof (induction bs rule: rev_induct)
  case (snoc b bs)
  then show ?case
    using valBE_snoc [of "as @ bs" b] by (simp add: valBE_snoc algebra_simps)
qed simp

lemma valBE_single [simp]: "valBE [b] = of_bool b"
  by (simp add: valBE_def)

lemma valBE_Cons [be_simps]: "valBE (b # bs) = of_bool b * 2 ^ length bs + valBE bs"
  using valBE_append [of "[b]" bs] by simp

lemma valBE_less: "valBE bs < 2 ^ length bs"
  by (induction bs rule: rev_induct) (auto simp: valBE_snoc of_bool_def)

lemma valBE_replicate_False [simp]: "valBE (replicate n False) = 0"
  by (induction n) (auto simp: valBE_Cons)

lemma valBE_bitsBE [be_simps]: "valBE (bitsBE n v) = v mod 2 ^ n"
proof (induction n arbitrary: v)
  case (Suc n)
  have "v mod 2 ^ Suc n = 2 * (v div 2 mod 2 ^ n) + v mod 2"
    by (simp add: mod_mult2_eq)
  then show ?case by (simp add: valBE_snoc Suc.IH of_bool_odd_eq_mod_2)
qed simp

lemma bitsBE_valBE [be_simps]: "bitsBE (length bs) (valBE bs) = bs"
  by (induction bs rule: rev_induct) (auto simp: valBE_snoc)

lemma bitsBE_add: "bitsBE (m + n) v = bitsBE m (v div 2 ^ n) @ bitsBE n v"
proof (induction n arbitrary: v)
  case (Suc n)
  then show ?case by (simp add: div_mult2_eq)
qed simp

lemma bitsBE_mod: "n \<le> k \<Longrightarrow> bitsBE n (v mod 2 ^ k) = bitsBE n v"
proof (induction n arbitrary: v k)
  case (Suc n)
  then obtain k' where k: "k = Suc k'" "n \<le> k'" by (cases k) auto
  have "v mod 2 ^ Suc k' div 2 = v div 2 mod 2 ^ k'"
    by (simp add: mod_mult2_eq)
  moreover have "odd (v mod 2 ^ Suc k') = odd v"
    by (simp add: dvd_mod_iff)
  ultimately show ?case using Suc.IH [OF k(2), of "v div 2"] k(1) by simp
qed simp

lemma bitsBE_zero [simp]: "bitsBE n 0 = replicate n False"
  by (induction n) (auto simp flip: replicate_append_same)

lemma bitsBE_inj: "bitsBE n v = bitsBE n w \<Longrightarrow> v mod 2 ^ n = w mod 2 ^ n"
  by (metis valBE_bitsBE)

lemma bitsBE_eqI: "length bs = n \<Longrightarrow> valBE bs = v mod 2 ^ n \<Longrightarrow> bs = bitsBE n v"
  by (metis bitsBE_mod bitsBE_valBE order_refl)

definition bytes_bits :: "nat list \<Rightarrow> bool list" where
  "bytes_bits ys = concat (map (bitsBE 8) ys)"

lemma bytes_bits_simps [simp]:
  "bytes_bits [] = []"
  "bytes_bits (y # ys) = bitsBE 8 y @ bytes_bits ys"
  "bytes_bits (ys @ zs) = bytes_bits ys @ bytes_bits zs"
  by (simp_all add: bytes_bits_def)

lemma length_bytes_bits [simp]: "length (bytes_bits ys) = 8 * length ys"
  by (induction ys) auto

definition bytes_ok :: "nat list \<Rightarrow> bool" where
  "bytes_ok ys \<longleftrightarrow> list_all (\<lambda>y. y < 256) ys"

lemma bytes_ok_simps [simp]:
  "bytes_ok []"
  "bytes_ok (y # ys) \<longleftrightarrow> y < 256 \<and> bytes_ok ys"
  "bytes_ok (ys @ zs) \<longleftrightarrow> bytes_ok ys \<and> bytes_ok zs"
  by (auto simp: bytes_ok_def)

lemma bytes_ok_nth: "bytes_ok ys \<Longrightarrow> i < length ys \<Longrightarrow> ys ! i < 256"
  by (simp add: bytes_ok_def list_all_length)

lemma bytes_bits_inj:
  "bytes_ok ys \<Longrightarrow> bytes_ok zs \<Longrightarrow> bytes_bits ys = bytes_bits zs \<Longrightarrow> ys = zs"
proof (induction ys arbitrary: zs)
  case Nil
  then show ?case by (cases zs) (auto dest: arg_cong [where f = length])
next
  case (Cons y ys)
  then obtain z zs' where zs: "zs = z # zs'"
    by (cases zs) (auto dest: arg_cong [where f = length])
  with Cons.prems have eq: "bitsBE 8 y = bitsBE 8 z" "bytes_bits ys = bytes_bits zs'"
    by (auto simp del: bitsBE.simps)
  have "y = z" using bitsBE_inj [OF eq(1)] Cons.prems(1,2) zs by simp
  then show ?case using Cons.IH [OF _ _ eq(2)] Cons.prems(1,2) zs by simp
qed


lemma bytes_of_bits:
  assumes "length bs mod 8 = 0"
  obtains buf where "bytes_ok buf" and "bytes_bits buf = bs"
proof -
  obtain n where "length bs = 8 * n" using assms by (metis mod_0_imp_dvd dvdE mod_eq_0_iff_dvd)
  then have "\<exists>buf. bytes_ok buf \<and> bytes_bits buf = bs"
  proof (induction n arbitrary: bs)
    case (Suc n)
    then obtain buf where "bytes_ok buf" "bytes_bits buf = drop 8 bs"
      by (metis (no_types) add_diff_cancel_left' length_drop mult_Suc_right)
    moreover have "length (take 8 bs) = 8" using Suc.prems by simp
    with valBE_less [of "take 8 bs"] bitsBE_valBE [of "take 8 bs"]
    have "valBE (take 8 bs) < 256" "bitsBE 8 (valBE (take 8 bs)) = take 8 bs" by auto
    ultimately have "bytes_ok (valBE (take 8 bs) # buf) \<and> bytes_bits (valBE (take 8 bs) # buf) = bs"
      by (simp del: bitsBE.simps)
    then show ?case by blast
  qed (auto intro: exI [of _ "[]"])
  then show ?thesis using that by blast
qed

text \<open>A list of bytes as a big-endian number.\<close>

definition be_word :: "nat list \<Rightarrow> nat" where
  "be_word fs = foldl (\<lambda>v b. v * 256 + b) 0 fs"

lemma be_word_simps [simp]:
  "be_word [] = 0" "be_word (fs @ [b]) = be_word fs * 256 + b" "be_word [b] = b"
  by (simp_all add: be_word_def)

lemma be_word_append: "be_word (fs @ gs) = be_word fs * 256 ^ length gs + be_word gs"
  by (induction gs rule: rev_induct) (simp_all add: algebra_simps flip: append_assoc)

lemma be_word_Cons: "be_word (b # fs) = b * 256 ^ length fs + be_word fs"
  using be_word_append [of "[b]" fs] by simp

lemma be_word_less: "bytes_ok fs \<Longrightarrow> be_word fs < 256 ^ length fs"
  by (induction fs rule: rev_induct) auto

lemma be_word_take_Suc:
  "n < length ys \<Longrightarrow> be_word (take (Suc n) ys) = be_word (take n ys) * 256 + ys ! n"
  by (simp add: take_Suc_conv_app_nth)

lemma bytes_ok_take: "bytes_ok ys \<Longrightarrow> bytes_ok (take n ys)"
  by (metis append_take_drop_id bytes_ok_simps(3))

lemma bytes_ok_drop: "bytes_ok ys \<Longrightarrow> bytes_ok (drop n ys)"
  by (metis append_take_drop_id bytes_ok_simps(3))

lemma be_word_inj:
  "bytes_ok fs \<Longrightarrow> bytes_ok gs \<Longrightarrow> length fs = length gs \<Longrightarrow> be_word fs = be_word gs \<Longrightarrow> fs = gs"
proof (induction fs arbitrary: gs rule: rev_induct)
  case (snoc b fs)
  then obtain gs' c where gs: "gs = gs' @ [c]" by (cases gs rule: rev_cases) auto
  have "b < 256" "c < 256" "be_word fs * 256 + b = be_word gs' * 256 + c" using snoc.prems gs by auto
  then have "(be_word fs * 256 + b) mod 256 = (be_word gs' * 256 + c) mod 256" by simp
  then have "b = c" using \<open>b < 256\<close> \<open>c < 256\<close> by simp
  moreover have "be_word fs = be_word gs'"
    using \<open>be_word fs * 256 + b = be_word gs' * 256 + c\<close> calculation by simp
  ultimately
  show ?case using snoc gs by auto
qed simp

lemma valBE_bytes_bits: "bytes_ok ys \<Longrightarrow> valBE (bytes_bits ys) = be_word ys"
  by (induction ys rule: rev_induct) (auto simp: valBE_append valBE_bitsBE simp del: bitsBE.simps)

lemma pad8: "(n + (8 - n mod 8) mod 8) mod 8 = (0::nat)"
proof (cases "n mod 8 = 0")
  case False
  then have "(8 - n mod 8) mod 8 = 8 - n mod 8" by simp
  then have "(n + (8 - n mod 8) mod 8) mod 8 = (n mod 8 + (8 - n mod 8)) mod 8"
    by (metis mod_add_left_eq)
  then show ?thesis by simp
qed simp

subsection \<open>Integer logarithm\<close>

fun ilog2 :: "nat \<Rightarrow> nat" where
  "ilog2 n = (if n \<le> 1 then 0 else Suc (ilog2 (n div 2)))"

declare ilog2.simps [simp del]

lemma ilog2_bounds:
  assumes "0 < n"
  shows "2 ^ ilog2 n \<le> n" and "n < 2 ^ (ilog2 n + 1)"
  using assms
proof (induction n rule: ilog2.induct)
  case (1 n)
  {
    case 1
    then show ?case using "1.IH"(1) by (cases "n \<le> 1") (auto simp: ilog2.simps [of n])
  next
    case 2
    then show ?case using "1.IH"(2) by (cases "n \<le> 1") (auto simp: ilog2.simps [of n])
  }
qed

lemma ilog2_unique:
  assumes "2 ^ k \<le> n" and "n < 2 ^ (k + 1)"
  shows "ilog2 n = k"
proof -
  have n: "0 < n" using assms(1) by (metis gr0I not_le zero_less_numeral zero_less_power)
  have "(2::nat) ^ k < 2 ^ (ilog2 n + 1)" "(2::nat) ^ ilog2 n < 2 ^ (k + 1)"
    using ilog2_bounds [OF n] assms by linarith+
  then have "k < ilog2 n + 1" "ilog2 n < k + 1"
    by (simp_all only: power_strict_increasing_iff [of "2::nat"] one_less_numeral_iff semiring_norm)
  then show ?thesis by simp
qed

end
