(* ===== verification/BitStreams.thy ===== *)
theory BitStreams
  imports Prelude
begin

section \<open>Bit streams: \<^verbatim>\<open>CommonLib/BitStream.h\<close> and \<^verbatim>\<open>CommonLib/BitStream.cpp\<close>\<close>

text \<open>
  \<^verbatim>\<open>OutputBitstream\<close> collects bits into a byte FIFO plus up to seven held bits that are kept
  most-significant aligned in one byte; \<^verbatim>\<open>InputBitstream\<close> extracts bits from a byte FIFO and
  keeps the unread bits of the last byte in the low end of its held byte.  Both are records;
  every member function is a definition, a failing \<^verbatim>\<open>CHECK\<close> is \<^const>\<open>None\<close>.

  \<open>bits_out\<close> and \<open>bits_in\<close> are the abstractions: the bits written so far and the
  bits still to be read.  Each operation is proved to implement the obvious operation on bit
  lists (append, take and drop), for every alignment and every width up to 32, including the
  exact conditions under which it throws.
\<close>

subsection \<open>State\<close>

record OutputBitstream =
  o_fifo :: "nat list"
  o_num_held_bits :: nat
  o_held_bits :: nat

record InputBitstream =
  i_fifo :: "nat list"
  i_emulationPreventionByteLocation :: "nat list"
  i_fifo_idx :: nat
  i_num_held_bits :: nat
  i_held_bits :: nat
  i_numBitsRead :: nat

subsection \<open>Output operations\<close>

definition OutputBitstream_clear :: OutputBitstream where
  "OutputBitstream_clear = \<lparr>o_fifo = [], o_num_held_bits = 0, o_held_bits = 0\<rparr>"

definition getByteStreamLength :: "OutputBitstream \<Rightarrow> nat" where
  "getByteStreamLength s = u32 (length (o_fifo s))"

definition OutputBitstream_getNumBitsUntilByteAligned :: "OutputBitstream \<Rightarrow> nat" where
  "OutputBitstream_getNumBitsUntilByteAligned s = sub32 8 (o_num_held_bits s) AND 7"

definition getNumberOfWrittenBits :: "OutputBitstream \<Rightarrow> nat" where
  "getNumberOfWrittenBits s = u32 (u32 (length (o_fifo s)) * 8 + o_num_held_bits s)"

text \<open>The fall-through \<^verbatim>\<open>switch\<close> of \<^verbatim>\<open>write\<close>: case \<open>k\<close> pushes the low \<open>k\<close> bytes.\<close>

definition push_bytes :: "nat \<Rightarrow> nat \<Rightarrow> nat list" where
  "push_bytes k w =
     (if k = 4 then [u8 (drop_bit 24 w), u8 (drop_bit 16 w), u8 (drop_bit 8 w), u8 w]
      else if k = 3 then [u8 (drop_bit 16 w), u8 (drop_bit 8 w), u8 w]
      else if k = 2 then [u8 (drop_bit 8 w), u8 w]
      else if k = 1 then [u8 w]
      else [])"

definition OutputBitstream_write :: "nat \<Rightarrow> nat \<Rightarrow> OutputBitstream \<Rightarrow> OutputBitstream option" where
  "OutputBitstream_write uiBits uiNumberOfBits s =
     (if uiNumberOfBits > 32 then None
      else if uiNumberOfBits \<noteq> 32 \<and> uiBits AND u32 (push_bit uiNumberOfBits (not32 0)) \<noteq> 0
      then None
      else
        let num_total_bits = uiNumberOfBits + o_num_held_bits s;
            next_num_held_bits = num_total_bits mod 8;
            next_held_bits = u8 (push_bit (8 - next_num_held_bits) uiBits)
        in if drop_bit 3 num_total_bits = 0
           then Some (s\<lparr>o_held_bits := o_held_bits s OR next_held_bits,
                        o_num_held_bits := next_num_held_bits\<rparr>)
           else
             let topword = sub32 uiNumberOfBits next_num_held_bits AND not32 (push_bit 3 1 - 1);
                 write_bits = u32 (push_bit topword (o_held_bits s))
                                OR drop_bit next_num_held_bits uiBits
             in Some (s\<lparr>o_fifo := o_fifo s @ push_bytes (drop_bit 3 num_total_bits) write_bits,
                        o_held_bits := next_held_bits,
                        o_num_held_bits := next_num_held_bits\<rparr>))"

definition writeAlignOne :: "OutputBitstream \<Rightarrow> OutputBitstream option" where
  "writeAlignOne s =
     (let num_bits = OutputBitstream_getNumBitsUntilByteAligned s
      in OutputBitstream_write (push_bit num_bits 1 - 1) num_bits s)"

definition writeAlignZero :: "OutputBitstream \<Rightarrow> OutputBitstream" where
  "writeAlignZero s =
     (if o_num_held_bits s = 0 then s
      else s\<lparr>o_fifo := o_fifo s @ [o_held_bits s], o_held_bits := 0, o_num_held_bits := 0\<rparr>)"

fun write_bytes :: "nat list \<Rightarrow> OutputBitstream \<Rightarrow> OutputBitstream option" where
  "write_bytes [] s = Some s"
| "write_bytes (y # ys) s = do { s \<leftarrow> OutputBitstream_write y 8 s; write_bytes ys s }"

definition addSubstream :: "OutputBitstream \<Rightarrow> OutputBitstream \<Rightarrow> OutputBitstream option" where
  "addSubstream pcSubstream s =
     (let uiNumBits = getNumberOfWrittenBits pcSubstream
      in do {
        s \<leftarrow> write_bytes (o_fifo pcSubstream) s;
        if uiNumBits AND 7 \<noteq> 0
        then OutputBitstream_write
               (drop_bit (8 - (uiNumBits AND 7)) (o_held_bits pcSubstream)) (uiNumBits AND 7) s
        else Some s })"

definition writeByteAlignment :: "OutputBitstream \<Rightarrow> OutputBitstream option" where
  "writeByteAlignment s = do { s \<leftarrow> OutputBitstream_write 1 1 s; Some (writeAlignZero s) }"

text \<open>
  \<^verbatim>\<open>countStartCodeEmulations\<close>: the \<^verbatim>\<open>search_n\<close> over \<^verbatim>\<open>[found, end()-1)\<close> finds the next two
  zero bytes that are followed by a third byte; the scan goes on at that third byte, which is
  counted when it is at most 3.
\<close>

fun count_emulations :: "nat list \<Rightarrow> nat" where
  "count_emulations (x # y # t # r) =
     (if x = 0 \<and> y = 0 then (if t \<le> 3 then 1 else 0) + count_emulations (t # r)
      else count_emulations (y # t # r))"
| "count_emulations _ = 0"

definition countStartCodeEmulations :: "OutputBitstream \<Rightarrow> nat" where
  "countStartCodeEmulations s = u32 (count_emulations (o_fifo s))"

definition insertAt :: "OutputBitstream \<Rightarrow> nat \<Rightarrow> OutputBitstream \<Rightarrow> OutputBitstream option" where
  "insertAt src pos s =
     (if getNumberOfWrittenBits src mod 8 \<noteq> 0 then None
      else Some (s\<lparr>o_fifo := take pos (o_fifo s) @ o_fifo src @ drop pos (o_fifo s)\<rparr>))"

subsection \<open>Input operations\<close>

definition InputBitstream_new :: "nat list \<Rightarrow> InputBitstream" where
  "InputBitstream_new buf =
     \<lparr>i_fifo = buf, i_emulationPreventionByteLocation = [], i_fifo_idx = 0,
      i_num_held_bits = 0, i_held_bits = 0, i_numBitsRead = 0\<rparr>"

definition resetToStart :: "InputBitstream \<Rightarrow> InputBitstream" where
  "resetToStart s = s\<lparr>i_fifo_idx := 0, i_num_held_bits := 0, i_held_bits := 0, i_numBitsRead := 0\<rparr>"

definition InputBitstream_getNumBitsUntilByteAligned :: "InputBitstream \<Rightarrow> nat" where
  "InputBitstream_getNumBitsUntilByteAligned s = i_num_held_bits s AND 7"

definition getNumBitsLeft :: "InputBitstream \<Rightarrow> nat" where
  "getNumBitsLeft s =
     u32 (8 * sub32 (u32 (length (i_fifo s))) (i_fifo_idx s) + i_num_held_bits s)"

text \<open>The fall-through \<^verbatim>\<open>switch\<close> of \<^verbatim>\<open>read\<close>: \<open>k + 1\<close> bytes from \<open>idx\<close>, big-endian.\<close>

definition load_bytes :: "nat \<Rightarrow> nat list \<Rightarrow> nat \<Rightarrow> nat" where
  "load_bytes k f idx =
     (if k = 3 then push_bit 24 (f ! idx) OR push_bit 16 (f ! (idx + 1))
                      OR push_bit 8 (f ! (idx + 2)) OR f ! (idx + 3)
      else if k = 2 then push_bit 16 (f ! idx) OR push_bit 8 (f ! (idx + 1)) OR f ! (idx + 2)
      else if k = 1 then push_bit 8 (f ! idx) OR f ! (idx + 1)
      else if k = 0 then f ! idx
      else 0)"

definition InputBitstream_read :: "nat \<Rightarrow> InputBitstream \<Rightarrow> (nat \<times> InputBitstream) option" where
  "InputBitstream_read uiNumberOfBits s0 =
     (if uiNumberOfBits > 32 then None
      else
        let s = s0\<lparr>i_numBitsRead := u32 (i_numBitsRead s0 + uiNumberOfBits)\<rparr>
        in if uiNumberOfBits \<le> i_num_held_bits s
           then
             let retval = drop_bit (i_num_held_bits s - uiNumberOfBits) (i_held_bits s)
                            AND not32 (push_bit uiNumberOfBits 255)
             in Some (retval, s\<lparr>i_num_held_bits := i_num_held_bits s - uiNumberOfBits\<rparr>)
           else
             let n = uiNumberOfBits - i_num_held_bits s;
                 retval = u32 (push_bit n
                            (i_held_bits s AND not32 (push_bit (i_num_held_bits s) 255)));
                 num_bytes_to_load = drop_bit 3 (n - 1)
             in if i_fifo_idx s + num_bytes_to_load \<ge> length (i_fifo s) then None
                else
                  let aligned_word = load_bytes num_bytes_to_load (i_fifo s) (i_fifo_idx s);
                      next_num_held_bits = (32 - n) mod 8
                  in Some (retval OR drop_bit next_num_held_bits aligned_word,
                           s\<lparr>i_fifo_idx := i_fifo_idx s + num_bytes_to_load + 1,
                             i_num_held_bits := next_num_held_bits,
                             i_held_bits := u8 aligned_word\<rparr>))"

definition pseudoRead :: "nat \<Rightarrow> InputBitstream \<Rightarrow> (nat \<times> InputBitstream) option" where
  "pseudoRead uiNumberOfBits s =
     (let num_bits_to_read = min uiNumberOfBits (getNumBitsLeft s)
      in do {
        (ruiBits, s') \<leftarrow> InputBitstream_read num_bits_to_read s;
        Some (u32 (push_bit (uiNumberOfBits - num_bits_to_read) ruiBits),
              s'\<lparr>i_fifo_idx := i_fifo_idx s, i_held_bits := i_held_bits s,
                 i_num_held_bits := i_num_held_bits s\<rparr>) })"

definition readByte :: "InputBitstream \<Rightarrow> (nat \<times> InputBitstream) option" where
  "readByte s =
     (if i_fifo_idx s \<ge> length (i_fifo s) then None
      else Some (i_fifo s ! i_fifo_idx s, s\<lparr>i_fifo_idx := i_fifo_idx s + 1\<rparr>))"

definition peekPreviousByte :: "InputBitstream \<Rightarrow> nat option" where
  "peekPreviousByte s = (if i_fifo_idx s = 0 then None else Some (i_fifo s ! (i_fifo_idx s - 1)))"

function readOutTrailingBits :: "nat \<Rightarrow> InputBitstream \<Rightarrow> (nat \<times> InputBitstream) option" where
  "readOutTrailingBits count s =
     (if getNumBitsLeft s > 0 \<and> InputBitstream_getNumBitsUntilByteAligned s \<noteq> 0
      then (case InputBitstream_read 1 s of
              None \<Rightarrow> None
            | Some (uiBits, s') \<Rightarrow> readOutTrailingBits (count + 1) s')
      else Some (count, s))"
  by pat_completeness auto
termination
proof (relation "measure (\<lambda>(count, s). i_num_held_bits s)", goal_cases)
  case (2 count s p uiBits s')
  then have "i_num_held_bits s \<noteq> 0"
    by (cases "i_num_held_bits s = 0") (auto simp: InputBitstream_getNumBitsUntilByteAligned_def)
  with 2 show ?case by (auto simp: InputBitstream_read_def Let_def split: if_splits)
qed simp

declare readOutTrailingBits.simps [simp del]

fun read_bytes :: "nat \<Rightarrow> InputBitstream \<Rightarrow> (nat list \<times> InputBitstream) option" where
  "read_bytes 0 s = Some ([], s)"
| "read_bytes (Suc n) s = do {
     (uiByte, s) \<leftarrow> InputBitstream_read 8 s;
     (buf, s) \<leftarrow> read_bytes n s;
     Some (uiByte # buf, s) }"

definition extractSubstream ::
  "nat \<Rightarrow> InputBitstream \<Rightarrow> (InputBitstream \<times> InputBitstream) option" where
  "extractSubstream uiNumBits s =
     (let uiNumBytes = uiNumBits div 8
      in do {
        (buf, s) \<leftarrow>
          (if i_num_held_bits s = 0
           then let uiNumBytesToReadFromFifo =
                      min uiNumBytes (sub32 (u32 (length (i_fifo s))) (i_fifo_idx s))
                in Some (take uiNumBytesToReadFromFifo (drop (i_fifo_idx s) (i_fifo s))
                           @ replicate (uiNumBytes - uiNumBytesToReadFromFifo) 0,
                         s\<lparr>i_fifo_idx := i_fifo_idx s + uiNumBytesToReadFromFifo\<rparr>)
           else read_bytes uiNumBytes s);
        (buf, s) \<leftarrow>
          (if uiNumBits AND 7 \<noteq> 0
           then do {
             (uiByte, s) \<leftarrow> InputBitstream_read (uiNumBits AND 7) s;
             Some (buf @ [u8 (push_bit (8 - (uiNumBits AND 7)) uiByte)], s) }
           else Some (buf, s));
        Some (InputBitstream_new buf, s) })"

definition readByteAlignment :: "InputBitstream \<Rightarrow> (nat \<times> InputBitstream) option" where
  "readByteAlignment s = do {
     (code, s) \<leftarrow> InputBitstream_read 1 s;
     if code \<noteq> 1 then None
     else
       let numBits = InputBitstream_getNumBitsUntilByteAligned s
       in if numBits \<noteq> 0
          then if numBits > getNumBitsLeft s then None
               else do {
                 (code, s) \<leftarrow> InputBitstream_read numBits s;
                 if code \<noteq> 0 then None else Some (numBits + 1, s) }
          else Some (numBits + 1, s) }"


subsection \<open>Abstraction of the output stream\<close>

definition out_inv :: "OutputBitstream \<Rightarrow> bool" where
  "out_inv s \<longleftrightarrow> bytes_ok (o_fifo s) \<and> o_num_held_bits s < 8 \<and> o_held_bits s < 256
     \<and> o_held_bits s mod 2 ^ (8 - o_num_held_bits s) = 0"

definition bits_out :: "OutputBitstream \<Rightarrow> bool list" where
  "bits_out s = bytes_bits (o_fifo s)
     @ bitsBE (o_num_held_bits s) (o_held_bits s div 2 ^ (8 - o_num_held_bits s))"

lemma out_inv_clear [simp]: "out_inv OutputBitstream_clear"
  by (simp add: out_inv_def OutputBitstream_clear_def)

lemma bits_out_clear [simp]: "bits_out OutputBitstream_clear = []"
  by (simp add: bits_out_def OutputBitstream_clear_def)

lemma length_bits_out: "length (bits_out s) = 8 * length (o_fifo s) + o_num_held_bits s"
  by (simp add: bits_out_def)

lemma bytes_ok_push_bytes [simp]: "bytes_ok (push_bytes k w)"
  by (simp add: push_bytes_def)

lemma bitsBE_u8: "bitsBE 8 (u8 y) = bitsBE 8 y"
  unfolding u8_def by (rule bitsBE_mod) simp

lemma bytes_bits_push_bytes:
  assumes "k \<le> 4"
  shows "bytes_bits (push_bytes k w) = bitsBE (8 * k) w"
proof -
  have two: "bitsBE 16 w = bitsBE 8 (w div 2 ^ 8) @ bitsBE 8 w"
    and three: "bitsBE 24 w = bitsBE 8 (w div 2 ^ 16) @ bitsBE 16 w"
    and four: "bitsBE 32 w = bitsBE 8 (w div 2 ^ 24) @ bitsBE 24 w" for w
    using bitsBE_add [of 8 8 w] bitsBE_add [of 8 16 w] bitsBE_add [of 8 24 w]
    by (simp_all del: bitsBE.simps)
  consider "k = 0" | "k = 1" | "k = 2" | "k = 3" | "k = 4" using assms by linarith
  then show ?thesis
    by cases (simp_all add: push_bytes_def bitsBE_u8 two three four drop_bit_eq_div del: bitsBE.simps(2))
qed

text \<open>The held bits as a number: \<open>held = H * 2 ^ (8 - h)\<close> with \<open>H < 2 ^ h\<close>.\<close>

lemma out_inv_held:
  assumes "out_inv s"
  obtains H where "o_held_bits s = H * 2 ^ (8 - o_num_held_bits s)"
    and "H < 2 ^ o_num_held_bits s"
    and "H = o_held_bits s div 2 ^ (8 - o_num_held_bits s)"
proof -
  let ?h = "o_num_held_bits s" and ?H = "o_held_bits s div 2 ^ (8 - o_num_held_bits s)"
  from assms have h: "?h < 8" and m: "o_held_bits s mod 2 ^ (8 - ?h) = 0" and l: "o_held_bits s < 256"
    by (auto simp: out_inv_def)
  have eq: "o_held_bits s = ?H * 2 ^ (8 - ?h)" using m by (simp add: mod_0_imp_dvd)
  have "?H * 2 ^ (8 - ?h) < 2 ^ ?h * 2 ^ (8 - ?h)"
    using l h eq by (simp flip: power_add)
  then have "?H < 2 ^ ?h" by simp
  with eq that show ?thesis by blast
qed

lemma write_check:
  assumes "v < 2 ^ 32" and "n \<le> 32"
  shows "v AND u32 (push_bit n (not32 0)) \<noteq> 0 \<longleftrightarrow> \<not> v < 2 ^ n"
  unfolding and_not_mask_low [OF assms] by (simp add: drop_bit_eq_div div_eq_0_iff)

lemma sub32_mask8:
  assumes "x \<le> n" and "n \<le> 32"
  shows "sub32 n x AND not32 (push_bit 3 1 - 1) = 8 * ((n - x) div 8)"
  using assms and_not32_mask [of "n - x" 3]
  by (simp add: sub32_id push_bit_eq_mult drop_bit_eq_div)


lemma write_held_only:
  assumes inv: "out_inv s" and v: "v < 2 ^ n" and t: "n + o_num_held_bits s < 8"
  defines "s' \<equiv> s\<lparr>o_held_bits := o_held_bits s OR u8 (push_bit (8 - (n + o_num_held_bits s)) v),
                  o_num_held_bits := n + o_num_held_bits s\<rparr>"
  shows "out_inv s' \<and> bits_out s' = bits_out s @ bitsBE n v"
proof -
  let ?h = "o_num_held_bits s"
  obtain H where H: "o_held_bits s = H * 2 ^ (8 - ?h)" "H < 2 ^ ?h"
      "H = o_held_bits s div 2 ^ (8 - ?h)"
    using out_inv_held [OF inv] .
  define e where "e = 8 - (n + ?h)"
  have e: "8 - ?h = n + e" "8 = ?h + (n + e)" using t by (auto simp: e_def)
  have ve: "v * 2 ^ e < 2 ^ (8 - ?h)" using v by (simp add: e power_add)
  have "(2::nat) ^ (8 - ?h) \<le> 2 ^ 8" by (rule power_increasing) auto
  with ve have "u8 (push_bit e v) = v * 2 ^ e" by (simp add: u8_id push_bit_eq_mult)
  moreover have "H * 2 ^ (8 - ?h) OR v * 2 ^ e = H * 2 ^ (8 - ?h) + v * 2 ^ e"
    using or_shift_add [OF ve, of H] by (simp add: push_bit_eq_mult)
  ultimately have held: "o_held_bits s' = (H * 2 ^ n + v) * 2 ^ e"
    by (simp add: s'_def H(1) e_def [symmetric]) (simp add: e power_add algebra_simps)
  have HV: "H * 2 ^ n + v < 2 ^ (?h + n)"
  proof -
    have "H * 2 ^ n + v < (H + 1) * 2 ^ n" using v by simp
    also have "\<dots> \<le> 2 ^ ?h * 2 ^ n" using H(2) by (intro mult_right_mono) auto
    finally show ?thesis by (simp add: power_add)
  qed
  have "(H * 2 ^ n + v) * 2 ^ e < 2 ^ (?h + n) * 2 ^ e" using HV by simp
  also have "\<dots> = 256" using e(2) by (simp flip: power_add add.assoc)
  finally have "out_inv s'"
    using inv t held by (simp add: out_inv_def) (simp add: s'_def e_def)
  moreover have "bitsBE (?h + n) (H * 2 ^ n + v) = bitsBE ?h H @ bitsBE n v"
    using v bitsBE_mod [of n n "H * 2 ^ n + v"] by (simp add: bitsBE_add)
  then have "bits_out s' = bits_out s @ bitsBE n v"
    using held H(3)
    by (simp add: bits_out_def) (simp add: s'_def e_def [symmetric] add.commute)
  ultimately show ?thesis ..
qed

lemma write_full_bytes:
  assumes inv: "out_inv s" and v: "v < 2 ^ n" and n: "n \<le> 32"
    and t: "n + o_num_held_bits s = 8 * k + x" "x < 8" "k \<noteq> 0"
  defines "w \<equiv> u32 (push_bit (8 * ((n - x) div 8)) (o_held_bits s)) OR drop_bit x v"
  defines "s' \<equiv> s\<lparr>o_fifo := o_fifo s @ push_bytes k w, o_held_bits := u8 (push_bit (8 - x) v),
                  o_num_held_bits := x\<rparr>"
  shows "out_inv s' \<and> bits_out s' = bits_out s @ bitsBE n v"
proof -
  let ?h = "o_num_held_bits s"
  obtain H where H: "o_held_bits s = H * 2 ^ (8 - ?h)" "H < 2 ^ ?h"
      "H = o_held_bits s div 2 ^ (8 - ?h)"
    using out_inv_held [OF inv] .
  have h: "?h < 8" using inv by (simp add: out_inv_def)
  have k: "k \<le> 4" using t n h by linarith
  have nx: "n - x = 8 * k - ?h" "x \<le> n" "8 * k = ?h + (n - x)" using t h by auto
  have vx: "drop_bit x v < 2 ^ (n - x)"
    using v nx(2) by (simp add: drop_bit_eq_div less_mult_imp_div_less flip: power_add)
  have top: "push_bit (8 * ((n - x) div 8)) (o_held_bits s) = push_bit (n - x) H"
  proof (cases "?h = 0")
    case True
    then have "H = 0" using H(2) by simp
    then show ?thesis using H(1) by simp
  next
    case False
    obtain k' where "k = Suc k'" using t(3) by (cases k) auto
    then have nx': "n - x = 8 * k' + (8 - ?h)" using nx(1) h by simp
    have "(n - x) div 8 = k'" unfolding nx' using False by simp
    then have "8 - ?h + 8 * ((n - x) div 8) = n - x" using nx' by simp
    then show ?thesis using H(1) by (simp add: push_bit_eq_mult mult.assoc flip: power_add)
  qed
  have w_le: "H * 2 ^ (n - x) + drop_bit x v < 2 ^ (8 * k)"
  proof -
    have "H * 2 ^ (n - x) + drop_bit x v < (H + 1) * 2 ^ (n - x)" using vx by simp
    also have "\<dots> \<le> 2 ^ ?h * 2 ^ (n - x)" using H(2) by (intro mult_right_mono) auto
    finally show ?thesis unfolding nx(3) by (simp add: power_add)
  qed
  have "(2::nat) ^ (8 * k) \<le> 2 ^ 32" using k by (intro power_increasing) auto
  with w_le have "push_bit (n - x) H < 2 ^ 32" by (simp add: push_bit_eq_mult)
  then have w: "w = H * 2 ^ (n - x) + drop_bit x v"
    unfolding w_def top by (simp add: u32_id or_shift_add [OF vx])
  have "bytes_bits (push_bytes k w) = bitsBE (?h + (n - x)) w"
    using bytes_bits_push_bytes [OF k] nx(3) by simp
  also have "\<dots> = bitsBE ?h H @ bitsBE (n - x) (drop_bit x v)"
    using vx bitsBE_mod [of "n - x" "n - x" w] by (simp add: bitsBE_add w)
  finally have new: "bytes_bits (push_bytes k w) = bitsBE ?h H @ bitsBE (n - x) (v div 2 ^ x)"
    by (simp add: drop_bit_eq_div)
  have split8: "(2::nat) ^ 8 = 2 ^ (8 - x) * 2 ^ x" using t(2) by (simp flip: power_add)
  have held: "u8 (push_bit (8 - x) v) = (v mod 2 ^ x) * 2 ^ (8 - x)"
    unfolding u8_def push_bit_eq_mult split8 by (simp add: mult.commute [of v])
  have "out_inv s'"
    using inv t(2) by (simp add: out_inv_def s'_def) (simp add: held)
  moreover have "bits_out s' = bits_out s @ bitsBE n v"
    using new H(3) bitsBE_add [of "n - x" x v] nx(2) bitsBE_mod [of x x v]
    by (simp add: bits_out_def s'_def held)
  ultimately show ?thesis ..
qed

text \<open>\<^verbatim>\<open>write\<close> appends the \<open>n\<close> low bits of its argument, most significant first.\<close>

lemma write_ok:
  assumes "out_inv s" and "v < 2 ^ n" and "n \<le> 32"
  obtains s' where "OutputBitstream_write v n s = Some s'" and "out_inv s'"
    and "bits_out s' = bits_out s @ bitsBE n v"
proof -
  have "(2::nat) ^ n \<le> 2 ^ 32" using assms(3) by (intro power_increasing) auto
  with assms(2,3) have check: "v AND u32 (push_bit n (not32 0)) = 0"
    using write_check [of v n] by simp
  define k where "k = (n + o_num_held_bits s) div 8"
  define x where "x = (n + o_num_held_bits s) mod 8"
  have kx: "n + o_num_held_bits s = 8 * k + x" "x < 8" by (simp_all add: k_def x_def)
  show ?thesis
  proof (cases "k = 0")
    case True
    with kx have "n + o_num_held_bits s < 8" and "x = n + o_num_held_bits s" by simp_all
    with write_held_only [OF assms(1,2)] that check assms(3) show ?thesis
      by (simp add: OutputBitstream_write_def x_def [symmetric] drop_bit_eq_div Let_def)
  next
    case False
    have "x \<le> n" using kx False assms(1) by (simp add: out_inv_def)
    then have "sub32 n x AND not32 (push_bit 3 1 - 1) = 8 * ((n - x) div 8)"
      using assms(3) by (rule sub32_mask8)
    with write_full_bytes [OF assms kx False] that check assms(3) False show ?thesis
      by (simp add: OutputBitstream_write_def x_def [symmetric] drop_bit_eq_div Let_def
          k_def [symmetric] del: push_bit_of_1)
  qed
qed

lemma write_fails:
  assumes "v < 2 ^ 32"
  shows "OutputBitstream_write v n s = None \<longleftrightarrow> 32 < n \<or> 2 ^ n \<le> v"
proof (cases "n < 32")
  case True
  with write_check [OF assms, of n] show ?thesis
    by (auto simp: OutputBitstream_write_def Let_def not_le)
next
  case False
  then consider "n = 32" | "32 < n" by linarith
  then show ?thesis using assms by cases (auto simp: OutputBitstream_write_def Let_def)
qed


lemma NumBitsUntilByteAligned_eq:
  assumes "out_inv s"
  shows "OutputBitstream_getNumBitsUntilByteAligned s = (8 - o_num_held_bits s) mod 8"
  using assms and_mask_mod [of "8 - o_num_held_bits s" 3]
  by (simp add: OutputBitstream_getNumBitsUntilByteAligned_def sub32_id out_inv_def)

lemma writeAlignOne_ok:
  assumes "out_inv s"
  obtains s' where "writeAlignOne s = Some s'" and "out_inv s'" and "o_num_held_bits s' = 0"
    and "bits_out s' = bits_out s @ replicate ((8 - o_num_held_bits s) mod 8) True"
proof -
  let ?n = "(8 - o_num_held_bits s) mod 8"
  have ones: "bitsBE n (2 ^ n - Suc 0) = replicate n True" for n
  proof (induction n)
    case (Suc n)
    have "(2 * m - 1) div 2 = m - 1" for m :: nat by arith
    then have "((2::nat) ^ Suc n - 1) div 2 = 2 ^ n - 1" by simp
    then show ?case using Suc.IH by (simp add: replicate_append_same)
  qed simp
  have "(2::nat) ^ ?n - 1 < 2 ^ ?n" "?n \<le> 32" by (simp_all add: less_imp_le)
  from write_ok [OF assms this] obtain s' where s': "OutputBitstream_write (2 ^ ?n - 1) ?n s = Some s'"
      "out_inv s'" "bits_out s' = bits_out s @ bitsBE ?n (2 ^ ?n - 1)" .
  have "o_num_held_bits s' = 0"
  proof -
    have "length (bits_out s') = length (bits_out s) + ?n" using s'(3) by simp
    then have "(8 * length (o_fifo s') + o_num_held_bits s') mod 8
        = (8 * length (o_fifo s) + o_num_held_bits s + ?n) mod 8"
      by (simp add: length_bits_out)
    also have "\<dots> = 0" using assms by (simp add: out_inv_def mod_simps)
    finally show ?thesis using s'(2) by (simp add: out_inv_def)
  qed
  with s' that show ?thesis
    by (simp add: writeAlignOne_def NumBitsUntilByteAligned_eq [OF assms] ones)
qed

lemma writeAlignZero_ok:
  assumes "out_inv s"
  shows "out_inv (writeAlignZero s)" and "o_num_held_bits (writeAlignZero s) = 0"
    and "bits_out (writeAlignZero s)
           = bits_out s @ replicate ((8 - o_num_held_bits s) mod 8) False"
proof -
  let ?h = "o_num_held_bits s"
  show "out_inv (writeAlignZero s)" and "o_num_held_bits (writeAlignZero s) = 0"
    using assms by (auto simp: out_inv_def writeAlignZero_def)
  show "bits_out (writeAlignZero s) = bits_out s @ replicate ((8 - ?h) mod 8) False"
  proof (cases "?h = 0")
    case False
    have h: "?h < 8" and m: "o_held_bits s mod 2 ^ (8 - ?h) = 0"
      using assms by (auto simp: out_inv_def)
    have "bitsBE (8 - ?h) (o_held_bits s) = replicate (8 - ?h) False"
      using bitsBE_mod [of "8 - ?h" "8 - ?h" "o_held_bits s"] m by simp
    then have "bitsBE 8 (o_held_bits s)
        = bitsBE ?h (o_held_bits s div 2 ^ (8 - ?h)) @ replicate (8 - ?h) False"
      using bitsBE_add [of ?h "8 - ?h" "o_held_bits s"] h by simp
    moreover have "(8 - ?h) mod 8 = 8 - ?h" using False h by simp
    moreover have "bits_out (writeAlignZero s) = bytes_bits (o_fifo s) @ bitsBE 8 (o_held_bits s)"
      using False by (simp add: bits_out_def writeAlignZero_def)
    ultimately show ?thesis by (simp only: bits_out_def append.assoc)
  qed (simp add: writeAlignZero_def)
qed

lemma write_bytes_ok:
  assumes "out_inv s" and "bytes_ok ys"
  obtains s' where "write_bytes ys s = Some s'" and "out_inv s'"
    and "bits_out s' = bits_out s @ bytes_bits ys"
  using assms
proof (induction ys arbitrary: s thesis)
  case Nil
  then show ?case by simp
next
  case (Cons y ys)
  then have "y < 2 ^ 8" by simp
  from write_ok [OF Cons.prems(2) this] obtain s1 where
    s1: "OutputBitstream_write y 8 s = Some s1" "out_inv s1" "bits_out s1 = bits_out s @ bitsBE 8 y"
    by (auto simp del: bitsBE.simps)
  obtain s2 where "write_bytes ys s1 = Some s2" "out_inv s2" "bits_out s2 = bits_out s1 @ bytes_bits ys"
    using Cons.IH [OF _ s1(2)] Cons.prems(3) by auto
  with s1 Cons.prems(1) show ?case by (simp del: bitsBE.simps)
qed

lemma addSubstream_ok:
  assumes "out_inv s" and "out_inv sub"
  obtains s' where "addSubstream sub s = Some s'" and "out_inv s'"
    and "bits_out s' = bits_out s @ bits_out sub"
proof -
  let ?h = "o_num_held_bits sub"
  have h: "?h < 8" using assms(2) by (simp add: out_inv_def)
  have "getNumberOfWrittenBits sub AND 7 = ?h"
  proof -
    have "getNumberOfWrittenBits sub AND 7 = getNumberOfWrittenBits sub mod 8"
      using and_mask_mod [of _ 3] by simp
    also have "\<dots> = ?h"
      using h by (simp add: getNumberOfWrittenBits_def u32_def mod_mod_cancel)
    finally show ?thesis .
  qed
  note nb = this
  obtain H where H: "o_held_bits sub = H * 2 ^ (8 - ?h)" "H < 2 ^ ?h"
      "H = o_held_bits sub div 2 ^ (8 - ?h)"
    using out_inv_held [OF assms(2)] .
  have "bytes_ok (o_fifo sub)" using assms(2) by (simp add: out_inv_def)
  from write_bytes_ok [OF assms(1) this] obtain s1 where
    s1: "write_bytes (o_fifo sub) s = Some s1" "out_inv s1"
      "bits_out s1 = bits_out s @ bytes_bits (o_fifo sub)" .
  from write_ok [OF s1(2) H(2)] h obtain s2 where
    "OutputBitstream_write H ?h s1 = Some s2" "out_inv s2" "bits_out s2 = bits_out s1 @ bitsBE ?h H"
    by auto
  with s1 that nb H(3) show ?thesis
    by (cases "?h = 0") (auto simp: addSubstream_def drop_bit_eq_div bits_out_def Let_def)
qed


lemma writeByteAlignment_ok:
  assumes "out_inv s"
  obtains s' where "writeByteAlignment s = Some s'" and "out_inv s'" and "o_num_held_bits s' = 0"
    and "bits_out s' = bits_out s @ True # replicate (7 - o_num_held_bits s) False"
proof -
  from write_ok [OF assms, of 1 1] obtain s1 where
    s1: "OutputBitstream_write 1 1 s = Some s1" "out_inv s1" "bits_out s1 = bits_out s @ [True]"
    by auto
  have h: "o_num_held_bits s < 8" "o_num_held_bits s1 < 8"
    using assms s1(2) by (auto simp: out_inv_def)
  have "8 * length (o_fifo s1) + o_num_held_bits s1 = 8 * length (o_fifo s) + o_num_held_bits s + 1"
    using arg_cong [OF s1(3), of length] by (simp add: length_bits_out)
  then have "(8 - o_num_held_bits s1) mod 8 = 7 - o_num_held_bits s"
  proof (cases "o_num_held_bits s = 7")
    case True
    with \<open>8 * _ + _ = _\<close> h have "o_num_held_bits s1 = 0" by presburger
    with True show ?thesis by simp
  next
    case False
    with \<open>8 * _ + _ = _\<close> h have "o_num_held_bits s1 = o_num_held_bits s + 1" by presburger
    with False h show ?thesis by simp
  qed
  with s1 writeAlignZero_ok [OF s1(2)] that show ?thesis
    by (simp add: writeByteAlignment_def)
qed

subsection \<open>Abstraction of the input stream\<close>

definition in_inv :: "InputBitstream \<Rightarrow> bool" where
  "in_inv s \<longleftrightarrow> bytes_ok (i_fifo s) \<and> i_num_held_bits s < 8 \<and> i_held_bits s < 256
     \<and> i_fifo_idx s \<le> length (i_fifo s)"

definition bits_in :: "InputBitstream \<Rightarrow> bool list" where
  "bits_in s = bitsBE (i_num_held_bits s) (i_held_bits s)
     @ bytes_bits (drop (i_fifo_idx s) (i_fifo s))"

lemma in_inv_new [simp]: "in_inv (InputBitstream_new buf) \<longleftrightarrow> bytes_ok buf"
  by (simp add: in_inv_def InputBitstream_new_def)

lemma bits_in_new [simp]: "bits_in (InputBitstream_new buf) = bytes_bits buf"
  by (simp add: bits_in_def InputBitstream_new_def)

lemma length_bits_in:
  "length (bits_in s) = i_num_held_bits s + 8 * (length (i_fifo s) - i_fifo_idx s)"
  by (simp add: bits_in_def)

text \<open>Loading \<open>k + 1\<close> bytes: the big-endian number of the next bytes.\<close>

lemma valBE_bytes_snoc:
  "y < 256 \<Longrightarrow> valBE (bytes_bits (ys @ [y])) = valBE (bytes_bits ys) * 256 + y"
  by (simp add: valBE_append valBE_bitsBE del: bitsBE.simps)

lemma or_byte: "b < 256 \<Longrightarrow> push_bit 8 a OR b = a * 256 + (b::nat)"
  using or_shift_add [of b 8 a] by simp

lemma or_byte_shifted:
  "b < 256 \<Longrightarrow> push_bit (n + 8) a OR (push_bit n b OR c) = push_bit n (a * 256 + b) OR (c::nat)"
proof -
  assume b: "b < 256"
  have "push_bit (n + 8) a OR (push_bit n b OR c) = push_bit n (push_bit 8 a OR b) OR c"
    by (simp add: push_bit_or or.assoc)
  then show ?thesis by (simp only: or_byte [OF b])
qed

lemmas be2 = or_byte

lemma be3:
  assumes "b < 256" and "c < 256"
  shows "push_bit 16 a OR push_bit 8 b OR c = (a * 256 + b) * 256 + (c::nat)"
  using or_byte_shifted [OF assms(1), of 8 a c] or_byte [OF assms(2)] by (simp add: or.assoc)

lemma be4:
  assumes "b < 256" and "c < 256" and "d < 256"
  shows "push_bit 24 a OR push_bit 16 b OR push_bit 8 c OR d
    = ((a * 256 + b) * 256 + c) * 256 + (d::nat)"
  using or_byte_shifted [OF assms(1), of 16 a "push_bit 8 c OR d"] be3 [OF assms(2,3)]
  by (simp add: or.assoc)

lemma load_bytes_eq:
  assumes "bytes_ok f" and "k \<le> 3" and "idx + k < length f"
  shows "load_bytes k f idx = valBE (bytes_bits (take (k + 1) (drop idx f)))"
proof -
  define a where "a j = f ! (idx + j)" for j
  have lt: "a j < 256" if "j \<le> k" for j
    unfolding a_def using assms that by (intro bytes_ok_nth) auto
  have val: "valBE (bytes_bits (take (Suc j) (drop idx f)))
      = valBE (bytes_bits (take j (drop idx f))) * 256 + a j" if "j \<le> k" for j
  proof -
    have "take (Suc j) (drop idx f) = take j (drop idx f) @ [a j]"
      using that assms(3) by (simp add: a_def take_Suc_conv_app_nth)
    then show ?thesis using valBE_bytes_snoc [OF lt [OF that]] by simp
  qed
  have v1: "valBE (bytes_bits (take 1 (drop idx f))) = a 0" using val [of 0] by simp
  have v2: "valBE (bytes_bits (take 2 (drop idx f))) = a 0 * 256 + a 1" if "1 \<le> k"
    using val [OF that] v1 by (simp add: numeral_2_eq_2)
  have v3: "valBE (bytes_bits (take 3 (drop idx f))) = (a 0 * 256 + a 1) * 256 + a 2" if "2 \<le> k"
    using val [OF that] v2 that by simp
  have v4: "valBE (bytes_bits (take 4 (drop idx f))) = ((a 0 * 256 + a 1) * 256 + a 2) * 256 + a 3"
    if "3 \<le> k"
    using val [OF that] v3 that by simp
  have "load_bytes k f idx =
     (if k = 3 then push_bit 24 (a 0) OR push_bit 16 (a 1) OR push_bit 8 (a 2) OR a 3
      else if k = 2 then push_bit 16 (a 0) OR push_bit 8 (a 1) OR a 2
      else if k = 1 then push_bit 8 (a 0) OR a 1 else a 0)"
    using assms(2) by (auto simp: load_bytes_def a_def)
  moreover have "k = 0 \<or> k = 1 \<or> k = 2 \<or> k = 3" using assms(2) by linarith
  ultimately show ?thesis
    using v1 v2 v3 v4 lt be2 be3 be4 by (elim disjE) (simp_all flip: numeral_2_eq_2)
qed

lemma read_from_held:
  assumes "in_inv s" and "n \<le> i_num_held_bits s" and "bits_in s = bs @ rest" and "length bs = n"
  shows "\<exists>s'. InputBitstream_read n s = Some (valBE bs, s') \<and> in_inv s' \<and> bits_in s' = rest"
proof -
  let ?h = "i_num_held_bits s" and ?H = "i_held_bits s"
  have h: "?h < 8" "?H < 256" using assms(1) by (auto simp: in_inv_def)
  have "bits_in s = bitsBE n (?H div 2 ^ (?h - n)) @ bitsBE (?h - n) ?H
      @ bytes_bits (drop (i_fifo_idx s) (i_fifo s))"
    using bitsBE_add [of n "?h - n" ?H] assms(2) by (simp add: bits_in_def)
  with assms(3,4) have bs: "bs = bitsBE n (?H div 2 ^ (?h - n))"
    and rest: "rest = bitsBE (?h - n) ?H @ bytes_bits (drop (i_fifo_idx s) (i_fifo s))"
    by auto
  have "drop_bit (?h - n) ?H < 256"
    using h(2) by (simp add: drop_bit_eq_div) (meson div_le_dividend le_less_trans)
  with and_not_ff [of "drop_bit (?h - n) ?H" n] h(1) assms(2)
  have "drop_bit (?h - n) ?H AND not32 (push_bit n 255) = valBE bs"
    by (simp add: bs valBE_bitsBE drop_bit_eq_div)
  with assms(1,2) h rest show ?thesis
    by (simp add: InputBitstream_read_def Let_def in_inv_def bits_in_def)
qed

lemma read_from_fifo:
  assumes "in_inv s" and "i_num_held_bits s < n" and "n \<le> 32"
    and "bits_in s = bs @ rest" and "length bs = n"
  shows "\<exists>s'. InputBitstream_read n s = Some (valBE bs, s') \<and> in_inv s' \<and> bits_in s' = rest"
proof -
  let ?h = "i_num_held_bits s" and ?H = "i_held_bits s" and ?f = "drop (i_fifo_idx s) (i_fifo s)"
  define m where "m = n - ?h"
  define k where "k = (m - Suc 0) div 8"
  define x where "x = (32 - m) mod 8"
  define W where "W = load_bytes k (i_fifo s) (i_fifo_idx s)"
  have h: "?h < 8" "?H < 256" "bytes_ok (i_fifo s)" "i_fifo_idx s \<le> length (i_fifo s)"
    using assms(1) by (auto simp: in_inv_def)
  have m: "1 \<le> m" "m \<le> 32" "n = ?h + m" using assms(2,3) by (auto simp: m_def)
  have k3: "k \<le> 3" and kx: "8 * (k + 1) = m + x" and x: "x < 8"
  proof -
    define r where "r = (m - 1) mod 8"
    have r: "m = 8 * k + r + 1" "r < 8"
      using m(1) mult_div_mod_eq [of 8 "m - 1"] by (simp_all add: k_def r_def)
    show "k \<le> 3" using r m(2) by linarith
    then have "32 - m = 8 * (3 - k) + (7 - r)" using r by (simp add: algebra_simps)
    then have "x = 7 - r" unfolding x_def by simp
    with r show "8 * (k + 1) = m + x" and "x < 8" by simp_all
  qed
  have "n \<le> length (bits_in s)" using assms(4,5) by simp
  then have idx: "i_fifo_idx s + k < length (i_fifo s)"
    using m h(4) unfolding length_bits_in k_def by linarith
  have W: "W = valBE (bytes_bits (take (k + 1) ?f))"
    unfolding W_def by (rule load_bytes_eq) (use h k3 idx in auto)
  have len: "length (bytes_bits (take (k + 1) ?f)) = m + x"
  proof -
    have "k + 1 \<le> length (i_fifo s) - i_fifo_idx s" using idx by simp
    then have "length (take (k + 1) ?f) = k + 1" by (simp only: length_take length_drop min_absorb2)
    with kx show ?thesis by (simp only: length_bytes_bits)
  qed
  have Wlt: "W < 2 ^ (m + x)" using valBE_less [of "bytes_bits (take (k + 1) ?f)"] W len by simp
  have "bytes_bits ?f = bytes_bits (take (k + 1) ?f) @ bytes_bits (drop (k + 1) ?f)"
    by (metis append_take_drop_id bytes_bits_simps(3))
  also have "bytes_bits (take (k + 1) ?f) = bitsBE m (W div 2 ^ x) @ bitsBE x W"
    using bitsBE_valBE [of "bytes_bits (take (k + 1) ?f)"] len W bitsBE_add [of m x W] by simp
  finally have "bs @ rest = (bitsBE ?h ?H @ bitsBE m (W div 2 ^ x))
      @ bitsBE x W @ bytes_bits (drop (k + 1) ?f)"
    using assms(4) by (simp add: bits_in_def)
  then have bs: "bs = bitsBE ?h ?H @ bitsBE m (W div 2 ^ x)"
    and rest: "rest = bitsBE x W @ bytes_bits (drop (k + 1) ?f)"
    using assms(5) m(3) append_eq_append_conv [of bs "bitsBE ?h ?H @ bitsBE m (W div 2 ^ x)" rest]
    by auto
  have Wx: "W div 2 ^ x < 2 ^ m" using Wlt by (simp add: less_mult_imp_div_less power_add)
  have "(?H mod 2 ^ ?h) * 2 ^ m < 2 ^ ?h * 2 ^ m" by simp
  also have "\<dots> \<le> 2 ^ 32" unfolding power_add [symmetric] using m assms(3)
    by (intro power_increasing) auto
  finally have "u32 (push_bit m (?H AND not32 (push_bit ?h 255))) OR drop_bit x W = valBE bs"
    using and_not_ff [of ?H ?h] h or_shift_add [OF Wx, of "?H mod 2 ^ ?h"] Wx
    by (simp add: bs valBE_append valBE_bitsBE drop_bit_eq_div u32_id push_bit_eq_mult)
  moreover have "bitsBE x (u8 W) = bitsBE x W" unfolding u8_def using x by (intro bitsBE_mod) simp
  ultimately show ?thesis
    using assms(2,3) idx h x rest m(3)
    by (simp add: InputBitstream_read_def Let_def in_inv_def bits_in_def m_def [symmetric]
        x_def [symmetric] W_def [symmetric] k_def [symmetric] drop_bit_eq_div add.commute)
qed

text \<open>\<^verbatim>\<open>read\<close> returns the next \<open>n\<close> bits as a number, whatever the alignment.\<close>

lemma read_ok:
  assumes "in_inv s" and "n \<le> 32" and "bits_in s = bs @ rest" and "length bs = n"
  obtains s' where "InputBitstream_read n s = Some (valBE bs, s')" and "in_inv s'"
    and "bits_in s' = rest"
proof (cases "n \<le> i_num_held_bits s")
  case True
  then show ?thesis using read_from_held [OF assms(1) _ assms(3,4)] that by blast
next
  case False
  then show ?thesis using read_from_fifo [OF assms(1) _ assms(2,3,4)] that by (meson not_le)
qed

lemma read_bit:
  assumes "in_inv s" and "bits_in s = b # rest"
  obtains s' where "InputBitstream_read (Suc 0) s = Some (of_bool b, s')" and "in_inv s'"
    and "bits_in s' = rest"
  using read_ok [of s 1 "[b]" rest] assms by auto

text \<open>It throws exactly when it is asked for more than 32 or more than the remaining bits.\<close>

lemma read_fails:
  assumes "in_inv s"
  shows "InputBitstream_read n s = None \<longleftrightarrow> 32 < n \<or> length (bits_in s) < n"
proof (cases "32 < n \<or> n \<le> length (bits_in s)")
  case True
  then consider "32 < n" | "n \<le> 32" "n \<le> length (bits_in s)" by linarith
  then show ?thesis
  proof cases
    case 2
    then have "bits_in s = take n (bits_in s) @ drop n (bits_in s)" "length (take n (bits_in s)) = n"
      by simp_all
    then obtain s' where "InputBitstream_read n s = Some (valBE (take n (bits_in s)), s')"
      using read_ok [OF assms 2(1)] by blast
    with 2 show ?thesis by simp
  qed (simp add: InputBitstream_read_def)
next
  case False
  define m where "m = n - i_num_held_bits s"
  have "i_num_held_bits s < n" using False by (simp add: length_bits_in)
  moreover from this have "length (i_fifo s) \<le> i_fifo_idx s + (m - 1) div 8"
    using False assms by (simp add: length_bits_in m_def in_inv_def) arith
  ultimately show ?thesis using False
    by (simp add: InputBitstream_read_def Let_def drop_bit_eq_div m_def)
qed


subsection \<open>Alignment\<close>

lemma out_held_mod: "out_inv s \<Longrightarrow> o_num_held_bits s = length (bits_out s) mod 8"
  by (simp add: length_bits_out out_inv_def)

lemma in_held_mod: "in_inv s \<Longrightarrow> i_num_held_bits s = length (bits_in s) mod 8"
  by (simp add: length_bits_in in_inv_def)

lemma in_aligned_iff:
  assumes "in_inv s"
  shows "InputBitstream_getNumBitsUntilByteAligned s = length (bits_in s) mod 8"
  using in_held_mod [OF assms] and_mask_mod [of "i_num_held_bits s" 3]
  by (simp add: InputBitstream_getNumBitsUntilByteAligned_def)

end
