(* ===== verification/Nal.thy ===== *)
theory Nal
  imports BitStreams
begin

section \<open>NAL units: \<^verbatim>\<open>NAL.h\<close>, \<^verbatim>\<open>NALwrite.cpp\<close>, \<^verbatim>\<open>NALread.cpp\<close>\<close>

text \<open>
  A NAL unit is a two-byte header followed by the raw byte sequence payload, in which the
  writer hides start codes by emulation prevention bytes 0x03.  The writer's loop over the
  payload (\<open>emulation_loop\<close>) and the reader's in-place removal (\<open>convert_loop\<close>) are
  modelled with their zero counters and every \<^verbatim>\<open>CHECK\<close>.
\<close>

subsection \<open>NAL unit types and headers\<close>

datatype NalUnitType =
    NAL_UNIT_CODED_SLICE_TRAIL | NAL_UNIT_CODED_SLICE_STSA | NAL_UNIT_CODED_SLICE_RADL
  | NAL_UNIT_CODED_SLICE_RASL
  | NAL_UNIT_RESERVED_VCL_4 | NAL_UNIT_RESERVED_VCL_5 | NAL_UNIT_RESERVED_VCL_6
  | NAL_UNIT_CODED_SLICE_IDR_W_RADL | NAL_UNIT_CODED_SLICE_IDR_N_LP | NAL_UNIT_CODED_SLICE_CRA
  | NAL_UNIT_CODED_SLICE_GDR
  | NAL_UNIT_RESERVED_IRAP_VCL_11 | NAL_UNIT_RESERVED_IRAP_VCL_12
  | NAL_UNIT_DPS | NAL_UNIT_VPS | NAL_UNIT_SPS | NAL_UNIT_PPS | NAL_UNIT_PREFIX_APS
  | NAL_UNIT_SUFFIX_APS | NAL_UNIT_PH | NAL_UNIT_ACCESS_UNIT_DELIMITER | NAL_UNIT_EOS
  | NAL_UNIT_EOB | NAL_UNIT_PREFIX_SEI | NAL_UNIT_SUFFIX_SEI | NAL_UNIT_FD
  | NAL_UNIT_RESERVED_NVCL_26 | NAL_UNIT_RESERVED_NVCL_27
  | NAL_UNIT_UNSPECIFIED_28 | NAL_UNIT_UNSPECIFIED_29 | NAL_UNIT_UNSPECIFIED_30
  | NAL_UNIT_UNSPECIFIED_31 | NAL_UNIT_INVALID

text \<open>The enumerators in the order of their values; the value of an enumerator is its position.\<close>

definition NalUnitTypes :: "NalUnitType list" where
  "NalUnitTypes =
   [NAL_UNIT_CODED_SLICE_TRAIL, NAL_UNIT_CODED_SLICE_STSA, NAL_UNIT_CODED_SLICE_RADL,
    NAL_UNIT_CODED_SLICE_RASL, NAL_UNIT_RESERVED_VCL_4, NAL_UNIT_RESERVED_VCL_5,
    NAL_UNIT_RESERVED_VCL_6, NAL_UNIT_CODED_SLICE_IDR_W_RADL, NAL_UNIT_CODED_SLICE_IDR_N_LP,
    NAL_UNIT_CODED_SLICE_CRA, NAL_UNIT_CODED_SLICE_GDR, NAL_UNIT_RESERVED_IRAP_VCL_11,
    NAL_UNIT_RESERVED_IRAP_VCL_12, NAL_UNIT_DPS, NAL_UNIT_VPS, NAL_UNIT_SPS, NAL_UNIT_PPS,
    NAL_UNIT_PREFIX_APS, NAL_UNIT_SUFFIX_APS, NAL_UNIT_PH, NAL_UNIT_ACCESS_UNIT_DELIMITER,
    NAL_UNIT_EOS, NAL_UNIT_EOB, NAL_UNIT_PREFIX_SEI, NAL_UNIT_SUFFIX_SEI, NAL_UNIT_FD,
    NAL_UNIT_RESERVED_NVCL_26, NAL_UNIT_RESERVED_NVCL_27, NAL_UNIT_UNSPECIFIED_28,
    NAL_UNIT_UNSPECIFIED_29, NAL_UNIT_UNSPECIFIED_30, NAL_UNIT_UNSPECIFIED_31, NAL_UNIT_INVALID]"

fun nal_index :: "NalUnitType list \<Rightarrow> NalUnitType \<Rightarrow> nat" where
  "nal_index [] t = 0"
| "nal_index (x # xs) t = (if x = t then 0 else Suc (nal_index xs t))"

definition nalUnitTypeValue :: "NalUnitType \<Rightarrow> nat" where
  "nalUnitTypeValue t = nal_index NalUnitTypes t"

lemma nalUnitTypeValue_less: "nalUnitTypeValue t < 33"
  by (cases t) (simp_all add: nalUnitTypeValue_def NalUnitTypes_def)

lemma NalUnitTypes_nth: "NalUnitTypes ! nalUnitTypeValue t = t"
  by (cases t) (simp_all add: nalUnitTypeValue_def NalUnitTypes_def)

lemma nalUnitTypeValue_inj: "nalUnitTypeValue t = nalUnitTypeValue u \<Longrightarrow> t = u"
  by (metis NalUnitTypes_nth)

text \<open>The enumeration is ordered by its values, as the comparisons of C++ enumerators are.\<close>

instantiation NalUnitType :: linorder
begin

definition less_eq_NalUnitType :: "NalUnitType \<Rightarrow> NalUnitType \<Rightarrow> bool" where
  "less_eq_NalUnitType t u \<longleftrightarrow> nalUnitTypeValue t \<le> nalUnitTypeValue u"

definition less_NalUnitType :: "NalUnitType \<Rightarrow> NalUnitType \<Rightarrow> bool" where
  "less_NalUnitType t u \<longleftrightarrow> nalUnitTypeValue t < nalUnitTypeValue u"

instance
  by standard (auto simp: less_eq_NalUnitType_def less_NalUnitType_def intro: nalUnitTypeValue_inj)

end

record NALUnit =
  m_nalUnitType :: NalUnitType
  m_temporalId :: nat
  m_nuhLayerId :: nat
  m_forbiddenZeroBit :: nat
  m_nuhReservedZeroBit :: nat

definition isSlice :: "NALUnit \<Rightarrow> bool" where
  "isSlice n \<longleftrightarrow> m_nalUnitType n = NAL_UNIT_CODED_SLICE_TRAIL
     \<or> m_nalUnitType n = NAL_UNIT_CODED_SLICE_STSA
     \<or> m_nalUnitType n = NAL_UNIT_CODED_SLICE_IDR_W_RADL
     \<or> m_nalUnitType n = NAL_UNIT_CODED_SLICE_IDR_N_LP
     \<or> m_nalUnitType n = NAL_UNIT_CODED_SLICE_CRA
     \<or> m_nalUnitType n = NAL_UNIT_CODED_SLICE_GDR
     \<or> m_nalUnitType n = NAL_UNIT_CODED_SLICE_RADL
     \<or> m_nalUnitType n = NAL_UNIT_CODED_SLICE_RASL"

definition isSei :: "NALUnit \<Rightarrow> bool" where
  "isSei n \<longleftrightarrow> m_nalUnitType n = NAL_UNIT_PREFIX_SEI \<or> m_nalUnitType n = NAL_UNIT_SUFFIX_SEI"

definition isVcl :: "NALUnit \<Rightarrow> bool" where
  "isVcl n \<longleftrightarrow> m_nalUnitType n = NAL_UNIT_CODED_SLICE_TRAIL
     \<or> m_nalUnitType n = NAL_UNIT_CODED_SLICE_STSA
     \<or> m_nalUnitType n = NAL_UNIT_CODED_SLICE_RADL
     \<or> m_nalUnitType n = NAL_UNIT_CODED_SLICE_RASL
     \<or> m_nalUnitType n = NAL_UNIT_CODED_SLICE_IDR_W_RADL
     \<or> m_nalUnitType n = NAL_UNIT_CODED_SLICE_IDR_N_LP
     \<or> m_nalUnitType n = NAL_UNIT_CODED_SLICE_CRA
     \<or> m_nalUnitType n = NAL_UNIT_CODED_SLICE_GDR"

subsection \<open>Writer\<close>

definition writeNalUnitHeader :: "NALUnit \<Rightarrow> nat list option" where
  "writeNalUnitHeader nalu = do {
     bs \<leftarrow> OutputBitstream_write 0 1 OutputBitstream_clear;
     bs \<leftarrow> OutputBitstream_write 0 1 bs;
     if m_nuhLayerId nalu > 55 then None
     else do {
       bs \<leftarrow> OutputBitstream_write (m_nuhLayerId nalu) 6 bs;
       bs \<leftarrow> OutputBitstream_write (nalUnitTypeValue (m_nalUnitType nalu)) 5 bs;
       bs \<leftarrow> OutputBitstream_write (u32 (m_temporalId nalu + 1)) 3 bs;
       Some (o_fifo bs) } }"

text \<open>The loop over the RBSP: returns the bytes put out and the final \<^verbatim>\<open>zeroCount\<close>.\<close>

fun emulation_loop :: "nat list \<Rightarrow> nat \<Rightarrow> nat list \<times> nat" where
  "emulation_loop [] zeroCount = ([], zeroCount)"
| "emulation_loop (v # rbsp) zeroCount =
     (let esc = (zeroCount = 2 \<and> v \<le> 3);
          zeroCount = (if esc then 0 else zeroCount);
          zeroCount = (if v = 0 then zeroCount + 1 else 0);
          (out, z) = emulation_loop rbsp zeroCount
      in (if esc then 3 # v # out else v # out, z))"

definition write_payload :: "nat list \<Rightarrow> nat list" where
  "write_payload rbsp =
     (case emulation_loop rbsp 0 of (out, zeroCount) \<Rightarrow> if zeroCount > 0 then out @ [3] else out)"

definition NAL_write :: "NALUnit \<Rightarrow> OutputBitstream \<Rightarrow> nat list option" where
  "NAL_write nalu bitstream = do {
     header \<leftarrow> writeNalUnitHeader nalu;
     Some (header @ write_payload (o_fifo bitstream)) }"

subsection \<open>Reader\<close>

text \<open>
  The loop of \<^verbatim>\<open>convertPayloadToRBSP\<close>: input, \<^verbatim>\<open>zeroCount\<close>, \<^verbatim>\<open>pos\<close>; the result has the bytes
  written back, the positions of the removed bytes and the final \<^verbatim>\<open>zeroCount\<close>.
\<close>

fun convert_loop :: "nat list \<Rightarrow> nat \<Rightarrow> nat \<Rightarrow> (nat list \<times> nat list \<times> nat) option" where
  "convert_loop [] zeroCount pos = Some ([], [], zeroCount)"
| "convert_loop (b # buf) zeroCount pos =
     (if zeroCount \<ge> 2 \<and> b < 3 then None
      else if zeroCount = 2 \<and> b = 3
      then (case buf of
              [] \<Rightarrow> Some ([], [pos], 0)
            | c # buf' \<Rightarrow>
                if c > 3 then None
                else do {
                  (out, locs, z) \<leftarrow> convert_loop buf' (if c = 0 then 1 else 0) (pos + 2);
                  Some (c # out, pos # locs, z) })
      else do {
        (out, locs, z) \<leftarrow> convert_loop buf (if b = 0 then zeroCount + 1 else 0) (pos + 1);
        Some (b # out, locs, z) })"

text \<open>
  \<^verbatim>\<open>while (it_write[-1] == 0x00) it_write--\<close>; running off the front of the buffer is undefined
  behaviour in C++ and \<^const>\<open>None\<close> here.
\<close>

definition strip_trailing_zeros :: "nat list \<Rightarrow> nat list option" where
  "strip_trailing_zeros ys =
     (if dropWhile (\<lambda>y. y = 0) (rev ys) = [] then None
      else Some (rev (dropWhile (\<lambda>y. y = 0) (rev ys))))"

definition convertPayloadToRBSP ::
  "nat list \<Rightarrow> bool \<Rightarrow> InputBitstream \<Rightarrow> (nat list \<times> InputBitstream) option" where
  "convertPayloadToRBSP nalUnitBuf isVclNalUnit bitstream = do {
     (out, locs, zeroCount) \<leftarrow> convert_loop nalUnitBuf 0 0;
     if zeroCount \<noteq> 0 then None
     else do {
       out \<leftarrow> (if isVclNalUnit then strip_trailing_zeros out else Some out);
       Some (out, bitstream\<lparr>i_emulationPreventionByteLocation := locs\<rparr>) } }"

definition readNalUnitHeader :: "InputBitstream \<Rightarrow> (NALUnit \<times> InputBitstream) option" where
  "readNalUnitHeader bs = do {
     (forbiddenZeroBit, bs) \<leftarrow> InputBitstream_read 1 bs;
     (nuhReservedZeroBit, bs) \<leftarrow> InputBitstream_read 1 bs;
     (nuhLayerId, bs) \<leftarrow> InputBitstream_read 6 bs;
     if nuhLayerId > 55 then None
     else do {
       (nalUnitType, bs) \<leftarrow> InputBitstream_read 5 bs;
       (tidPlus1, bs) \<leftarrow> InputBitstream_read 3 bs;
       let nalu = \<lparr>m_nalUnitType = NalUnitTypes ! nalUnitType, m_temporalId = sub32 tidPlus1 1,
                   m_nuhLayerId = nuhLayerId, m_forbiddenZeroBit = forbiddenZeroBit,
                   m_nuhReservedZeroBit = nuhReservedZeroBit\<rparr>;
       if m_nuhLayerId nalu = 0 \<and> m_temporalId nalu = 0
          \<and> m_nalUnitType nalu = NAL_UNIT_CODED_SLICE_STSA
       then None
       else Some (nalu, bs) } }"

definition NAL_read :: "InputBitstream \<Rightarrow> (NALUnit \<times> InputBitstream) option" where
  "NAL_read bitstream =
     (case i_fifo bitstream of
        [] \<Rightarrow> None
      | b # _ \<Rightarrow> do {
          (buf, bitstream) \<leftarrow> convertPayloadToRBSP (i_fifo bitstream) (b AND 64 = 0) bitstream;
          readNalUnitHeader (resetToStart (bitstream\<lparr>i_fifo := buf\<rparr>)) })"


subsection \<open>Emulation prevention\<close>

text \<open>Positions, in the escaped stream, of the bytes the writer inserts.\<close>

fun escape_positions :: "nat list \<Rightarrow> nat \<Rightarrow> nat \<Rightarrow> nat list" where
  "escape_positions [] z pos = []"
| "escape_positions (v # rbsp) z pos =
     (if z = 2 \<and> v \<le> 3
      then pos # escape_positions rbsp (if v = 0 then 1 else 0) (pos + 2)
      else escape_positions rbsp (if v = 0 then z + 1 else 0) (pos + 1))"

text \<open>Reading back what the loop put out gives the payload, whatever follows it.\<close>

lemma convert_emulation_loop:
  assumes "emulation_loop p z = (out, z')" and "z \<le> 2"
  shows "convert_loop (out @ rest) z pos =
    map_option (\<lambda>(o', l, y). (p @ o', escape_positions p z pos @ l, y))
      (convert_loop rest z' (pos + length out))"
  using assms
proof (induction p arbitrary: z out z' pos)
  case Nil
  then show ?case by (simp add: map_option.identity case_prod_beta)
next
  case (Cons v p)
  let ?esc = "z = 2 \<and> v \<le> 3"
  let ?z = "if v = 0 then (if ?esc then 0 else z) + 1 else 0"
  obtain out1 where out1: "emulation_loop p ?z = (out1, z')"
    and out: "out = (if ?esc then 3 # v # out1 else v # out1)"
    using Cons.prems(1) by (auto simp: Let_def split: prod.splits if_splits)
  have "?z \<le> 2" using Cons.prems(2) by auto
  note IH = Cons.IH [OF out1 this]
  show ?case
  proof (cases ?esc)
    case True
    with IH [of "pos + 2"] show ?thesis
      by (cases "v = 0"; cases "convert_loop rest z' (Suc (Suc (pos + length out1)))")
        (auto simp: out)
  next
    case False
    with Cons.prems(2) IH [of "pos + 1"] show ?thesis
      by (auto simp: out option.map_comp o_def case_prod_beta map_conv_bind_option)
  qed
qed

text \<open>The escaped stream has no start code and no byte pattern reserved for one.\<close>

fun start_code_free :: "nat list \<Rightarrow> bool" where
  "start_code_free (x # y # t # r) \<longleftrightarrow>
     \<not> (x = 0 \<and> y = 0 \<and> t \<le> 2) \<and> start_code_free (y # t # r)"
| "start_code_free _ \<longleftrightarrow> True"

lemma start_code_free_nonzero: "x \<noteq> 0 \<Longrightarrow> start_code_free (x # ys) = start_code_free ys"
  by (cases ys rule: start_code_free.cases) auto

lemma start_code_free_zero_nonzero:
  "y \<noteq> 0 \<Longrightarrow> start_code_free (x # y # ys) = start_code_free ys"
  by (cases ys) (auto simp: start_code_free_nonzero)

lemma start_code_free_snoc3: "start_code_free ys \<Longrightarrow> start_code_free (ys @ [3])"
  by (induction ys rule: start_code_free.induct) auto

lemma emulation_loop_start_code_free:
  assumes "emulation_loop p z = (out, z')" and "z \<le> 2"
  shows "start_code_free (replicate z 0 @ out)"
  using assms
proof (induction p arbitrary: z out)
  case Nil
  then have "z = 0 \<or> z = 1 \<or> z = 2" by linarith
  with Nil show ?case by (auto simp: numeral_2_eq_2)
next
  case (Cons v p)
  let ?esc = "z = 2 \<and> v \<le> 3"
  let ?z = "if v = 0 then (if ?esc then 0 else z) + 1 else 0"
  obtain out1 where out1: "emulation_loop p ?z = (out1, z')"
    and out: "out = (if ?esc then 3 # v # out1 else v # out1)"
    using Cons.prems(1) by (auto simp: Let_def split: prod.splits if_splits)
  have "?z \<le> 2" using Cons.prems(2) by auto
  note IH = Cons.IH [OF out1 this]
  have "z = 0 \<or> z = 1 \<or> z = 2" using Cons.prems(2) by linarith
  with IH out show ?case
    by (auto simp: numeral_2_eq_2 start_code_free_nonzero start_code_free_zero_nonzero
        split: if_splits)
qed

lemma emulation_loop_last:
  assumes "emulation_loop p z = (out, 0)" and "p \<noteq> []"
  shows "out \<noteq> [] \<and> last out \<noteq> 0"
  using assms
proof (induction p arbitrary: z out)
  case (Cons v p)
  let ?esc = "z = 2 \<and> v \<le> 3"
  let ?z = "if v = 0 then (if ?esc then 0 else z) + 1 else 0"
  obtain out1 where out1: "emulation_loop p ?z = (out1, 0)"
    and out: "out = (if ?esc then 3 # v # out1 else v # out1)"
    using Cons.prems(1) by (auto simp: Let_def split: prod.splits if_splits)
  show ?case
  proof (cases "p = []")
    case True
    with out1 out show ?thesis by (auto split: if_splits)
  next
    case False
    with Cons.IH [OF out1] out show ?thesis by auto
  qed
qed simp

lemma emulation_loop_zero_count: "0 < snd (emulation_loop p z) \<longleftrightarrow> (if p = [] then 0 < z else last p = 0)"
  by (induction p z rule: emulation_loop.induct) (auto simp: Let_def split: prod.splits if_splits)

lemma write_payload_start_code_free: "start_code_free (write_payload p)"
  using emulation_loop_start_code_free [of p 0]
  by (auto simp: write_payload_def start_code_free_snoc3 split: prod.splits)

lemma write_payload_last: "write_payload p \<noteq> [] \<Longrightarrow> last (write_payload p) \<noteq> 0"
  using emulation_loop_last [of p 0]
  by (cases "p = []") (auto simp: write_payload_def split: prod.splits if_splits)

text \<open>\<^verbatim>\<open>countStartCodeEmulations\<close> counts the bytes the writer's loop inserts.\<close>

lemma count_emulations_nonzero: "x \<noteq> 0 \<Longrightarrow> count_emulations (x # ys) = count_emulations ys"
  by (cases ys rule: count_emulations.cases) auto

lemma count_emulations_le: "count_emulations ys \<le> length ys"
  by (induction ys rule: count_emulations.induct) auto

lemma count_emulations_loop:
  assumes "emulation_loop p z = (out, z')" and "z \<le> 2"
  shows "length out = length p + count_emulations (replicate z 0 @ p)"
  using assms
proof (induction p arbitrary: z out)
  case Nil
  then have "z = 0 \<or> z = 1 \<or> z = 2" by linarith
  with Nil show ?case by (auto simp: numeral_2_eq_2)
next
  case (Cons v p)
  let ?esc = "z = 2 \<and> v \<le> 3"
  let ?z = "if v = 0 then (if ?esc then 0 else z) + 1 else 0"
  obtain out1 where out1: "emulation_loop p ?z = (out1, z')"
    and out: "out = (if ?esc then 3 # v # out1 else v # out1)"
    using Cons.prems(1) by (auto simp: Let_def split: prod.splits if_splits)
  have "?z \<le> 2" using Cons.prems(2) by auto
  note IH = Cons.IH [OF out1 this]
  have "count_emulations (0 # v # p) = count_emulations p" if "v \<noteq> 0"
    using that by (cases p) (auto simp: count_emulations_nonzero)
  moreover have "z = 0 \<or> z = 1 \<or> z = 2" using Cons.prems(2) by linarith
  ultimately show ?case using IH out
    by (auto simp: numeral_2_eq_2 count_emulations_nonzero split: if_splits)
qed


text \<open>The inverse of escaping, with the three ways the payload can end.\<close>

lemma convert_write_payload:
  assumes "emulation_loop p 0 = (out, z)"
  shows "convert_loop (write_payload p) 0 pos =
    Some (if z = 1 then p @ [3] else p,
          escape_positions p 0 pos @ (if z = 2 then [pos + length out] else []), 0)"
proof -
  have "z \<le> 2"
  proof -
    have "y \<le> 2 \<Longrightarrow> snd (emulation_loop q y) \<le> 2" for q y
      by (induction q y rule: emulation_loop.induct) (auto simp: Let_def split: prod.splits)
    from this [of 0 p] assms show ?thesis by simp
  qed
  then have "z = 0 \<or> z = 1 \<or> z = 2" by linarith
  with assms convert_emulation_loop [OF assms, of "[]"] convert_emulation_loop [OF assms, of "[3]"]
  show ?thesis by (auto simp: write_payload_def)
qed

subsection \<open>Headers\<close>

definition header_ok :: "NALUnit \<Rightarrow> bool" where
  "header_ok n \<longleftrightarrow> m_nuhLayerId n \<le> 55 \<and> m_nalUnitType n \<noteq> NAL_UNIT_INVALID \<and> m_temporalId n < 7
     \<and> \<not> (m_nuhLayerId n = 0 \<and> m_temporalId n = 0 \<and> m_nalUnitType n = NAL_UNIT_CODED_SLICE_STSA)"

definition header_bytes :: "NALUnit \<Rightarrow> nat list" where
  "header_bytes n = [m_nuhLayerId n, 8 * nalUnitTypeValue (m_nalUnitType n) + (m_temporalId n + 1)]"

lemma nalUnitTypeValue_valid: "t \<noteq> NAL_UNIT_INVALID \<Longrightarrow> nalUnitTypeValue t < 32"
  by (cases t) (simp_all add: nalUnitTypeValue_def NalUnitTypes_def)

lemma header_bytes_bits:
  assumes "header_ok n"
  shows "bytes_bits (header_bytes n) = [False, False] @ bitsBE 6 (m_nuhLayerId n)
    @ bitsBE 5 (nalUnitTypeValue (m_nalUnitType n)) @ bitsBE 3 (m_temporalId n + 1)"
proof -
  have l: "m_nuhLayerId n div 2 ^ 6 = 0" and t: "m_temporalId n + 1 < 2 ^ 3"
    using assms by (auto simp: header_ok_def)
  let ?t = "nalUnitTypeValue (m_nalUnitType n)" and ?k = "m_temporalId n + 1"
  have "bitsBE 8 (m_nuhLayerId n) = [False, False] @ bitsBE 6 (m_nuhLayerId n)"
    using bitsBE_add [of 2 6 "m_nuhLayerId n"] l by (simp add: numeral_2_eq_2 [symmetric])
      (simp add: numeral_2_eq_2)
  moreover have "bitsBE 8 (8 * ?t + ?k) = bitsBE 5 ?t @ bitsBE 3 ?k"
  proof -
    have "(8 * ?t + ?k) div 2 ^ 3 = ?t" "(8 * ?t + ?k) mod 2 ^ 3 = ?k" using t by auto
    then show ?thesis
      using bitsBE_add [of 5 3 "8 * ?t + ?k"] bitsBE_mod [of 3 3 "8 * ?t + ?k"] by simp
  qed
  ultimately show ?thesis by (simp add: header_bytes_def)
qed

lemma writeNalUnitHeader_ok:
  assumes "header_ok n"
  shows "writeNalUnitHeader n = Some (header_bytes n)"
proof -
  let ?t = "nalUnitTypeValue (m_nalUnitType n)" and ?k = "m_temporalId n + 1"
  have b: "m_nuhLayerId n < 2 ^ 6" "?t < 2 ^ 5" "?k < 2 ^ 3" "u32 ?k = ?k"
    using assms nalUnitTypeValue_valid by (auto simp: header_ok_def u32_id)
  obtain b1 where b1: "OutputBitstream_write 0 1 OutputBitstream_clear = Some b1" "out_inv b1"
      "bits_out b1 = [False]" using write_ok [OF out_inv_clear, of 0 1] by auto
  obtain b2 where b2: "OutputBitstream_write 0 1 b1 = Some b2" "out_inv b2"
      "bits_out b2 = bits_out b1 @ [False]" using write_ok [OF b1(2), of 0 1] by auto
  obtain b3 where b3: "OutputBitstream_write (m_nuhLayerId n) 6 b2 = Some b3" "out_inv b3"
      "bits_out b3 = bits_out b2 @ bitsBE 6 (m_nuhLayerId n)"
    using write_ok [OF b2(2) b(1)] by auto
  obtain b4 where b4: "OutputBitstream_write ?t 5 b3 = Some b4" "out_inv b4"
      "bits_out b4 = bits_out b3 @ bitsBE 5 ?t"
    using write_ok [OF b3(2) b(2)] by auto
  obtain b5 where b5: "OutputBitstream_write ?k 3 b4 = Some b5" "out_inv b5"
      "bits_out b5 = bits_out b4 @ bitsBE 3 ?k"
    using write_ok [OF b4(2) b(3)] by auto
  have bits: "bits_out b5 = bytes_bits (header_bytes n)"
    using b1 b2 b3 b4 b5 header_bytes_bits [OF assms] by simp
  then have "o_num_held_bits b5 = 0" using out_held_mod [OF b5(2)] by (simp add: header_bytes_def)
  then have "bytes_bits (o_fifo b5) = bytes_bits (header_bytes n)" using bits by (simp add: bits_out_def)
  moreover have "bytes_ok (header_bytes n)" using b by (simp add: header_bytes_def)
  ultimately have "o_fifo b5 = header_bytes n"
    using b5(2) bytes_bits_inj by (auto simp: out_inv_def)
  then show ?thesis using assms b1 b2 b3 b4 b5 b(4)
    by (simp add: writeNalUnitHeader_def header_ok_def)
qed


lemma readNalUnitHeader_ok:
  assumes "header_ok n" and "in_inv s" and "bits_in s = bytes_bits (header_bytes n) @ rest"
  obtains s' where "readNalUnitHeader s =
      Some (n\<lparr>m_forbiddenZeroBit := 0, m_nuhReservedZeroBit := 0\<rparr>, s')"
    and "in_inv s'" and "bits_in s' = rest"
proof -
  let ?t = "nalUnitTypeValue (m_nalUnitType n)" and ?k = "m_temporalId n + 1"
  have b: "m_nuhLayerId n < 2 ^ 6" "?t < 2 ^ 5" "?k < 2 ^ 3" "sub32 ?k 1 = m_temporalId n"
    using assms(1) nalUnitTypeValue_valid by (auto simp: header_ok_def sub32_id)
  have bits: "bits_in s = False # False # bitsBE 6 (m_nuhLayerId n) @ bitsBE 5 ?t @ bitsBE 3 ?k @ rest"
    using assms(3) header_bytes_bits [OF assms(1)] by simp
  from read_bit [OF assms(2) bits] obtain s1 where
    s1: "InputBitstream_read 1 s = Some (0, s1)" "in_inv s1"
      "bits_in s1 = False # bitsBE 6 (m_nuhLayerId n) @ bitsBE 5 ?t @ bitsBE 3 ?k @ rest" by auto
  from read_bit [OF s1(2,3)] obtain s2 where
    s2: "InputBitstream_read 1 s1 = Some (0, s2)" "in_inv s2"
      "bits_in s2 = bitsBE 6 (m_nuhLayerId n) @ bitsBE 5 ?t @ bitsBE 3 ?k @ rest" by auto
  from read_ok [OF s2(2) _ s2(3)] obtain s3 where
    s3: "InputBitstream_read 6 s2 = Some (m_nuhLayerId n, s3)" "in_inv s3"
      "bits_in s3 = bitsBE 5 ?t @ bitsBE 3 ?k @ rest"
    using b(1) by (auto simp: valBE_bitsBE)
  from read_ok [OF s3(2) _ s3(3)] obtain s4 where
    s4: "InputBitstream_read 5 s3 = Some (?t, s4)" "in_inv s4" "bits_in s4 = bitsBE 3 ?k @ rest"
    using b(2) by (auto simp: valBE_bitsBE)
  from read_ok [OF s4(2) _ s4(3)] obtain s5 where
    s5: "InputBitstream_read 3 s4 = Some (?k, s5)" "in_inv s5" "bits_in s5 = rest"
    using b(3) by (auto simp: valBE_bitsBE)
  have "readNalUnitHeader s = Some (n\<lparr>m_forbiddenZeroBit := 0, m_nuhReservedZeroBit := 0\<rparr>, s5)"
    using s1(1) s2(1) s3(1) s4(1) s5(1) b(4) assms(1)
    by (simp add: readNalUnitHeader_def header_ok_def NalUnitTypes_nth)
  with s5 that show ?thesis by blast
qed

subsection \<open>Whole NAL units\<close>

definition strip_zeros :: "nat list \<Rightarrow> nat list" where
  "strip_zeros p = rev (dropWhile (\<lambda>y. y = 0) (rev p))"

lemma strip_trailing_zeros_header:
  "h \<noteq> 0 \<Longrightarrow> strip_trailing_zeros (g # h # p) = Some (g # h # strip_zeros p)"
  by (auto simp: strip_trailing_zeros_def strip_zeros_def dropWhile_append)

lemma convert_loop_header:
  assumes "h \<noteq> 0" and "convert_loop ys 0 2 = Some (out, locs, z)"
  shows "convert_loop (g # h # ys) 0 0 = Some (g # h # out, locs, z)"
  using assms by (auto simp: numeral_2_eq_2)

lemma and_64: "(x::nat) < 64 \<Longrightarrow> x AND 64 = 0"
proof -
  assume "x < 64"
  then have "\<not> bit x 6" using bit_nat_lt_exp [of x 6 6] by simp
  then have "x AND 2 ^ 6 = 0" by (simp only: and_exp_eq_0_iff_not_bit not_False_eq_True)
  then show ?thesis by simp
qed

lemma NAL_write_ok:
  assumes "header_ok n"
  shows "NAL_write n ob = Some (header_bytes n @ write_payload (o_fifo ob))"
  using writeNalUnitHeader_ok [OF assms] by (simp add: NAL_write_def)

text \<open>
  The zero counter at the end of the writer's loop depends on the number of trailing zero bytes
  only: none, an odd number, or an even number of them.
\<close>

definition trailing_zeros :: "nat list \<Rightarrow> nat" where
  "trailing_zeros p = length (takeWhile (\<lambda>y. y = 0) (rev p))"

lemma trailing_zeros_split: "p = strip_zeros p @ replicate (trailing_zeros p) 0"
proof -
  have "takeWhile (\<lambda>y. y = 0) (rev p) = replicate (trailing_zeros p) 0"
    unfolding trailing_zeros_def by (rule replicate_length_same [symmetric]) (auto dest: set_takeWhileD)
  then have "rev p = replicate (trailing_zeros p) 0 @ dropWhile (\<lambda>y. y = 0) (rev p)"
    by (metis takeWhile_dropWhile_id)
  then show ?thesis unfolding strip_zeros_def by (metis rev_append rev_replicate rev_rev_ident)
qed

lemma strip_zeros_last: "strip_zeros p \<noteq> [] \<Longrightarrow> last (strip_zeros p) \<noteq> 0"
  using hd_dropWhile [of "\<lambda>y. y = 0" "rev p"] by (simp add: strip_zeros_def last_rev)

lemma snd_emulation_loop_append:
  "snd (emulation_loop (p @ q) z) = snd (emulation_loop q (snd (emulation_loop p z)))"
  by (induction p z rule: emulation_loop.induct) (simp_all add: Let_def case_prod_beta)

lemma snd_emulation_loop_zeros:
  "snd (emulation_loop (replicate k 0) z) =
     (if k = 0 then z else if z = 2 then (if odd k then 1 else 2)
      else if z = 1 then (if odd k then 2 else 1)
      else if z = 0 then (if odd k then 1 else 2) else z + k)"
  by (induction k arbitrary: z) (auto simp: Let_def case_prod_beta)

lemma snd_emulation_loop:
  "snd (emulation_loop p 0) =
     (if trailing_zeros p = 0 then 0 else if odd (trailing_zeros p) then 1 else 2)"
proof -
  have "snd (emulation_loop (strip_zeros p) 0) = 0"
    using emulation_loop_zero_count [of "strip_zeros p" 0] strip_zeros_last [of p]
    by (auto split: if_splits)
  then have "snd (emulation_loop (strip_zeros p @ replicate (trailing_zeros p) 0) 0)
      = snd (emulation_loop (replicate (trailing_zeros p) 0) 0)"
    by (simp only: snd_emulation_loop_append)
  then show ?thesis using trailing_zeros_split [of p] by (simp add: snd_emulation_loop_zeros)
qed

text \<open>
  What a reader of the escaped payload gets: the payload without its trailing zero bytes, unless
  their number is odd, when the closing 0x03 is not taken for an emulation prevention byte.
\<close>

definition payload_read :: "nat list \<Rightarrow> nat list" where
  "payload_read p = (if odd (trailing_zeros p) then p @ [3] else strip_zeros p)"

lemma payload_read_ok: "bytes_ok p \<Longrightarrow> bytes_ok (payload_read p)"
  by (auto simp: payload_read_def strip_zeros_def bytes_ok_def list_all_iff dest: set_dropWhileD)

lemma strip_zeros_snoc3: "strip_zeros (p @ [3]) = p @ [3]"
  by (simp add: strip_zeros_def)

lemma payload_read_id: "p \<noteq> [] \<Longrightarrow> last p \<noteq> 0 \<Longrightarrow> payload_read p = p"
  by (cases p rule: rev_cases) (simp_all add: payload_read_def trailing_zeros_def strip_zeros_def)

lemma payload_read_same: "payload_read p = p \<longleftrightarrow> p = [] \<or> last p \<noteq> 0"
proof
  assume same: "payload_read p = p"
  show "p = [] \<or> last p \<noteq> 0"
  proof (rule disjCI)
    assume "\<not> last p \<noteq> 0"
    have "trailing_zeros p = 0"
      using same arg_cong [OF trailing_zeros_split [of p], of length] by (auto simp: payload_read_def split: if_splits)
    with \<open>\<not> last p \<noteq> 0\<close> show "p = []"
      by (cases p rule: rev_cases) (auto simp: trailing_zeros_def)
  qed
next
  assume "p = [] \<or> last p \<noteq> 0"
  then show "payload_read p = p"
  proof (cases "p = []")
    case True
    then show ?thesis by (simp add: payload_read_def trailing_zeros_def strip_zeros_def)
  qed (blast intro: payload_read_id)
qed

lemma convert_NAL_write:
  assumes "header_ok n"
  obtains locs where "convertPayloadToRBSP (header_bytes n @ write_payload p) True i
    = Some (header_bytes n @ payload_read p, i\<lparr>i_emulationPreventionByteLocation := locs\<rparr>)"
proof -
  obtain out z where loop: "emulation_loop p 0 = (out, z)" by fastforce
  let ?q = "if z = 1 then p @ [3] else p"
  have z: "z = 1 \<longleftrightarrow> odd (trailing_zeros p)" using snd_emulation_loop [of p] loop by (auto split: if_splits)
  obtain locs where "convert_loop (write_payload p) 0 2 = Some (?q, locs, 0)"
    using convert_write_payload [OF loop, of 2] by auto
  then have "convert_loop (g # h # write_payload p) 0 0 = Some (g # h # ?q, locs, 0)" if "h \<noteq> 0" for g h
    using convert_loop_header [OF that] by blast
  then have "convert_loop (header_bytes n @ write_payload p) 0 0 = Some (header_bytes n @ ?q, locs, 0)"
    unfolding header_bytes_def by (simp del: convert_loop.simps)
  moreover have "strip_zeros ?q = payload_read p" using z by (simp add: payload_read_def strip_zeros_snoc3)
  ultimately show ?thesis using that
    by (simp add: convertPayloadToRBSP_def header_bytes_def strip_trailing_zeros_header)
qed

lemma NAL_roundtrip:
  assumes "header_ok n" and "bytes_ok p"
  obtains s where
    "NAL_read (InputBitstream_new (header_bytes n @ write_payload p)) =
       Some (n\<lparr>m_forbiddenZeroBit := 0, m_nuhReservedZeroBit := 0\<rparr>, s)"
    and "in_inv s" and "bits_in s = bytes_bits (payload_read p)"
proof -
  let ?i = "InputBitstream_new (header_bytes n @ write_payload p)"
  obtain locs where conv: "convertPayloadToRBSP (header_bytes n @ write_payload p) True ?i
      = Some (header_bytes n @ payload_read p, ?i\<lparr>i_emulationPreventionByteLocation := locs\<rparr>)"
    using convert_NAL_write [OF assms(1)] .
  let ?j = "resetToStart (?i\<lparr>i_emulationPreventionByteLocation := locs, i_fifo := header_bytes n @ payload_read p\<rparr>)"
  have vcl: "m_nuhLayerId n AND 64 = 0"
    using assms(1) by (intro and_64) (simp add: header_ok_def)
  have "bytes_ok (payload_read p)" using assms(2) by (rule payload_read_ok)
  moreover have "bytes_ok (header_bytes n)"
    using assms(1) nalUnitTypeValue_valid [of "m_nalUnitType n"]
    by (auto simp: header_bytes_def header_ok_def)
  ultimately have j: "in_inv ?j" "bits_in ?j = bytes_bits (header_bytes n) @ bytes_bits (payload_read p)"
    by (simp_all add: in_inv_def resetToStart_def bits_in_def)
  have hd: "header_bytes n @ write_payload p =
      m_nuhLayerId n # tl (header_bytes n) @ write_payload p"
    by (simp add: header_bytes_def)
  have "NAL_read ?i = readNalUnitHeader ?j"
    using conv vcl by (simp add: NAL_read_def hd InputBitstream_new_def)
  with readNalUnitHeader_ok [OF assms(1) j] that show ?thesis by metis
qed

end
