(* ===== verification/AnnexB.thy ===== *)
theory AnnexB
  imports Nal
begin

section \<open>The byte stream format: \<^verbatim>\<open>AnnexBwrite.h\<close>, \<^verbatim>\<open>AnnexBread.h\<close>, \<^verbatim>\<open>AnnexBread.cpp\<close>\<close>

text \<open>
  The writer puts a three- or four-byte start code in front of every NAL unit of an access
  unit.  The reader works on an \<^verbatim>\<open>InputByteStream\<close>, a byte source with up to four bytes of
  look-ahead packed into one \<^verbatim>\<open>uint32_t\<close>; it ends a NAL unit at the next start code or by the
  exception the stream throws at its end.  An exception is the outcome \<open>Thrown\<close>, which keeps
  the state the C++ code has at that point, since \<^verbatim>\<open>byteStreamNALUnit\<close> catches it and uses
  the NAL unit read so far.
\<close>

subsection \<open>Writer\<close>

type_synonym NALUnitEBSP = "NalUnitType \<times> nat list"

text \<open>The constructor of \<^verbatim>\<open>NALUnitEBSP\<close> from an \<^verbatim>\<open>OutputNALUnit\<close>.\<close>

definition NALUnitEBSP_new :: "NALUnit \<times> OutputBitstream \<Rightarrow> NALUnitEBSP option" where
  "NALUnitEBSP_new = (\<lambda>(nalu, bitstream). do {
     nalUnitData \<leftarrow> NAL_write nalu bitstream;
     Some (m_nalUnitType nalu, nalUnitData) })"

definition long_start_code :: "bool \<Rightarrow> NalUnitType \<Rightarrow> bool" where
  "long_start_code first t \<longleftrightarrow> first \<or> t = NAL_UNIT_DPS \<or> t = NAL_UNIT_SPS \<or> t = NAL_UNIT_VPS
     \<or> t = NAL_UNIT_PPS"

definition start_code :: "bool \<Rightarrow> NalUnitType \<Rightarrow> nat list" where
  "start_code first t = (if long_start_code first t then [0, 0, 0, 1] else [0, 0, 1])"

text \<open>The stream written and the sizes of the byte stream units.\<close>

fun writeAnnexB_from :: "bool \<Rightarrow> NALUnitEBSP list \<Rightarrow> nat list \<times> nat list" where
  "writeAnnexB_from first [] = ([], [])"
| "writeAnnexB_from first ((t, d) # au) =
     (let size = (if long_start_code first t then 4 else 3) + length d;
          (out, sizes) = writeAnnexB_from False au
      in (start_code first t @ d @ out, u32 size # sizes))"

definition writeAnnexB :: "NALUnitEBSP list \<Rightarrow> nat list \<times> nat list" where
  "writeAnnexB au = writeAnnexB_from True au"

subsection \<open>The byte source\<close>

record InputByteStream =
  m_NumFutureBytes :: nat
  m_FutureBytes :: nat
  m_Input :: "nat list"

definition InputByteStream_new :: "nat list \<Rightarrow> InputByteStream" where
  "InputByteStream_new ys = \<lparr>m_NumFutureBytes = 0, m_FutureBytes = 0, m_Input = ys\<rparr>"

fun fill_future :: "nat \<Rightarrow> InputByteStream \<Rightarrow> bool \<times> InputByteStream" where
  "fill_future 0 bs = (False, bs)"
| "fill_future (Suc n) bs =
     (case m_Input bs of
        [] \<Rightarrow> (True, bs)
      | b # r \<Rightarrow>
          fill_future n (bs\<lparr>m_FutureBytes := u32 (push_bit 8 (m_FutureBytes bs)) OR b,
                            m_NumFutureBytes := m_NumFutureBytes bs + 1, m_Input := r\<rparr>))"

text \<open>\<^verbatim>\<open>eofBeforeNBytes\<close>; the parser only asks for 3 or 4 bytes, so its \<^verbatim>\<open>CHECK(n > 4)\<close> holds.\<close>

definition eofBeforeNBytes :: "nat \<Rightarrow> InputByteStream \<Rightarrow> bool \<times> InputByteStream" where
  "eofBeforeNBytes n bs =
     (if m_NumFutureBytes bs \<ge> n then (False, bs) else fill_future (n - m_NumFutureBytes bs) bs)"

definition peekBytes :: "nat \<Rightarrow> InputByteStream \<Rightarrow> nat \<times> InputByteStream" where
  "peekBytes n bs =
     (let bs = snd (eofBeforeNBytes n bs)
      in (drop_bit (8 * (m_NumFutureBytes bs - n)) (m_FutureBytes bs), bs))"

definition InputByteStream_readByte :: "InputByteStream \<Rightarrow> (nat \<times> InputByteStream) option" where
  "InputByteStream_readByte bs =
     (if m_NumFutureBytes bs = 0
      then (case m_Input bs of [] \<Rightarrow> None | b # r \<Rightarrow> Some (b, bs\<lparr>m_Input := r\<rparr>))
      else
        let n = m_NumFutureBytes bs - 1
        in Some (u8 (drop_bit (8 * n) (m_FutureBytes bs)),
                 bs\<lparr>m_NumFutureBytes := n,
                    m_FutureBytes := m_FutureBytes bs AND not32 (u32 (push_bit (8 * n) 255))\<rparr>))"

subsection \<open>The parser\<close>

record AnnexBStats =
  m_numLeadingZero8BitsBytes :: nat
  m_numZeroByteBytes :: nat
  m_numStartCodePrefixBytes :: nat
  m_numBytesInNALUnit :: nat
  m_numTrailingZero8BitsBytes :: nat

record annexb_state =
  ab_bs :: InputByteStream
  ab_nalUnit :: "nat list"
  ab_stats :: AnnexBStats

datatype outcome = Returned annexb_state | Thrown annexb_state

text \<open>\<^verbatim>\<open>bs.eofBeforeNBytes(n) || P(bs.peekBytes(n))\<close>\<close>

definition eof_or :: "nat \<Rightarrow> (nat \<Rightarrow> bool) \<Rightarrow> InputByteStream \<Rightarrow> bool \<times> InputByteStream" where
  "eof_or n P bs =
     (case eofBeforeNBytes n bs of
        (True, bs) \<Rightarrow> (True, bs)
      | (False, bs) \<Rightarrow> (case peekBytes n bs of (v, bs) \<Rightarrow> (P v, bs)))"

text \<open>The condition of the two loops that skip zero bytes: no start code comes next.\<close>

definition no_start_code :: "InputByteStream \<Rightarrow> bool \<times> InputByteStream" where
  "no_start_code bs =
     (case eof_or 3 (\<lambda>v. v \<noteq> 1) bs of
        (False, bs) \<Rightarrow> (False, bs)
      | (True, bs) \<Rightarrow> eof_or 4 (\<lambda>v. v \<noteq> 1) bs)"

definition bytes_available :: "InputByteStream \<Rightarrow> nat" where
  "bytes_available bs = m_NumFutureBytes bs + length (m_Input bs)"

lemma bytes_available_fill: "bytes_available (snd (fill_future n bs)) = bytes_available bs"
  by (induction n bs rule: fill_future.induct) (auto simp: bytes_available_def split: list.splits)

lemma bytes_available_eof: "bytes_available (snd (eofBeforeNBytes n bs)) = bytes_available bs"
  by (simp add: eofBeforeNBytes_def bytes_available_fill)

lemma bytes_available_eof_or: "bytes_available (snd (eof_or n P bs)) = bytes_available bs"
  by (auto simp: eof_or_def peekBytes_def bytes_available_eof Let_def split: prod.splits bool.splits
      dest: arg_cong [where f = "\<lambda>p. bytes_available (snd p)"])

lemma bytes_available_no_start_code: "bytes_available (snd (no_start_code bs)) = bytes_available bs"
proof (cases "eof_or 3 (\<lambda>v. v \<noteq> 1) bs")
  case (Pair b bs')
  then have "bytes_available bs' = bytes_available bs"
    using bytes_available_eof_or [of 3 "\<lambda>v. v \<noteq> 1" bs] by simp
  then show ?thesis
    unfolding no_start_code_def Pair by (cases b) (simp_all only: prod.case bool.case snd_conv bytes_available_eof_or)
qed

lemma bytes_available_readByte:
  "InputByteStream_readByte bs = Some (b, bs') \<Longrightarrow> bytes_available bs' < bytes_available bs"
  by (auto simp: InputByteStream_readByte_def bytes_available_def Let_def split: if_splits list.splits)

lemma no_start_code_decreases:
  assumes "(c, bs) = no_start_code bs0" "InputByteStream_readByte bs = Some (b, bs')"
  shows "bytes_available bs' < bytes_available bs0"
  using bytes_available_no_start_code [of bs0] bytes_available_readByte [OF assms(2)] assms(1) by (metis snd_conv)

lemma eof_or_decreases:
  assumes "(c, bs) = eof_or n P bs0" "InputByteStream_readByte bs = Some (b, bs')"
  shows "bytes_available bs' < bytes_available bs0"
  using bytes_available_eof_or [of n P bs0] bytes_available_readByte [OF assms(2)] assms(1) by (metis snd_conv)

text \<open>The loop that discards \<^verbatim>\<open>leading_zero_8bits\<close> and the one that discards
  \<^verbatim>\<open>trailing_zero_8bits\<close> differ in the counter they increment.\<close>

function (sequential) skip_zeros ::
  "((nat \<Rightarrow> nat) \<Rightarrow> AnnexBStats \<Rightarrow> AnnexBStats) \<Rightarrow> annexb_state \<Rightarrow> outcome" where
  "skip_zeros upd s =
     (case no_start_code (ab_bs s) of
        (False, bs) \<Rightarrow> Returned (s\<lparr>ab_bs := bs\<rparr>)
      | (True, bs) \<Rightarrow>
          (case InputByteStream_readByte bs of
             None \<Rightarrow> Thrown (s\<lparr>ab_bs := bs\<rparr>)
           | Some (b, bs') \<Rightarrow>
               if b \<noteq> 0 then Thrown (s\<lparr>ab_bs := bs'\<rparr>)
               else skip_zeros upd (s\<lparr>ab_bs := bs', ab_stats := upd (\<lambda>c. u32 (c + 1)) (ab_stats s)\<rparr>)))"
  by pat_completeness auto
termination
  by (relation "measure (\<lambda>(upd, s). bytes_available (ab_bs s))") (auto dest: no_start_code_decreases)

text \<open>The body of the NAL unit: bytes up to the next three bytes of value at most 2.\<close>

function (sequential) read_nal_body :: "annexb_state \<Rightarrow> outcome" where
  "read_nal_body s =
     (case eof_or 3 (\<lambda>v. v > 2) (ab_bs s) of
        (False, bs) \<Rightarrow> Returned (s\<lparr>ab_bs := bs\<rparr>)
      | (True, bs) \<Rightarrow>
          (case InputByteStream_readByte bs of
             None \<Rightarrow> Thrown (s\<lparr>ab_bs := bs\<rparr>)
           | Some (b, bs') \<Rightarrow> read_nal_body (s\<lparr>ab_bs := bs', ab_nalUnit := ab_nalUnit s @ [b]\<rparr>)))"
  by pat_completeness auto
termination
  by (relation "measure (\<lambda>s. bytes_available (ab_bs s))") (auto dest: eof_or_decreases)

fun InputByteStream_readBytes :: "nat \<Rightarrow> nat \<Rightarrow> InputByteStream \<Rightarrow> nat option \<times> InputByteStream" where
  "InputByteStream_readBytes 0 val bs = (Some val, bs)"
| "InputByteStream_readBytes (Suc n) val bs =
     (case InputByteStream_readByte bs of
        None \<Rightarrow> (None, bs)
      | Some (b, bs') \<Rightarrow> InputByteStream_readBytes n (u32 (push_bit 8 val) OR b) bs')"

fun outcome_bind :: "outcome \<Rightarrow> (annexb_state \<Rightarrow> outcome) \<Rightarrow> outcome" where
  "outcome_bind (Thrown s) f = Thrown s"
| "outcome_bind (Returned s) f = f s"

definition read_zero_byte :: "annexb_state \<Rightarrow> outcome" where
  "read_zero_byte s =
     (case peekBytes 3 (ab_bs s) of
        (v, bs) \<Rightarrow>
          if v \<noteq> 1 then
            (case InputByteStream_readByte bs of
               None \<Rightarrow> Thrown (s\<lparr>ab_bs := bs\<rparr>)
             | Some (b, bs') \<Rightarrow>
                 if b \<noteq> 0 then Thrown (s\<lparr>ab_bs := bs'\<rparr>)
                 else Returned (s\<lparr>ab_bs := bs',
                        ab_stats := m_numZeroByteBytes_update (\<lambda>c. u32 (c + 1)) (ab_stats s)\<rparr>))
          else Returned (s\<lparr>ab_bs := bs\<rparr>))"

definition read_start_code_prefix :: "annexb_state \<Rightarrow> outcome" where
  "read_start_code_prefix s =
     (case InputByteStream_readBytes 3 0 (ab_bs s) of
        (None, bs) \<Rightarrow> Thrown (s\<lparr>ab_bs := bs\<rparr>)
      | (Some v, bs) \<Rightarrow>
          if v \<noteq> 1 then Thrown (s\<lparr>ab_bs := bs\<rparr>)
          else Returned (s\<lparr>ab_bs := bs,
                 ab_stats := m_numStartCodePrefixBytes_update (\<lambda>c. u32 (c + 3)) (ab_stats s)\<rparr>))"

definition byteStreamNALUnit_body :: "annexb_state \<Rightarrow> outcome" where
  "byteStreamNALUnit_body s =
     outcome_bind (skip_zeros m_numLeadingZero8BitsBytes_update s) (\<lambda>s.
     outcome_bind (read_zero_byte s) (\<lambda>s.
     outcome_bind (read_start_code_prefix s) (\<lambda>s.
     outcome_bind (read_nal_body s) (\<lambda>s.
     skip_zeros m_numTrailingZero8BitsBytes_update s))))"

text \<open>
  \<^verbatim>\<open>byteStreamNALUnit\<close>: every exception becomes the result \<open>True\<close>, so the function returns true
  exactly when the end of the stream was reached.  The comment above the function in
  \<^verbatim>\<open>AnnexBread.cpp\<close> says the opposite (false at the end); no caller in the repository uses the
  result.
\<close>

definition byteStreamNALUnit :: "annexb_state \<Rightarrow> bool \<times> annexb_state" where
  "byteStreamNALUnit s =
     (let (eof, s) = (case byteStreamNALUnit_body s of Returned s \<Rightarrow> (False, s) | Thrown s \<Rightarrow> (True, s))
      in (eof, s\<lparr>ab_stats := (ab_stats s)\<lparr>m_numBytesInNALUnit := u32 (length (ab_nalUnit s))\<rparr>\<rparr>))"

definition AnnexBStats_add :: "AnnexBStats \<Rightarrow> AnnexBStats \<Rightarrow> AnnexBStats" where
  "AnnexBStats_add a b =
     \<lparr>m_numLeadingZero8BitsBytes = u32 (m_numLeadingZero8BitsBytes a + m_numLeadingZero8BitsBytes b),
      m_numZeroByteBytes = u32 (m_numZeroByteBytes a + m_numZeroByteBytes b),
      m_numStartCodePrefixBytes = u32 (m_numStartCodePrefixBytes a + m_numStartCodePrefixBytes b),
      m_numBytesInNALUnit = u32 (m_numBytesInNALUnit a + m_numBytesInNALUnit b),
      m_numTrailingZero8BitsBytes = u32 (m_numTrailingZero8BitsBytes a + m_numTrailingZero8BitsBytes b)\<rparr>"

subsection \<open>The look-ahead buffer as a list of bytes\<close>

definition views :: "InputByteStream \<Rightarrow> nat list \<Rightarrow> bool" where
  "views bs ys \<longleftrightarrow> bytes_ok ys \<and> m_NumFutureBytes bs \<le> 4 \<and> m_NumFutureBytes bs \<le> length ys
     \<and> m_FutureBytes bs = be_word (take (m_NumFutureBytes bs) ys)
     \<and> m_Input bs = drop (m_NumFutureBytes bs) ys"

lemma views_new: "bytes_ok ys \<Longrightarrow> views (InputByteStream_new ys) ys"
  by (simp add: views_def InputByteStream_new_def)

lemma views_push:
  assumes "views bs ys" and "m_Input bs = b # r" and "m_NumFutureBytes bs < 4"
  shows "views (bs\<lparr>m_FutureBytes := u32 (push_bit 8 (m_FutureBytes bs)) OR b,
                   m_NumFutureBytes := m_NumFutureBytes bs + 1, m_Input := r\<rparr>) ys"
proof -
  let ?n = "m_NumFutureBytes bs"
  have n: "?n < length ys" and b: "ys ! ?n = b" and r: "drop (Suc ?n) ys = r"
    using assms(1,2) nth_via_drop [of ?n ys b r] drop_Suc_Cons [of 0 b r] drop_drop [of 1 ?n ys]
    by (auto simp: views_def le_less)
  have ok: "bytes_ok ys" using assms(1) by (simp add: views_def)
  have "be_word (take ?n ys) < 256 ^ ?n"
    using be_word_less [OF bytes_ok_take [OF ok], of ?n] n by simp
  moreover have "(256::nat) ^ ?n \<le> 256 ^ 3" using assms(3) by (intro power_increasing) auto
  ultimately have "be_word (take ?n ys) < 16777216" by simp
  moreover have "b < 256" using bytes_ok_nth [OF ok n] b by simp
  ultimately have "u32 (push_bit 8 (be_word (take ?n ys))) OR b = be_word (take ?n ys) * 256 + b"
    using or_shift_add [of b 8 "be_word (take ?n ys)"] by (simp add: u32_id push_bit_eq_mult)
  then show ?thesis
    using assms n b r be_word_take_Suc [OF n] by (simp add: views_def)
qed

lemma views_fill:
  assumes "views bs ys" and "m_NumFutureBytes bs + n \<le> 4"
  obtains bs' where "fill_future n bs = (length ys < m_NumFutureBytes bs + n, bs')" and "views bs' ys"
    and "m_NumFutureBytes bs' = min (length ys) (m_NumFutureBytes bs + n)"
  using assms
proof (induction n arbitrary: bs thesis)
  case 0
  have "fill_future 0 bs = (length ys < m_NumFutureBytes bs + 0, bs)"
    "m_NumFutureBytes bs = min (length ys) (m_NumFutureBytes bs + 0)"
    using 0(2) by (auto simp: views_def)
  with 0 show ?case by blast
next
  case (Suc n)
  show ?case
  proof (cases "m_Input bs")
    case Nil
    then have "fill_future (Suc n) bs = (length ys < m_NumFutureBytes bs + Suc n, bs)"
      "m_NumFutureBytes bs = min (length ys) (m_NumFutureBytes bs + Suc n)"
      using Suc.prems(2) by (auto simp: views_def)
    with Suc.prems show ?thesis by blast
  next
    case (Cons b r)
    have v: "views (bs\<lparr>m_FutureBytes := u32 (push_bit 8 (m_FutureBytes bs)) OR b,
                   m_NumFutureBytes := m_NumFutureBytes bs + 1, m_Input := r\<rparr>) ys"
      using views_push [OF Suc.prems(2) Cons] Suc.prems(3) by simp
    show ?thesis
      by (rule Suc.IH [OF _ v]) (use Suc.prems Cons in auto)
  qed
qed

lemma views_eof:
  assumes "views bs ys" and "n \<le> 4"
  obtains bs' where "eofBeforeNBytes n bs = (length ys < n, bs')" and "views bs' ys"
    and "n \<le> length ys \<Longrightarrow> n \<le> m_NumFutureBytes bs'"
proof (cases "n \<le> m_NumFutureBytes bs")
  case True
  with assms that show ?thesis by (auto simp: eofBeforeNBytes_def views_def)
next
  case False
  then have "m_NumFutureBytes bs + (n - m_NumFutureBytes bs) = n" by simp
  with views_fill [OF assms(1), of "n - m_NumFutureBytes bs"] assms(2) obtain bs' where
    "fill_future (n - m_NumFutureBytes bs) bs = (length ys < n, bs')" "views bs' ys"
    "m_NumFutureBytes bs' = min (length ys) n" by metis
  with False that show ?thesis by (simp add: eofBeforeNBytes_def)
qed

lemma views_peek:
  assumes "views bs ys" and "n \<le> m_NumFutureBytes bs"
  shows "peekBytes n bs = (be_word (take n ys), bs)"
proof -
  let ?m = "m_NumFutureBytes bs"
  define gs where "gs = drop n (take ?m ys)"
  have m: "?m \<le> length ys" and ok: "bytes_ok ys" using assms by (auto simp: views_def)
  have "take ?m ys = take n ys @ gs"
    using append_take_drop_id [of n "take ?m ys"] assms(2) by (simp add: gs_def min_absorb1)
  moreover have "length gs = ?m - n" using m by (simp add: gs_def)
  moreover have "be_word gs < 256 ^ length gs"
    by (rule be_word_less) (simp add: gs_def bytes_ok_drop bytes_ok_take ok)
  ultimately have "drop_bit (8 * (?m - n)) (be_word (take ?m ys)) = be_word (take n ys)"
    by (simp add: be_word_append drop_bit_eq_div power_mult)
  then show ?thesis
    using assms by (simp add: peekBytes_def eofBeforeNBytes_def views_def)
qed

lemma views_eof_or:
  assumes "views bs ys" and "n \<le> 4"
  obtains bs' where "eof_or n P bs = (length ys < n \<or> P (be_word (take n ys)), bs')"
    and "views bs' ys" and "n \<le> length ys \<Longrightarrow> n \<le> m_NumFutureBytes bs'"
proof -
  from views_eof [OF assms] obtain bs' where e: "eofBeforeNBytes n bs = (length ys < n, bs')"
    "views bs' ys" "n \<le> length ys \<longrightarrow> n \<le> m_NumFutureBytes bs'" by blast
  show ?thesis
  proof (cases "length ys < n")
    case True
    with e that show ?thesis by (simp add: eof_or_def)
  next
    case False
    with e that views_peek [OF e(2)] show ?thesis by (simp add: eof_or_def)
  qed
qed

definition starts_code :: "nat list \<Rightarrow> bool" where
  "starts_code ys \<longleftrightarrow> take 3 ys = [0, 0, 1] \<or> take 4 ys = [0, 0, 0, 1]"

lemma be_word_one:
  assumes "bytes_ok ys"
  shows "3 \<le> length ys \<Longrightarrow> be_word (take 3 ys) = Suc 0 \<longleftrightarrow> take 3 ys = [0, 0, 1]"
    and "4 \<le> length ys \<Longrightarrow> be_word (take 4 ys) = Suc 0 \<longleftrightarrow> take 4 ys = [0, 0, 0, 1]"
  using be_word_inj [of "take 3 ys" "[0, 0, 1]"] be_word_inj [of "take 4 ys" "[0, 0, 0, 1]"]
  by (auto simp: be_word_Cons assms bytes_ok_take)

lemma be_word_gt_2:
  assumes "bytes_ok ys" and "3 \<le> length ys"
  shows "be_word (take 3 ys) > 2 \<longleftrightarrow> \<not> (\<exists>t\<le>2. take 3 ys = [0, 0, t])"
proof -
  have "take 3 ys = [0, 0, be_word (take 3 ys)]" if "be_word (take 3 ys) \<le> 2"
    using that assms by (intro be_word_inj) (auto simp: be_word_Cons bytes_ok_take)
  moreover have "be_word (take 3 ys) = t" if "take 3 ys = [0, 0, t]" for t
    using that by (simp add: be_word_Cons)
  ultimately show ?thesis by (metis not_le)
qed

lemma views_no_start_code:
  assumes "views bs ys"
  obtains bs' where "no_start_code bs = (\<not> starts_code ys, bs')" and "views bs' ys"
    and "starts_code ys \<Longrightarrow> 3 \<le> m_NumFutureBytes bs'"
proof -
  have ok: "bytes_ok ys" using assms by (simp add: views_def)
  have le: "3 \<le> (4::nat)" "4 \<le> (4::nat)" by simp_all
  from views_eof_or [OF assms le(1), of "\<lambda>v. v \<noteq> 1"] obtain b1 where
    b1: "eof_or 3 (\<lambda>v. v \<noteq> 1) bs = (length ys < 3 \<or> be_word (take 3 ys) \<noteq> 1, b1)" "views b1 ys"
    "3 \<le> length ys \<longrightarrow> 3 \<le> m_NumFutureBytes b1" by blast
  from views_eof_or [OF b1(2) le(2), of "\<lambda>v. v \<noteq> 1"] obtain b2 where
    b2: "eof_or 4 (\<lambda>v. v \<noteq> 1) b1 = (length ys < 4 \<or> be_word (take 4 ys) \<noteq> 1, b2)" "views b2 ys"
    "4 \<le> length ys \<longrightarrow> 4 \<le> m_NumFutureBytes b2" by blast
  have len: "take 3 ys = [0, 0, 1] \<Longrightarrow> 3 \<le> length ys" "take 4 ys = [0, 0, 0, 1] \<Longrightarrow> 4 \<le> length ys"
    using length_take [of 3 ys] length_take [of 4 ys] by auto
  show ?thesis
  proof (cases "take 3 ys = [0, 0, 1]")
    case True
    with len be_word_one [OF ok] b1 that show ?thesis by (simp add: no_start_code_def starts_code_def)
  next
    case False
    then have "length ys < 3 \<or> be_word (take 3 ys) \<noteq> Suc 0" using be_word_one(1) [OF ok] by auto
    moreover have "(length ys < 4 \<or> be_word (take 4 ys) \<noteq> Suc 0) \<longleftrightarrow> \<not> starts_code ys"
      using False len be_word_one(2) [OF ok] by (auto simp: starts_code_def)
    ultimately show ?thesis using b1 b2 that False len by (auto simp: no_start_code_def starts_code_def)
  qed
qed

lemma views_readByte:
  assumes "views bs (b # ys)"
  obtains bs' where "InputByteStream_readByte bs = Some (b, bs')" and "views bs' ys"
proof (cases "m_NumFutureBytes bs")
  case 0
  with assms that show ?thesis by (auto simp: InputByteStream_readByte_def views_def)
next
  case (Suc n)
  define fs where "fs = take n ys"
  have n: "n \<le> 3" "length fs = n" and ok: "bytes_ok fs" "b < 256"
    and fb: "m_FutureBytes bs = b * 256 ^ n + be_word fs"
    using assms Suc by (auto simp: views_def fs_def be_word_Cons bytes_ok_take min_absorb1)
  have w: "be_word fs < 256 ^ n" using be_word_less [OF ok(1)] n by simp
  have "drop_bit (8 * n) (m_FutureBytes bs) = b"
    using w by (simp add: fb drop_bit_eq_div power_mult)
  moreover have "m_FutureBytes bs AND not32 (u32 (push_bit (8 * n) 255)) = be_word fs"
  proof -
    have "b * 256 ^ n + be_word fs < (b + 1) * 256 ^ n" using w by simp
    also have "\<dots> \<le> 256 * 256 ^ n" using ok(2) by (intro mult_le_mono1) simp
    finally have "m_FutureBytes bs < 2 ^ (8 * n + 8)" by (simp add: fb power_add power_mult)
    then show ?thesis using n w by (simp add: and_not_byte_mask) (simp add: fb power_mult)
  qed
  ultimately have "InputByteStream_readByte bs =
      Some (b, bs\<lparr>m_NumFutureBytes := n, m_FutureBytes := be_word fs\<rparr>)"
    using Suc ok(2) by (simp add: InputByteStream_readByte_def u8_id)
  moreover have "views (bs\<lparr>m_NumFutureBytes := n, m_FutureBytes := be_word fs\<rparr>) ys"
    using assms Suc n by (auto simp: views_def fs_def)
  ultimately show ?thesis using that by blast
qed

lemma views_readByte_Nil: "views bs [] \<Longrightarrow> InputByteStream_readByte bs = None"
  by (simp add: views_def InputByteStream_readByte_def)

subsection \<open>The loops of the parser\<close>

lemma starts_code_zeros:
  "starts_code (replicate k 0 @ [0, 0, 1] @ r) \<longleftrightarrow> k \<le> 1"
proof -
  consider "k = 0" | "k = 1" | n where "k = Suc (Suc n)" by (cases k; cases "k - 1") auto
  then show ?thesis
  proof cases
    case 3
    then show ?thesis by (cases n; cases "n - 1") (auto simp: starts_code_def numeral_eq_Suc)
  qed (auto simp: starts_code_def numeral_eq_Suc)
qed

lemma skip_zeros_ok:
  assumes "views (ab_bs s) (replicate k 0 @ [0, 0, 1] @ r)"
  obtains bs where "skip_zeros upd s = Returned
      (s\<lparr>ab_bs := bs, ab_stats := (upd (\<lambda>c. u32 (c + 1)) ^^ (k - 1)) (ab_stats s)\<rparr>)"
    and "views bs (replicate (min k 1) 0 @ [0, 0, 1] @ r)" and "3 \<le> m_NumFutureBytes bs"
  using assms
proof (induction k arbitrary: s thesis)
  case 0
  from views_no_start_code [OF 0(2)] obtain bs where
    "no_start_code (ab_bs s) = (False, bs)" "views bs (replicate 0 0 @ [0, 0, 1] @ r)" "3 \<le> m_NumFutureBytes bs"
    unfolding starts_code_zeros by auto
  with 0(1) show ?case by simp
next
  case (Suc k)
  from views_no_start_code [OF Suc.prems(2)] obtain bs where
    bs: "no_start_code (ab_bs s) = (\<not> Suc k \<le> 1, bs)" "views bs (replicate (Suc k) 0 @ [0, 0, 1] @ r)"
      "Suc k \<le> 1 \<longrightarrow> 3 \<le> m_NumFutureBytes bs"
    unfolding starts_code_zeros by auto
  show ?case
  proof (cases k)
    case 0
    with Suc.prems(1) bs show ?thesis by simp
  next
    case (Suc n)
    from bs(2) have "views bs (0 # replicate k 0 @ [0, 0, 1] @ r)" by simp
    from views_readByte [OF this] obtain bs' where
      bs': "InputByteStream_readByte bs = Some (0, bs')" "views bs' (replicate k 0 @ [0, 0, 1] @ r)" .
    show ?thesis
      by (rule Suc.IH [where s = "s\<lparr>ab_bs := bs', ab_stats := upd (\<lambda>c. u32 (c + 1)) (ab_stats s)\<rparr>"])
        (use bs bs' Suc Suc.prems(1) in \<open>auto simp: funpow_swap1\<close>)
  qed
qed

lemma read_zero_byte_ok:
  assumes "views (ab_bs s) (replicate (min k 1) 0 @ [0, 0, 1] @ r)" and "3 \<le> m_NumFutureBytes (ab_bs s)"
  obtains bs where "read_zero_byte s = Returned (s\<lparr>ab_bs := bs,
      ab_stats := (m_numZeroByteBytes_update (\<lambda>c. u32 (c + 1)) ^^ (min k 1)) (ab_stats s)\<rparr>)"
    and "views bs ([0, 0, 1] @ r)"
proof (cases k)
  case 0
  with assms that [of "ab_bs s"] views_peek [OF assms] show ?thesis
    by (simp add: read_zero_byte_def be_word_Cons)
next
  case (Suc n)
  with assms(1) have v: "views (ab_bs s) (0 # [0, 0, 1] @ r)" by simp
  from views_readByte [OF this] obtain bs where
    bs: "InputByteStream_readByte (ab_bs s) = Some (0, bs)" "views bs ([0, 0, 1] @ r)" .
  with that views_peek [OF v assms(2)] Suc show ?thesis
    by (simp add: read_zero_byte_def be_word_Cons)
qed

lemma read_start_code_prefix_ok:
  assumes "views (ab_bs s) ([0, 0, 1] @ r)"
  obtains bs where "read_start_code_prefix s = Returned (s\<lparr>ab_bs := bs,
      ab_stats := m_numStartCodePrefixBytes_update (\<lambda>c. u32 (c + 3)) (ab_stats s)\<rparr>)"
    and "views bs r"
proof -
  from assms have v: "views (ab_bs s) (0 # 0 # 1 # r)" by simp
  from views_readByte [OF this] obtain b1 where
    b1: "InputByteStream_readByte (ab_bs s) = Some (0, b1)" "views b1 (0 # 1 # r)" .
  from views_readByte [OF b1(2)] obtain b2 where
    b2: "InputByteStream_readByte b1 = Some (0, b2)" "views b2 (1 # r)" .
  from views_readByte [OF b2(2)] obtain b3 where
    b3: "InputByteStream_readByte b2 = Some (1, b3)" "views b3 r" .
  have "InputByteStream_readBytes (Suc (Suc (Suc 0))) 0 (ab_bs s) = (Some 1, b3)"
    by (simp add: b1(1) b2(1) b3(1) u32_def)
  then have "InputByteStream_readBytes 3 0 (ab_bs s) = (Some 1, b3)"
    by (simp only: numeral_3_eq_3)
  then show ?thesis using that [OF _ b3(2)] by (simp add: read_start_code_prefix_def)
qed

text \<open>What may follow a NAL unit: nothing, or zero bytes and a start code.\<close>

definition next_unit :: "nat list \<Rightarrow> bool" where
  "next_unit ys \<longleftrightarrow> (\<exists>j r. ys = replicate j 0 @ [0, 0, 1] @ r)"

lemma next_unit_take: "next_unit ys \<Longrightarrow> take 2 ys = [0, 0] \<and> (\<exists>t\<le>1. take 3 ys = [0, 0, t]) \<and> 3 \<le> length ys"
proof -
  assume "next_unit ys"
  then obtain j r where ys: "ys = replicate j 0 @ [0, 0, 1] @ r" by (auto simp: next_unit_def)
  consider "j = 0" | "j = 1" | "j = 2" | n where "j = Suc (Suc (Suc n))"
    by (metis One_nat_def Suc_1 not0_implies_Suc)
  then show ?thesis by cases (auto simp: ys numeral_eq_Suc)
qed

lemma read_nal_body_ok:
  assumes "views (ab_bs s) (d @ r)" and "start_code_free d"
    and "r = [] \<or> next_unit r" and "r \<noteq> [] \<Longrightarrow> d \<noteq> [] \<Longrightarrow> last d \<noteq> 0"
  obtains bs where "views bs r" and "read_nal_body s =
    (if r = [] then Thrown else Returned) (s\<lparr>ab_bs := bs, ab_nalUnit := ab_nalUnit s @ d\<rparr>)"
  using assms
proof (induction d arbitrary: s thesis)
  case Nil
  then have ok: "bytes_ok r" by (simp add: views_def)
  have le: "3 \<le> (4::nat)" by simp
  from views_eof_or [OF Nil(2) le, of "\<lambda>v. v > 2"] obtain bs where
    bs: "eof_or 3 (\<lambda>v. v > 2) (ab_bs s) = (length r < 3 \<or> be_word (take 3 r) > 2, bs)" "views bs r"
    by (metis append_Nil)
  show ?case
  proof (cases "r = []")
    case True
    with bs Nil.prems(1) [OF bs(2)] views_readByte_Nil show ?thesis by simp
  next
    case False
    with Nil.prems(4) next_unit_take have "\<not> length r < 3" "\<exists>t\<le>2. take 3 r = [0, 0, t]"
      by (force, meson le_trans one_le_numeral)
    with bs(1) be_word_gt_2 [OF ok] have "eof_or 3 (\<lambda>v. v > 2) (ab_bs s) = (False, bs)" by simp
    with bs Nil.prems(1) [OF bs(2)] False show ?thesis by simp
  qed
next
  case (Cons b d)
  then have ok: "bytes_ok (b # d @ r)" by (simp add: views_def)
  have le: "3 \<le> (4::nat)" by simp
  from views_eof_or [OF Cons.prems(2) le, of "\<lambda>v. v > 2"] obtain bs where
    bs: "eof_or 3 (\<lambda>v. v > 2) (ab_bs s) = (length (b # d @ r) < 3 \<or> be_word (take 3 (b # d @ r)) > 2, bs)"
      "views bs (b # d @ r)"
    by (metis append_Cons)
  have "be_word (take 3 (b # d @ r)) > 2" if "3 \<le> length (b # d @ r)"
  proof -
    have "\<not> (\<exists>t\<le>2. take 3 (b # d @ r) = [0, 0, t])"
      using that Cons.prems(3,5) by (cases d; cases "tl d"; cases r) auto
    then show ?thesis using be_word_gt_2 [of "b # d @ r"] ok that by simp
  qed
  then have e: "eof_or 3 (\<lambda>v. v > 2) (ab_bs s) = (True, bs)" using bs(1) by fastforce
  from views_readByte [OF bs(2)] obtain bs' where
    bs': "InputByteStream_readByte bs = Some (b, bs')" "views bs' (d @ r)" .
  have "start_code_free d" using Cons.prems(3) by (cases d rule: start_code_free.cases) auto
  moreover have "r \<noteq> [] \<Longrightarrow> d \<noteq> [] \<Longrightarrow> last d \<noteq> 0" using Cons.prems(5) by simp
  moreover let ?s = "s\<lparr>ab_bs := bs', ab_nalUnit := ab_nalUnit s @ [b]\<rparr>"
  have "views (ab_bs ?s) (d @ r)" using bs' by simp
  ultimately obtain bs'' where "views bs'' r" and "read_nal_body ?s =
    (if r = [] then Thrown else Returned) (?s\<lparr>ab_bs := bs'', ab_nalUnit := ab_nalUnit ?s @ d\<rparr>)"
    using Cons.IH Cons.prems(4) by blast
  moreover have "read_nal_body s = read_nal_body ?s"
    by (subst read_nal_body.simps) (simp add: e bs'(1) del: read_nal_body.simps)
  ultimately show ?case using Cons.prems(1) by (simp del: read_nal_body.simps)
qed

declare skip_zeros.simps [simp del] read_nal_body.simps [simp del]

subsection \<open>Parsing one byte stream unit, and a whole stream\<close>

definition AnnexBStats_new :: AnnexBStats where
  "AnnexBStats_new = \<lparr>m_numLeadingZero8BitsBytes = 0, m_numZeroByteBytes = 0,
     m_numStartCodePrefixBytes = 0, m_numBytesInNALUnit = 0, m_numTrailingZero8BitsBytes = 0\<rparr>"

definition annexb_start :: "InputByteStream \<Rightarrow> annexb_state" where
  "annexb_start bs = \<lparr>ab_bs = bs, ab_nalUnit = [], ab_stats = AnnexBStats_new\<rparr>"

lemma stats_update_funpow:
  "(m_numLeadingZero8BitsBytes_update f ^^ n) st = m_numLeadingZero8BitsBytes_update (f ^^ n) st"
  "(m_numZeroByteBytes_update f ^^ n) st = m_numZeroByteBytes_update (f ^^ n) st"
  "(m_numTrailingZero8BitsBytes_update f ^^ n) st = m_numTrailingZero8BitsBytes_update (f ^^ n) st"
  by (induction n) (auto simp: o_def)

lemma u32_count: "((\<lambda>c. u32 (c + 1)) ^^ n) 0 = u32 n"
  by (induction n) (auto simp: u32_def mod_Suc_eq)

text \<open>The number of bytes of each kind in the unit: \<open>k\<close> zero bytes before the start code
  prefix, the NAL unit \<open>d\<close>, and \<open>j\<close> zero bytes before the start code that ends it.\<close>

definition unit_stats :: "nat \<Rightarrow> nat list \<Rightarrow> nat \<Rightarrow> AnnexBStats" where
  "unit_stats k d j = \<lparr>m_numLeadingZero8BitsBytes = u32 (k - 1), m_numZeroByteBytes = min k 1,
     m_numStartCodePrefixBytes = 3, m_numBytesInNALUnit = u32 (length d),
     m_numTrailingZero8BitsBytes = u32 (j - 1)\<rparr>"

lemma byteStreamNALUnit_prefix:
  assumes "views bs (replicate k 0 @ [0, 0, 1] @ d @ r)" and "start_code_free d"
    and "r = [] \<or> next_unit r" and "r \<noteq> [] \<Longrightarrow> d \<noteq> [] \<Longrightarrow> last d \<noteq> 0"
  obtains bs' where "views bs' r" and "byteStreamNALUnit_body (annexb_start bs) =
    (let s = \<lparr>ab_bs = bs', ab_nalUnit = d, ab_stats = (unit_stats k d 0)\<lparr>m_numBytesInNALUnit := 0\<rparr>\<rparr>
     in if r = [] then Thrown s else skip_zeros m_numTrailingZero8BitsBytes_update s)"
proof -
  let ?s = "annexb_start bs"
  from assms(1) have "views (ab_bs ?s) (replicate k 0 @ [0, 0, 1] @ d @ r)" by (simp add: annexb_start_def)
  from skip_zeros_ok [OF this, of m_numLeadingZero8BitsBytes_update] obtain b1 where
    b1: "skip_zeros m_numLeadingZero8BitsBytes_update ?s = Returned
      (?s\<lparr>ab_bs := b1, ab_stats := (m_numLeadingZero8BitsBytes_update (\<lambda>c. u32 (c + 1)) ^^ (k - 1)) (ab_stats ?s)\<rparr>)"
      "views b1 (replicate (min k 1) 0 @ [0, 0, 1] @ d @ r)" "3 \<le> m_NumFutureBytes b1" .
  then obtain s1 where s1: "skip_zeros m_numLeadingZero8BitsBytes_update ?s = Returned s1"
      "s1 = ?s\<lparr>ab_bs := b1, ab_stats := (m_numLeadingZero8BitsBytes_update (\<lambda>c. u32 (c + 1)) ^^ (k - 1)) (ab_stats ?s)\<rparr>"
      "views (ab_bs s1) (replicate (min k 1) 0 @ [0, 0, 1] @ d @ r)" "3 \<le> m_NumFutureBytes (ab_bs s1)"
    by simp
  from read_zero_byte_ok [OF s1(3,4)] obtain b2 where
    "read_zero_byte s1 = Returned (s1\<lparr>ab_bs := b2,
      ab_stats := (m_numZeroByteBytes_update (\<lambda>c. u32 (c + 1)) ^^ (min k 1)) (ab_stats s1)\<rparr>)"
    "views b2 ([0, 0, 1] @ d @ r)" .
  then obtain s2 where s2: "read_zero_byte s1 = Returned s2" "s2 = s1\<lparr>ab_bs := b2,
      ab_stats := (m_numZeroByteBytes_update (\<lambda>c. u32 (c + 1)) ^^ (min k 1)) (ab_stats s1)\<rparr>"
      "views (ab_bs s2) ([0, 0, 1] @ d @ r)" by simp
  from read_start_code_prefix_ok [OF s2(3)] obtain b3 where
    "read_start_code_prefix s2 = Returned (s2\<lparr>ab_bs := b3,
      ab_stats := m_numStartCodePrefixBytes_update (\<lambda>c. u32 (c + 3)) (ab_stats s2)\<rparr>)"
    "views b3 (d @ r)" .
  then obtain s3 where s3: "read_start_code_prefix s2 = Returned s3" "s3 = s2\<lparr>ab_bs := b3,
      ab_stats := m_numStartCodePrefixBytes_update (\<lambda>c. u32 (c + 3)) (ab_stats s2)\<rparr>"
      "views (ab_bs s3) (d @ r)" by simp
  from read_nal_body_ok [OF s3(3) assms(2-4)] obtain bs' where s4: "views bs' r" "read_nal_body s3 =
    (if r = [] then Thrown else Returned) (s3\<lparr>ab_bs := bs', ab_nalUnit := ab_nalUnit s3 @ d\<rparr>)" by blast
  have u: "u32 (min k 1) = min k 1" "u32 (min k (Suc 0)) = min k (Suc 0)" by (simp_all add: u32_id)
  have "s3\<lparr>ab_bs := bs', ab_nalUnit := ab_nalUnit s3 @ d\<rparr> = \<lparr>ab_bs = bs', ab_nalUnit = d,
      ab_stats = (unit_stats k d 0)\<lparr>m_numBytesInNALUnit := 0\<rparr>\<rparr>"
    unfolding s3(2) s2(2) s1(2) stats_update_funpow annexb_start_def AnnexBStats_new_def unit_stats_def
    by (simp add: u32_count [unfolded One_nat_def, simplified] u) (simp add: u32_def)
  with s1(1) s2(1) s3(1) s4 that show ?thesis
    by (simp add: byteStreamNALUnit_body_def Let_def)
qed

theorem byteStreamNALUnit_last:
  assumes "views bs (replicate k 0 @ [0, 0, 1] @ d)" and "start_code_free d"
  shows "\<exists>bs'. views bs' [] \<and> byteStreamNALUnit (annexb_start bs) =
    (True, \<lparr>ab_bs = bs', ab_nalUnit = d, ab_stats = unit_stats k d 0\<rparr>)"
proof -
  from assms(1) have v: "views bs (replicate k 0 @ [0, 0, 1] @ d @ [])" by simp
  obtain bs' where "views bs' []" "byteStreamNALUnit_body (annexb_start bs) = Thrown
      \<lparr>ab_bs = bs', ab_nalUnit = d, ab_stats = (unit_stats k d 0)\<lparr>m_numBytesInNALUnit := 0\<rparr>\<rparr>"
    by (rule byteStreamNALUnit_prefix [OF v assms(2)]) auto
  then show ?thesis by (auto simp: byteStreamNALUnit_def unit_stats_def)
qed

theorem byteStreamNALUnit_next:
  assumes "views bs (replicate k 0 @ [0, 0, 1] @ d @ replicate j 0 @ [0, 0, 1] @ r)"
    and "start_code_free d" and "d \<noteq> [] \<Longrightarrow> last d \<noteq> 0"
  shows "\<exists>bs'. views bs' (replicate (min j 1) 0 @ [0, 0, 1] @ r) \<and> byteStreamNALUnit (annexb_start bs) =
    (False, \<lparr>ab_bs = bs', ab_nalUnit = d, ab_stats = unit_stats k d j\<rparr>)"
proof -
  let ?r = "replicate j 0 @ [0, 0, 1] @ r"
  have "next_unit ?r" unfolding next_unit_def by blast
  then obtain b where b: "views b ?r" "byteStreamNALUnit_body (annexb_start bs) =
      skip_zeros m_numTrailingZero8BitsBytes_update \<lparr>ab_bs = b, ab_nalUnit = d,
        ab_stats = (unit_stats k d 0)\<lparr>m_numBytesInNALUnit := 0\<rparr>\<rparr>" (is "_ = skip_zeros _ ?s")
    by (rule_tac byteStreamNALUnit_prefix [OF assms(1,2)]) (use assms(3) in \<open>auto simp: Let_def\<close>)
  from b(1) have "views (ab_bs ?s) ?r" by simp
  from skip_zeros_ok [OF this, of m_numTrailingZero8BitsBytes_update] obtain b' where
    "skip_zeros m_numTrailingZero8BitsBytes_update ?s = Returned (?s\<lparr>ab_bs := b', ab_stats :=
       (m_numTrailingZero8BitsBytes_update (\<lambda>c. u32 (c + 1)) ^^ (j - 1)) (ab_stats ?s)\<rparr>)"
    "views b' (replicate (min j 1) 0 @ [0, 0, 1] @ r)" by blast
  with b(2) show ?thesis
    unfolding stats_update_funpow
    by (auto simp: byteStreamNALUnit_def unit_stats_def u32_count [unfolded One_nat_def, simplified] u32_id)
qed

text \<open>The calls the decoder application makes, each with a fresh NAL unit and statistics.\<close>

fun read_units :: "nat \<Rightarrow> InputByteStream \<Rightarrow> (bool \<times> nat list) list" where
  "read_units 0 bs = []"
| "read_units (Suc n) bs =
     (case byteStreamNALUnit (annexb_start bs) of (eof, s) \<Rightarrow> (eof, ab_nalUnit s) # read_units n (ab_bs s))"

definition nal_data_ok :: "nat list \<Rightarrow> bool" where
  "nal_data_ok d \<longleftrightarrow> bytes_ok d \<and> start_code_free d \<and> d \<noteq> [] \<and> last d \<noteq> 0"

lemma writeAnnexB_from_Cons:
  "fst (writeAnnexB_from first ((t, d) # au)) =
     replicate (of_bool (long_start_code first t)) 0 @ [0, 0, 1] @ d @ fst (writeAnnexB_from False au)"
  by (auto simp: start_code_def split: prod.splits)

lemma writeAnnexB_from_bytes_ok:
  "\<forall>(t, d) \<in> set au. bytes_ok d \<Longrightarrow> bytes_ok (fst (writeAnnexB_from first au))"
proof (induction au arbitrary: first)
  case (Cons u au)
  then show ?case by (cases u) (auto simp: writeAnnexB_from_Cons simp del: writeAnnexB_from.simps)
qed simp

lemma read_units_writeAnnexB:
  assumes "views bs (fst (writeAnnexB_from first au))" and "au \<noteq> []"
    and "\<forall>(t, d) \<in> set au. nal_data_ok d"
  shows "read_units (length au) bs = map (\<lambda>(t, d). (False, d)) (butlast au) @ [(True, snd (last au))]"
  using assms
proof (induction au arbitrary: first bs)
  case (Cons u au)
  obtain t d where u: "u = (t, d)" by fastforce
  have d: "start_code_free d" "d \<noteq> []" "last d \<noteq> 0" using Cons.prems(3) by (auto simp: u nal_data_ok_def)
  note v = Cons.prems(1) [unfolded u writeAnnexB_from_Cons]
  show ?case
  proof (cases au)
    case Nil
    with v have "views bs (replicate (of_bool (long_start_code first t)) 0 @ [0, 0, 1] @ d)" by simp
    from byteStreamNALUnit_last [OF this d(1)] show ?thesis by (auto simp: u Nil)
  next
    case (Cons w au')
    obtain t' d' where w: "w = (t', d')" by fastforce
    let ?j = "of_bool (long_start_code False t') :: nat"
    have rest: "fst (writeAnnexB_from False au) =
        replicate ?j 0 @ [0, 0, 1] @ d' @ fst (writeAnnexB_from False au')"
      by (simp only: Cons w writeAnnexB_from_Cons)
    from byteStreamNALUnit_next [OF v [unfolded rest] d(1)] d obtain bs' where
      bs': "views bs' (replicate (min ?j 1) 0 @ [0, 0, 1] @ d' @ fst (writeAnnexB_from False au'))"
        "byteStreamNALUnit (annexb_start bs) = (False, \<lparr>ab_bs = bs', ab_nalUnit = d,
           ab_stats = unit_stats (of_bool (long_start_code first t)) d ?j\<rparr>)" by blast
    have "min ?j 1 = ?j" by simp
    with bs'(1) have "views bs' (fst (writeAnnexB_from False au))" by (simp only: rest)
    from Cons.IH [OF this] Cons.prems(3) bs'(2) show ?thesis by (simp add: Cons u)
  qed
qed simp

lemma emulation_loop_bytes_ok: "bytes_ok p \<Longrightarrow> bytes_ok (fst (emulation_loop p z))"
  by (induction p z rule: emulation_loop.induct) (auto simp: Let_def split: prod.splits)

lemma NAL_write_data_ok:
  assumes "header_ok n" and "bytes_ok p"
  shows "nal_data_ok (header_bytes n @ write_payload p)"
proof -
  let ?h = "8 * nalUnitTypeValue (m_nalUnitType n) + (m_temporalId n + 1)"
  have "m_nuhLayerId n < 256" "?h < 256" "?h \<noteq> 0"
    using assms(1) nalUnitTypeValue_valid [of "m_nalUnitType n"] by (auto simp: header_ok_def)
  moreover have "start_code_free (m_nuhLayerId n # ?h # write_payload p)"
    using start_code_free_zero_nonzero write_payload_start_code_free by auto
  moreover have "bytes_ok (write_payload p)"
    using emulation_loop_bytes_ok [OF assms(2), of 0] by (auto simp: write_payload_def split: prod.splits)
  ultimately show ?thesis using write_payload_last [of p]
    by (auto simp: nal_data_ok_def header_bytes_def)
qed

subsection \<open>From RBSP to byte stream and back\<close>

text \<open>A payload as the syntax writers leave it: whole bytes, the last of which holds the stop bit.\<close>

definition rbsp_ok :: "nat list \<Rightarrow> bool" where
  "rbsp_ok p \<longleftrightarrow> bytes_ok p \<and> p \<noteq> [] \<and> last p \<noteq> 0"

lemma NAL_read_write:
  assumes "header_ok n" and "rbsp_ok p"
  shows "\<exists>s. NAL_read (InputBitstream_new (header_bytes n @ write_payload p)) =
      Some (n\<lparr>m_forbiddenZeroBit := 0, m_nuhReservedZeroBit := 0\<rparr>, s)
    \<and> in_inv s \<and> bits_in s = bytes_bits p"
proof -
  have p: "bytes_ok p" "payload_read p = p"
    using assms(2) by (auto simp: rbsp_ok_def intro: payload_read_id)
  from NAL_roundtrip [OF assms(1) p(1)] show ?thesis unfolding p(2) by metis
qed

lemma list_all2_butlast_last:
  assumes "us \<noteq> []" and "\<And>u. u \<in> set us \<Longrightarrow> P u (f u)" and "\<And>u. u \<in> set us \<Longrightarrow> P u (g u)"
  shows "list_all2 P us (map f (butlast us) @ [g (last us)])"
  using assms by (induction us) (auto simp: list_all2_map2)

lemma those_Some: "(\<And>x. x \<in> set xs \<Longrightarrow> f x = Some (g x)) \<Longrightarrow> those (map f xs) = Some (map g xs)"
  by (induction xs) auto

definition ebsp_of :: "NALUnit \<times> OutputBitstream \<Rightarrow> NALUnitEBSP" where
  "ebsp_of = (\<lambda>(n, ob). (m_nalUnitType n, header_bytes n @ write_payload (o_fifo ob)))"

lemma NALUnitEBSP_new_ok: "header_ok (fst u) \<Longrightarrow> NALUnitEBSP_new u = Some (ebsp_of u)"
  by (cases u) (simp add: NALUnitEBSP_new_def ebsp_of_def NAL_write_ok)

lemma byte_stream_units:
  assumes "us \<noteq> []" and "\<forall>(n, ob) \<in> set us. header_ok n \<and> rbsp_ok (o_fifo ob)"
  shows "those (map NALUnitEBSP_new us) = Some (map ebsp_of us)"
    and "read_units (length us) (InputByteStream_new (fst (writeAnnexB (map ebsp_of us)))) =
      map (\<lambda>u. (False, snd (ebsp_of u))) (butlast us) @ [(True, snd (ebsp_of (last us)))]"
proof -
  show "those (map NALUnitEBSP_new us) = Some (map ebsp_of us)"
    by (rule those_Some) (use assms(2) in \<open>fastforce intro: NALUnitEBSP_new_ok\<close>)
  have ok: "\<forall>(t, d) \<in> set (map ebsp_of us). nal_data_ok d"
    using assms(2) by (auto simp: ebsp_of_def rbsp_ok_def intro!: NAL_write_data_ok)
  then have "\<forall>(t, d) \<in> set (map ebsp_of us). bytes_ok d" by (fastforce simp: nal_data_ok_def)
  then have "views (InputByteStream_new (fst (writeAnnexB (map ebsp_of us)))) (fst (writeAnnexB_from True (map ebsp_of us)))"
    by (simp add: writeAnnexB_def views_new writeAnnexB_from_bytes_ok del: writeAnnexB_from.simps)
  from read_units_writeAnnexB [OF this _ ok] assms(1)
  show "read_units (length us) (InputByteStream_new (fst (writeAnnexB (map ebsp_of us)))) =
      map (\<lambda>u. (False, snd (ebsp_of u))) (butlast us) @ [(True, snd (ebsp_of (last us)))]"
    by (simp add: map_butlast last_map case_prod_beta flip: map_butlast)
qed

end
