(* ===== verification/Vlc.thy ===== *)
theory Vlc
  imports BitStreams
begin

section \<open>Fixed-length and Exp-Golomb codes: \<^verbatim>\<open>VLCWriter\<close> and \<^verbatim>\<open>VLCReader\<close>\<close>

text \<open>
  The descriptors \<^verbatim>\<open>u(n)\<close>, \<^verbatim>\<open>u(1)\<close>, \<^verbatim>\<open>ue(v)\<close> and \<^verbatim>\<open>se(v)\<close> of
  \<^verbatim>\<open>EncoderLib/VLCWriter.cpp\<close> and \<^verbatim>\<open>DecoderLib/VLCReader.cpp\<close>, the RBSP trailing bits and the
  access unit delimiter.  The locale \<open>syntax_element\<close> is the contract every coded element
  keeps with its parser: the writer appends a code word, and the parser, put on any stream that
  starts with the code word, returns the value and stops right behind it.  Its lemmas (the
  round trip through real streams, prefix-freeness, sequences) are proved once and used for
  every descriptor and for the structures built from them.
\<close>

subsection \<open>Writers\<close>

definition xWriteCode :: "nat \<Rightarrow> nat \<Rightarrow> OutputBitstream \<Rightarrow> OutputBitstream option" where
  "xWriteCode uiCode uiLength s =
     (if uiLength = 0 then None else OutputBitstream_write uiCode uiLength s)"

text \<open>
  The loop \<^verbatim>\<open>while( 1 != uiTemp )\<close> of \<^verbatim>\<open>xWriteUvlc\<close>; the value 0, for which the C++ loop does not
  end, is refused by the \<^verbatim>\<open>CHECK\<close> in front of it.
\<close>

function uvlc_length :: "nat \<Rightarrow> nat \<Rightarrow> nat" where
  "uvlc_length uiTemp uiLength =
     (if uiTemp \<le> 1 then uiLength else uvlc_length (drop_bit 1 uiTemp) (uiLength + 2))"
  by pat_completeness auto
termination
  by (relation "measure fst") (auto simp: drop_bit_eq_div)

declare uvlc_length.simps [simp del]

definition xWriteUvlc :: "nat \<Rightarrow> OutputBitstream \<Rightarrow> OutputBitstream option" where
  "xWriteUvlc uiCode0 s =
     (let uiCode = u32 (uiCode0 + 1)
      in if uiCode = 0 then None
         else let uiLength = uvlc_length uiCode 1
              in do {
                s \<leftarrow> OutputBitstream_write 0 (drop_bit 1 uiLength) s;
                OutputBitstream_write uiCode (drop_bit 1 (uiLength + 1)) s })"

definition xWriteSvlc :: "int \<Rightarrow> OutputBitstream \<Rightarrow> OutputBitstream option" where
  "xWriteSvlc iCode s =
     xWriteUvlc (nat ((if iCode \<le> 0 then 2 * (- iCode) else 2 * iCode - 1) mod 2 ^ 32)) s"

definition xWriteFlag :: "nat \<Rightarrow> OutputBitstream \<Rightarrow> OutputBitstream option" where
  "xWriteFlag uiCode s = OutputBitstream_write uiCode 1 s"

text \<open>
  \<^verbatim>\<open>while (getNumBitsUntilByteAligned()) WRITE_FLAG(0)\<close>.  At most seven rounds are needed;
  the fuel of 8 is the \<^verbatim>\<open>CHECK(cnt >= 8)\<close> behind the loop.
\<close>

fun align_zero_flags :: "nat \<Rightarrow> OutputBitstream \<Rightarrow> OutputBitstream option" where
  "align_zero_flags 0 s = None"
| "align_zero_flags (Suc cnt) s =
     (if OutputBitstream_getNumBitsUntilByteAligned s \<noteq> 0
      then do { s \<leftarrow> xWriteFlag 0 s; align_zero_flags cnt s }
      else Some s)"

definition xWriteRbspTrailingBits :: "OutputBitstream \<Rightarrow> OutputBitstream option" where
  "xWriteRbspTrailingBits s = do { s \<leftarrow> xWriteFlag 1 s; align_zero_flags 8 s }"

definition codeAUD :: "nat \<Rightarrow> OutputBitstream \<Rightarrow> OutputBitstream option" where
  "codeAUD pictureType s =
     (if pictureType \<ge> 3 then None
      else do { s \<leftarrow> xWriteCode pictureType 3 s; xWriteRbspTrailingBits s })"

subsection \<open>Readers\<close>

definition xReadCode :: "nat \<Rightarrow> InputBitstream \<Rightarrow> (nat \<times> InputBitstream) option" where
  "xReadCode uiLength s = (if uiLength = 0 then None else InputBitstream_read uiLength s)"

lemma read1_decreases:
  "InputBitstream_read 1 s = Some (b, s') \<Longrightarrow> length (bits_in s') < length (bits_in s)"
  by (auto simp: InputBitstream_read_def Let_def length_bits_in split: if_splits)

text \<open>The loop \<^verbatim>\<open>while( !( uiCode & 1 ) )\<close> shared by \<^verbatim>\<open>xReadUvlc\<close> and \<^verbatim>\<open>xReadSvlc\<close>.\<close>

function vlc_prefix :: "nat \<Rightarrow> nat \<Rightarrow> InputBitstream \<Rightarrow> (nat \<times> InputBitstream) option" where
  "vlc_prefix uiCode uiLength s =
     (if uiCode AND 1 = 0
      then (case InputBitstream_read 1 s of
              None \<Rightarrow> None
            | Some (uiCode', s') \<Rightarrow> vlc_prefix uiCode' (u32 (uiLength + 1)) s')
      else Some (uiLength, s))"
  by pat_completeness auto
termination
  by (relation "measure (\<lambda>(c, l, s). length (bits_in s))") (auto dest: read1_decreases [unfolded One_nat_def])

declare vlc_prefix.simps [simp del]

definition xReadUvlc :: "InputBitstream \<Rightarrow> (nat \<times> InputBitstream) option" where
  "xReadUvlc s = do {
     (uiCode, s) \<leftarrow> InputBitstream_read 1 s;
     if uiCode = 0
     then do {
       (uiLength, s) \<leftarrow> vlc_prefix uiCode 0 s;
       (uiVal, s) \<leftarrow> InputBitstream_read uiLength s;
       Some (u32 (uiVal + sub32 (u32 (push_bit uiLength 1)) 1), s) }
     else Some (0, s) }"

definition xReadSvlc :: "InputBitstream \<Rightarrow> (int \<times> InputBitstream) option" where
  "xReadSvlc s = do {
     (uiBits, s) \<leftarrow> InputBitstream_read 1 s;
     if uiBits = 0
     then do {
       (uiLength, s) \<leftarrow> vlc_prefix uiBits 0 s;
       (uiBits, s) \<leftarrow> InputBitstream_read uiLength s;
       let uiBits = u32 (uiBits + u32 (push_bit uiLength 1));
       Some (if uiBits AND 1 \<noteq> 0 then - int (drop_bit 1 uiBits) else int (drop_bit 1 uiBits), s) }
     else Some (0, s) }"

definition xReadFlag :: "InputBitstream \<Rightarrow> (nat \<times> InputBitstream) option" where
  "xReadFlag s = InputBitstream_read 1 s"

fun read_align_zero_flags :: "nat \<Rightarrow> InputBitstream \<Rightarrow> InputBitstream option" where
  "read_align_zero_flags 0 s = None"
| "read_align_zero_flags (Suc cnt) s =
     (if InputBitstream_getNumBitsUntilByteAligned s \<noteq> 0
      then do {
        (bit, s) \<leftarrow> xReadFlag s;
        if bit \<noteq> 0 then None else read_align_zero_flags cnt s }
      else Some s)"

definition xReadRbspTrailingBits :: "InputBitstream \<Rightarrow> InputBitstream option" where
  "xReadRbspTrailingBits s = do {
     (bit, s) \<leftarrow> xReadFlag s;
     if bit \<noteq> 1 then None else read_align_zero_flags 8 s }"

definition parseAccessUnitDelimiter :: "InputBitstream \<Rightarrow> (nat \<times> InputBitstream) option" where
  "parseAccessUnitDelimiter s = do {
     (picType, s) \<leftarrow> xReadCode 3 s;
     s \<leftarrow> xReadRbspTrailingBits s;
     Some (picType, s) }"

function read_ff_bytes :: "nat \<Rightarrow> InputBitstream \<Rightarrow> (nat \<times> InputBitstream) option" where
  "read_ff_bytes fdSize s =
     (if getNumBitsLeft s > 8
      then (case InputBitstream_read 8 s of
              None \<Rightarrow> None
            | Some (ffByte, s') \<Rightarrow>
                if ffByte \<noteq> 255 then None else read_ff_bytes (u32 (fdSize + 1)) s')
      else Some (fdSize, s))"
  by pat_completeness auto
termination
proof (relation "measure (\<lambda>(n, s). length (bits_in s))", goal_cases)
  case (2 fdSize s p ffByte s')
  then show ?case
    by (auto simp: InputBitstream_read_def Let_def length_bits_in split: if_splits)
qed simp

declare read_ff_bytes.simps [simp del]

definition parseFillerData :: "InputBitstream \<Rightarrow> (nat \<times> InputBitstream) option" where
  "parseFillerData s = do {
     (fdSize, s) \<leftarrow> read_ff_bytes 0 s;
     s \<leftarrow> xReadRbspTrailingBits s;
     Some (fdSize, s) }"

subsection \<open>The contract between a writer and its parser\<close>

locale syntax_element =
  fixes enc :: "'v \<Rightarrow> OutputBitstream \<Rightarrow> OutputBitstream option"
    and dec :: "InputBitstream \<Rightarrow> ('v \<times> InputBitstream) option"
    and code :: "'v \<Rightarrow> bool list"
    and valid :: "'v \<Rightarrow> bool"
  assumes enc_law: "valid v \<Longrightarrow> out_inv s \<Longrightarrow>
      \<exists>s'. enc v s = Some s' \<and> out_inv s' \<and> bits_out s' = bits_out s @ code v"
    and dec_law: "valid v \<Longrightarrow> in_inv i \<Longrightarrow> bits_in i = code v @ rest \<Longrightarrow>
      \<exists>i'. dec i = Some (v, i') \<and> in_inv i' \<and> bits_in i' = rest"
begin

lemma enc_obtain:
  assumes "valid v" and "out_inv s"
  obtains s' where "enc v s = Some s'" and "out_inv s'" and "bits_out s' = bits_out s @ code v"
  using enc_law [OF assms] by blast

lemma dec_obtain:
  assumes "valid v" and "in_inv i" and "bits_in i = code v @ rest"
  obtains i' where "dec i = Some (v, i')" and "in_inv i'" and "bits_in i' = rest"
  using dec_law [OF assms] by blast

text \<open>What was appended to a stream is parsed back, wherever it ends up in a byte buffer.\<close>

lemma roundtrip:
  assumes "valid v" and "out_inv s" and "enc v s = Some s'"
    and "in_inv i" and "bits_in i = drop (length (bits_out s)) (bits_out s') @ rest"
  shows "\<exists>i'. dec i = Some (v, i') \<and> in_inv i' \<and> bits_in i' = rest"
proof -
  from enc_law [OF assms(1,2)] assms(3) have "bits_out s' = bits_out s @ code v" by auto
  with dec_law [OF assms(1,4)] assms(5) show ?thesis by simp
qed

lemma code_prefix_free:
  assumes "valid v" and "valid w" and "code v @ r = code w @ r'"
  shows "v = w"
proof -
  let ?bs = "code v @ r" and ?pad = "replicate ((8 - length (code v @ r) mod 8) mod 8) False"
  have "length (?bs @ ?pad) mod 8 = 0" using pad8 [of "length ?bs"] by (simp add: add.assoc)
  from bytes_of_bits [OF this] obtain buf where
    buf: "bytes_ok buf" "bytes_bits buf = ?bs @ ?pad" .
  let ?i = "InputBitstream_new buf"
  have "bits_in ?i = code v @ (r @ ?pad)" "bits_in ?i = code w @ (r' @ ?pad)"
    using buf(2) assms(3) by simp_all
  moreover have "in_inv ?i" using buf(1) by simp
  ultimately show ?thesis
    using dec_law [OF assms(1)] dec_law [OF assms(2)] by (metis option.inject prod.inject)
qed

end


subsection \<open>Code words\<close>

definition ue_code :: "nat \<Rightarrow> bool list" where
  "ue_code v = replicate (ilog2 (v + 1)) False @ bitsBE (ilog2 (v + 1) + 1) (v + 1)"

definition se_map :: "int \<Rightarrow> nat" where
  "se_map i = nat (if i \<le> 0 then 2 * (- i) else 2 * i - 1)"

lemma uvlc_length_ilog2: "uvlc_length t l = l + 2 * ilog2 t"
proof (induction t l rule: uvlc_length.induct)
  case (1 t l)
  then show ?case
    by (cases "t \<le> 1") (simp_all add: uvlc_length.simps [of t l] ilog2.simps [of t] drop_bit_eq_div)
qed

lemma ilog2_less:
  assumes "0 < n" and "n < 2 ^ k"
  shows "ilog2 n < k"
proof (rule ccontr)
  assume "\<not> ilog2 n < k"
  then have "(2::nat) ^ k \<le> 2 ^ ilog2 n" by (intro power_increasing) auto
  with ilog2_bounds(1) [OF assms(1)] assms(2) show False by linarith
qed

lemma xWriteUvlc_ok:
  assumes "v < 2 ^ 32 - 1" and "out_inv s"
  shows "\<exists>s'. xWriteUvlc v s = Some s' \<and> out_inv s' \<and> bits_out s' = bits_out s @ ue_code v"
proof -
  let ?k = "ilog2 (v + 1)"
  have k: "?k < 32" using ilog2_less [of "v + 1" 32] assms(1) by simp
  have u: "u32 (v + 1) = v + 1" using assms(1) by (simp add: u32_id)
  obtain s1 where s1: "OutputBitstream_write 0 ?k s = Some s1" "out_inv s1"
      "bits_out s1 = bits_out s @ replicate ?k False"
    using write_ok [OF assms(2), of 0 ?k] k by auto
  obtain s2 where "OutputBitstream_write (v + 1) (?k + 1) s1 = Some s2" "out_inv s2"
      "bits_out s2 = bits_out s1 @ bitsBE (?k + 1) (v + 1)"
    using write_ok [OF s1(2), of "v + 1" "?k + 1"] ilog2_bounds(2) [of "v + 1"] k by auto
  with s1 u show ?thesis
    by (simp add: xWriteUvlc_def Let_def uvlc_length_ilog2 drop_bit_eq_div ue_code_def
        del: bitsBE.simps)
qed

lemma vlc_prefix_ok:
  assumes "in_inv s" and "bits_in s = replicate k False @ True # rest" and "l + k < 2 ^ 32 - 1"
  shows "\<exists>s'. vlc_prefix 0 l s = Some (l + k + 1, s') \<and> in_inv s' \<and> bits_in s' = rest"
  using assms
proof (induction k arbitrary: s l)
  case 0
  then obtain s' where "InputBitstream_read (Suc 0) s = Some (1, s')" "in_inv s'" "bits_in s' = rest"
    using read_bit [of s True rest] by auto
  then show ?case using 0(3)
    by (simp add: vlc_prefix.simps [of 0] vlc_prefix.simps [of "Suc 0"] u32_id)
next
  case (Suc k)
  then have "bits_in s = False # replicate k False @ True # rest" by simp
  from read_bit [OF Suc.prems(1) this] obtain s1 where
    "InputBitstream_read (Suc 0) s = Some (0, s1)" "in_inv s1"
    "bits_in s1 = replicate k False @ True # rest"
    by auto
  moreover from this obtain s' where "vlc_prefix 0 (l + 1) s1 = Some (l + 1 + k + 1, s')"
      "in_inv s'" "bits_in s' = rest"
    using Suc.IH [of s1 "l + 1"] Suc.prems(3) by auto
  ultimately show ?case using Suc.prems(3)
    by (simp add: vlc_prefix.simps [of 0] u32_id)
qed

lemma ue_code_cases:
  obtains (zero) "v = 0" and "ue_code v = [True]"
  | (pos) k where "k = ilog2 (v + 1)" and "0 < k" and "0 < v"
      and "ue_code v = False # replicate (k - 1) False @ True # bitsBE k (v + 1 - 2 ^ k)"
      and "v + 1 - 2 ^ k < 2 ^ k" and "2 ^ k \<le> v + 1"
proof (cases "v = 0")
  case True
  then show ?thesis using zero by (simp add: ue_code_def ilog2.simps)
next
  case False
  let ?k = "ilog2 (v + 1)"
  have k: "0 < ?k" using False by (subst ilog2.simps) simp
  note b = ilog2_bounds [of "v + 1"]
  have "(v + 1) div 2 ^ ?k = 1"
    using b by (intro div_nat_eqI) auto
  moreover have "(v + 1) mod 2 ^ ?k = v + 1 - 2 ^ ?k"
    using b by (simp add: mod_if)
  ultimately have "bitsBE (1 + ?k) (v + 1) = True # bitsBE ?k (v + 1 - 2 ^ ?k)"
    using bitsBE_add [of 1 ?k "v + 1"] bitsBE_mod [of ?k ?k "v + 1"] by simp
  moreover have "replicate ?k False = False # replicate (?k - 1) False"
    using k by (cases ?k) auto
  ultimately have "ue_code v = False # replicate (?k - 1) False @ True # bitsBE ?k (v + 1 - 2 ^ ?k)"
    by (simp add: ue_code_def)
  with pos k False b show ?thesis by simp
qed

text \<open>What both Exp-Golomb parsers do up to the suffix.\<close>

lemma vlc_suffix_ok:
  assumes "0 < k" and "k < 32" and "in_inv s" and "x < 2 ^ k"
    and "bits_in s = False # replicate (k - 1) False @ True # bitsBE k x @ rest"
  obtains s1 s2 s3 where "InputBitstream_read (Suc 0) s = Some (0, s1)"
    and "vlc_prefix 0 0 s1 = Some (k, s2)" and "InputBitstream_read k s2 = Some (x, s3)"
    and "in_inv s3" and "bits_in s3 = rest"
proof -
  obtain s1 where s1: "InputBitstream_read (Suc 0) s = Some (0, s1)" "in_inv s1"
      "bits_in s1 = replicate (k - 1) False @ True # bitsBE k x @ rest"
    using read_bit [OF assms(3,5)] by auto
  obtain s2 where s2: "vlc_prefix 0 0 s1 = Some (k, s2)" "in_inv s2" "bits_in s2 = bitsBE k x @ rest"
  proof -
    have "0 + (k - 1) < 2 ^ 32 - 1" "0 + (k - 1) + 1 = k" using assms(1,2) by simp_all
    with vlc_prefix_ok [OF s1(2,3), of 0] that show ?thesis by metis
  qed
  obtain s3 where "InputBitstream_read k s2 = Some (x, s3)" "in_inv s3" "bits_in s3 = rest"
    using read_ok [OF s2(2), of k "bitsBE k x" rest] s2(3) assms by (auto simp: valBE_bitsBE)
  with that s1 s2 show ?thesis by blast
qed

lemma xReadUvlc_ok:
  assumes "v < 2 ^ 32 - 1" and "in_inv s" and "bits_in s = ue_code v @ rest"
  shows "\<exists>s'. xReadUvlc s = Some (v, s') \<and> in_inv s' \<and> bits_in s' = rest"
proof (cases v rule: ue_code_cases)
  case zero
  obtain s' where "InputBitstream_read (Suc 0) s = Some (1, s')" "in_inv s'" "bits_in s' = rest"
    using read_bit [of s True rest] assms(2,3) zero(2) by auto
  with zero show ?thesis by (simp add: xReadUvlc_def)
next
  case (pos k)
  have k: "k < 32" using ilog2_less [of "v + 1" 32] assms(1) pos(1) by simp
  then have "(2::nat) ^ k < 2 ^ 32" by (intro power_strict_increasing) auto
  then have "u32 (v + 1 - 2 ^ k + sub32 (u32 (push_bit k 1)) 1) = v"
    using pos(6) assms(1) by (simp add: u32_id sub32_id)
  moreover have "bits_in s
      = False # replicate (k - 1) False @ True # bitsBE k (v + 1 - 2 ^ k) @ rest"
    using assms(3) pos(4) by simp
  from vlc_suffix_ok [OF pos(2) k assms(2) pos(5) this]
  obtain s1 s2 s3 where "InputBitstream_read (Suc 0) s = Some (0, s1)"
    "vlc_prefix 0 0 s1 = Some (k, s2)" "InputBitstream_read k s2 = Some (v + 1 - 2 ^ k, s3)"
    "in_inv s3" "bits_in s3 = rest" .
  ultimately show ?thesis by (simp add: xReadUvlc_def)
qed


lemma se_map_less: "\<bar>i\<bar> < 2 ^ 31 \<Longrightarrow> se_map i < 2 ^ 32 - 1"
  by (auto simp: se_map_def)

lemma xWriteSvlc_eq: "\<bar>i\<bar> < 2 ^ 31 \<Longrightarrow> xWriteSvlc i s = xWriteUvlc (se_map i) s"
  by (auto simp: xWriteSvlc_def se_map_def)

lemma se_unmap:
  assumes "i \<noteq> 0"
  defines "b \<equiv> se_map i + 1"
  shows "i = (if odd b then - int (b div 2) else int (b div 2))"
proof (cases "i \<le> 0")
  case True
  then obtain n where "i = - int n" by (metis int_nat_eq minus_equation_iff nat_0_le neg_0_le_iff_le)
  then show ?thesis by (auto simp: b_def se_map_def nat_mult_distrib)
next
  case False
  then obtain n where "i = int (Suc n)" by (metis not_le pos_int_cases gr0_implies_Suc)
  moreover from this have "2 * i - 1 = int (2 * n + 1)" by simp
  then have "nat (2 * i - 1) = 2 * n + 1" by (simp only: nat_int)
  ultimately show ?thesis by (simp add: b_def se_map_def)
qed

lemma xReadSvlc_ok:
  assumes "\<bar>i\<bar> < 2 ^ 31" and "in_inv s" and "bits_in s = ue_code (se_map i) @ rest"
  shows "\<exists>s'. xReadSvlc s = Some (i, s') \<and> in_inv s' \<and> bits_in s' = rest"
proof (cases "se_map i" rule: ue_code_cases)
  case zero
  then have "i = 0" by (auto simp: se_map_def split: if_splits)
  moreover obtain s' where "InputBitstream_read (Suc 0) s = Some (1, s')" "in_inv s'" "bits_in s' = rest"
    using read_bit [of s True rest] assms(2,3) zero(2) by auto
  ultimately show ?thesis by (simp add: xReadSvlc_def)
next
  case (pos k)
  define b where "b = se_map i + 1"
  have lt: "b < 2 ^ 32" using se_map_less [OF assms(1)] by (simp add: b_def)
  then have k: "k < 32" using ilog2_less [of b 32] pos(1) by (simp add: b_def)
  then have "(2::nat) ^ k < 2 ^ 32" by (intro power_strict_increasing) auto
  then have u: "u32 (b - 2 ^ k + u32 (push_bit k 1)) = b"
    using pos(6) lt by (simp add: u32_id b_def)
  have "bits_in s = False # replicate (k - 1) False @ True # bitsBE k (b - 2 ^ k) @ rest"
    using assms(3) pos(4) by (simp add: b_def)
  from vlc_suffix_ok [OF pos(2) k assms(2) pos(5) [folded b_def] this]
  obtain s1 s2 s3 where "InputBitstream_read (Suc 0) s = Some (0, s1)"
    "vlc_prefix 0 0 s1 = Some (k, s2)" "InputBitstream_read k s2 = Some (b - 2 ^ k, s3)"
    "in_inv s3" "bits_in s3 = rest" .
  moreover have "i \<noteq> 0" using pos(3) by (auto simp: se_map_def)
  note se_unmap [OF this, folded b_def]
  ultimately show ?thesis using u
    by (simp add: xReadSvlc_def Let_def drop_bit_eq_div and_one_eq odd_iff_mod_2_eq_one split: if_splits)
qed


subsection \<open>The descriptors keep the contract\<close>

interpretation u_n: syntax_element "\<lambda>v. xWriteCode v n" "xReadCode n" "bitsBE n"
  "\<lambda>v. 0 < n \<and> n \<le> 32 \<and> v < 2 ^ n" for n
proof unfold_locales
  fix v :: nat and s assume "0 < n \<and> n \<le> 32 \<and> v < 2 ^ n" "out_inv s"
  then show "\<exists>s'. xWriteCode v n s = Some s' \<and> out_inv s' \<and> bits_out s' = bits_out s @ bitsBE n v"
    using write_ok [of s v n] by (auto simp: xWriteCode_def)
next
  fix v :: nat and i rest assume "0 < n \<and> n \<le> 32 \<and> v < 2 ^ n" "in_inv i" "bits_in i = bitsBE n v @ rest"
  then show "\<exists>i'. xReadCode n i = Some (v, i') \<and> in_inv i' \<and> bits_in i' = rest"
    using read_ok [of i n "bitsBE n v" rest] by (auto simp: xReadCode_def valBE_bitsBE)
qed

lemma xReadFlag_ok:
  assumes "in_inv i" and "bits_in i = b # rest"
  obtains i' where "xReadFlag i = Some (of_bool b, i')" and "in_inv i'" and "bits_in i' = rest"
  using read_bit [OF assms] by (auto simp: xReadFlag_def)

interpretation flag: syntax_element "\<lambda>b. xWriteFlag (of_bool b)"
  "\<lambda>i. map_option (\<lambda>(c, i). (c \<noteq> 0, i)) (xReadFlag i)" "\<lambda>b. [b]" "\<lambda>_. True"
proof unfold_locales
  fix b s assume "out_inv s"
  then show "\<exists>s'. xWriteFlag (of_bool b) s = Some s' \<and> out_inv s' \<and> bits_out s' = bits_out s @ [b]"
    using write_ok [of s "of_bool b" 1] by (cases b) (auto simp: xWriteFlag_def)
next
  fix b i rest assume i: "in_inv i" "bits_in i = [b] @ rest"
  then obtain i' where "xReadFlag i = Some (of_bool b, i')" "in_inv i'" "bits_in i' = rest"
    using xReadFlag_ok [of i b rest] by auto
  then show "\<exists>i'. map_option (\<lambda>(c, i). (c \<noteq> 0, i)) (xReadFlag i) = Some (b, i') \<and> in_inv i'
      \<and> bits_in i' = rest"
    by simp
qed

interpretation ue: syntax_element xWriteUvlc xReadUvlc ue_code "\<lambda>v. v < 2 ^ 32 - 1"
  by unfold_locales (use xWriteUvlc_ok xReadUvlc_ok in blast)+

interpretation se: syntax_element xWriteSvlc xReadSvlc "\<lambda>i. ue_code (se_map i)" "\<lambda>i. \<bar>i\<bar> < 2 ^ 31"
proof unfold_locales
  fix i s assume "\<bar>i\<bar> < (2::int) ^ 31" "out_inv s"
  then show "\<exists>s'. xWriteSvlc i s = Some s' \<and> out_inv s' \<and> bits_out s' = bits_out s @ ue_code (se_map i)"
    using xWriteUvlc_ok [OF se_map_less] by (simp add: xWriteSvlc_eq)
qed (use xReadSvlc_ok in blast)

subsection \<open>Trailing bits\<close>

lemma align_zero_flags_ok:
  assumes "out_inv s" and "r = (8 - length (bits_out s) mod 8) mod 8" and "r < cnt"
  shows "\<exists>s'. align_zero_flags cnt s = Some s' \<and> out_inv s'
    \<and> bits_out s' = bits_out s @ replicate r False"
  using assms
proof (induction r arbitrary: s cnt)
  case 0
  then show ?case
    by (cases cnt) (simp_all add: NumBitsUntilByteAligned_eq out_held_mod)
next
  case (Suc r)
  then obtain c where c: "cnt = Suc c" "r < c" by (cases cnt) auto
  obtain s1 where s1: "xWriteFlag 0 s = Some s1" "out_inv s1" "bits_out s1 = bits_out s @ [False]"
    using flag.enc_law [OF _ Suc.prems(1), of False] by auto
  have "length (bits_out s) mod 8 \<noteq> 0" using Suc.prems(2) by (intro notI) simp
  then have "Suc r = 8 - length (bits_out s) mod 8" using Suc.prems(2) by simp
  then have "r = (8 - length (bits_out s1) mod 8) mod 8"
    using s1(3) by (auto simp: mod_Suc)
  from Suc.IH [OF s1(2) this c(2)] obtain s' where "align_zero_flags c s1 = Some s'" "out_inv s'"
      "bits_out s' = bits_out s1 @ replicate r False" by blast
  moreover have "OutputBitstream_getNumBitsUntilByteAligned s \<noteq> 0"
    using Suc.prems(1,2) by (simp add: NumBitsUntilByteAligned_eq out_held_mod)
  ultimately show ?case using c(1) s1 by simp
qed

lemma xWriteRbspTrailingBits_ok:
  assumes "out_inv s"
  obtains s' where "xWriteRbspTrailingBits s = Some s'" and "out_inv s'"
    and "bits_out s' = bits_out s @ True # replicate (7 - length (bits_out s) mod 8) False"
proof -
  obtain s1 where s1: "xWriteFlag 1 s = Some s1" "out_inv s1" "bits_out s1 = bits_out s @ [True]"
    using flag.enc_law [OF _ assms, of True] by auto
  have "(8 - length (bits_out s1) mod 8) mod 8 = 7 - length (bits_out s) mod 8"
    using s1(3) by (simp add: mod_Suc)
  with align_zero_flags_ok [OF s1(2) refl, of 8] s1 that show ?thesis
    by (auto simp: xWriteRbspTrailingBits_def simp del: align_zero_flags.simps)
qed

lemma read_align_zero_flags_ok:
  assumes "in_inv i" and "bits_in i = replicate r False @ rest" and "length rest mod 8 = 0"
    and "r < 8" and "r < cnt"
  shows "\<exists>i'. read_align_zero_flags cnt i = Some i' \<and> in_inv i' \<and> bits_in i' = rest"
  using assms
proof (induction r arbitrary: i cnt)
  case 0
  then show ?case by (cases cnt) (simp_all add: in_aligned_iff)
next
  case (Suc r)
  then obtain c where c: "cnt = Suc c" "r < c" by (cases cnt) auto
  have "bits_in i = False # replicate r False @ rest" using Suc.prems(2) by simp
  from xReadFlag_ok [OF Suc.prems(1) this] obtain i1 where
    i1: "xReadFlag i = Some (0, i1)" "in_inv i1" "bits_in i1 = replicate r False @ rest" by auto
  from Suc.IH [OF this(2,3) Suc.prems(3) _ c(2)] Suc.prems(4)
  have "\<exists>i'. read_align_zero_flags c i1 = Some i' \<and> in_inv i' \<and> bits_in i' = rest" by simp
  moreover have "InputBitstream_getNumBitsUntilByteAligned i \<noteq> 0"
  proof -
    have "(Suc r + length rest) mod 8 = Suc r"
      using Suc.prems(3,4) by (metis add_0_right mod_add_right_eq mod_less)
    then show ?thesis using Suc.prems(1,2) by (simp add: in_aligned_iff)
  qed
  ultimately show ?case using c(1) i1(1) by simp
qed

lemma xReadRbspTrailingBits_ok:
  assumes "in_inv i" and "bits_in i = True # replicate r False @ rest"
    and "length rest mod 8 = 0" and "r < 8"
  obtains i' where "xReadRbspTrailingBits i = Some i'" and "in_inv i'" and "bits_in i' = rest"
proof -
  from xReadFlag_ok [OF assms(1,2)] obtain i1 where
    i1: "xReadFlag i = Some (1, i1)" "in_inv i1" "bits_in i1 = replicate r False @ rest" by auto
  from read_align_zero_flags_ok [OF this(2,3) assms(3,4), of 8] assms(4) i1(1) that
  show ?thesis by (auto simp: xReadRbspTrailingBits_def simp del: read_align_zero_flags.simps)
qed


subsection \<open>Access unit delimiter\<close>

definition aud_code :: "nat \<Rightarrow> bool list" where
  "aud_code picType = bitsBE 3 picType @ True # replicate 4 False"

lemma codeAUD_ok:
  assumes "picType < 3" and "out_inv s" and "length (bits_out s) mod 8 = 0"
  obtains s' where "codeAUD picType s = Some s'" and "out_inv s'"
    and "bits_out s' = bits_out s @ aud_code picType"
proof -
  have "0 < (3::nat) \<and> 3 \<le> (32::nat) \<and> picType < 2 ^ 3" using assms(1) by simp
  from u_n.enc_obtain [OF this assms(2)] obtain s1 where
    s1: "xWriteCode picType 3 s = Some s1" "out_inv s1" "bits_out s1 = bits_out s @ bitsBE 3 picType" .
  have "length (bits_out s1) mod 8 = 3"
  proof -
    have "(length (bits_out s) + 3) mod 8 = (length (bits_out s) mod 8 + 3) mod 8"
      by (simp only: mod_add_left_eq)
    then show ?thesis using s1(3) assms(3) by simp
  qed
  moreover obtain s2 where "xWriteRbspTrailingBits s1 = Some s2" "out_inv s2"
      "bits_out s2 = bits_out s1 @ True # replicate (7 - length (bits_out s1) mod 8) False"
    using xWriteRbspTrailingBits_ok [OF s1(2)] .
  ultimately show ?thesis using that s1 assms(1)
    by (simp add: codeAUD_def aud_code_def)
qed

lemma parseAUD_ok:
  assumes "picType < 3" and "in_inv i" and "bits_in i = aud_code picType @ rest"
    and "length rest mod 8 = 0"
  obtains i' where "parseAccessUnitDelimiter i = Some (picType, i')" and "in_inv i'"
    and "bits_in i' = rest"
proof -
  have v: "0 < (3::nat) \<and> 3 \<le> (32::nat) \<and> picType < 2 ^ 3" using assms(1) by simp
  have b: "bits_in i = bitsBE 3 picType @ True # replicate 4 False @ rest"
    using assms(3) by (simp add: aud_code_def)
  from u_n.dec_obtain [OF v assms(2) b] obtain i1 where
    i1: "xReadCode 3 i = Some (picType, i1)" "in_inv i1" "bits_in i1 = True # replicate 4 False @ rest" .
  from xReadRbspTrailingBits_ok [OF this(2,3) assms(4)] obtain i2 where
    "xReadRbspTrailingBits i1 = Some i2" "in_inv i2" "bits_in i2 = rest" by auto
  with that i1(1) show ?thesis by (simp add: parseAccessUnitDelimiter_def)
qed

end
