(* ===== verification/Codec.thy ===== *)
theory Codec
  imports Prelude
begin

section \<open>A calculus of writers and parsers\<close>

text \<open>
  Both syntax layers of the program come in pairs: \<^verbatim>\<open>VLCWriter.cpp\<close> and \<^verbatim>\<open>VLCReader.cpp\<close> on
  bits, \<^verbatim>\<open>CABACWriter.cpp\<close> and \<^verbatim>\<open>CABACReader.cpp\<close> on bins.  A writer changes a sink of
  symbols, a parser takes symbols from a source, and either may throw.  \<open>writes\<close> and \<open>reads\<close>
  say which symbols an operation appends or consumes; the rules below follow the control
  structure of the code, so that a round trip is proved by walking through both functions.

  \<open>emits done s\<close> says that the sink \<open>s\<close> holds the symbols \<open>done\<close>; \<open>sees ahead s\<close> that
  the source \<open>s\<close> will deliver the symbols \<open>ahead\<close>.
\<close>

definition writes :: "('a list \<Rightarrow> 's \<Rightarrow> bool) \<Rightarrow> ('s \<Rightarrow> 's option) \<Rightarrow> 'a list \<Rightarrow> bool" where
  "writes emits W code \<longleftrightarrow>
     (\<forall>done s. emits done s \<longrightarrow> (\<exists>s'. W s = Some s' \<and> emits (done @ code) s'))"

definition reads :: "('a list \<Rightarrow> 's \<Rightarrow> bool) \<Rightarrow> ('s \<Rightarrow> ('v \<times> 's) option) \<Rightarrow> 'a list \<Rightarrow> 'v \<Rightarrow> bool" where
  "reads sees R code v \<longleftrightarrow>
     (\<forall>ahead s. sees (code @ ahead) s \<longrightarrow> (\<exists>s'. R s = Some (v, s') \<and> sees ahead s'))"

named_theorems codec_rules \<open>rules for \<open>writes\<close> and \<open>reads\<close>\<close>

lemma writesD: "writes emits W code \<Longrightarrow> emits d s \<Longrightarrow> \<exists>s'. W s = Some s' \<and> emits (d @ code) s'"
  unfolding writes_def by blast

lemma readsD: "reads sees R code v \<Longrightarrow> sees (code @ r) s \<Longrightarrow> \<exists>s'. R s = Some (v, s') \<and> sees r s'"
  unfolding reads_def by blast

subsection \<open>Writers\<close>

lemma writes_Some: "writes emits Some []"
  unfolding writes_def by simp

lemma writes_bind:
  assumes "writes emits W c1" and "writes emits V c2"
  shows "writes emits (\<lambda>s. Option.bind (W s) V) (c1 @ c2)"
  using assms unfolding writes_def by (metis append.assoc bind.bind_lunit)

lemma writes_bind_same:
  assumes "writes emits W c" and "writes emits V []"
  shows "writes emits (\<lambda>s. Option.bind (W s) V) c"
  using writes_bind [OF assms] by simp

lemma writes_if:
  assumes "b \<Longrightarrow> writes emits W c1" and "\<not> b \<Longrightarrow> writes emits V c2"
  shows "writes emits (\<lambda>s. if b then W s else V s) (if b then c1 else c2)"
  using assms by (cases b) auto

lemma writes_eta: "writes emits (\<lambda>s. W s) c \<Longrightarrow> writes emits W c"
  by simp

fun write_list :: "('v \<Rightarrow> 's \<Rightarrow> 's option) \<Rightarrow> 'v list \<Rightarrow> 's \<Rightarrow> 's option" where
  "write_list W [] s = Some s"
| "write_list W (x # xs) s = do { s \<leftarrow> W x s; write_list W xs s }"

lemma writes_list:
  assumes "\<And>x. x \<in> set xs \<Longrightarrow> writes emits (W x) (code x)"
  shows "writes emits (write_list W xs) (concat (map code xs))"
  using assms
proof (induction xs)
  case (Cons x xs)
  from writes_bind [OF Cons.prems [of x] Cons.IH] Cons.prems show ?case
    by (simp add: writes_def)
qed (simp add: writes_def)

subsection \<open>Parsers\<close>

lemma reads_Some: "reads sees (\<lambda>s. Some (v, s)) [] v"
  unfolding reads_def by simp

lemma reads_bind:
  assumes "reads sees R c1 v" and "reads sees (Q v) c2 w"
  shows "reads sees (\<lambda>s. Option.bind (R s) (\<lambda>(x, s). Q x s)) (c1 @ c2) w"
  using assms unfolding reads_def by fastforce

lemma reads_bind_same:
  assumes "reads sees R c v" and "reads sees (Q v) [] w"
  shows "reads sees (\<lambda>s. Option.bind (R s) (\<lambda>(x, s). Q x s)) c w"
  using reads_bind [of sees R c v Q "[]" w] assms by simp

lemma reads_bind_state:
  assumes "\<And>r s. sees (c1 @ r) s \<Longrightarrow> \<exists>s'. R s = Some s' \<and> sees r s'" and "reads sees Q c2 w"
  shows "reads sees (\<lambda>s. Option.bind (R s) Q) (c1 @ c2) w"
  using assms unfolding reads_def by fastforce

lemma reads_if:
  assumes "b \<Longrightarrow> reads sees R c v" and "\<not> b \<Longrightarrow> reads sees Q c v"
  shows "reads sees (\<lambda>s. if b then R s else Q s) c v"
  using assms by (cases b) auto

fun read_list :: "('s \<Rightarrow> ('v \<times> 's) option) \<Rightarrow> nat \<Rightarrow> 's \<Rightarrow> ('v list \<times> 's) option" where
  "read_list R 0 s = Some ([], s)"
| "read_list R (Suc n) s = do { (x, s) \<leftarrow> R s; (xs, s) \<leftarrow> read_list R n s; Some (x # xs, s) }"

lemma reads_list:
  assumes "\<And>x. x \<in> set xs \<Longrightarrow> reads sees R (code x) x" and "n = length xs"
  shows "reads sees (read_list R n) (concat (map code xs)) xs"
  using assms
proof (induction xs arbitrary: n)
  case (Cons x xs)
  then have "reads sees (read_list R (length xs)) (concat (map code xs)) xs" by simp
  then have "reads sees (\<lambda>s. Option.bind (read_list R (length xs) s) (\<lambda>(xs, s). Some (x # xs, s)))
      (concat (map code xs)) (x # xs)"
    by (rule reads_bind_same) (rule reads_Some)
  with Cons.prems reads_bind [of sees R "code x" x
      "\<lambda>x s. Option.bind (read_list R (length xs) s) (\<lambda>(xs, s). Some (x # xs, s))"]
  show ?case by (simp add: reads_def)
qed (simp add: reads_def)

text \<open>A loop whose parser depends on the index or on data known before.\<close>

fun read_each :: "('k \<Rightarrow> 's \<Rightarrow> ('v \<times> 's) option) \<Rightarrow> 'k list \<Rightarrow> 's \<Rightarrow> ('v list \<times> 's) option" where
  "read_each R [] s = Some ([], s)"
| "read_each R (k # ks) s = do { (x, s) \<leftarrow> R k s; (xs, s) \<leftarrow> read_each R ks s; Some (x # xs, s) }"

lemma reads_each:
  assumes "\<And>k x. (k, x) \<in> set kxs \<Longrightarrow> reads sees (R k) (code k x) x"
  shows "reads sees (read_each R (map fst kxs)) (concat (map (\<lambda>(k, x). code k x) kxs)) (map snd kxs)"
  using assms
proof (induction kxs)
  case (Cons kx kxs)
  obtain k x where kx: "kx = (k, x)" by fastforce
  let ?ks = "map fst kxs" and ?xs = "map snd kxs"
  from Cons have "reads sees (read_each R ?ks) (concat (map (\<lambda>(k, x). code k x) kxs)) ?xs" by simp
  then have "reads sees (\<lambda>s. Option.bind (read_each R ?ks s) (\<lambda>(xs, s). Some (x # xs, s)))
      (concat (map (\<lambda>(k, x). code k x) kxs)) (x # ?xs)"
    by (rule reads_bind_same) (rule reads_Some)
  with Cons.prems [of k x] reads_bind [of sees "R k" "code k x" x
      "\<lambda>x s. Option.bind (read_each R ?ks s) (\<lambda>(xs, s). Some (x # xs, s))"]
  show ?case by (simp add: reads_def kx)
qed (simp add: reads_def)

subsection \<open>Writer and parser together\<close>

text \<open>\<open>codec emits S W R v\<close>: the writer \<open>W\<close> appends some code, and the parser \<open>R\<close>, at
  any source of the family \<open>S\<close> that delivers this code first, returns \<open>v\<close> and stops right
  behind it.  The rules walk through both functions at once, so that no code has to be named.\<close>

definition codec ::
  "('a list \<Rightarrow> 's \<Rightarrow> bool) \<Rightarrow> ('a list \<Rightarrow> 't \<Rightarrow> bool) set \<Rightarrow> ('s \<Rightarrow> 's option) \<Rightarrow> ('t \<Rightarrow> ('v \<times> 't) option) \<Rightarrow> 'v \<Rightarrow> bool"
  where "codec emits S W R v \<longleftrightarrow> (\<exists>code. writes emits W code \<and> (\<forall>sees \<in> S. reads sees R code v))"

lemma codecI: "writes emits W code \<Longrightarrow> (\<And>sees. sees \<in> S \<Longrightarrow> reads sees R code v) \<Longrightarrow> codec emits S W R v"
  unfolding codec_def by blast

lemma codecE:
  assumes "codec emits S W R v"
  obtains code where "writes emits W code" and "\<And>sees. sees \<in> S \<Longrightarrow> reads sees R code v"
  using assms unfolding codec_def by blast

lemma codec_Some: "codec emits S Some (\<lambda>s. Some (v, s)) v"
  by (rule codecI [where code = "[]"]) (rule writes_Some reads_Some)+

lemma codec_bind:
  assumes "codec emits S W R v" and "codec emits S V (Q v) w"
  shows "codec emits S (\<lambda>s. Option.bind (W s) V) (\<lambda>s. Option.bind (R s) (\<lambda>(x, s). Q x s)) w"
  using assms unfolding codec_def by (metis writes_bind reads_bind)

text \<open>The last element of a structure, after which the parser only returns its result.\<close>

lemma codec_last:
  assumes "codec emits S W R v" and "codec emits S Some (Q v) w"
  shows "codec emits S W (\<lambda>s. Option.bind (R s) (\<lambda>(x, s). Q x s)) w"
  using codec_bind [OF assms(1), of Some Q w] assms(2) by simp

text \<open>A parser that reads nothing while the writer writes nothing.\<close>

lemma codec_skip:
  assumes "codec emits S V (Q v) w"
  shows "codec emits S V (\<lambda>s. Option.bind (Some (v, s)) (\<lambda>(x, s). Q x s)) w"
  using assms by simp

lemma codec_if:
  assumes "b' = b" and "b \<Longrightarrow> codec emits S W R v" and "\<not> b \<Longrightarrow> codec emits S V Q v"
  shows "codec emits S (\<lambda>s. if b then W s else V s) (\<lambda>s. if b' then R s else Q s) v"
  using assms by (cases b) auto

text \<open>A check of the parser that passes, and one of the writer.\<close>

lemma codec_check: "\<not> b \<Longrightarrow> codec emits S W R v \<Longrightarrow> codec emits S W (\<lambda>s. if b then None else R s) v"
  by simp

lemma codec_check_writer: "\<not> b \<Longrightarrow> codec emits S W R v \<Longrightarrow> codec emits S (\<lambda>s. if b then None else W s) R v"
  by simp

lemma codec_cong: "codec emits S W R v \<Longrightarrow> v = w \<Longrightarrow> codec emits S W R w"
  by simp

lemma codec_Some': "v = w \<Longrightarrow> codec emits S Some (\<lambda>s. Some (v, s)) w"
  by (simp add: codec_Some)

lemma codec_ext:
  assumes "\<And>s. W s = W' s" and "\<And>s. R s = R' s" and "codec emits S W' R' v"
  shows "codec emits S W R v"
proof -
  have "W = W'" "R = R'" using assms(1,2) by auto
  with assms(3) show ?thesis by simp
qed

text \<open>The control structure: sequence, branch, end.\<close>

lemmas codec_flow = codec_check codec_check_writer codec_bind codec_if codec_last codec_Some'

text \<open>The loops as functions of the state.\<close>

lemma list_loops:
  "write_list W [] = Some"
  "write_list W (x # xs) = (\<lambda>s. Option.bind (W x s) (write_list W xs))"
  "read_list R 0 = (\<lambda>s. Some ([], s))"
  "read_list R (Suc n) =
     (\<lambda>s. Option.bind (R s) (\<lambda>(x, s). Option.bind (read_list R n s) (\<lambda>(xs, s). Some (x # xs, s))))"
  "read_each Q [] = (\<lambda>s. Some ([], s))"
  "read_each Q (k # ks) =
     (\<lambda>s. Option.bind (Q k s) (\<lambda>(x, s). Option.bind (read_each Q ks s) (\<lambda>(xs, s). Some (x # xs, s))))"
  by (rule ext, simp)+

lemma codec_list:
  assumes "\<And>x. x \<in> set xs \<Longrightarrow> codec emits S (W x) R x" and "n = length xs"
  shows "codec emits S (write_list W xs) (read_list R n) xs"
  using assms
proof (induction xs arbitrary: n)
  case Nil
  then show ?case by (simp add: list_loops codec_Some)
next
  case (Cons x xs)
  then have "codec emits S (W x) R x" "codec emits S (write_list W xs) (read_list R (length xs)) xs" by auto
  then show ?case unfolding Cons.prems(2) list.size list_loops add_Suc_right add_0_right
    by (intro codec_bind [where v = x] codec_last [where v = xs] codec_Some)
qed

lemma codec_each:
  assumes "\<And>k x. (k, x) \<in> set kxs \<Longrightarrow> codec emits S (W k x) (R k) x"
  shows "codec emits S (write_list (\<lambda>(k, x). W k x) kxs) (read_each R (map fst kxs)) (map snd kxs)"
  using assms
proof (induction kxs)
  case Nil
  then show ?case by (simp add: list_loops codec_Some)
next
  case (Cons kx kxs)
  obtain k x where kx: "kx = (k, x)" by fastforce
  have "codec emits S (W k x) (R k) x" using Cons.prems by (simp add: kx)
  moreover have "codec emits S (write_list (\<lambda>(k, x). W k x) kxs) (read_each R (map fst kxs)) (map snd kxs)"
    using Cons by simp
  ultimately show ?case unfolding kx list.map fst_conv snd_conv list_loops prod.case
    by (intro codec_bind [where v = x] codec_last [where v = "map snd kxs"] codec_Some)
qed

text \<open>A loop whose parser knows part \<open>k x\<close> of each element.\<close>

lemma codec_each_map:
  assumes "\<And>x. x \<in> set xs \<Longrightarrow> codec emits S (W x) (R (k x)) (f x)"
  shows "codec emits S (write_list W xs) (read_each R (map k xs)) (map f xs)"
  using assms
proof (induction xs)
  case (Cons x xs)
  then have "codec emits S (W x) (R (k x)) (f x)" "codec emits S (write_list W xs) (read_each R (map k xs)) (map f xs)" by auto
  then show ?case unfolding list.map list_loops
    by (intro codec_bind [where v = "f x"] codec_last [where v = "map f xs"] codec_Some)
qed (simp add: list_loops codec_Some)

lemma read_list_each: "read_list R (length xs) = read_each (\<lambda>_. R) (map k xs)"
  by (rule ext) (induction xs, simp_all add: list_loops)

lemma codec_list_map:
  assumes "\<And>x. x \<in> set xs \<Longrightarrow> codec emits S (W x) R (f x)" and "n = length xs"
  shows "codec emits S (write_list W xs) (read_list R n) (map f xs)"
  unfolding assms(2) read_list_each [of R xs id] by (rule codec_each_map) (rule assms(1))

text \<open>Writer and parser branch on different conditions: the writer's branches are followed one by one,
  and the parser's condition is decided in each.\<close>

lemma codec_wif:
  assumes "b \<Longrightarrow> codec emits S W R v" and "\<not> b \<Longrightarrow> codec emits S V R v"
  shows "codec emits S (\<lambda>s. if b then W s else V s) R v"
  using assms by (cases b) auto

lemma codec_wif_bind:
  assumes "b \<Longrightarrow> codec emits S (\<lambda>s. Option.bind (W s) X) R v" and "\<not> b \<Longrightarrow> codec emits S (\<lambda>s. Option.bind (V s) X) R v"
  shows "codec emits S (\<lambda>s. Option.bind (if b then W s else V s) X) R v"
  using assms by (cases b) auto

lemma codec_rtrue:
  assumes b and "codec emits S W R v"
  shows "codec emits S W (\<lambda>s. if b then R s else Q s) v"
  using assms by simp

lemma codec_rfalse:
  assumes "\<not> b" and "codec emits S W Q v"
  shows "codec emits S W (\<lambda>s. if b then R s else Q s) v"
  using assms by simp

lemma codec_rtrue_bind:
  assumes b and "codec emits S W (\<lambda>s. Option.bind (R s) (\<lambda>(x, s). X x s)) v"
  shows "codec emits S W (\<lambda>s. Option.bind (if b then R s else Q s) (\<lambda>(x, s). X x s)) v"
  using assms by simp

lemma codec_rfalse_bind:
  assumes "\<not> b" and "codec emits S W (\<lambda>s. Option.bind (Q s) (\<lambda>(x, s). X x s)) v"
  shows "codec emits S W (\<lambda>s. Option.bind (if b then R s else Q s) (\<lambda>(x, s). X x s)) v"
  using assms by simp

lemma codec_wtrue:
  assumes b and "codec emits S W R v"
  shows "codec emits S (\<lambda>s. if b then W s else V s) R v"
  using assms by simp

lemma codec_wfalse:
  assumes "\<not> b" and "codec emits S V R v"
  shows "codec emits S (\<lambda>s. if b then W s else V s) R v"
  using assms by simp

lemma codec_wtrue_bind:
  assumes b and "codec emits S (\<lambda>s. Option.bind (W s) X) R v"
  shows "codec emits S (\<lambda>s. Option.bind (if b then W s else V s) X) R v"
  using assms by simp

lemma codec_wfalse_bind:
  assumes "\<not> b" and "codec emits S (\<lambda>s. Option.bind (V s) X) R v"
  shows "codec emits S (\<lambda>s. Option.bind (if b then W s else V s) X) R v"
  using assms by simp

lemma codec_wthen: "codec emits S W R v \<Longrightarrow> codec emits S (\<lambda>s. Option.bind (Some s) W) R v"
  by simp

lemma codec_wassoc:
  "codec emits S (\<lambda>s. Option.bind (W s) (\<lambda>s. Option.bind (V s) X)) R v
   \<Longrightarrow> codec emits S (\<lambda>s. Option.bind (Option.bind (W s) V) X) R v"
  by (simp add: Option.bind_assoc)

lemma codec_rassoc:
  "codec emits S W (\<lambda>s. Option.bind (R s) (\<lambda>(x, s). Option.bind (Q x s) (\<lambda>(x, s). X x s))) v
   \<Longrightarrow> codec emits S W (\<lambda>s. Option.bind (Option.bind (R s) (\<lambda>(x, s). Q x s)) (\<lambda>(x, s). X x s)) v"
  by (simp add: Option.bind_assoc case_prod_beta')

lemmas codec_branch = codec_wif_bind codec_wif codec_wthen codec_wassoc codec_skip codec_rassoc
lemmas codec_wdecide = codec_wtrue_bind codec_wfalse_bind codec_wtrue codec_wfalse
lemmas codec_decide = codec_check_writer codec_check codec_rtrue_bind codec_rfalse_bind codec_rtrue codec_rfalse

subsection \<open>Writers with a result\<close>

text \<open>A writer that also returns a value, such as an updated context object.\<close>

definition codec2 ::
  "('a list \<Rightarrow> 's \<Rightarrow> bool) \<Rightarrow> ('a list \<Rightarrow> 't \<Rightarrow> bool) set \<Rightarrow> ('s \<Rightarrow> ('w \<times> 's) option) \<Rightarrow> 'w
    \<Rightarrow> ('t \<Rightarrow> ('v \<times> 't) option) \<Rightarrow> 'v \<Rightarrow> bool"
  where "codec2 emits S W w R v \<longleftrightarrow>
    (\<exists>code. (\<forall>done s. emits done s \<longrightarrow> (\<exists>s'. W s = Some (w, s') \<and> emits (done @ code) s'))
       \<and> (\<forall>sees \<in> S. reads sees R code v))"

lemma codec2_Some: "w' = w \<Longrightarrow> v' = v \<Longrightarrow> codec2 emits S (\<lambda>s. Some (w', s)) w (\<lambda>s. Some (v', s)) v"
  unfolding codec2_def by (intro exI [of _ "[]"]) (simp add: reads_Some)

lemma codec2_bind:
  assumes "codec2 emits S W w R v" and "codec2 emits S (V w) x (Q v) y"
  shows "codec2 emits S (\<lambda>s. Option.bind (W s) (\<lambda>(a, s). V a s)) x (\<lambda>s. Option.bind (R s) (\<lambda>(b, s). Q b s)) y"
proof -
  from assms(1) obtain c where c: "\<forall>done s. emits done s \<longrightarrow> (\<exists>s'. W s = Some (w, s') \<and> emits (done @ c) s')"
    "\<forall>sees \<in> S. reads sees R c v" unfolding codec2_def by blast
  from assms(2) obtain d where d: "\<forall>done s. emits done s \<longrightarrow> (\<exists>s'. V w s = Some (x, s') \<and> emits (done @ d) s')"
    "\<forall>sees \<in> S. reads sees (Q v) d y" unfolding codec2_def by blast
  have "\<exists>s'. Option.bind (W s) (\<lambda>(a, s). V a s) = Some (x, s') \<and> emits (l @ c @ d) s'" if "emits l s" for l s
    using c(1) d(1) that by fastforce
  with c(2) d(2) show ?thesis unfolding codec2_def by (intro exI [of _ "c @ d"]) (auto intro: reads_bind)
qed

lemma codec2_of: "codec emits S W R v \<Longrightarrow> codec2 emits S (\<lambda>s. map_option (Pair ()) (W s)) () R v"
  unfolding codec_def codec2_def writes_def by (metis option.simps(9))

text \<open>An element whose writer only writes, followed by one whose writer has a result.\<close>

lemma codec2_step:
  assumes "codec emits S W R v" and "codec2 emits S V x (Q v) y"
  shows "codec2 emits S (\<lambda>s. Option.bind (W s) V) x (\<lambda>s. Option.bind (R s) (\<lambda>(b, s). Q b s)) y"
proof -
  have "Option.bind (map_option (Pair ()) (W s)) (\<lambda>(a, s). V s) = Option.bind (W s) V" for s
    by (cases "W s") auto
  with codec2_bind [OF codec2_of [OF assms(1)], of "\<lambda>_. V" x Q y] assms(2) show ?thesis by simp
qed

text \<open>The writer's result is used by the rest, which only writes.\<close>

lemma codec2_then:
  assumes "codec2 emits S W w R v" and "codec emits S (V w) (Q v) y"
  shows "codec emits S (\<lambda>s. Option.bind (W s) (\<lambda>(a, s). V a s)) (\<lambda>s. Option.bind (R s) (\<lambda>(b, s). Q b s)) y"
proof -
  from assms(1) obtain c where c: "\<forall>done s. emits done s \<longrightarrow> (\<exists>s'. W s = Some (w, s') \<and> emits (done @ c) s')"
    "\<forall>sees \<in> S. reads sees R c v" unfolding codec2_def by blast
  from assms(2) obtain d where d: "writes emits (V w) d" "\<forall>sees \<in> S. reads sees (Q v) d y" unfolding codec_def by blast
  have "writes emits (\<lambda>s. Option.bind (W s) (\<lambda>(a, s). V a s)) (c @ d)"
    unfolding writes_def using c(1) writesD [OF d(1)] by fastforce
  with c(2) d(2) show ?thesis unfolding codec_def by (intro exI [of _ "c @ d"]) (auto intro: reads_bind)
qed

lemma codec2_if:
  assumes "b' = b" and "b \<Longrightarrow> codec2 emits S W w R v" and "\<not> b \<Longrightarrow> codec2 emits S V w Q v"
  shows "codec2 emits S (\<lambda>s. if b then W s else V s) w (\<lambda>s. if b' then R s else Q s) v"
  using assms by (cases b) auto

lemma codec2_ext:
  assumes "\<And>s. W s = W' s" and "\<And>s. R s = R' s" and "codec2 emits S W' w R' v"
  shows "codec2 emits S W w R v"
proof -
  have "W = W'" "R = R'" using assms(1,2) by auto
  with assms(3) show ?thesis by simp
qed

end
