(* ===== verification/Hls.thy ===== *)
theory Hls
  imports Vlc Codec
begin

section \<open>High-level syntax: the rules for bits\<close>

text \<open>
  The calculus of \<open>Codec\<close> on bit streams.  \<open>emits_bits\<close> and \<open>sees_bits\<close> abstract an
  \<^verbatim>\<open>OutputBitstream\<close> and an \<^verbatim>\<open>InputBitstream\<close> to the bits written and the bits still to be read.
  The macros \<^verbatim>\<open>READ_FLAG\<close> and \<^verbatim>\<open>WRITE_FLAG\<close> are taken at the type \<open>bool\<close>, which is how
  every caller uses them.
\<close>

definition emits_bits :: "bool list \<Rightarrow> OutputBitstream \<Rightarrow> bool" where
  "emits_bits bs s \<longleftrightarrow> out_inv s \<and> bits_out s = bs"

definition sees_bits :: "bool list \<Rightarrow> InputBitstream \<Rightarrow> bool" where
  "sees_bits bs s \<longleftrightarrow> in_inv s \<and> bits_in s = bs"

definition WRITE_FLAG :: "bool \<Rightarrow> OutputBitstream \<Rightarrow> OutputBitstream option" where
  "WRITE_FLAG b s = xWriteFlag (of_bool b) s"

definition READ_FLAG :: "InputBitstream \<Rightarrow> (bool \<times> InputBitstream) option" where
  "READ_FLAG s = do { (c, s) \<leftarrow> xReadFlag s; Some (c \<noteq> 0, s) }"

text \<open>A descriptor's contract in the two forms.\<close>

context syntax_element
begin

lemma codec_code: "valid v \<Longrightarrow> codec emits_bits {sees_bits} (enc v) dec v"
  using enc_law dec_law unfolding codec_def writes_def reads_def emits_bits_def sees_bits_def
  by (intro exI [of _ "code v"]) auto

end

abbreviation hls_codec ::
  "(OutputBitstream \<Rightarrow> OutputBitstream option) \<Rightarrow> (InputBitstream \<Rightarrow> ('v \<times> InputBitstream) option) \<Rightarrow> 'v \<Rightarrow> bool"
  where "hls_codec \<equiv> codec emits_bits {sees_bits}"

lemma hls_FLAG [codec_rules]: "hls_codec (WRITE_FLAG b) READ_FLAG b"
proof -
  have "READ_FLAG = (\<lambda>i. map_option (\<lambda>(c, i). (c \<noteq> 0, i)) (xReadFlag i))"
    by (rule ext) (simp add: READ_FLAG_def split: option.split bind_split)
  moreover have "WRITE_FLAG b = xWriteFlag (of_bool b)" by (rule ext) (simp add: WRITE_FLAG_def)
  ultimately show ?thesis using flag.codec_code [of b] by simp
qed

lemma hls_CODE [codec_rules]:
  "0 < n \<Longrightarrow> n \<le> 32 \<Longrightarrow> v < 2 ^ n \<Longrightarrow> hls_codec (xWriteCode v n) (xReadCode n) v"
  by (rule u_n.codec_code) simp

lemma hls_UVLC [codec_rules]: "v < 4294967295 \<Longrightarrow> hls_codec (xWriteUvlc v) xReadUvlc v"
  by (rule ue.codec_code) simp

lemma hls_SVLC [codec_rules]: "\<bar>i\<bar> < 2147483648 \<Longrightarrow> hls_codec (xWriteSvlc i) xReadSvlc i"
  by (rule se.codec_code) simp

lemmas hls_rules = codec_flow hls_FLAG hls_CODE hls_UVLC hls_SVLC refl

subsection \<open>Raw byte sequence payloads\<close>

text \<open>A payload: the syntax structure and the trailing bits, on a fresh bit stream.\<close>

definition write_rbsp :: "(OutputBitstream \<Rightarrow> OutputBitstream option) \<Rightarrow> nat list option" where
  "write_rbsp W = do {
     s \<leftarrow> W OutputBitstream_clear;
     s \<leftarrow> xWriteRbspTrailingBits s;
     Some (o_fifo s) }"

definition read_rbsp :: "(InputBitstream \<Rightarrow> ('v \<times> InputBitstream) option) \<Rightarrow> nat list \<Rightarrow> ('v \<times> InputBitstream) option" where
  "read_rbsp R bytes = do {
     (v, s) \<leftarrow> R (InputBitstream_new bytes);
     s \<leftarrow> xReadRbspTrailingBits s;
     Some (v, s) }"

lemma rbsp_bytes:
  assumes "writes emits_bits W code"
  obtains ys where "write_rbsp W = Some ys" and "bytes_ok ys"
    and "bytes_bits ys = code @ True # replicate (7 - length code mod 8) False"
proof -
  have "emits_bits [] OutputBitstream_clear" by (simp add: emits_bits_def)
  from writesD [OF assms this] obtain s where
    s: "W OutputBitstream_clear = Some s" "out_inv s" "bits_out s = code" by (auto simp: emits_bits_def)
  from xWriteRbspTrailingBits_ok [OF s(2)] obtain s' where
    s': "xWriteRbspTrailingBits s = Some s'" "out_inv s'"
      "bits_out s' = code @ True # replicate (7 - length code mod 8) False" unfolding s(3) .
  have "length code mod 8 \<le> 7" by (simp add: less_Suc_eq_le [symmetric])
  then have "length (bits_out s') mod 8 = 0"
    using div_mult_mod_eq [of "length code" 8] unfolding s'(3) by simp presburger
  then have "o_num_held_bits s' = 0" using out_held_mod [OF s'(2)] by simp
  then have "bits_out s' = bytes_bits (o_fifo s')" by (simp add: bits_out_def)
  with s(1) s' that [of "o_fifo s'"] show ?thesis by (simp add: write_rbsp_def out_inv_def)
qed

lemma rbsp_roundtrip:
  assumes "hls_codec W R v"
  obtains ys s where "write_rbsp W = Some ys" and "bytes_ok ys" and "ys \<noteq> []" and "last ys \<noteq> 0"
    and "read_rbsp R ys = Some (v, s)" and "in_inv s" and "bits_in s = []"
proof -
  from assms obtain code where code: "writes emits_bits W code" "reads sees_bits R code v"
    by (rule codecE) simp
  from rbsp_bytes [OF code(1)] obtain ys where ys: "write_rbsp W = Some ys" "bytes_ok ys"
    "bytes_bits ys = code @ True # replicate (7 - length code mod 8) False" .
  then have "sees_bits (code @ True # replicate (7 - length code mod 8) False) (InputBitstream_new ys)"
    by (simp add: sees_bits_def)
  from readsD [OF code(2) this] obtain s where s: "R (InputBitstream_new ys) = Some (v, s)"
    "in_inv s" "bits_in s = True # replicate (7 - length code mod 8) False @ []" by (auto simp: sees_bits_def)
  have "7 - length code mod 8 < 8" by simp
  from xReadRbspTrailingBits_ok [OF s(2,3) _ this] obtain s' where
    "xReadRbspTrailingBits s = Some s'" "in_inv s'" "bits_in s' = []" by auto
  moreover from s(3) ys have "ys \<noteq> []" by auto
  moreover have "last ys \<noteq> 0"
  proof
    assume z: "last ys = 0"
    have ys': "ys = butlast ys @ [last ys]" using \<open>ys \<noteq> []\<close> by simp
    have "bytes_bits ys = bytes_bits (butlast ys) @ replicate 8 False"
      by (subst ys') (simp add: z numeral_eq_Suc)
    then have "drop (length code) (bytes_bits ys) = drop (length code) (bytes_bits (butlast ys) @ replicate 8 False)" by simp
    moreover have "length code + (8 - length code mod 8) = 8 * length ys"
      using arg_cong [OF ys(3), of length] by (simp add: less_Suc_eq_le [symmetric])
    then have "8 * length (butlast ys) \<le> length code"
      using \<open>ys \<noteq> []\<close> by (simp add: diff_mult_distrib2)
    ultimately have "True \<in> set (replicate (8 - (length code - 8 * length (butlast ys))) False)"
      using ys(3) by (metis append_eq_conv_conj drop_append drop_all drop_replicate length_bytes_bits list.set_intros(1) self_append_conv2)
    then show False by simp
  qed
  ultimately show ?thesis using that ys(1,2) s(1) by (simp add: read_rbsp_def)
qed

end
