(* ===== verification/Contexts.thy ===== *)
theory Contexts
  imports Prelude
begin

section \<open>Probability models: \<^verbatim>\<open>Contexts.h\<close>, \<^verbatim>\<open>Contexts.cpp\<close>\<close>

text \<open>
  A context of the arithmetic coder is a \<^verbatim>\<open>BinProbModel_Std\<close>: two 15-bit estimates of the
  probability of a one, kept at 10 and at 14 bits of precision, each with its own adaptation
  rate.  The estimates stay in the masks \<^verbatim>\<open>MASK_0\<close> and \<^verbatim>\<open>MASK_1\<close> (\<open>model_ok\<close>), and from
  that the range the arithmetic coder gives to the less probable symbol obeys the bounds its
  renormalisation relies on (\<open>getLPS_bounds\<close>, \<open>renorm_LPS\<close>, \<open>renorm_MPS\<close>).
\<close>

unbundle bit_operations_syntax

record BinProbModel_Std =
  m_state0 :: nat
  m_state1 :: nat
  m_rate :: nat

definition MASK_0 :: nat where
  "MASK_0 = u32 (push_bit (15 - 10) (not32 (u32 (push_bit 10 (not32 0)))))"

definition MASK_1 :: nat where
  "MASK_1 = u32 (push_bit (15 - 14) (not32 (u32 (push_bit 14 (not32 0)))))"

definition BinProbModel_new :: BinProbModel_Std where
  "BinProbModel_new = \<lparr>m_state0 = 16384, m_state1 = 16384, m_rate = 8\<rparr>"

text \<open>\<^verbatim>\<open>update\<close>: the operands are promoted to \<^verbatim>\<open>int\<close> and the result stored in 16 bits.\<close>

definition BinProbModel_update :: "nat \<Rightarrow> BinProbModel_Std \<Rightarrow> BinProbModel_Std" where
  "BinProbModel_update bin m =
     (let rate0 = drop_bit 4 (m_rate m);
          rate1 = m_rate m AND 15;
          m = m\<lparr>m_state0 := m_state0 m - (drop_bit rate0 (m_state0 m) AND MASK_0)\<rparr>;
          m = m\<lparr>m_state1 := m_state1 m - (drop_bit rate1 (m_state1 m) AND MASK_1)\<rparr>
      in if bin \<noteq> 0
         then m\<lparr>m_state0 := u16 (m_state0 m + (drop_bit rate0 32767 AND MASK_0)),
                m_state1 := u16 (m_state1 m + (drop_bit rate1 32767 AND MASK_1))\<rparr>
         else m)"

definition setLog2WindowSize :: "nat \<Rightarrow> BinProbModel_Std \<Rightarrow> BinProbModel_Std option" where
  "setLog2WindowSize log2WindowSize m =
     (let rate0 = 2 + (drop_bit 2 log2WindowSize AND 3);
          rate1 = 3 + rate0 + (log2WindowSize AND 3)
      in if rate1 > 9 then None else Some (m\<lparr>m_rate := u8 (16 * rate0 + rate1)\<rparr>))"

definition BinProbModel_state :: "BinProbModel_Std \<Rightarrow> nat" where
  "BinProbModel_state m = u8 (drop_bit 8 (m_state0 m + m_state1 m))"

definition mps :: "BinProbModel_Std \<Rightarrow> nat" where
  "mps m = drop_bit 7 (BinProbModel_state m)"

definition getLPS :: "nat \<Rightarrow> BinProbModel_Std \<Rightarrow> nat" where
  "getLPS rng m =
     (let q = BinProbModel_state m;
          q = (if q AND 128 \<noteq> 0 then q XOR 255 else q)
      in u8 (drop_bit 1 (drop_bit 2 q * drop_bit 5 rng) + 4))"

definition m_RenormTable_32 :: "nat list" where
  "m_RenormTable_32 =
    [6, 5, 4, 4, 3, 3, 3, 3, 2, 2, 2, 2, 2, 2, 2, 2,
     1, 1, 1, 1, 1, 1, 1, 1, 1, 1, 1, 1, 1, 1, 1, 1]"

definition getRenormBitsLPS :: "nat \<Rightarrow> nat" where
  "getRenormBitsLPS LPS = m_RenormTable_32 ! drop_bit 3 LPS"

definition getRenormBitsRange :: "nat \<Rightarrow> nat" where
  "getRenormBitsRange rng = 1"

definition BinProbModel_getState :: "BinProbModel_Std \<Rightarrow> nat" where
  "BinProbModel_getState m = u16 (m_state0 m + m_state1 m)"

definition BinProbModel_setState :: "nat \<Rightarrow> BinProbModel_Std \<Rightarrow> BinProbModel_Std" where
  "BinProbModel_setState pState m =
     m\<lparr>m_state0 := drop_bit 1 pState AND MASK_0, m_state1 := drop_bit 1 pState AND MASK_1\<rparr>"

text \<open>\<^verbatim>\<open>BinProbModel_Std::init\<close>; the arithmetic is on signed integers, \<^verbatim>\<open>>>\<close> on a negative
  one is the arithmetic shift.\<close>

definition BinProbModel_init :: "int \<Rightarrow> nat \<Rightarrow> BinProbModel_Std \<Rightarrow> BinProbModel_Std" where
  "BinProbModel_init qp initId m =
     (let slope = int (drop_bit 3 initId) - 4;
          offset = int (initId AND 7) * 18 + 1;
          inistate = drop_bit 1 (slope * (qp - 16)) + offset;
          state_clip = (if inistate < 1 then 1 else if inistate > 127 then 127 else inistate);
          p1 = nat (push_bit 8 state_clip)
      in m\<lparr>m_state0 := p1 AND MASK_0, m_state1 := p1 AND MASK_1\<rparr>)"

subsection \<open>The masks\<close>

lemma MASK_0_eq: "MASK_0 = push_bit 5 (mask 10)"
  by (simp add: MASK_0_def not32_def u32_def mask_eq_exp_minus_1 push_bit_eq_mult)

lemma MASK_1_eq: "MASK_1 = push_bit 1 (mask 14)"
  by (simp add: MASK_1_def not32_def u32_def mask_eq_exp_minus_1 push_bit_eq_mult)

lemma and_push_mask: "x AND push_bit k (mask n) = push_bit k (take_bit n (drop_bit k (x::nat)))"
  by (rule bit_eqI) (auto simp: bit_simps)

lemma and_MASK_0: "x AND MASK_0 = 32 * (x div 32 mod 1024)"
  unfolding MASK_0_eq and_push_mask by (simp add: push_bit_eq_mult take_bit_eq_mod drop_bit_eq_div)

lemma and_MASK_1: "x AND MASK_1 = 2 * (x div 2 mod 16384)"
  unfolding MASK_1_eq and_push_mask by (simp add: push_bit_eq_mult take_bit_eq_mod drop_bit_eq_div)

definition model_ok :: "BinProbModel_Std \<Rightarrow> bool" where
  "model_ok m \<longleftrightarrow> m_state0 m AND MASK_0 = m_state0 m \<and> m_state1 m AND MASK_1 = m_state1 m"

lemma model_ok_alt: "model_ok m \<longleftrightarrow>
  (\<exists>a<1024. m_state0 m = 32 * a) \<and> (\<exists>b<16384. m_state1 m = 2 * b)"
proof -
  have "x AND MASK_0 = x \<longleftrightarrow> (\<exists>a<1024. x = 32 * a)" for x
    unfolding and_MASK_0 by (auto intro!: exI [of _ "x div 32 mod 1024"])
  moreover have "x AND MASK_1 = x \<longleftrightarrow> (\<exists>a<16384. x = 2 * a)" for x
    unfolding and_MASK_1 by (auto intro!: exI [of _ "x div 2 mod 16384"])
  ultimately show ?thesis by (simp add: model_ok_def)
qed

text \<open>One adaptation step, in units of the precision of the estimate.\<close>

lemma adapt_bound:
  fixes a m d :: nat
  assumes "a \<le> m" and "0 < d"
  shows "a - a div d + m div d \<le> m"
proof -
  have "m div d \<le> a div d + (m - a)"
  proof -
    have "m div d \<le> (a + (m - a) * d) div d"
    proof (rule div_le_mono)
      have "m - a \<le> (m - a) * d" using assms(2) by simp
      then show "m \<le> a + (m - a) * d" using assms(1) by linarith
    qed
    also have "\<dots> = a div d + (m - a)" using assms(2) by simp
    finally show ?thesis .
  qed
  moreover have "a div d \<le> a" by simp
  ultimately show ?thesis using assms(1) by linarith
qed

lemma drop_and_MASK_0: "a < 1024 \<Longrightarrow> drop_bit r (32 * a) AND MASK_0 = 32 * (a div 2 ^ r)"
proof -
  assume "a < 1024"
  have "32 * a div 2 ^ r div 32 = a div 2 ^ r"
    by (metis div_mult2_eq mult.commute nonzero_mult_div_cancel_left zero_neq_numeral)
  moreover have "a div 2 ^ r < 1024" using \<open>a < 1024\<close> div_le_dividend le_less_trans by blast
  ultimately show ?thesis by (simp add: and_MASK_0 drop_bit_eq_div)
qed

lemma drop_and_MASK_1: "a < 16384 \<Longrightarrow> drop_bit r (2 * a) AND MASK_1 = 2 * (a div 2 ^ r)"
proof -
  assume "a < 16384"
  have "2 * a div 2 ^ r div 2 = a div 2 ^ r"
    by (metis div_mult2_eq mult.commute nonzero_mult_div_cancel_left zero_neq_numeral)
  moreover have "a div 2 ^ r < 16384" using \<open>a < 16384\<close> div_le_dividend le_less_trans by blast
  ultimately show ?thesis by (simp add: and_MASK_1 drop_bit_eq_div)
qed

lemma drop_32767:
  "drop_bit r 32767 AND MASK_0 = 32 * (1023 div 2 ^ r)" "drop_bit r 32767 AND MASK_1 = 2 * (16383 div 2 ^ r)"
proof -
  have d: "32767 div 2 ^ r div k = (32767 div k) div 2 ^ r" for k :: nat
    by (metis div_mult2_eq mult.commute)
  have "(1023::nat) div 2 ^ r < 1024" "(16383::nat) div 2 ^ r < 16384"
    by (rule le_less_trans [OF div_le_dividend], simp)+
  then show "drop_bit r 32767 AND MASK_0 = 32 * (1023 div 2 ^ r)"
    "drop_bit r 32767 AND MASK_1 = 2 * (16383 div 2 ^ r)"
    by (simp_all add: and_MASK_0 and_MASK_1 drop_bit_eq_div d)
qed

subsection \<open>The invariant\<close>

lemma BinProbModel_new_ok: "model_ok BinProbModel_new"
  by (auto simp: model_ok_alt BinProbModel_new_def intro!: exI [of _ 512] exI [of _ 8192])

lemma BinProbModel_update_ok: "model_ok m \<Longrightarrow> model_ok (BinProbModel_update bin m)"
proof -
  assume "model_ok m"
  then obtain a b where ab: "a < 1024" "m_state0 m = 32 * a" "b < 16384" "m_state1 m = 2 * b"
    by (auto simp: model_ok_alt)
  let ?r0 = "drop_bit 4 (m_rate m)" and ?r1 = "m_rate m AND 15"
  define x y where "x = a div 2 ^ ?r0" and "y = (1023::nat) div 2 ^ ?r0"
  define v w where "v = b div 2 ^ ?r1" and "w = (16383::nat) div 2 ^ ?r1"
  have xy: "x \<le> a" "a - x + y < 1024" "a - x < 1024"
    using adapt_bound [of a 1023 "2 ^ ?r0"] ab(1) by (auto simp: x_def y_def intro: le_less_trans [OF diff_le_self])
  have vw: "v \<le> b" "b - v + w < 16384" "b - v < 16384"
    using adapt_bound [of b 16383 "2 ^ ?r1"] ab(3) by (auto simp: v_def w_def intro: le_less_trans [OF diff_le_self])
  define a' b' where "a' = (if bin \<noteq> 0 then a - x + y else a - x)" and "b' = (if bin \<noteq> 0 then b - v + w else b - v)"
  have a': "a' < 1024" and b': "b' < 16384" using xy vw by (simp_all add: a'_def b'_def)
  have e: "drop_bit ?r0 (32 * a) AND MASK_0 = 32 * x" "drop_bit ?r0 32767 AND MASK_0 = 32 * y"
    "drop_bit ?r1 (2 * b) AND MASK_1 = 2 * v" "drop_bit ?r1 32767 AND MASK_1 = 2 * w"
    using drop_and_MASK_0 [OF ab(1)] drop_and_MASK_1 [OF ab(3)] drop_32767
    by (simp_all only: x_def y_def v_def w_def)
  have "m_state0 (BinProbModel_update bin m) = 32 * a'"
    using xy by (simp add: BinProbModel_update_def Let_def ab e a'_def u16_id diff_mult_distrib2)
  moreover have "m_state1 (BinProbModel_update bin m) = 2 * b'"
    using vw by (simp add: BinProbModel_update_def Let_def ab e b'_def u16_id diff_mult_distrib2)
  ultimately show ?thesis using a' b' by (auto simp: model_ok_alt)
qed

lemma and_mask_idem: "(x AND k) AND k = x AND (k :: nat)"
  by (simp add: and.assoc)

lemma BinProbModel_setState_ok: "model_ok (BinProbModel_setState s m)"
  by (simp add: model_ok_def BinProbModel_setState_def and_mask_idem)

lemma BinProbModel_init_ok: "model_ok (BinProbModel_init qp initId m)"
  by (simp add: model_ok_def BinProbModel_init_def Let_def and_mask_idem)

lemma setLog2WindowSize_ok: "setLog2WindowSize w m = Some m' \<Longrightarrow> model_ok m \<Longrightarrow> model_ok m'"
  by (auto simp: setLog2WindowSize_def model_ok_def Let_def split: if_splits)

subsection \<open>Bounds the arithmetic coder relies on\<close>

definition range_ok :: "nat \<Rightarrow> bool" where
  "range_ok R \<longleftrightarrow> 256 \<le> R \<and> R \<le> 510"

lemma state_less: "BinProbModel_state m < 256"
  by (simp add: BinProbModel_state_def)

lemma mps_le_1: "mps m \<le> 1"
  using state_less [of m] by (simp add: mps_def drop_bit_eq_div)

lemma xor_ff: "q < 256 \<Longrightarrow> q XOR 255 = 255 - (q::nat)"
proof -
  assume q: "q < 256"
  have m: "(255::nat) = mask 8" by (simp add: mask_numeral)
  have "q AND (q XOR 255) = 0" unfolding m
    using bit_nat_lt_exp [of q 8] q by (intro bit_eqI) (auto simp: bit_simps, meson not_less)
  moreover have "q OR (q XOR 255) = 255" unfolding m
    using bit_nat_lt_exp [of q 8] q by (intro bit_eqI) (auto simp: bit_simps, meson not_less)
  ultimately have "q + (q XOR 255) = 255"
    by (metis disjunctive_add_eq_or)
  then show ?thesis by simp
qed

definition lps_index :: "BinProbModel_Std \<Rightarrow> nat" where
  "lps_index m = (let q = BinProbModel_state m in (if 128 \<le> q then 255 - q else q) div 4)"

lemma lps_index_less: "lps_index m < 32"
  using state_less [of m] by (auto simp: lps_index_def Let_def)

lemma getLPS_eq:
  assumes "R < 512"
  shows "getLPS R m = lps_index m * (R div 32) div 2 + 4"
proof -
  let ?q = "BinProbModel_state m"
  have "?q AND 2 ^ 7 \<noteq> 0 \<longleftrightarrow> bit ?q 7" by (simp only: and_exp_eq_0_iff_not_bit not_not)
  also have "\<dots> \<longleftrightarrow> 128 \<le> ?q" 
  proof -
    have "?q div 128 < 2" using state_less [of m] by simp
    then have "?q div 128 = 0 \<or> ?q div 128 = 1" by linarith
    then show ?thesis by (auto simp: bit_iff_odd_drop_bit drop_bit_eq_div)
  qed
  finally have c: "?q AND 128 \<noteq> 0 \<longleftrightarrow> 128 \<le> ?q" by simp
  have "lps_index m * (R div 32) \<le> 31 * 15"
    by (rule mult_le_mono) (use lps_index_less [of m] assms in auto)
  moreover have "drop_bit 2 (if ?q AND 128 \<noteq> 0 then ?q XOR 255 else ?q) = lps_index m"
    by (simp only: c lps_index_def Let_def xor_ff [OF state_less] drop_bit_eq_div) simp
  ultimately show ?thesis
    by (simp add: getLPS_def Let_def drop_bit_eq_div [of 5] drop_Suc drop_bit_Suc u8_id)
qed

lemma getLPS_bounds:
  assumes "range_ok R"
  shows "4 \<le> getLPS R m" and "getLPS R m < 256" and "getLPS R m + 128 \<le> R"
proof -
  have R: "256 \<le> R" "R < 512" using assms by (auto simp: range_ok_def)
  have "lps_index m * (R div 32) \<le> 31 * (R div 32)"
    by (rule mult_le_mono1) (use lps_index_less [of m] in simp)
  then have "getLPS R m \<le> 31 * (R div 32) div 2 + 4"
    unfolding getLPS_eq [OF R(2)] by (simp add: div_le_mono)
  then show "getLPS R m + 128 \<le> R" "getLPS R m < 256" using R by linarith+
  show "4 \<le> getLPS R m" unfolding getLPS_eq [OF R(2)] by simp
qed

lemma renorm_table:
  assumes "4 \<le> l" and "l < 256"
  shows "256 \<le> l * 2 ^ getRenormBitsLPS l" and "l * 2 ^ getRenormBitsLPS l \<le> 510"
    and "1 \<le> getRenormBitsLPS l" and "getRenormBitsLPS l \<le> 6"
proof -
  have "\<forall>k \<in> set [0..<32]. m_RenormTable_32 ! k =
      (if k < 1 then 6 else if k < 2 then 5 else if k < 4 then 4 else if k < 8 then 3 else if k < 16 then 2 else 1)"
    by code_simp
  moreover have div: "l div 8 < k \<longleftrightarrow> l < k * 8" for k by (simp add: div_less_iff_less_mult)
  ultimately have "getRenormBitsLPS l = (if l div 8 < 1 then 6 else if l div 8 < 2 then 5 else if l div 8 < 4 then 4
      else if l div 8 < 8 then 3 else if l div 8 < 16 then 2 else 1)"
    using assms(2) by (simp add: getRenormBitsLPS_def drop_bit_eq_div)
  then have "getRenormBitsLPS l = (if l < 8 then 6 else if l < 16 then 5 else if l < 32 then 4
      else if l < 64 then 3 else if l < 128 then 2 else 1)"
    unfolding div by simp
  with assms show "256 \<le> l * 2 ^ getRenormBitsLPS l" "l * 2 ^ getRenormBitsLPS l \<le> 510"
    "1 \<le> getRenormBitsLPS l" "getRenormBitsLPS l \<le> 6" by auto
qed

lemma renorm_LPS:
  assumes "range_ok R"
  shows "range_ok (push_bit (getRenormBitsLPS (getLPS R m)) (getLPS R m))"
  using renorm_table [OF getLPS_bounds(1,2) [OF assms]] by (simp add: range_ok_def push_bit_eq_mult)

lemma renorm_MPS:
  assumes "range_ok R"
  shows "R - getLPS R m < 256 \<Longrightarrow> range_ok (2 * (R - getLPS R m))"
    and "\<not> R - getLPS R m < 256 \<Longrightarrow> range_ok (R - getLPS R m)"
  using getLPS_bounds [OF assms, of m] assms by (auto simp: range_ok_def)

end
