(* ===== verification/ArithCoder.thy ===== *)
theory ArithCoder
  imports Contexts
begin

section \<open>The ideal binary arithmetic coder\<close>

text \<open>
  The specification that \<^verbatim>\<open>BinEncoder.cpp\<close> and \<^verbatim>\<open>BinDecoder.cpp\<close> both implement: a coder with
  unbounded integers, no carries and no byte buffers.  A state is the interval
  \<open>[a_low, a_low + a_range)\<close> at \<open>a_pos + 9\<close> fractional bits, and the contexts.  A bin narrows
  the interval to one of its two parts.  The bypass, terminating and aligning operations are
  reduced to the primitive bins of \<open>bin_op\<close>.
\<close>

datatype bin_op =
    BinCtx nat nat  \<comment> \<open>context index, bin\<close>
  | BinEP nat
  | BinTrm nat
  | Align

record arith =
  a_ctx :: "BinProbModel_Std list"
  a_low :: nat
  a_range :: nat
  a_pos :: nat

definition arith_start :: "BinProbModel_Std list \<Rightarrow> arith" where
  "arith_start ms = \<lparr>a_ctx = ms, a_low = 0, a_range = 510, a_pos = 0\<rparr>"

definition scale :: "nat \<Rightarrow> nat \<Rightarrow> nat \<Rightarrow> arith \<Rightarrow> arith" where
  "scale n x R a = a\<lparr>a_low := a_low a * 2 ^ n + x, a_range := R, a_pos := a_pos a + n\<rparr>"

fun arith_step :: "bin_op \<Rightarrow> arith \<Rightarrow> arith" where
  "arith_step (BinEP b) a = scale 1 (b * a_range a) (a_range a) a"
| "arith_step (BinTrm b) a =
     (if b \<noteq> 0 then scale 7 ((a_range a - 2) * 2 ^ 7) 256 a
      else if a_range a - 2 \<ge> 256 then scale 0 0 (a_range a - 2) a
      else scale 1 0 (2 * (a_range a - 2)) a)"
| "arith_step Align a = scale 0 0 256 a"
| "arith_step (BinCtx c b) a =
     (let m = a_ctx a ! c;
          lps = getLPS (a_range a) m;
          rmps = a_range a - lps;
          n = getRenormBitsLPS lps;
          a = (if b \<noteq> mps m then scale n (rmps * 2 ^ n) (lps * 2 ^ n) a
               else if rmps < 256 then scale 1 0 (2 * rmps) a
               else scale 0 0 rmps a)
      in a\<lparr>a_ctx := (a_ctx a)[c := BinProbModel_update b m]\<rparr>)"

definition arith_run :: "bin_op list \<Rightarrow> arith \<Rightarrow> arith" where
  "arith_run ops a = fold arith_step ops a"

fun op_ok :: "nat \<Rightarrow> bin_op \<Rightarrow> bool" where
  "op_ok n (BinCtx c b) \<longleftrightarrow> c < n \<and> b \<le> 1"
| "op_ok n (BinEP b) \<longleftrightarrow> b \<le> 1"
| "op_ok n (BinTrm b) \<longleftrightarrow> b \<le> 1"
| "op_ok n Align \<longleftrightarrow> True"

lemma arith_run_simps [simp]:
  "arith_run [] a = a" "arith_run (x # xs) a = arith_run xs (arith_step x a)"
  "arith_run (xs @ ys) a = arith_run ys (arith_run xs a)"
  by (simp_all add: arith_run_def)

lemma scale_simps [simp]:
  "a_ctx (scale n x R a) = a_ctx a" "a_range (scale n x R a) = R"
  "a_low (scale n x R a) = a_low a * 2 ^ n + x" "a_pos (scale n x R a) = a_pos a + n"
  by (simp_all add: scale_def)

lemma scale_scale: "scale n y R (scale m x R a) = scale (m + n) (x * 2 ^ n + y) R a"
  by (simp add: scale_def power_add algebra_simps)

lemma scale_split:
  assumes "m \<le> n"
  shows "scale n (x * R) R a = scale (n - m) (x mod 2 ^ (n - m) * R) R (scale m (x div 2 ^ (n - m) * R) R a)"
proof -
  let ?k = "n - m"
  have "x div 2 ^ ?k * R * 2 ^ ?k + x mod 2 ^ ?k * R = (x div 2 ^ ?k * 2 ^ ?k + x mod 2 ^ ?k) * R"
    by (simp only: add_mult_distrib add_mult_distrib2 mult_ac)
  also have "\<dots> = x * R" by (simp only: div_mult_mod_eq)
  finally show ?thesis using assms by (simp add: scale_scale)
qed

text \<open>Every step is a scaling by at most \<open>2 ^ 7\<close> into the old interval, and keeps the range in
  \<open>[256, 510]\<close>.\<close>

lemma arith_step_scale:
  assumes "range_ok (a_range a)" and "op_ok (length (a_ctx a)) op"
  obtains n x R ms where "arith_step op a = (scale n x R a)\<lparr>a_ctx := ms\<rparr>" and "n \<le> 7"
    and "x + R \<le> a_range a * 2 ^ n" and "range_ok R" and "length ms = length (a_ctx a)"
proof (cases op)
  case (BinCtx c b)
  let ?m = "a_ctx a ! c"
  let ?l = "getLPS (a_range a) ?m"
  note l = getLPS_bounds [OF assms(1), of ?m]
  have e: "(a_range a - ?l) * 2 ^ k + ?l * 2 ^ k = a_range a * 2 ^ k" for k
    using l(3) by (simp flip: add_mult_distrib)
  have n: "getRenormBitsLPS ?l \<le> 7" using renorm_table(4) [OF l(1,2)] by simp
  have r: "range_ok (?l * 2 ^ getRenormBitsLPS ?l)"
    using renorm_LPS [OF assms(1)] by (simp add: push_bit_eq_mult)
  let ?u = "(a_ctx a)[c := BinProbModel_update b ?m]"
  consider "b \<noteq> mps ?m" | "b = mps ?m" "a_range a - ?l < 256" | "b = mps ?m" "\<not> a_range a - ?l < 256" by blast
  then show ?thesis
  proof cases
    case 1
    then show ?thesis
      by (intro that [of ?u "getRenormBitsLPS ?l" "(a_range a - ?l) * 2 ^ getRenormBitsLPS ?l" "?l * 2 ^ getRenormBitsLPS ?l"])
        (use n r e in \<open>simp_all add: BinCtx Let_def\<close>)
  next
    case 2
    then show ?thesis
      by (intro that [of ?u 1 0 "2 * (a_range a - ?l)"])
        (use renorm_MPS(1) [OF assms(1)] in \<open>simp_all add: BinCtx Let_def\<close>)
  next
    case 3
    then show ?thesis
      by (intro that [of ?u 0 0 "a_range a - ?l"])
        (use renorm_MPS(2) [OF assms(1)] in \<open>simp_all add: BinCtx Let_def\<close>)
  qed
next
  case (BinEP b)
  then have "b = 0 \<or> b = 1" using assms(2) by auto
  then show ?thesis
    by (intro that [of "a_ctx a" 1 "b * a_range a" "a_range a"]) (use assms(1) BinEP in auto)
next
  case (BinTrm b)
  consider "b \<noteq> 0" | "b = 0" "a_range a - 2 \<ge> 256" | "b = 0" "a_range a - 2 < 256" by linarith
  then show ?thesis
  proof cases
    case 1
    then show ?thesis
      by (intro that [of "a_ctx a" 7 "(a_range a - 2) * 2 ^ 7" 256])
        (use assms(1) in \<open>auto simp: BinTrm range_ok_def\<close>)
  next
    case 2
    then show ?thesis
      by (intro that [of "a_ctx a" 0 0 "a_range a - 2"]) (use assms(1) in \<open>auto simp: BinTrm range_ok_def\<close>)
  next
    case 3
    then show ?thesis
      by (intro that [of "a_ctx a" 1 0 "2 * (a_range a - 2)"]) (use assms(1) in \<open>auto simp: BinTrm range_ok_def\<close>)
  qed
next
  case Align
  then show ?thesis by (intro that [of "a_ctx a" 0 0 256]) (use assms(1) in \<open>auto simp: range_ok_def\<close>)
qed

lemma arith_step_ok:
  assumes "range_ok (a_range a)" and "op_ok (length (a_ctx a)) op"
  shows "range_ok (a_range (arith_step op a))" and "length (a_ctx (arith_step op a)) = length (a_ctx a)"
  by (rule arith_step_scale [OF assms], simp)+

lemma arith_run_ok:
  assumes "range_ok (a_range a)" and "list_all (op_ok (length (a_ctx a))) ops"
  shows "range_ok (a_range (arith_run ops a)) \<and> length (a_ctx (arith_run ops a)) = length (a_ctx a)"
  using assms by (induction ops arbitrary: a) (auto simp: arith_step_ok)

subsection \<open>Code values\<close>

text \<open>\<open>in_interval V T a\<close>: the number with the \<open>T\<close> bits of \<open>V\<close> after the binary point lies in
  the interval of \<open>a\<close>.\<close>

definition in_interval :: "nat \<Rightarrow> nat \<Rightarrow> arith \<Rightarrow> bool" where
  "in_interval V T a \<longleftrightarrow> a_pos a + 9 \<le> T \<and> a_low a * 2 ^ (T - (a_pos a + 9)) \<le> V
     \<and> V < (a_low a + a_range a) * 2 ^ (T - (a_pos a + 9))"

text \<open>The intervals are nested.\<close>

lemma in_interval_scale:
  assumes "in_interval V T ((scale n x R a)\<lparr>a_ctx := ms\<rparr>)" and "x + R \<le> a_range a * 2 ^ n"
  shows "in_interval V T a"
proof -
  from assms(1) have T: "a_pos a + n + 9 \<le> T" by (simp add: in_interval_def)
  define d where "d = T - (a_pos a + n + 9)"
  have d: "T - (a_pos a + 9) = n + d" using T by (simp add: d_def)
  have lo: "(a_low a * 2 ^ n + x) * 2 ^ d \<le> V" and hi: "V < (a_low a * 2 ^ n + x + R) * 2 ^ d"
    using assms(1) by (simp_all add: in_interval_def d_def)
  have "a_low a * 2 ^ n * 2 ^ d \<le> V" by (rule order_trans [OF _ lo]) (simp add: algebra_simps)
  moreover have "(a_low a * 2 ^ n + x + R) * 2 ^ d \<le> (a_low a + a_range a) * 2 ^ n * 2 ^ d"
    using assms(2) by (intro mult_le_mono1) (simp add: algebra_simps)
  then have "V < (a_low a + a_range a) * 2 ^ n * 2 ^ d" using hi by linarith
  ultimately show ?thesis using T unfolding in_interval_def d by (simp add: power_add mult.assoc)
qed

lemma in_interval_step:
  assumes "range_ok (a_range a)" and "op_ok (length (a_ctx a)) op" and "in_interval V T (arith_step op a)"
  shows "in_interval V T a"
  by (rule arith_step_scale [OF assms(1,2)]) (use assms(3) in_interval_scale in metis)

lemma in_interval_run:
  assumes "range_ok (a_range a)" and "list_all (op_ok (length (a_ctx a))) ops"
    and "in_interval V T (arith_run ops a)"
  shows "in_interval V T a"
  using assms by (induction ops arbitrary: a) (auto intro: in_interval_step simp: arith_step_ok)

subsection \<open>Groups of bypass bins\<close>

definition BinsEP :: "nat \<Rightarrow> nat \<Rightarrow> bin_op list" where
  "BinsEP v n = map (\<lambda>b. BinEP (of_bool b)) (bitsBE n v)"

lemma arith_run_BinsEP:
  "v < 2 ^ n \<Longrightarrow> arith_run (BinsEP v n) a = scale n (v * a_range a) (a_range a) a"
proof (induction n arbitrary: v)
  case 0
  then show ?case by (simp add: BinsEP_def scale_def)
next
  case (Suc n)
  have "v = 2 * (v div 2) + of_bool (odd v)" by simp
  then have "v * a_range a = 2 * (v div 2) * a_range a + of_bool (odd v) * a_range a"
    by (metis add_mult_distrib)
  moreover have "v div 2 < 2 ^ n" using Suc.prems by simp
  ultimately show ?case
    using Suc.IH [of "v div 2"] by (simp add: BinsEP_def scale_def algebra_simps)
qed

lemma BinsEP_append: "BinsEP v m @ BinsEP w n = BinsEP (v * 2 ^ n + w mod 2 ^ n) (m + n)"
proof -
  have "(v * 2 ^ n + w mod 2 ^ n) div 2 ^ n = v" by simp
  moreover have "bitsBE n (v * 2 ^ n + w mod 2 ^ n) = bitsBE n w"
    using bitsBE_mod [of n n "v * 2 ^ n + w mod 2 ^ n"] bitsBE_mod [of n n w] by simp
  ultimately show ?thesis by (simp add: BinsEP_def bitsBE_add)
qed

lemma BinsEP_ok [simp]: "list_all (op_ok n) (BinsEP v k)"
  by (auto simp: BinsEP_def list_all_iff)

end
