(* ===== verification/BinEncoder.thy ===== *)
theory BinEncoder
  imports BitStreams ArithCoder
begin

section \<open>The arithmetic encoder: \<^verbatim>\<open>BinEncoder.h\<close>, \<^verbatim>\<open>BinEncoder.cpp\<close>\<close>

text \<open>
  The state of \<^verbatim>\<open>TBinEncoder<BinProbModel_Std>\<close>: the contexts, the output bit stream, the
  coding interval (\<^verbatim>\<open>m_Low\<close>, \<^verbatim>\<open>m_Range\<close>), the delayed bytes that a carry can still change
  (\<^verbatim>\<open>m_bufferedByte\<close> followed by \<^verbatim>\<open>m_numBufferedBytes - 1\<close> bytes \<^verbatim>\<open>0xff\<close>), and the bin
  counters.  \<^verbatim>\<open>BinStore\<close>, which records the bins per context for the training of the
  contexts, is the pair \<open>e_store_inUse\<close>, \<open>e_store\<close>.

  The second part gives the meaning of a state: an exact binary interval \<open>[L, L + R)\<close> at
  \<open>p + 9\<close> fractional bits (\<open>enc_inv\<close>).  Every operation is a step of that ideal coder, and
  \<^verbatim>\<open>finish\<close> writes the leading \<open>p + 1\<close> bits of \<open>L\<close>, whatever carries happened before.
\<close>

unbundle bit_operations_syntax

record BinEncoderBase =
  e_ctx :: "BinProbModel_Std list"
  e_bitstream :: OutputBitstream
  e_low :: nat
  e_range :: nat
  e_bufferedByte :: nat
  e_numBufferedBytes :: nat
  e_bitsLeft :: int
  e_numBinsCtx :: "nat list"
  e_numBinsEP :: nat
  e_numBinsTrm :: nat
  e_store_inUse :: bool
  e_store :: "bool list list"

subsection \<open>Bin counter and bin store\<close>

definition BinCounter_reset :: "BinEncoderBase \<Rightarrow> BinEncoderBase" where
  "BinCounter_reset e = e\<lparr>e_numBinsCtx := map (\<lambda>_. 0) (e_numBinsCtx e), e_numBinsEP := 0, e_numBinsTrm := 0\<rparr>"

definition BinCounter_getAll :: "BinEncoderBase \<Rightarrow> nat" where
  "BinCounter_getAll e = foldl (\<lambda>count n. u32 (count + n)) (u32 (e_numBinsEP e + e_numBinsTrm e)) (e_numBinsCtx e)"

definition addCtx :: "nat \<Rightarrow> BinEncoderBase \<Rightarrow> BinEncoderBase" where
  "addCtx ctxId e = e\<lparr>e_numBinsCtx := (e_numBinsCtx e)[ctxId := u32 (e_numBinsCtx e ! ctxId + 1)]\<rparr>"

definition addEP :: "nat \<Rightarrow> BinEncoderBase \<Rightarrow> BinEncoderBase" where
  "addEP num e = e\<lparr>e_numBinsEP := u32 (e_numBinsEP e + num)\<rparr>"

definition addTrm :: "BinEncoderBase \<Rightarrow> BinEncoderBase" where
  "addTrm e = e\<lparr>e_numBinsTrm := u32 (e_numBinsTrm e + 1)\<rparr>"

definition BinStore_reset :: "BinEncoderBase \<Rightarrow> BinEncoderBase" where
  "BinStore_reset e = (if e_store_inUse e then e\<lparr>e_store := map (\<lambda>_. []) (e_store e)\<rparr> else e)"

definition BinStore_addBin :: "nat \<Rightarrow> nat \<Rightarrow> BinEncoderBase \<Rightarrow> BinEncoderBase" where
  "BinStore_addBin bin ctxId e =
     (if e_store_inUse e \<and> length (e_store e ! ctxId) < 100000
      then e\<lparr>e_store := (e_store e)[ctxId := e_store e ! ctxId @ [bin = 1]]\<rparr>
      else e)"

subsection \<open>Operations\<close>

definition BinEncoder_restart :: "BinEncoderBase \<Rightarrow> BinEncoderBase" where
  "BinEncoder_restart e =
     e\<lparr>e_low := 0, e_range := 510, e_bufferedByte := 255, e_numBufferedBytes := 0, e_bitsLeft := 23\<rparr>"

definition BinEncoder_start :: "BinEncoderBase \<Rightarrow> BinEncoderBase" where
  "BinEncoder_start e =
     BinStore_reset (BinCounter_reset
       (e\<lparr>e_low := 0, e_range := 510, e_bufferedByte := 255, e_numBufferedBytes := 0, e_bitsLeft := 23\<rparr>))"

definition BinEncoder_resetBits :: "BinEncoderBase \<Rightarrow> BinEncoderBase" where
  "BinEncoder_resetBits e =
     BinCounter_reset (e\<lparr>e_low := 0, e_bufferedByte := 255, e_numBufferedBytes := 0, e_bitsLeft := 23\<rparr>)"

text \<open>\<^verbatim>\<open>while (m_numBufferedBytes > 1) { m_Bitstream->write(byte, 8); m_numBufferedBytes--; }\<close>\<close>

fun write_buffered :: "nat \<Rightarrow> BinEncoderBase \<Rightarrow> nat \<Rightarrow> BinEncoderBase option" where
  "write_buffered byte e 0 = Some (e\<lparr>e_numBufferedBytes := 0\<rparr>)"
| "write_buffered byte e (Suc n) =
     (if Suc n > 1
      then do {
        bs \<leftarrow> OutputBitstream_write byte 8 (e_bitstream e);
        write_buffered byte (e\<lparr>e_bitstream := bs\<rparr>) n }
      else Some (e\<lparr>e_numBufferedBytes := Suc n\<rparr>))"

definition writeOut :: "BinEncoderBase \<Rightarrow> BinEncoderBase option" where
  "writeOut e =
     (let leadByte = drop_bit (nat (24 - e_bitsLeft e)) (e_low e);
          e = e\<lparr>e_bitsLeft := e_bitsLeft e + 8\<rparr>;
          e = e\<lparr>e_low := e_low e AND drop_bit (nat (e_bitsLeft e)) (not32 0)\<rparr>
      in if leadByte = 255 then Some (e\<lparr>e_numBufferedBytes := e_numBufferedBytes e + 1\<rparr>)
         else if e_numBufferedBytes e > 0 then
           let carry = drop_bit 8 leadByte;
               byte = u32 (e_bufferedByte e + carry);
               e = e\<lparr>e_bufferedByte := leadByte AND 255\<rparr>
           in do {
             bs \<leftarrow> OutputBitstream_write byte 8 (e_bitstream e);
             write_buffered ((255 + carry) AND 255) (e\<lparr>e_bitstream := bs\<rparr>) (e_numBufferedBytes e) }
         else Some (e\<lparr>e_numBufferedBytes := 1, e_bufferedByte := leadByte\<rparr>))"

text \<open>\<^verbatim>\<open>if (m_bitsLeft < 12) { writeOut(); }\<close>\<close>

definition check_writeOut :: "BinEncoderBase \<Rightarrow> BinEncoderBase option" where
  "check_writeOut e = (if e_bitsLeft e < 12 then writeOut e else Some e)"

text \<open>\<^verbatim>\<open>finish\<close>, first the bytes that were held back.\<close>

definition finish_buffered :: "BinEncoderBase \<Rightarrow> BinEncoderBase option" where
  "finish_buffered e =
     (if drop_bit (nat (32 - e_bitsLeft e)) (e_low e) \<noteq> 0
      then do {
        bs \<leftarrow> OutputBitstream_write (u32 (e_bufferedByte e + 1)) 8 (e_bitstream e);
        e \<leftarrow> write_buffered 0 (e\<lparr>e_bitstream := bs\<rparr>) (e_numBufferedBytes e);
        Some (e\<lparr>e_low := sub32 (e_low e) (u32 (push_bit (nat (32 - e_bitsLeft e)) 1))\<rparr>) }
      else do {
        bs \<leftarrow> (if e_numBufferedBytes e > 0
              then OutputBitstream_write (e_bufferedByte e) 8 (e_bitstream e)
              else Some (e_bitstream e));
        write_buffered 255 (e\<lparr>e_bitstream := bs\<rparr>) (e_numBufferedBytes e) })"

definition BinEncoder_finish :: "BinEncoderBase \<Rightarrow> BinEncoderBase option" where
  "BinEncoder_finish e = do {
     e \<leftarrow> finish_buffered e;
     bs \<leftarrow> OutputBitstream_write (drop_bit 8 (e_low e)) (nat (24 - e_bitsLeft e)) (e_bitstream e);
     Some (e\<lparr>e_bitstream := bs\<rparr>) }"

definition encodeBinEP :: "nat \<Rightarrow> BinEncoderBase \<Rightarrow> BinEncoderBase option" where
  "encodeBinEP bin e =
     (let e = addEP 1 e;
          e = e\<lparr>e_low := u32 (push_bit 1 (e_low e))\<rparr>;
          e = (if bin \<noteq> 0 then e\<lparr>e_low := u32 (e_low e + e_range e)\<rparr> else e);
          e = e\<lparr>e_bitsLeft := e_bitsLeft e - 1\<rparr>
      in check_writeOut e)"

fun encodeAlignedBins_loop :: "nat \<Rightarrow> nat \<Rightarrow> BinEncoderBase \<Rightarrow> BinEncoderBase option" where
  "encodeAlignedBins_loop bins remBins e =
     (if remBins > 0 then
        let binsToCode = min remBins 8;
            binMask = push_bit binsToCode 1 - 1;
            newBins = drop_bit (remBins - binsToCode) bins AND binMask;
            e = e\<lparr>e_low := u32 (u32 (push_bit binsToCode (e_low e)) + u32 (push_bit 8 newBins))\<rparr>;
            e = e\<lparr>e_bitsLeft := e_bitsLeft e - int binsToCode\<rparr>
        in do { e \<leftarrow> check_writeOut e; encodeAlignedBins_loop bins (remBins - binsToCode) e }
      else Some e)"

definition encodeAlignedBinsEP :: "nat \<Rightarrow> nat \<Rightarrow> BinEncoderBase \<Rightarrow> BinEncoderBase option" where
  "encodeAlignedBinsEP bins numBins e = encodeAlignedBins_loop bins numBins e"

fun encodeBinsEP_loop :: "nat \<Rightarrow> nat \<Rightarrow> BinEncoderBase \<Rightarrow> (nat \<times> nat \<times> BinEncoderBase) option" where
  "encodeBinsEP_loop bins numBins e =
     (if numBins > 8 then
        let numBins = numBins - 8;
            pattern = drop_bit numBins bins;
            e = e\<lparr>e_low := u32 (push_bit 8 (e_low e))\<rparr>;
            e = e\<lparr>e_low := u32 (e_low e + u32 (e_range e * pattern))\<rparr>;
            bins = sub32 bins (u32 (push_bit numBins pattern));
            e = e\<lparr>e_bitsLeft := e_bitsLeft e - 8\<rparr>
        in do { e \<leftarrow> check_writeOut e; encodeBinsEP_loop bins numBins e }
      else Some (bins, numBins, e))"

declare encodeAlignedBins_loop.simps [simp del] encodeBinsEP_loop.simps [simp del]

definition encodeBinsEP :: "nat \<Rightarrow> nat \<Rightarrow> BinEncoderBase \<Rightarrow> BinEncoderBase option" where
  "encodeBinsEP bins numBins e =
     (let e = addEP numBins e
      in if e_range e = 256 then encodeAlignedBinsEP bins numBins e
         else do {
           (bins, numBins, e) \<leftarrow> encodeBinsEP_loop bins numBins e;
           let e = e\<lparr>e_low := u32 (push_bit numBins (e_low e))\<rparr>;
           let e = e\<lparr>e_low := u32 (e_low e + u32 (e_range e * bins))\<rparr>;
           let e = e\<lparr>e_bitsLeft := e_bitsLeft e - int numBins\<rparr>;
           check_writeOut e })"

text \<open>The prefix length of the escape code:
  \<^verbatim>\<open>while (codeValue > ((2 << prefixLength) - 2)) prefixLength++;\<close>, bounded by the test
  before it.\<close>

function (sequential) prefix_loop :: "nat \<Rightarrow> nat \<Rightarrow> nat" where
  "prefix_loop codeValue prefixLength =
     (if codeValue > push_bit prefixLength 2 - 2 then prefix_loop codeValue (prefixLength + 1)
      else prefixLength)"
  by pat_completeness auto
termination
proof (relation "measure (\<lambda>(c, l). c - l)")
  fix c l :: nat
  assume "push_bit l 2 - 2 < c"
  moreover have "l \<le> 2 * 2 ^ l - 2" using less_exp [of l] by linarith
  ultimately show "((c, l + 1), c, l) \<in> measure (\<lambda>(c, l). c - l)" by (simp add: push_bit_eq_mult)
qed simp

declare prefix_loop.simps [simp del]

definition encodeRemAbsEP :: "nat \<Rightarrow> nat \<Rightarrow> nat \<Rightarrow> nat \<Rightarrow> BinEncoderBase \<Rightarrow> BinEncoderBase option" where
  "encodeRemAbsEP bins goRicePar cutoff maxLog2TrDynamicRange e =
     (let threshold = u32 (push_bit goRicePar cutoff);
          bitMask = push_bit goRicePar 1 - 1
      in if bins < threshold then
           let len = drop_bit goRicePar bins + 1
           in do {
             e \<leftarrow> encodeBinsEP (push_bit len 1 - 2) len e;
             encodeBinsEP (bins AND bitMask) goRicePar e }
         else
           let maxPrefixLength = 32 - cutoff - maxLog2TrDynamicRange;
               codeValue = drop_bit goRicePar bins - cutoff;
               (prefixLength, suffixLength) =
                 (if codeValue \<ge> push_bit maxPrefixLength 1 - 1
                  then (maxPrefixLength, maxLog2TrDynamicRange)
                  else let prefixLength = prefix_loop codeValue 0
                       in (prefixLength, prefixLength + goRicePar + 1));
               totalPrefixLength = prefixLength + cutoff;
               prefx = push_bit totalPrefixLength 1 - 1;
               suffx = u32 (push_bit goRicePar (codeValue - (push_bit prefixLength 1 - 1))) OR (bins AND bitMask)
           in do {
             e \<leftarrow> encodeBinsEP prefx totalPrefixLength e;
             encodeBinsEP suffx suffixLength e })"

definition encodeBinTrm :: "nat \<Rightarrow> BinEncoderBase \<Rightarrow> BinEncoderBase option" where
  "encodeBinTrm bin e =
     (let e = addTrm e;
          e = e\<lparr>e_range := sub32 (e_range e) 2\<rparr>
      in if bin \<noteq> 0 then
           let e = e\<lparr>e_low := u32 (e_low e + e_range e)\<rparr>;
               e = e\<lparr>e_low := u32 (push_bit 7 (e_low e))\<rparr>;
               e = e\<lparr>e_range := push_bit 7 2, e_bitsLeft := e_bitsLeft e - 7\<rparr>
           in check_writeOut e
         else if e_range e \<ge> 256 then Some e
         else
           let e = e\<lparr>e_low := u32 (push_bit 1 (e_low e)), e_range := u32 (push_bit 1 (e_range e)),
                     e_bitsLeft := e_bitsLeft e - 1\<rparr>
           in check_writeOut e)"

definition BinEncoder_align :: "BinEncoderBase \<Rightarrow> BinEncoderBase" where
  "BinEncoder_align e = e\<lparr>e_range := 256\<rparr>"

text \<open>\<^verbatim>\<open>encodeBin\<close>; a context index out of range, undefined behaviour in C++, is \<^const>\<open>None\<close>.\<close>

definition encodeBin :: "nat \<Rightarrow> nat \<Rightarrow> BinEncoderBase \<Rightarrow> BinEncoderBase option" where
  "encodeBin bin ctxId e =
     (if ctxId \<ge> length (e_ctx e) then None
      else
        let e = addCtx ctxId e;
            rcProbModel = e_ctx e ! ctxId;
            LPS = getLPS (e_range e) rcProbModel;
            e = e\<lparr>e_range := sub32 (e_range e) LPS\<rparr>
        in do {
          e \<leftarrow> (if bin \<noteq> mps rcProbModel then
                  let numBits = getRenormBitsLPS LPS;
                      e = e\<lparr>e_bitsLeft := e_bitsLeft e - int numBits\<rparr>;
                      e = e\<lparr>e_low := u32 (e_low e + e_range e)\<rparr>;
                      e = e\<lparr>e_low := u32 (push_bit numBits (e_low e)), e_range := u32 (push_bit numBits LPS)\<rparr>
                  in check_writeOut e
                else if e_range e < 256 then
                  let numBits = getRenormBitsRange (e_range e);
                      e = e\<lparr>e_bitsLeft := e_bitsLeft e - int numBits,
                            e_low := u32 (push_bit numBits (e_low e)),
                            e_range := u32 (push_bit numBits (e_range e))\<rparr>
                  in check_writeOut e
                else Some e);
          let e = e\<lparr>e_ctx := (e_ctx e)[ctxId := BinProbModel_update bin rcProbModel]\<rparr>;
          Some (BinStore_addBin bin ctxId e) })"

subsection \<open>The exact interval of an encoder state\<close>

text \<open>The buffered bytes as a number: \<open>bb\<close> followed by \<open>nb - 1\<close> bytes 255.\<close>

definition buffered :: "nat \<Rightarrow> nat \<Rightarrow> nat" where
  "buffered nb bb = (if nb = 0 then 0 else (bb + 1) * 256 ^ (nb - 1) - 1)"

lemma buffered_Suc: "buffered (Suc nb) bb + 1 = (bb + 1) * 256 ^ nb"
proof -
  have "0 < (bb + 1) * 256 ^ nb" by simp
  then show ?thesis by (simp add: buffered_def)
qed

lemma buffered_simps:
  "buffered 0 bb = 0" "buffered (Suc 0) bb = bb"
  "nb = 0 \<longrightarrow> bb = 255 \<Longrightarrow> buffered (Suc nb) bb = buffered nb bb * 256 + 255"
proof -
  show "buffered (Suc nb) bb = buffered nb bb * 256 + 255" if "nb = 0 \<longrightarrow> bb = 255"
  proof (cases nb)
    case (Suc m)
    have "buffered (Suc (Suc m)) bb + 1 = (buffered (Suc m) bb + 1) * 256"
      unfolding buffered_Suc by simp
    then show ?thesis by (simp add: Suc)
  qed (use that in \<open>simp add: buffered_def\<close>)
qed (simp_all add: buffered_def)

text \<open>\<open>W\<close> are the bytes written since the start and \<open>k\<close> the bits shifted into \<^verbatim>\<open>m_Low\<close>
  beyond its nine initial ones.\<close>

definition enc_rep :: "bool list \<Rightarrow> nat list \<Rightarrow> nat \<Rightarrow> BinEncoderBase \<Rightarrow> bool" where
  "enc_rep bits W k e \<longleftrightarrow>
     out_inv (e_bitstream e) \<and> bits_out (e_bitstream e) = bits @ bytes_bits W \<and> bytes_ok W
     \<and> e_bitsLeft e = 23 - int k \<and> k < 20 \<and> e_bufferedByte e < 256
     \<and> (e_numBufferedBytes e = 0 \<longrightarrow> e_bufferedByte e = 255 \<and> W = [])
     \<and> 0 < e_range e \<and> e_range e \<le> 510
     \<and> e_low e + e_range e \<le> 2 ^ (10 + k)
     \<and> buffered (e_numBufferedBytes e) (e_bufferedByte e) * 2 ^ (9 + k) + e_low e + e_range e
         \<le> 256 ^ e_numBufferedBytes e * 2 ^ (9 + k)"

definition enc_low :: "nat list \<Rightarrow> nat \<Rightarrow> BinEncoderBase \<Rightarrow> nat" where
  "enc_low W k e =
     (be_word W * 256 ^ e_numBufferedBytes e + buffered (e_numBufferedBytes e) (e_bufferedByte e)) * 2 ^ (9 + k)
     + e_low e"

definition enc_pos :: "nat list \<Rightarrow> nat \<Rightarrow> BinEncoderBase \<Rightarrow> nat" where
  "enc_pos W k e = 8 * (length W + e_numBufferedBytes e) + k"

definition enc_inv :: "bool list \<Rightarrow> nat \<Rightarrow> nat \<Rightarrow> BinEncoderBase \<Rightarrow> bool" where
  "enc_inv bits L p e \<longleftrightarrow> range_ok (e_range e) \<and>
     (\<exists>W k. enc_rep bits W k e \<and> k < 12 \<and> L = enc_low W k e \<and> p = enc_pos W k e)"

lemma write_buffered_ok:
  assumes "out_inv (e_bitstream e)" and "byte < 256" and "0 < n"
  obtains bs where "write_buffered byte e n = Some (e\<lparr>e_bitstream := bs, e_numBufferedBytes := 1\<rparr>)"
    and "out_inv bs" and "bits_out bs = bits_out (e_bitstream e) @ bytes_bits (replicate (n - 1) byte)"
  using assms
proof (induction byte e n arbitrary: thesis rule: write_buffered.induct)
  case (2 byte e n)
  show ?case
  proof (cases n)
    case 0
    with 2(2) [of "e_bitstream e"] 2(3) show ?thesis by simp
  next
    case (Suc m)
    from write_ok [OF 2(3), of byte 8] 2(4) obtain bs where
      bs: "OutputBitstream_write byte 8 (e_bitstream e) = Some bs" "out_inv bs"
        "bits_out bs = bits_out (e_bitstream e) @ bitsBE 8 byte" by auto
    show ?thesis
      by (rule 2(1) [of bs]) (use bs 2(2-4) Suc in \<open>auto simp del: bitsBE.simps\<close>)
  qed
qed simp

lemma drop_not32_0: "k \<le> 31 \<Longrightarrow> drop_bit (31 - k) (not32 0) = 2 ^ (k + 1) - 1"
proof -
  assume "k \<le> 31"
  have "not32 0 = mask 32" by (simp add: not32_def mask_numeral)
  then have "drop_bit (31 - k) (not32 0) = mask (k + 1)"
    using \<open>k \<le> 31\<close> by (intro bit_eqI) (auto simp: bit_simps)
  then show ?thesis by (simp add: mask_eq_exp_minus_1)
qed

lemma be_word_replicate_255: "be_word (replicate n 255) = 256 ^ n - 1"
  by (induction n) (auto simp: be_word_Cons algebra_simps)

lemma be_word_replicate_0: "be_word (replicate n 0) = 0"
  by (induction n) (auto simp: be_word_Cons)

text \<open>The bytes a carry \<open>c\<close> turns the buffered ones into.\<close>

lemma be_word_flush:
  assumes "c \<le> 1" and "0 < nb"
  shows "be_word (W @ (bb + c) # replicate (nb - 1) ((255 + c) AND 255)) =
    be_word W * 256 ^ nb + buffered nb bb + c"
proof -
  obtain m where m: "nb = Suc m" using assms(2) by (cases nb) auto
  have "(256::nat) AND 255 = 0" by simp
  consider "c = 0" | "c = 1" using assms(1) by linarith
  then show ?thesis
  proof cases
    case 1
    have "(1::nat) \<le> 256 ^ m" by simp
    with 1 show ?thesis
      using buffered_Suc [of m bb]
      by (simp add: m be_word_append be_word_Cons be_word_replicate_255 algebra_simps)
  next
    case 2
    then show ?thesis using buffered_Suc [of m bb]
      by (simp add: m be_word_append be_word_Cons be_word_replicate_0 algebra_simps)
  qed
qed

lemma carry_fits:
  assumes "X * U + c * U + l + R \<le> 256 ^ nb * U" and "c \<le> 1" and "0 < R"
    and "X + 1 = (bb + 1) * 256 ^ (nb - 1)" and "0 < nb" and "bb < 256"
  shows "bb + c < (256::nat)"
proof (cases "c = 0")
  case False
  with assms(2) have "c = 1" by simp
  with assms(1,3) have "(X + 1) * U < 256 ^ nb * U" by (simp add: algebra_simps)
  then have "X + 1 < 256 ^ nb" using mult_less_cancel2 by blast
  also have "(256::nat) ^ nb = 256 * 256 ^ (nb - 1)" using assms(5) by (cases nb) auto
  finally have "bb + 1 < 256" unfolding assms(4) by simp
  with False assms(2) show ?thesis by simp
qed (use assms in simp)

lemma new_chunk_fits:
  assumes "lead * U + l + R \<le> 512 * U" and "l < U" and "R \<le> U" and "lead = 256 * c + lead'"
    and "lead' < 256" and "c \<le> 1" and "lead \<noteq> 255"
  shows "lead' * U + l + R \<le> 256 * (U::nat)"
proof (cases "c = 0")
  case True
  with assms have "lead' \<le> 254" by simp
  then have "lead' * U \<le> 254 * U" by (rule mult_le_mono1)
  with assms(2,3) show ?thesis by linarith
next
  case False
  with assms(6) have "c = 1" by simp
  with assms(1,4) show ?thesis by (simp add: algebra_simps)
qed

lemma writeOut_ok:
  assumes "enc_rep bits W k e" and "12 \<le> k"
  obtains W' e' where "writeOut e = Some e'" and "enc_rep bits W' (k - 8) e'"
    and "enc_low W' (k - 8) e' = enc_low W k e" and "enc_pos W' (k - 8) e' = enc_pos W k e"
    and "e_range e' = e_range e" and "e_ctx e' = e_ctx e"
proof -
  note rep = assms(1) [unfolded enc_rep_def]
  let ?nb = "e_numBufferedBytes e" and ?bb = "e_bufferedByte e" and ?low = "e_low e" and ?R = "e_range e"
  define U where "U = (2::nat) ^ (k + 1)"
  define lead where "lead = ?low div U"
  define low' where "low' = ?low mod U"
  have low: "?low = lead * U + low'" by (simp add: lead_def low'_def)
  have U: "low' < U" "2 ^ (9 + k) = 256 * U" "2 ^ (10 + k) = 512 * U" "8192 \<le> U"
  proof -
    show "low' < U" by (simp add: low'_def U_def)
    show "2 ^ (9 + k) = 256 * U" "2 ^ (10 + k) = 512 * U" by (simp_all add: U_def power_add)
    have "(2::nat) ^ 13 \<le> U" unfolding U_def using assms(2) by (intro power_increasing) auto
    then show "8192 \<le> U" by simp
  qed
  have k8: "9 + (k - 8) = k + 1" "10 + (k - 8) = k + 2" "8 + (k - 8) = k" using assms(2) by simp_all
  have U': "2 ^ (9 + (k - 8)) = U" "2 ^ (10 + (k - 8)) = 2 * U" unfolding k8 U_def by simp_all
  have R: "0 < ?R" "?R \<le> 510" "k - 8 < 20" using rep by auto
  have lead512: "lead < 512"
  proof -
    have "lead * U < 512 * U" using rep U R low by linarith
    then show ?thesis by simp
  qed
  have chunk: "buffered ?nb ?bb * (256 * U) + lead * U + low' + ?R \<le> 256 ^ ?nb * (256 * U)"
    using rep U low by simp
  have sum: "lead * U + low' + ?R \<le> 512 * U" using rep U low by simp
  have n24: "nat (24 - e_bitsLeft e) = k + 1" "nat (e_bitsLeft e + 8) = 31 - k"
    using rep by auto
  define e1 where "e1 = e\<lparr>e_bitsLeft := e_bitsLeft e + 8, e_low := low'\<rparr>"
  have wo: "writeOut e =
      (if lead = 255 then Some (e1\<lparr>e_numBufferedBytes := ?nb + 1\<rparr>)
       else if ?nb > 0 then do {
         bs \<leftarrow> OutputBitstream_write (u32 (?bb + lead div 256)) 8 (e_bitstream e);
         write_buffered ((255 + lead div 256) AND 255) (e1\<lparr>e_bufferedByte := lead AND 255, e_bitstream := bs\<rparr>) ?nb }
       else Some (e1\<lparr>e_numBufferedBytes := 1, e_bufferedByte := lead\<rparr>))"
  proof -
    have "?low AND drop_bit (31 - k) (not32 0) = low'"
      using drop_not32_0 [of k] rep and_mask_mod [of ?low "k + 1"] by (simp add: low'_def U_def)
    then show ?thesis
      by (simp add: writeOut_def n24 Let_def e1_def lead_def U_def drop_bit_eq_div)
  qed
  let ?X = "buffered ?nb ?bb"
  have carry: "lead div 256 \<le> 1" using lead512 by simp
  consider (ff) "lead = 255" | (first) "lead \<noteq> 255" "?nb = 0" | (flush) "lead \<noteq> 255" "?nb > 0" by auto
  then show ?thesis
  proof cases
    case ff
    have X: "buffered (Suc ?nb) ?bb = ?X * 256 + 255" using rep by (intro buffered_simps(3)) auto
    show ?thesis
    proof (rule that [of "e1\<lparr>e_numBufferedBytes := ?nb + 1\<rparr>" W])
      show "enc_rep bits W (k - 8) (e1\<lparr>e_numBufferedBytes := ?nb + 1\<rparr>)"
        using rep assms(2) U chunk R unfolding enc_rep_def U'
        by (simp add: e1_def X ff algebra_simps)
    qed (use ff in \<open>simp_all only: wo enc_low_def U U', simp_all add: e1_def X low algebra_simps enc_pos_def k8\<close>)
  next
    case first
    then have W: "W = []" using rep by simp
    have "lead < 256"
    proof -
      have "lead * U + low' + ?R \<le> 256 * U" using chunk first by (simp add: buffered_simps)
      then have "lead * U < 256 * U" using R by linarith
      then show ?thesis by simp
    qed
    show ?thesis
    proof (rule that [of "e1\<lparr>e_numBufferedBytes := 1, e_bufferedByte := lead\<rparr>" "[]"])
      show "enc_rep bits [] (k - 8) (e1\<lparr>e_numBufferedBytes := 1, e_bufferedByte := lead\<rparr>)"
        using rep assms(2) U chunk R W \<open>lead < 256\<close> first unfolding enc_rep_def U'
        by (simp add: e1_def buffered_simps algebra_simps)
    qed (use first W in \<open>simp_all only: wo enc_low_def U U', simp_all add: e1_def buffered_simps low algebra_simps enc_pos_def k8\<close>)
  next
    case flush
    then obtain m where m: "?nb = Suc m" by (cases ?nb) auto
    define c where "c = lead div 256"
    define lead' where "lead' = lead mod 256"
    have lead: "lead = 256 * c + lead'" "lead' < 256" "lead AND 255 = lead'" "c \<le> 1"
      using and_mask_mod [of lead 8] carry by (simp_all add: c_def lead'_def)
    have bb: "?bb + c < 256"
    proof (rule carry_fits [OF _ lead(4) R(1) _ flush(2)])
      show "?X * (256 * U) + c * (256 * U) + (lead' * U + low') + ?R \<le> 256 ^ ?nb * (256 * U)"
        using chunk unfolding lead(1) by (simp add: algebra_simps)
    qed (use rep buffered_Suc [of m ?bb] m in simp_all)
    from write_ok [of "e_bitstream e" "?bb + c" 8] rep bb obtain b1 where
      b1: "OutputBitstream_write (?bb + c) 8 (e_bitstream e) = Some b1" "out_inv b1"
        "bits_out b1 = bits_out (e_bitstream e) @ bitsBE 8 (?bb + c)" by auto
    have and255: "(255 + c) AND 255 < 256" using and_mask_mod [of "255 + c" 8] by simp
    let ?e2 = "e1\<lparr>e_bufferedByte := lead AND 255, e_bitstream := b1\<rparr>"
    from write_buffered_ok [of ?e2 "(255 + c) AND 255" ?nb] b1(2) and255 flush obtain b2 where
      b2: "write_buffered ((255 + c) AND 255) ?e2 ?nb = Some (?e2\<lparr>e_bitstream := b2, e_numBufferedBytes := 1\<rparr>)"
        "out_inv b2" "bits_out b2 = bits_out b1 @ bytes_bits (replicate (?nb - 1) ((255 + c) AND 255))" by auto
    let ?e3 = "?e2\<lparr>e_bitstream := b2, e_numBufferedBytes := 1\<rparr>"
    define W' where "W' = W @ (?bb + c) # replicate (?nb - 1) ((255 + c) AND 255)"
    have W': "be_word W' = be_word W * 256 ^ ?nb + ?X + c" "bytes_ok W'" "length W' = length W + ?nb"
      using be_word_flush [OF lead(4) flush(2)] rep bb and255 flush
      by (auto simp: W'_def bytes_ok_def list_all_iff)
    have low': "lead' * U + low' + ?R \<le> 256 * U"
      using new_chunk_fits [OF sum U(1) _ lead(1,2,4) flush(1)] U(4) R by simp
    show ?thesis
    proof (rule that [of ?e3 W'])
      show "writeOut e = Some ?e3"
        using flush b1(1) b2(1) bb by (simp add: wo c_def [symmetric] u32_id)
      show "enc_rep bits W' (k - 8) ?e3"
        using rep assms(2) U R W' b1 b2 low' lead unfolding enc_rep_def U'
        by (simp add: e1_def buffered_simps W'_def)
      show "enc_low W' (k - 8) ?e3 = enc_low W k e"
        unfolding enc_low_def U U' low by (simp add: e1_def W' buffered_simps lead(3))
          (simp add: lead(1) algebra_simps)
      show "enc_pos W' (k - 8) ?e3 = enc_pos W k e"
        using assms(2) by (simp add: enc_pos_def W')
    qed (simp_all add: e1_def)
  qed
qed

text \<open>A step of the ideal coder: scale the interval by \<open>2 ^ n\<close> and take a part of it.\<close>

lemma check_writeOut_ok:
  assumes "enc_inv bits L p e" and "n \<le> 8" and "a + R' \<le> e_range e * 2 ^ n" and "range_ok R'"
    and "e_low e' = e_low e * 2 ^ n + a" "e_range e' = R'" "e_bitsLeft e' = e_bitsLeft e - int n"
    and "e_bitstream e' = e_bitstream e" "e_bufferedByte e' = e_bufferedByte e"
      "e_numBufferedBytes e' = e_numBufferedBytes e"
  obtains e'' where "check_writeOut e' = Some e''" and "enc_inv bits (L * 2 ^ n + a) (p + n) e''"
    and "e_range e'' = R'" and "e_ctx e'' = e_ctx e'"
proof -
  note upd = assms(5-10)
  from assms(1) obtain W k where rep: "enc_rep bits W k e" "k < 12" and L: "L = enc_low W k e"
    and p: "p = enc_pos W k e" by (auto simp: enc_inv_def)
  note r = rep(1) [unfolded enc_rep_def]
  have rep': "enc_rep bits W (k + n) e'"
  proof -
    let ?B = "buffered (e_numBufferedBytes e) (e_bufferedByte e)" and ?M = "256 ^ e_numBufferedBytes e :: nat"
    have "(e_low e + e_range e) * 2 ^ n \<le> 2 ^ (10 + k) * 2 ^ n" using r by (intro mult_le_mono1) simp
    then have 1: "e_low e * 2 ^ n + a + R' \<le> 2 ^ (10 + (k + n))"
      using assms(3) by (simp add: power_add algebra_simps)
    have "(?B * 2 ^ (9 + k) + e_low e + e_range e) * 2 ^ n \<le> ?M * 2 ^ (9 + k) * 2 ^ n"
      using r by (intro mult_le_mono1) simp
    then have "?B * 2 ^ (9 + (k + n)) + (e_low e * 2 ^ n + a) + R' \<le> ?M * 2 ^ (9 + (k + n))"
      using assms(3) by (simp add: power_add algebra_simps)
    with 1 r rep(2) assms(2,4) show ?thesis by (simp add: enc_rep_def upd range_ok_def)
  qed
  have L': "enc_low W (k + n) e' = L * 2 ^ n + a"
    by (simp add: L enc_low_def upd power_add algebra_simps)
  have p': "enc_pos W (k + n) e' = p + n" by (simp add: p enc_pos_def upd)
  show ?thesis
  proof (cases "12 \<le> k + n")
    case True
    from writeOut_ok [OF rep' True] obtain W' e'' where w: "writeOut e' = Some e''"
      "enc_rep bits W' (k + n - 8) e''" "enc_low W' (k + n - 8) e'' = L * 2 ^ n + a"
      "enc_pos W' (k + n - 8) e'' = p + n" "e_range e'' = e_range e'" "e_ctx e'' = e_ctx e'"
      unfolding L' p' .
    have "k + n - 8 < 12" using True assms(2) rep(2) by simp
    with w have "enc_inv bits (L * 2 ^ n + a) (p + n) e''"
      unfolding enc_inv_def using assms(4) by (auto simp: upd intro!: exI [of _ W'] exI [of _ "k + n - 8"])
    moreover have "e_bitsLeft e' < 12" using r True by (auto simp: upd)
    ultimately show ?thesis
      using w by (intro that [of e'']) (auto simp: check_writeOut_def upd)
  next
    case False
    then have "\<not> e_bitsLeft e' < 12" using r by (auto simp: upd)
    moreover have "k + n < 12" using False by simp
    with rep' L' p' have "enc_inv bits (L * 2 ^ n + a) (p + n) e'"
      unfolding enc_inv_def using assms(4) by (auto simp: upd intro!: exI [of _ W] exI [of _ "k + n"])
    ultimately show ?thesis by (intro that [of e']) (auto simp: check_writeOut_def upd)
  qed
qed

text \<open>The values below 32 bits that the steps compute do not wrap.\<close>

lemma enc_inv_low: "enc_inv bits L p e \<Longrightarrow> e_low e + e_range e \<le> 2097152"
proof -
  assume "enc_inv bits L p e"
  then obtain k where "k < 12" "e_low e + e_range e \<le> 2 ^ (10 + k)" by (auto simp: enc_inv_def enc_rep_def)
  moreover have "(2::nat) ^ (10 + k) \<le> 2 ^ 21" using \<open>k < 12\<close> by (intro power_increasing) auto
  ultimately show ?thesis by simp
qed

lemma enc_inv_range: "enc_inv bits L p e \<Longrightarrow> range_ok (e_range e)"
  by (simp add: enc_inv_def)

text \<open>The ideal interval fits into \<open>p + 9\<close> bits.\<close>

lemma enc_inv_fits:
  assumes "enc_inv bits L p e"
  shows "L + e_range e \<le> 2 ^ (p + 9)"
proof -
  from assms obtain W k where rep: "enc_rep bits W k e" and L: "L = enc_low W k e" and p: "p = enc_pos W k e"
    by (auto simp: enc_inv_def)
  let ?nb = "e_numBufferedBytes e" and ?B = "buffered (e_numBufferedBytes e) (e_bufferedByte e)"
  have c: "?B * 2 ^ (9 + k) + e_low e + e_range e \<le> 256 ^ ?nb * 2 ^ (9 + k)" and W: "bytes_ok W"
    using rep by (auto simp: enc_rep_def)
  have "L + e_range e = be_word W * (256 ^ ?nb * 2 ^ (9 + k)) + (?B * 2 ^ (9 + k) + e_low e + e_range e)"
    by (simp add: L enc_low_def algebra_simps)
  also have "\<dots> \<le> (be_word W + 1) * (256 ^ ?nb * 2 ^ (9 + k))" using c by simp
  also have "\<dots> \<le> 256 ^ length W * (256 ^ ?nb * 2 ^ (9 + k))"
    using be_word_less [OF W] by (intro mult_le_mono1) simp
  also have "\<dots> = 2 ^ (p + 9)"
  proof -
    have "(256::nat) ^ j = 2 ^ (8 * j)" for j by (simp add: power_mult)
    then show ?thesis by (simp add: p enc_pos_def power_add [symmetric] algebra_simps)
  qed
  finally show ?thesis .
qed

subsection \<open>The operations as steps of the ideal coder\<close>

definition enc_sim :: "bool list \<Rightarrow> arith \<Rightarrow> BinEncoderBase \<Rightarrow> bool" where
  "enc_sim bits a e \<longleftrightarrow> enc_inv bits (a_low a) (a_pos a) e \<and> e_range e = a_range a \<and> e_ctx e = a_ctx a"

lemma enc_sim_scale:
  assumes "enc_sim bits a e" and "n \<le> 8" and "x + R \<le> a_range a * 2 ^ n" and "range_ok R"
    and "e_low e' = e_low e * 2 ^ n + x" "e_range e' = R" "e_bitsLeft e' = e_bitsLeft e - int n"
    and "e_bitstream e' = e_bitstream e" "e_bufferedByte e' = e_bufferedByte e"
      "e_numBufferedBytes e' = e_numBufferedBytes e" "e_ctx e' = e_ctx e"
  obtains e'' where "check_writeOut e' = Some e''" and "enc_sim bits (scale n x R a) e''"
proof -
  have inv: "enc_inv bits (a_low a) (a_pos a) e" and e: "e_range e = a_range a" "e_ctx e = a_ctx a"
    using assms(1) by (auto simp: enc_sim_def)
  from check_writeOut_ok [OF inv assms(2) _ assms(4-10)] assms(3) e obtain e'' where
    "check_writeOut e' = Some e''" "enc_inv bits (a_low a * 2 ^ n + x) (a_pos a + n) e''"
    "e_range e'' = R" "e_ctx e'' = e_ctx e'" by auto
  with that e assms(11) show ?thesis by (simp add: enc_sim_def)
qed

text \<open>Without renormalisation nothing is written.\<close>

lemma enc_sim_keep:
  assumes "enc_sim bits a e" and "R \<le> a_range a" and "range_ok R"
    and "e_low e' = e_low e" "e_range e' = R" "e_bitsLeft e' = e_bitsLeft e"
    and "e_bitstream e' = e_bitstream e" "e_bufferedByte e' = e_bufferedByte e"
      "e_numBufferedBytes e' = e_numBufferedBytes e" "e_ctx e' = e_ctx e"
  shows "enc_sim bits (scale 0 0 R a) e'"
proof -
  obtain e'' where e'': "check_writeOut e' = Some e''" "enc_sim bits (scale 0 0 R a) e''"
    by (rule enc_sim_scale [OF assms(1), of 0 0 R e']) (use assms in auto)
  have "\<not> e_bitsLeft e' < 12"
    using assms(1,6) by (auto simp: enc_sim_def enc_inv_def enc_rep_def)
  with e'' show ?thesis by (simp add: check_writeOut_def)
qed

lemma enc_sim_low: "enc_sim bits a e \<Longrightarrow> e_low e + e_range e \<le> 2097152"
  by (auto simp: enc_sim_def dest: enc_inv_low)

lemma enc_sim_range: "enc_sim bits a e \<Longrightarrow> e_range e = a_range a \<and> range_ok (a_range a)"
  by (auto simp: enc_sim_def dest: enc_inv_range)

lemma enc_sim_ctx: "enc_sim bits a e \<Longrightarrow> e_ctx e = a_ctx a"
  by (simp add: enc_sim_def)

lemma enc_sim_cong:
  assumes "enc_sim bits a e" and "a_low a' = a_low a" "a_range a' = a_range a" "a_pos a' = a_pos a"
    and "e_low e' = e_low e" "e_range e' = e_range e" "e_bitsLeft e' = e_bitsLeft e"
    and "e_bitstream e' = e_bitstream e" "e_bufferedByte e' = e_bufferedByte e"
      "e_numBufferedBytes e' = e_numBufferedBytes e" "e_ctx e' = a_ctx a'"
  shows "enc_sim bits a' e'"
proof -
  have "enc_rep bits W k e' = enc_rep bits W k e" "enc_low W k e' = enc_low W k e"
    "enc_pos W k e' = enc_pos W k e" for W k
    using assms by (simp_all add: enc_rep_def enc_low_def enc_pos_def)
  then show ?thesis using assms by (auto simp: enc_sim_def enc_inv_def)
qed

lemma encodeBinEP_ok:
  assumes "enc_sim bits a e" and "bin \<le> 1"
  obtains e' where "encodeBinEP bin e = Some e'" and "enc_sim bits (arith_step (BinEP bin) a) e'"
proof -
  have b: "bin = 0 \<or> bin = 1" using assms(2) by linarith
  let ?e = "let e = addEP 1 e;
      e = e\<lparr>e_low := u32 (push_bit 1 (e_low e))\<rparr>;
      e = (if bin \<noteq> 0 then e\<lparr>e_low := u32 (e_low e + e_range e)\<rparr> else e)
    in e\<lparr>e_bitsLeft := e_bitsLeft e - 1\<rparr>"
  have "encodeBinEP bin e = check_writeOut ?e" by (simp add: encodeBinEP_def Let_def)
  moreover obtain e' where "check_writeOut ?e = Some e'" "enc_sim bits (scale 1 (bin * a_range a) (a_range a) a) e'"
    by (rule enc_sim_scale [OF assms(1), of 1 "bin * a_range a" "a_range a" ?e])
      (use b enc_sim_low [OF assms(1)] enc_sim_range [OF assms(1)] in \<open>auto simp: addEP_def u32_id Let_def\<close>)
  ultimately show ?thesis using that by simp
qed

lemma encodeBinTrm_ok:
  assumes "enc_sim bits a e"
  obtains e' where "encodeBinTrm bin e = Some e'" and "enc_sim bits (arith_step (BinTrm bin) a) e'"
proof -
  note r = enc_sim_range [OF assms] and l = enc_sim_low [OF assms]
  have R: "256 \<le> a_range a" "a_range a \<le> 510" "sub32 (a_range a) 2 = a_range a - 2"
    using r by (auto simp: range_ok_def sub32_id)
  let ?e = "(addTrm e)\<lparr>e_range := sub32 (e_range e) 2\<rparr>"
  consider (one) "bin \<noteq> 0" | (keep) "bin = 0" "a_range a - 2 \<ge> 256" | (renorm) "bin = 0" "a_range a - 2 < 256"
    by linarith
  then show ?thesis
  proof cases
    case one
    let ?e' = "?e\<lparr>e_low := u32 (push_bit 7 (u32 (e_low ?e + e_range ?e))), e_range := push_bit 7 2,
      e_bitsLeft := e_bitsLeft e - 7\<rparr>"
    obtain e' where "check_writeOut ?e' = Some e'" "enc_sim bits (scale 7 ((a_range a - 2) * 2 ^ 7) 256 a) e'"
      by (rule enc_sim_scale [OF assms, of 7 "(a_range a - 2) * 2 ^ 7" 256 ?e'])
        (use r R l in \<open>auto simp: addTrm_def u32_id push_bit_eq_mult range_ok_def\<close>)
    with that one show ?thesis by (simp add: encodeBinTrm_def Let_def addTrm_def)
  next
    case keep
    have "enc_sim bits (scale 0 0 (a_range a - 2) a) ?e"
      by (rule enc_sim_keep [OF assms, of "a_range a - 2"])
        (use keep r R in \<open>auto simp: addTrm_def range_ok_def\<close>)
    with that keep r R show ?thesis by (simp add: encodeBinTrm_def Let_def addTrm_def)
  next
    case renorm
    let ?e' = "?e\<lparr>e_low := u32 (push_bit 1 (e_low ?e)), e_range := u32 (push_bit 1 (e_range ?e)),
      e_bitsLeft := e_bitsLeft e - 1\<rparr>"
    obtain e' where "check_writeOut ?e' = Some e'" "enc_sim bits (scale 1 0 (2 * (a_range a - 2)) a) e'"
      by (rule enc_sim_scale [OF assms, of 1 0 "2 * (a_range a - 2)" ?e'])
        (use renorm r R l in \<open>auto simp: addTrm_def u32_id range_ok_def\<close>)
    with that renorm r R show ?thesis by (simp add: encodeBinTrm_def Let_def addTrm_def)
  qed
qed

lemma BinEncoder_align_ok:
  assumes "enc_sim bits a e"
  shows "enc_sim bits (arith_step Align a) (BinEncoder_align e)"
  using enc_sim_keep [OF assms, of 256 "BinEncoder_align e"] enc_sim_range [OF assms]
  by (simp add: BinEncoder_align_def range_ok_def)

lemma encode_LPS_ok:
  assumes "enc_sim bits a e" and "lps + 128 \<le> a_range a" and "n \<le> 6" and "range_ok (lps * 2 ^ n)"
    and "e_range e0 = a_range a - lps" "e_bitstream e0 = e_bitstream e" "e_bufferedByte e0 = e_bufferedByte e"
      "e_numBufferedBytes e0 = e_numBufferedBytes e" "e_ctx e0 = e_ctx e"
  obtains e1 where "check_writeOut (e0\<lparr>e_bitsLeft := e_bitsLeft e - int n,
      e_low := u32 (push_bit n (u32 (e_low e + e_range e0))), e_range := u32 (push_bit n lps)\<rparr>) = Some e1"
    and "enc_sim bits (scale n ((a_range a - lps) * 2 ^ n) (lps * 2 ^ n) a) e1"
proof -
  let ?e = "e0\<lparr>e_bitsLeft := e_bitsLeft e - int n,
      e_low := u32 (push_bit n (u32 (e_low e + e_range e0))), e_range := u32 (push_bit n lps)\<rparr>"
  note r = enc_sim_range [OF assms(1)] and l = enc_sim_low [OF assms(1)]
  have s: "e_low e + (a_range a - lps) \<le> 2097152" using l r assms(2) by simp
  moreover have "(2::nat) ^ n \<le> 2 ^ 6" using assms(3) by (intro power_increasing) auto
  ultimately have "(e_low e + (a_range a - lps)) * 2 ^ n \<le> 2097152 * 2 ^ 6" by (rule mult_le_mono)
  then have low: "u32 (push_bit n (u32 (e_low e + e_range e0))) = e_low e * 2 ^ n + (a_range a - lps) * 2 ^ n"
    using s by (simp add: assms(5) u32_id push_bit_eq_mult add_mult_distrib [symmetric])
  have rng: "u32 (push_bit n lps) = lps * 2 ^ n"
    using assms(4) by (simp add: range_ok_def u32_id push_bit_eq_mult)
  have "(a_range a - lps) * 2 ^ n + lps * 2 ^ n = a_range a * 2 ^ n"
    using assms(2) by (simp flip: add_mult_distrib)
  then obtain e1 where "check_writeOut ?e = Some e1"
    "enc_sim bits (scale n ((a_range a - lps) * 2 ^ n) (lps * 2 ^ n) a) e1"
    by (rule_tac enc_sim_scale [OF assms(1), of n "(a_range a - lps) * 2 ^ n" "lps * 2 ^ n" ?e])
      (use assms low rng in auto)
  then show ?thesis using that by blast
qed

lemma encodeBin_ok:
  assumes "enc_sim bits a e" and "ctxId < length (a_ctx a)"
  obtains e' where "encodeBin bin ctxId e = Some e'" and "enc_sim bits (arith_step (BinCtx ctxId bin) a) e'"
proof -
  note r = enc_sim_range [OF assms(1)] and l = enc_sim_low [OF assms(1)] and c = enc_sim_ctx [OF assms(1)]
  let ?m = "a_ctx a ! ctxId"
  let ?lps = "getLPS (a_range a) ?m"
  define n where "n = getRenormBitsLPS ?lps"
  have R: "256 \<le> a_range a" "a_range a \<le> 510" using r by (auto simp: range_ok_def)
  have b: "4 \<le> ?lps" "?lps < 256" "?lps + 128 \<le> a_range a"
    using getLPS_bounds [of "a_range a" ?m] r by auto
  have n: "n \<le> 6" "range_ok (?lps * 2 ^ n)" "?lps * 2 ^ n \<le> 510"
    using renorm_table [OF b(1,2)] by (auto simp: n_def range_ok_def)
  let ?e = "(addCtx ctxId e)\<lparr>e_range := sub32 (e_range e) ?lps\<rparr>"
  let ?step = "if bin \<noteq> mps ?m then scale n ((a_range a - ?lps) * 2 ^ n) (?lps * 2 ^ n) a
               else if a_range a - ?lps < 256 then scale 1 0 (2 * (a_range a - ?lps)) a
               else scale 0 0 (a_range a - ?lps) a"
  let ?body = "if bin \<noteq> mps ?m then
        check_writeOut (?e\<lparr>e_bitsLeft := e_bitsLeft e - int n,
          e_low := u32 (push_bit n (u32 (e_low e + e_range ?e))), e_range := u32 (push_bit n ?lps)\<rparr>)
      else if e_range ?e < 256 then
        check_writeOut (?e\<lparr>e_bitsLeft := e_bitsLeft e - int 1, e_low := u32 (push_bit 1 (e_low e)),
          e_range := u32 (push_bit 1 (e_range ?e))\<rparr>)
      else Some ?e"
  have sub: "sub32 (e_range e) ?lps = a_range a - ?lps" using r R b by (simp add: sub32_id)
  obtain e1 where e1: "?body = Some e1" "enc_sim bits ?step e1"
  proof -
    consider (lps) "bin \<noteq> mps ?m" | (renorm) "bin = mps ?m" "a_range a - ?lps < 256"
      | (keep) "bin = mps ?m" "\<not> a_range a - ?lps < 256" by blast
    then show ?thesis
    proof cases
      case lps
      from encode_LPS_ok [OF assms(1), of ?lps n ?e] b n obtain e1 where
        "check_writeOut (?e\<lparr>e_bitsLeft := e_bitsLeft e - int n,
          e_low := u32 (push_bit n (u32 (e_low e + e_range ?e))), e_range := u32 (push_bit n ?lps)\<rparr>) = Some e1"
        "enc_sim bits (scale n ((a_range a - ?lps) * 2 ^ n) (?lps * 2 ^ n) a) e1"
        by (auto simp: sub addCtx_def)
      with lps show ?thesis by (intro that) simp_all
    next
      case renorm
      let ?e' = "?e\<lparr>e_bitsLeft := e_bitsLeft e - int 1, e_low := u32 (push_bit 1 (e_low e)),
          e_range := u32 (push_bit 1 (e_range ?e))\<rparr>"
      obtain e1 where "check_writeOut ?e' = Some e1" "enc_sim bits (scale 1 0 (2 * (a_range a - ?lps)) a) e1"
        by (rule enc_sim_scale [OF assms(1), of 1 0 "2 * (a_range a - ?lps)" ?e'])
          (use renorm l r R b sub renorm_MPS(1) [of "a_range a" ?m] in \<open>auto simp: addCtx_def u32_id\<close>)
      with renorm show ?thesis by (intro that) (simp_all add: sub)
    next
      case keep
      then have "enc_sim bits (scale 0 0 (a_range a - ?lps) a) ?e"
        by (intro enc_sim_keep [OF assms(1)])
          (use r R b sub renorm_MPS(2) [of "a_range a" ?m] in \<open>auto simp: addCtx_def\<close>)
      with keep show ?thesis by (intro that [of ?e]) (simp_all add: sub)
    qed
  qed
  let ?e2 = "e1\<lparr>e_ctx := (e_ctx e1)[ctxId := BinProbModel_update bin ?m]\<rparr>"
  have "enc_sim bits (arith_step (BinCtx ctxId bin) a) (BinStore_addBin bin ctxId ?e2)"
    by (rule enc_sim_cong [OF e1(2)])
      (use enc_sim_ctx [OF e1(2)] in \<open>auto simp: BinStore_addBin_def Let_def n_def\<close>)
  moreover have "encodeBin bin ctxId e = Some (BinStore_addBin bin ctxId ?e2)"
    using e1(1) assms(2) c r enc_sim_ctx [OF e1(2)]
    by (simp add: encodeBin_def Let_def addCtx_def n_def getRenormBitsRange_def split: if_splits)
  ultimately show ?thesis using that by blast
qed

lemma scale_id: "scale 0 0 (a_range a) a = a"
  by (simp add: scale_def)

text \<open>A group of at most eight bypass bins.\<close>

lemma encode_bins_step:
  assumes "enc_sim bits a e" and "n \<le> 8" and "v < 2 ^ n"
    and "e_low e' = u32 (u32 (push_bit n (e_low e)) + u32 (e_range e * v))"
    and "e_range e' = e_range e" "e_bitsLeft e' = e_bitsLeft e - int n"
    and "e_bitstream e' = e_bitstream e" "e_bufferedByte e' = e_bufferedByte e"
      "e_numBufferedBytes e' = e_numBufferedBytes e" "e_ctx e' = e_ctx e"
  obtains e'' where "check_writeOut e' = Some e''" and "enc_sim bits (scale n (v * a_range a) (a_range a) a) e''"
proof -
  note r = enc_sim_range [OF assms(1)] and l = enc_sim_low [OF assms(1)]
  have p: "(2::nat) ^ n \<le> 2 ^ 8" using assms(2) by (intro power_increasing) auto
  have "e_low e * 2 ^ n \<le> 2097152 * 2 ^ 8" using l p by (intro mult_le_mono) auto
  moreover have "e_range e * v \<le> 510 * 2 ^ 8"
    using r assms(3) p by (intro mult_le_mono) (auto simp: range_ok_def)
  ultimately have low: "e_low e' = e_low e * 2 ^ n + v * a_range a"
    using r by (simp add: assms(4) u32_id push_bit_eq_mult mult.commute)
  have "v * a_range a + a_range a = (v + 1) * a_range a" by simp
  also have "\<dots> \<le> 2 ^ n * a_range a" using assms(3) by (intro mult_le_mono1) simp
  also have "\<dots> = a_range a * 2 ^ n" by (rule mult.commute)
  finally have le: "v * a_range a + a_range a \<le> a_range a * 2 ^ n" .
  show ?thesis
    by (rule enc_sim_scale [OF assms(1,2) le _ low _ assms(6-10)]) (use assms(5) r that in auto)
qed

lemma encodeBinsEP_loop_ok:
  assumes "enc_sim bits a e" and "v < 2 ^ n" and "n \<le> 32"
  obtains w m e' x where "encodeBinsEP_loop v n e = Some (w, m, e')" and "m \<le> 8" and "w < 2 ^ m"
    and "enc_sim bits (scale (n - m) (x * a_range a) (a_range a) a) e'" and "m \<le> n" and "v = x * 2 ^ m + w"
  using assms
proof (induction n arbitrary: v e a thesis rule: less_induct)
  case (less n)
  show ?case
  proof (cases "n > 8")
    case False
    with less.prems show ?thesis
      by (intro less.prems(1) [of v n e 0]) (auto simp: encodeBinsEP_loop.simps scale_def)
  next
    case True
    define m where "m = n - 8"
    define x where "x = v div 2 ^ m"
    have v: "v = x * 2 ^ m + v mod 2 ^ m" unfolding x_def by (rule div_mult_mod_eq [symmetric])
    have "(2::nat) ^ n = 2 ^ 8 * 2 ^ m" unfolding power_add [symmetric] using True by (simp add: m_def)
    then have x: "x < 2 ^ 8" using less.prems(3) by (simp add: x_def div_less_iff_less_mult)
    have "(2::nat) ^ n \<le> 2 ^ 32" using less.prems(4) by (intro power_increasing) auto
    then have v32: "v < 4294967296" using less.prems(3) by simp
    then have bins: "sub32 v (u32 (push_bit m (drop_bit m v))) = v mod 2 ^ m"
      using v by (simp add: drop_bit_eq_div push_bit_eq_mult u32_id sub32_id x_def minus_div_mult_eq_mod)
    let ?e = "e\<lparr>e_low := u32 (u32 (push_bit 8 (e_low e)) + u32 (e_range e * drop_bit m v)),
      e_bitsLeft := e_bitsLeft e - 8\<rparr>"
    have "drop_bit m v = x" by (simp add: x_def drop_bit_eq_div)
    then obtain e1 where e1: "check_writeOut ?e = Some e1"
      "enc_sim bits (scale 8 (x * a_range a) (a_range a) a) e1"
      by (rule_tac encode_bins_step [OF less.prems(2), of 8 x ?e]) (use x in auto)
    have step: "encodeBinsEP_loop v n e = encodeBinsEP_loop (v mod 2 ^ m) m e1"
      using True e1(1) bins by (subst encodeBinsEP_loop.simps) (simp add: Let_def m_def)
    obtain w k e' y where ih: "encodeBinsEP_loop (v mod 2 ^ m) m e1 = Some (w, k, e')" "k \<le> 8" "w < 2 ^ k"
      "enc_sim bits (scale (m - k) (y * a_range a) (a_range a) (scale 8 (x * a_range a) (a_range a) a)) e'"
      "k \<le> m" "v mod 2 ^ m = y * 2 ^ k + w"
      by (rule less.IH [OF _ _ e1(2), of m "v mod 2 ^ m"]) (use True less.prems(4) m_def in auto)
    show ?thesis
    proof (rule less.prems(1) [of w k e' "x * 2 ^ (m - k) + y"])
      show "enc_sim bits (scale (n - k) ((x * 2 ^ (m - k) + y) * a_range a) (a_range a) a) e'"
        using ih(4,5) True by (simp add: scale_scale m_def algebra_simps)
      show "v = (x * 2 ^ (m - k) + y) * 2 ^ k + w"
        using ih(5,6) v by (simp add: algebra_simps flip: power_add)
    qed (use step ih m_def in auto)
  qed
qed

lemma mod_split: "m \<le> n \<Longrightarrow> v mod 2 ^ n = (v div 2 ^ (n - m) mod 2 ^ m) * 2 ^ (n - m) + (v::nat) mod 2 ^ (n - m)"
  using mod_mult2_eq [of v "2 ^ (n - m)" "2 ^ m"] by (simp add: mult.commute flip: power_add)

lemma encodeAlignedBins_loop_ok:
  assumes "enc_sim bits a e" and "a_range a = 256"
  obtains e' where "encodeAlignedBins_loop v n e = Some e'"
    and "enc_sim bits (scale n (v mod 2 ^ n * a_range a) (a_range a) a) e'"
  using assms
proof (induction n arbitrary: e a thesis rule: less_induct)
  case (less n)
  show ?case
  proof (cases "n = 0")
    case True
    with less.prems(1,2) show ?thesis by (simp add: encodeAlignedBins_loop.simps scale_id)
  next
    case False
    define m where "m = min n 8"
    define x where "x = v div 2 ^ (n - m) mod 2 ^ m"
    have m: "m \<le> n" "m \<le> 8" "n - m < n" using False by (auto simp: m_def)
    have r: "e_range e = 256" using enc_sim_range [OF less.prems(2)] less.prems(3) by simp
    have x: "drop_bit (n - m) v AND (push_bit m 1 - 1) = x"
      using and_mask_mod [of "drop_bit (n - m) v" m] by (simp add: x_def drop_bit_eq_div push_bit_eq_mult)
    let ?e = "e\<lparr>e_low := u32 (u32 (push_bit m (e_low e)) + u32 (push_bit 8 x)), e_bitsLeft := e_bitsLeft e - int m\<rparr>"
    obtain e1 where e1: "check_writeOut ?e = Some e1" "enc_sim bits (scale m (x * a_range a) (a_range a) a) e1"
      by (rule encode_bins_step [OF less.prems(2) m(2), of x ?e])
        (use r in \<open>auto simp: x_def push_bit_eq_mult mult.commute\<close>)
    have step: "encodeAlignedBins_loop v n e = encodeAlignedBins_loop v (n - m) e1"
      by (subst encodeAlignedBins_loop.simps, unfold Let_def m_def [symmetric] x) (simp add: False e1(1))
    obtain e' where "encodeAlignedBins_loop v (n - m) e1 = Some e'" "enc_sim bits
        (scale (n - m) (v mod 2 ^ (n - m) * a_range a) (a_range a) (scale m (x * a_range a) (a_range a) a)) e'"
      by (rule less.IH [OF m(3) _ e1(2)]) (use less.prems(3) in auto)
    moreover have "scale (n - m) (v mod 2 ^ (n - m) * a_range a) (a_range a) (scale m (x * a_range a) (a_range a) a)
        = scale n (v mod 2 ^ n * a_range a) (a_range a) a"
      using mod_split [OF m(1), of v] m(1) by (simp add: scale_scale x_def algebra_simps)
    ultimately show ?thesis using less.prems(1) step by simp
  qed
qed

lemma encodeBinsEP_ok:
  assumes "enc_sim bits a e" and "v < 2 ^ n" and "n \<le> 32"
  obtains e' where "encodeBinsEP v n e = Some e'" and "enc_sim bits (arith_run (BinsEP v n) a) e'"
proof -
  have sim: "enc_sim bits a (addEP n e)"
    by (rule enc_sim_cong [OF assms(1)]) (use assms(1) in \<open>auto simp: addEP_def enc_sim_def\<close>)
  note r = enc_sim_range [OF sim]
  show ?thesis
  proof (cases "a_range a = 256")
    case True
    then obtain e' where "encodeAlignedBins_loop v n (addEP n e) = Some e'"
      "enc_sim bits (scale n (v mod 2 ^ n * a_range a) (a_range a) a) e'"
      using encodeAlignedBins_loop_ok [OF sim] by metis
    with that r True assms(2) show ?thesis
      by (simp add: encodeBinsEP_def encodeAlignedBinsEP_def arith_run_BinsEP)
  next
    case False
    from encodeBinsEP_loop_ok [OF sim assms(2,3)] obtain w m e1 x where
      e1: "encodeBinsEP_loop v n (addEP n e) = Some (w, m, e1)" "m \<le> 8" "w < 2 ^ m"
        "enc_sim bits (scale (n - m) (x * a_range a) (a_range a) a) e1" "m \<le> n" "v = x * 2 ^ m + w" .
    let ?e = "e1\<lparr>e_low := u32 (u32 (push_bit m (e_low e1)) + u32 (e_range e1 * w)), e_bitsLeft := e_bitsLeft e1 - int m\<rparr>"
    obtain e' where e': "check_writeOut ?e = Some e'"
      "enc_sim bits (scale m (w * a_range a) (a_range a) (scale (n - m) (x * a_range a) (a_range a) a)) e'"
      by (rule encode_bins_step [OF e1(4,2,3), of ?e]) auto
    have "scale m (w * a_range a) (a_range a) (scale (n - m) (x * a_range a) (a_range a) a)
        = arith_run (BinsEP v n) a"
      unfolding arith_run_BinsEP [OF assms(2)] using e1(5,6) by (simp add: scale_scale algebra_simps)
    with e' that e1(1) r False show ?thesis by (simp add: encodeBinsEP_def Let_def)
  qed
qed

subsection \<open>Start and finish\<close>

lemma BinEncoder_start_ok:
  assumes "out_inv (e_bitstream e)" and "bits_out (e_bitstream e) = bits"
  shows "enc_sim bits (arith_start (e_ctx e)) (BinEncoder_start e)"
  using assms
  by (auto simp: enc_sim_def enc_inv_def enc_rep_def arith_start_def BinEncoder_start_def BinStore_reset_def
      BinCounter_reset_def enc_low_def enc_pos_def buffered_simps range_ok_def intro!: exI [of _ "[]"] exI [of _ 0])

lemma flush_bytes_ok:
  assumes "out_inv (e_bitstream e)" and "bb + c < 256" and "c \<le> 1" and "0 < n"
  obtains bs bs' where "OutputBitstream_write (bb + c) 8 (e_bitstream e) = Some bs"
    and "write_buffered ((255 + c) AND 255) (e\<lparr>e_bitstream := bs\<rparr>) n = Some (e\<lparr>e_bitstream := bs', e_numBufferedBytes := 1\<rparr>)"
    and "out_inv bs'" and "bits_out bs' = bits_out (e_bitstream e)
      @ bytes_bits ((bb + c) # replicate (n - 1) ((255 + c) AND 255))"
proof -
  from write_ok [OF assms(1), of "bb + c" 8] assms(2) obtain bs where
    bs: "OutputBitstream_write (bb + c) 8 (e_bitstream e) = Some bs" "out_inv bs"
      "bits_out bs = bits_out (e_bitstream e) @ bitsBE 8 (bb + c)" by auto
  have "(255 + c) AND 255 < 256" using and_mask_mod [of "255 + c" 8] by simp
  from write_buffered_ok [of "e\<lparr>e_bitstream := bs\<rparr>", OF _ this assms(4)] bs(2) obtain bs' where
    "write_buffered ((255 + c) AND 255) (e\<lparr>e_bitstream := bs\<rparr>) n
       = Some (e\<lparr>e_bitstream := bs\<rparr>\<lparr>e_bitstream := bs', e_numBufferedBytes := 1\<rparr>)"
    "out_inv bs'" "bits_out bs' = bits_out bs @ bytes_bits (replicate (n - 1) ((255 + c) AND 255))" by auto
  with bs that show ?thesis by (simp del: bitsBE.simps)
qed

lemma finish_buffered_ok:
  assumes "enc_rep bits W k e" and "k < 12"
  obtains W' e' where "finish_buffered e = Some e'" and "out_inv (e_bitstream e')"
    and "bits_out (e_bitstream e') = bits @ bytes_bits W'" and "bytes_ok W'"
    and "length W' = length W + e_numBufferedBytes e" and "enc_low W k e = be_word W' * 2 ^ (9 + k) + e_low e'"
    and "e_low e' < 2 ^ (9 + k)" and "e_bitsLeft e' = e_bitsLeft e"
proof -
  note rep = assms(1) [unfolded enc_rep_def]
  let ?nb = "e_numBufferedBytes e" and ?bb = "e_bufferedByte e" and ?X = "buffered (e_numBufferedBytes e) (e_bufferedByte e)"
  define U where "U = (2::nat) ^ (9 + k)"
  define c where "c = e_low e div U"
  have U: "2 ^ (10 + k) = 2 * U" "0 < U" "U \<le> 1048576"
    using assms(2) power_increasing [of "9 + k" 20 "2::nat"] by (auto simp: U_def power_add)
  have "e_low e < 2 * U" using rep U by simp
  then have c: "c \<le> 1" "e_low e = c * U + e_low e mod U"
    unfolding c_def by (simp add: less_Suc_eq_le [symmetric] div_less_iff_less_mult) simp
  have n: "nat (32 - e_bitsLeft e) = 9 + k" using rep by auto
  have d: "drop_bit (9 + k) (e_low e) = c" "push_bit (9 + k) (1::nat) = U"
    by (simp_all add: c_def U_def drop_bit_eq_div push_bit_eq_mult)
  show ?thesis
  proof (cases "?nb = 0")
    case True
    then have W: "W = []" and "e_low e < U" using rep by (auto simp: buffered_simps U_def)
    then have "c = 0" by (simp add: c_def)
    then have "finish_buffered e = Some (e\<lparr>e_numBufferedBytes := 0\<rparr>)"
      using True by (simp add: finish_buffered_def n d)
    then show ?thesis
      by (rule that [where W' = "[]"])
        (use True W rep \<open>e_low e < U\<close> in \<open>auto simp: enc_low_def buffered_simps U_def\<close>)
  next
    case False
    then obtain m where m: "?nb = Suc m" by (cases ?nb) auto
    have bb: "?bb + c < 256"
    proof (rule carry_fits)
      have "?X * U + e_low e + e_range e \<le> 256 ^ ?nb * U" using rep by (simp add: U_def)
      then show "?X * U + c * U + e_low e mod U + e_range e \<le> 256 ^ ?nb * U" using c(2) by linarith
    qed (use rep c buffered_Suc [of m ?bb] m in simp_all)
    from flush_bytes_ok [of e, OF _ bb c(1), of ?nb] rep False obtain bs bs' where
      bs: "OutputBitstream_write (?bb + c) 8 (e_bitstream e) = Some bs"
        "write_buffered ((255 + c) AND 255) (e\<lparr>e_bitstream := bs\<rparr>) ?nb = Some (e\<lparr>e_bitstream := bs', e_numBufferedBytes := 1\<rparr>)"
        "out_inv bs'" "bits_out bs' = bits_out (e_bitstream e) @ bytes_bits ((?bb + c) # replicate (?nb - 1) ((255 + c) AND 255))"
      by auto
    define W' where "W' = W @ (?bb + c) # replicate (?nb - 1) ((255 + c) AND 255)"
    have W': "be_word W' = be_word W * 256 ^ ?nb + ?X + c" "bytes_ok W'" "length W' = length W + ?nb"
      using be_word_flush [OF c(1), of ?nb] rep bb False and_mask_mod [of "255 + c" 8]
      by (auto simp: W'_def bytes_ok_def list_all_iff)
    let ?e = "e\<lparr>e_bitstream := bs', e_numBufferedBytes := 1, e_low := e_low e mod U\<rparr>"
    have "finish_buffered e = Some ?e"
    proof (cases "c = 0")
      case True
      with bs c(2) False show ?thesis by (simp add: finish_buffered_def n d)
    next
      case c1: False
      with c(1) have "c = 1" by simp
      moreover have "e_low e = U + e_low e mod U" using c(2) unfolding \<open>c = 1\<close> by simp
      moreover have "sub32 (e_low e) (u32 U) = e_low e mod U"
        using calculation(2) U(3) \<open>e_low e < 2 * U\<close> by (simp add: u32_id sub32_id)
      ultimately show ?thesis using bs bb by (simp add: finish_buffered_def n d u32_id U_def [symmetric])
    qed
    moreover have "enc_low W k e = be_word W' * 2 ^ (9 + k) + e_low ?e"
      unfolding enc_low_def U_def [symmetric] W'(1) using c(2) by (simp add: algebra_simps)
    moreover have "bits_out bs' = bits @ bytes_bits W'" using bs(4) rep by (simp add: W'_def)
    ultimately show ?thesis
      by (intro that [of ?e W']) (use bs(3) W'(2,3) U(2) in \<open>auto simp: U_def\<close>)
  qed
qed

lemma bytes_bits_be_word: "bytes_ok W \<Longrightarrow> bitsBE (8 * length W) (be_word W) = bytes_bits W"
  using bitsBE_valBE [of "bytes_bits W"] by (simp add: valBE_bytes_bits)

text \<open>\<^verbatim>\<open>finish\<close> appends the leading \<open>p + 1\<close> bits of the lower end of the interval.\<close>

lemma BinEncoder_finish_ok:
  assumes "enc_sim bits a e"
  obtains e' where "BinEncoder_finish e = Some e'" and "out_inv (e_bitstream e')"
    and "bits_out (e_bitstream e') = bits @ bitsBE (a_pos a + 1) (a_low a div 2 ^ 8)"
proof -
  from assms obtain W k where rep: "enc_rep bits W k e" "k < 12"
    and a: "a_low a = enc_low W k e" "a_pos a = enc_pos W k e"
    by (auto simp: enc_sim_def enc_inv_def)
  from finish_buffered_ok [OF rep] obtain W' e1 where e1: "finish_buffered e = Some e1" "out_inv (e_bitstream e1)"
    "bits_out (e_bitstream e1) = bits @ bytes_bits W'" "bytes_ok W'"
    "length W' = length W + e_numBufferedBytes e" "enc_low W k e = be_word W' * 2 ^ (9 + k) + e_low e1"
    "e_low e1 < 2 ^ (9 + k)" "e_bitsLeft e1 = e_bitsLeft e" .
  have n: "nat (24 - e_bitsLeft e1) = k + 1" using rep(1) e1(8) by (simp add: enc_rep_def)
  have lt: "e_low e1 div 2 ^ 8 < 2 ^ (k + 1)" using e1(7) by (simp add: div_less_iff_less_mult power_add)
  from write_ok [OF e1(2) lt] rep(2) obtain bs where
    bs: "OutputBitstream_write (e_low e1 div 2 ^ 8) (k + 1) (e_bitstream e1) = Some bs" "out_inv bs"
      "bits_out bs = bits_out (e_bitstream e1) @ bitsBE (k + 1) (e_low e1 div 2 ^ 8)" by auto
  have "a_low a div 2 ^ 8 = be_word W' * 2 ^ (k + 1) + e_low e1 div 2 ^ 8"
  proof -
    have "a_low a = e_low e1 + 2 ^ 8 * (be_word W' * 2 ^ (k + 1))" using e1(6) a(1) by (simp add: power_add)
    then show ?thesis by (simp only: div_mult_self2) simp
  qed
  moreover have "a_pos a + 1 = 8 * length W' + (k + 1)" using a(2) e1(5) by (simp add: enc_pos_def)
  ultimately have "bitsBE (a_pos a + 1) (a_low a div 2 ^ 8) = bytes_bits W' @ bitsBE (k + 1) (e_low e1 div 2 ^ 8)"
    using lt bitsBE_mod [of "k + 1" "k + 1" "be_word W' * 2 ^ (k + 1) + e_low e1 div 2 ^ 8"]
    by (simp only: bitsBE_add) (simp add: bytes_bits_be_word [OF e1(4)] del: bitsBE.simps)
  with bs e1 n that [of "e1\<lparr>e_bitstream := bs\<rparr>"] show ?thesis
    by (simp add: BinEncoder_finish_def drop_bit_eq_div del: bitsBE.simps)
qed

end
