(* ===== verification/BinDecoder.thy ===== *)
theory BinDecoder
  imports BitStreams ArithCoder
begin

section \<open>The arithmetic decoder: \<^verbatim>\<open>BinDecoder.h\<close>, \<^verbatim>\<open>BinDecoder.cpp\<close>\<close>

text \<open>
  The state of \<^verbatim>\<open>TBinDecoder<BinProbModel_Std>\<close>.  \<^verbatim>\<open>m_Value\<close> is the code value minus the lower end
  of the interval, at seven more bits than \<^verbatim>\<open>m_Range\<close>; \<^verbatim>\<open>m_bitsNeeded\<close> counts from \<^verbatim>\<open>-8\<close> to
  \<^verbatim>\<open>0\<close> the bits shifted since the last byte was read.  Reading past the end of the bit stream is
  the \<^const>\<open>None\<close> of \<^verbatim>\<open>readByte\<close>.
\<close>

unbundle bit_operations_syntax

record BinDecoderBase =
  d_ctx :: "BinProbModel_Std list"
  d_bitstream :: InputBitstream
  d_range :: nat
  d_value :: nat
  d_bitsNeeded :: int

subsection \<open>Operations\<close>

definition BinDecoder_start :: "BinDecoderBase \<Rightarrow> BinDecoderBase option" where
  "BinDecoder_start d =
     (if InputBitstream_getNumBitsUntilByteAligned (d_bitstream d) \<noteq> 0 then None
      else do {
        (b0, bs) \<leftarrow> readByte (d_bitstream d);
        (b1, bs) \<leftarrow> readByte bs;
        Some (d\<lparr>d_bitstream := bs, d_range := 510, d_value := push_bit 8 b0 + b1, d_bitsNeeded := - 8\<rparr>) })"

definition BinDecoder_finish :: "BinDecoderBase \<Rightarrow> unit option" where
  "BinDecoder_finish d = do {
     lastByte \<leftarrow> peekPreviousByte (d_bitstream d);
     if push_bit (nat (8 + d_bitsNeeded d)) lastByte AND 255 \<noteq> 128 then None else Some () }"

text \<open>\<^verbatim>\<open>if (m_bitsNeeded >= 0) { m_Value += m_Bitstream->readByte() << m_bitsNeeded; m_bitsNeeded -= 8; }\<close>\<close>

definition refill :: "BinDecoderBase \<Rightarrow> BinDecoderBase option" where
  "refill d =
     (if d_bitsNeeded d \<ge> 0
      then do {
        (b, bs) \<leftarrow> readByte (d_bitstream d);
        Some (d\<lparr>d_bitstream := bs, d_value := u32 (d_value d + push_bit (nat (d_bitsNeeded d)) b),
                d_bitsNeeded := d_bitsNeeded d - 8\<rparr>) }
      else Some d)"

definition decodeBinEP :: "BinDecoderBase \<Rightarrow> (nat \<times> BinDecoderBase) option" where
  "decodeBinEP d =
     (let d = d\<lparr>d_value := u32 (d_value d + d_value d), d_bitsNeeded := d_bitsNeeded d + 1\<rparr>
      in do {
        d \<leftarrow> (if d_bitsNeeded d \<ge> 0
              then do {
                (b, bs) \<leftarrow> readByte (d_bitstream d);
                Some (d\<lparr>d_bitstream := bs, d_value := u32 (d_value d + b), d_bitsNeeded := - 8\<rparr>) }
              else Some d);
        let SR = u32 (push_bit 7 (d_range d));
        Some (if d_value d \<ge> SR then (1, d\<lparr>d_value := sub32 (d_value d) SR\<rparr>) else (0, d)) })"

text \<open>The comparison loop: \<open>k\<close> times \<^verbatim>\<open>bins += bins; SR >>= 1; if (m_Value >= SR) { bins++; m_Value -= SR; }\<close>\<close>

fun bins_loop :: "nat \<Rightarrow> nat \<Rightarrow> nat \<Rightarrow> nat \<Rightarrow> nat \<times> nat" where
  "bins_loop 0 bins SR v = (bins, v)"
| "bins_loop (Suc k) bins SR v =
     (let bins = u32 (bins + bins);
          SR = drop_bit 1 SR
      in if v \<ge> SR then bins_loop k (u32 (bins + 1)) SR (sub32 v SR) else bins_loop k bins SR v)"

function (sequential) decodeBinsEP_loop ::
  "nat \<Rightarrow> nat \<Rightarrow> BinDecoderBase \<Rightarrow> (nat \<times> nat \<times> BinDecoderBase) option" where
  "decodeBinsEP_loop bins remBins d =
     (if remBins > 8 then do {
        (b, bs) \<leftarrow> readByte (d_bitstream d);
        let v = u32 (u32 (push_bit 8 (d_value d)) + push_bit (nat (8 + d_bitsNeeded d)) b);
        let SR = u32 (push_bit 15 (d_range d));
        let (bins, v) = bins_loop 8 bins SR v;
        decodeBinsEP_loop bins (remBins - 8) (d\<lparr>d_bitstream := bs, d_value := v\<rparr>) }
      else Some (bins, remBins, d))"
  by pat_completeness auto
termination by (relation "measure (\<lambda>(bins, remBins, d). remBins)") auto

function (sequential) decodeAlignedBins_loop :: "nat \<Rightarrow> nat \<Rightarrow> BinDecoderBase \<Rightarrow> (nat \<times> BinDecoderBase) option" where
  "decodeAlignedBins_loop bins remBins d =
     (if remBins > 0 then do {
        let binsToRead = min remBins 8;
        let binMask = push_bit binsToRead 1 - 1;
        let newBins = drop_bit (15 - binsToRead) (d_value d) AND binMask;
        let bins = u32 (push_bit binsToRead bins) OR newBins;
        let d = d\<lparr>d_value := u32 (push_bit binsToRead (d_value d)) AND 32767,
                  d_bitsNeeded := d_bitsNeeded d + int binsToRead\<rparr>;
        d \<leftarrow> (if d_bitsNeeded d \<ge> 0
              then do {
                (b, bs) \<leftarrow> readByte (d_bitstream d);
                Some (d\<lparr>d_bitstream := bs, d_value := d_value d OR push_bit (nat (d_bitsNeeded d)) b,
                        d_bitsNeeded := d_bitsNeeded d - 8\<rparr>) }
              else Some d);
        decodeAlignedBins_loop bins (remBins - binsToRead) d }
      else Some (bins, d))"
  by pat_completeness auto
termination by (relation "measure (\<lambda>(bins, remBins, d). remBins)") auto

declare decodeBinsEP_loop.simps [simp del] decodeAlignedBins_loop.simps [simp del]

definition decodeAlignedBinsEP :: "nat \<Rightarrow> BinDecoderBase \<Rightarrow> (nat \<times> BinDecoderBase) option" where
  "decodeAlignedBinsEP numBins d = decodeAlignedBins_loop 0 numBins d"

definition decodeBinsEP :: "nat \<Rightarrow> BinDecoderBase \<Rightarrow> (nat \<times> BinDecoderBase) option" where
  "decodeBinsEP numBins d =
     (if d_range d = 256 then decodeAlignedBinsEP numBins d
      else do {
        (bins, remBins, d) \<leftarrow> decodeBinsEP_loop 0 numBins d;
        d \<leftarrow> refill (d\<lparr>d_bitsNeeded := d_bitsNeeded d + int remBins,
                      d_value := u32 (push_bit remBins (d_value d))\<rparr>);
        let SR = u32 (push_bit (remBins + 7) (d_range d));
        let (bins, v) = bins_loop remBins bins SR (d_value d);
        Some (bins, d\<lparr>d_value := v\<rparr>) })"

definition decodeBinTrm :: "BinDecoderBase \<Rightarrow> (nat \<times> BinDecoderBase) option" where
  "decodeBinTrm d =
     (let d = d\<lparr>d_range := sub32 (d_range d) 2\<rparr>;
          SR = u32 (push_bit 7 (d_range d))
      in if d_value d \<ge> SR then Some (1, d)
         else if d_range d < 256 then
           let d = d\<lparr>d_range := u32 (d_range d + d_range d), d_value := u32 (d_value d + d_value d),
                     d_bitsNeeded := d_bitsNeeded d + 1\<rparr>
           in if d_bitsNeeded d = 0
              then do {
                (b, bs) \<leftarrow> readByte (d_bitstream d);
                Some (0, d\<lparr>d_bitstream := bs, d_value := u32 (d_value d + b), d_bitsNeeded := - 8\<rparr>) }
              else Some (0, d)
         else Some (0, d))"

definition BinDecoder_align :: "BinDecoderBase \<Rightarrow> BinDecoderBase" where
  "BinDecoder_align d = d\<lparr>d_range := 256\<rparr>"

definition decodeBin :: "nat \<Rightarrow> BinDecoderBase \<Rightarrow> (nat \<times> BinDecoderBase) option" where
  "decodeBin ctxId d =
     (if ctxId \<ge> length (d_ctx d) then None
      else
        let rcProbModel = d_ctx d ! ctxId;
            bin = mps rcProbModel;
            LPS = getLPS (d_range d) rcProbModel;
            d = d\<lparr>d_range := sub32 (d_range d) LPS\<rparr>;
            SR = u32 (push_bit 7 (d_range d))
        in do {
          (bin, d) \<leftarrow>
            (if d_value d < SR then
               if d_range d < 256 then
                 let numBits = getRenormBitsRange (d_range d);
                     d = d\<lparr>d_range := u32 (push_bit numBits (d_range d)), d_value := u32 (push_bit numBits (d_value d)),
                           d_bitsNeeded := d_bitsNeeded d + int numBits\<rparr>
                 in do { d \<leftarrow> refill d; Some (bin, d) }
               else Some (bin, d)
             else
               let bin = 1 - bin;
                   numBits = getRenormBitsLPS LPS;
                   d = d\<lparr>d_value := sub32 (d_value d) SR\<rparr>;
                   d = d\<lparr>d_value := u32 (push_bit numBits (d_value d)), d_range := u32 (push_bit numBits LPS),
                         d_bitsNeeded := d_bitsNeeded d + int numBits\<rparr>
               in do { d \<leftarrow> refill d; Some (bin, d) });
          Some (bin, d\<lparr>d_ctx := (d_ctx d)[ctxId := BinProbModel_update bin rcProbModel]\<rparr>) })"

text \<open>\<^verbatim>\<open>decodeRemAbsEP\<close>: the unary prefix, with its limit, and the suffix.\<close>

fun prefix_bins :: "nat \<Rightarrow> nat \<Rightarrow> BinDecoderBase \<Rightarrow> (nat \<times> BinDecoderBase) option" where
  "prefix_bins prefx left d = do {
     (codeWord, d) \<leftarrow> decodeBinEP d;
     if codeWord \<noteq> 0 \<and> left > 1 then prefix_bins (prefx + 1) (left - 1) d
     else Some (prefx + 1 - (1 - codeWord), d) }"

declare prefix_bins.simps [simp del]

definition decodeRemAbsEP :: "nat \<Rightarrow> nat \<Rightarrow> nat \<Rightarrow> BinDecoderBase \<Rightarrow> (nat \<times> BinDecoderBase) option" where
  "decodeRemAbsEP goRicePar cutoff maxLog2TrDynamicRange d = do {
     (prefx, d) \<leftarrow> prefix_bins 0 (32 - maxLog2TrDynamicRange) d;
     let (len, offset) =
       (if prefx < cutoff then (goRicePar, u32 (push_bit goRicePar prefx))
        else (goRicePar + (if prefx = 32 - maxLog2TrDynamicRange then maxLog2TrDynamicRange - goRicePar
                           else prefx - cutoff),
              u32 (push_bit goRicePar (push_bit (prefx - cutoff) 1 + cutoff - 1))));
     (v, d) \<leftarrow> decodeBinsEP len d;
     Some (u32 (offset + v), d) }"

subsection \<open>The meaning of a decoder state\<close>

text \<open>\<open>Y\<close> are the bytes of the code word, \<open>p\<close> the number of bits shifted out, and \<open>w\<close> the
  part of the code value that was subtracted.  \<open>2 + p div 8\<close> bytes have been read.\<close>

definition dec_raw :: "nat list \<Rightarrow> nat \<Rightarrow> nat \<Rightarrow> BinDecoderBase \<Rightarrow> bool" where
  "dec_raw Y p w d \<longleftrightarrow>
     in_inv (d_bitstream d) \<and> i_num_held_bits (d_bitstream d) = 0
     \<and> (\<exists>pre. i_fifo (d_bitstream d) = pre @ Y \<and> i_fifo_idx (d_bitstream d) = length pre + (2 + p div 8))
     \<and> 2 + p div 8 \<le> length Y \<and> d_bitsNeeded d = int (p mod 8) - 8
     \<and> d_value d + w = be_word (take (2 + p div 8) Y) * 2 ^ (p mod 8)"

definition dec_sim :: "nat list \<Rightarrow> arith \<Rightarrow> BinDecoderBase \<Rightarrow> bool" where
  "dec_sim Y a d \<longleftrightarrow> dec_raw Y (a_pos a) (a_low a * 2 ^ 7) d \<and> d_range d = a_range a \<and> d_ctx d = a_ctx a"

abbreviation code_in :: "nat list \<Rightarrow> arith \<Rightarrow> bool" where
  "code_in Y a \<equiv> in_interval (be_word Y) (8 * length Y) a"

text \<open>A comparison on the bytes read so far decides the comparison on the whole code value.\<close>

lemma code_compare:
  assumes "bytes_ok Y" and "p + 9 \<le> 8 * length Y" and "2 + p div 8 \<le> length Y"
  shows "X * 2 ^ (8 * length Y - (p + 9)) \<le> be_word Y \<longleftrightarrow>
    X * 2 ^ 7 \<le> be_word (take (2 + p div 8) Y) * 2 ^ (p mod 8)"
proof -
  let ?n = "2 + p div 8" and ?j = "p mod 8"
  define D where "D = length Y - ?n"
  let ?S = "be_word (take ?n Y)"
  have V: "be_word Y div 2 ^ (8 * D) = ?S"
  proof -
    have "be_word Y = ?S * 256 ^ D + be_word (drop ?n Y)"
      using be_word_append [of "take ?n Y" "drop ?n Y"] by (simp add: D_def)
    moreover have "be_word (drop ?n Y) < 256 ^ D"
      using be_word_less [OF bytes_ok_drop [OF assms(1)], of ?n] by (simp add: D_def)
    ultimately show ?thesis by (simp add: power_mult)
  qed
  have j: "?j \<le> 7" by (simp add: less_Suc_eq_le [symmetric])
  have e: "8 * length Y - (p + 9) = (7 - ?j) + 8 * D"
    using assms(2,3) j div_mult_mod_eq [of p 8] unfolding D_def by linarith
  have "X * 2 ^ (8 * length Y - (p + 9)) \<le> be_word Y \<longleftrightarrow> X * 2 ^ (7 - ?j) * 2 ^ (8 * D) \<le> be_word Y"
    unfolding e power_add mult.assoc by (rule refl)
  also have "\<dots> \<longleftrightarrow> X * 2 ^ (7 - ?j) \<le> ?S" 
    unfolding V [symmetric] by (rule less_eq_div_iff_mult_less_eq [symmetric]) simp
  also have "\<dots> \<longleftrightarrow> X * 2 ^ (7 - ?j) * 2 ^ ?j \<le> ?S * 2 ^ ?j" by simp
  also have "X * 2 ^ (7 - ?j) * 2 ^ ?j = X * 2 ^ 7" using j by (simp add: mult.assoc flip: power_add)
  finally show ?thesis .
qed

text \<open>What membership of the code value in an interval says of the value register.\<close>

lemma dec_value:
  assumes "bytes_ok Y" and "dec_raw Y (a_pos a) w d" and "code_in Y a"
  shows "a_low a * 2 ^ 7 \<le> d_value d + w" and "d_value d + w < (a_low a + a_range a) * 2 ^ 7"
proof -
  have T: "a_pos a + 9 \<le> 8 * length Y" "2 + a_pos a div 8 \<le> length Y"
    and v: "d_value d + w = be_word (take (2 + a_pos a div 8) Y) * 2 ^ (a_pos a mod 8)"
    using assms(2,3) by (auto simp: dec_raw_def in_interval_def)
  show "a_low a * 2 ^ 7 \<le> d_value d + w"
    using assms(3) code_compare [OF assms(1) T, of "a_low a"] unfolding v in_interval_def by blast
  show "d_value d + w < (a_low a + a_range a) * 2 ^ 7"
    using assms(3) code_compare [OF assms(1) T, of "a_low a + a_range a"] unfolding v in_interval_def
    by (meson not_le)
qed

lemma dec_sim_value:
  assumes "bytes_ok Y" and "dec_sim Y a d" and "code_in Y a"
  shows "d_value d < a_range a * 2 ^ 7"
  using dec_value [of Y a "a_low a * 2 ^ 7" d] assms by (simp add: dec_sim_def add_mult_distrib)

text \<open>A further byte is there as long as the interval has not reached the end of the code word.\<close>

lemma readByte_code:
  assumes "dec_raw Y p w d" and "3 + p div 8 \<le> length Y"
  obtains bs where "readByte (d_bitstream d) = Some (Y ! (2 + p div 8), bs)"
    and "bs = (d_bitstream d)\<lparr>i_fifo_idx := i_fifo_idx (d_bitstream d) + 1\<rparr>"
  using assms by (auto simp: dec_raw_def readByte_def nth_append)

text \<open>Shifting by \<open>n\<close> bits and reading a byte when eight bits are missing.\<close>

lemma refill_ok:
  assumes "dec_raw Y p w d" and "bytes_ok Y" and "n \<le> 8" and "p + n + 9 \<le> 8 * length Y"
    and "v + w' = (d_value d + w) * 2 ^ n" and "v \<le> 16777216"
  obtains d' where "refill (d\<lparr>d_value := v, d_bitsNeeded := d_bitsNeeded d + int n, d_range := R\<rparr>) = Some d'"
    and "dec_raw Y (p + n) w' d'" and "d_range d' = R" and "d_ctx d' = d_ctx d"
proof -
  let ?q = "p div 8" and ?j = "p mod 8"
  let ?d = "d\<lparr>d_value := v, d_bitsNeeded := d_bitsNeeded d + int n, d_range := R\<rparr>"
  note raw = assms(1) [unfolded dec_raw_def]
  have val: "v + w' = be_word (take (2 + ?q) Y) * 2 ^ (?j + n)"
    using assms(5) raw by (simp add: power_add)
  show ?thesis
  proof (cases "?j + n < 8")
    case True
    define j where "j = ?j + n"
    have "p + n = 8 * ?q + j" "j < 8" using div_mult_mod_eq [of p 8] True by (simp_all add: j_def)
    then have pn: "(p + n) div 8 = ?q" "(p + n) mod 8 = ?j + n" by (simp_all flip: j_def)
    have "refill ?d = Some ?d" using raw True by (simp add: refill_def)
    moreover have "dec_raw Y (p + n) w' ?d" using raw val by (simp add: dec_raw_def pn)
    ultimately show ?thesis using that by simp
  next
    case False
    define j where "j = ?j + n - 8"
    have j: "j < 8" "?j + n = j + 8" using False assms(3) by (auto simp: j_def)
    have "p + n = ?q * 8 + (?j + n)" by simp
    then have "p + n = 8 * (?q + 1) + j" unfolding j(2) by simp
    moreover have "(8 * k + j) div 8 = k" "(8 * k + j) mod 8 = j" for k using j(1) by simp_all
    ultimately have pn: "(p + n) div 8 = ?q + 1" "(p + n) mod 8 = j" by presburger+
    have len: "3 + ?q \<le> length Y" using assms(4) \<open>p + n = 8 * (?q + 1) + j\<close> by simp
    define b where "b = Y ! (2 + ?q)"
    from readByte_code [OF assms(1) len] obtain bs where
      bs: "readByte (d_bitstream d) = Some (b, bs)"
        "bs = (d_bitstream d)\<lparr>i_fifo_idx := i_fifo_idx (d_bitstream d) + 1\<rparr>" unfolding b_def .
    have b: "b < 256" using bytes_ok_nth [OF assms(2)] len by (simp add: b_def)
    have "b * 2 ^ j \<le> 256 * 2 ^ 7" using b j by (intro mult_le_mono power_increasing) auto
    then have u: "u32 (v + push_bit j b) = v + b * 2 ^ j"
      using assms(6) by (simp add: u32_id push_bit_eq_mult)
    have nb: "d_bitsNeeded d + int n = int j" using raw j by simp
    let ?d' = "?d\<lparr>d_bitstream := bs, d_value := v + b * 2 ^ j, d_bitsNeeded := int j - 8\<rparr>"
    have "refill ?d = Some ?d'" using nb bs(1) u by (simp add: refill_def)
    moreover have "be_word (take (2 + (?q + 1)) Y) = be_word (take (2 + ?q) Y) * 256 + b"
      using be_word_take_Suc [of "2 + ?q" Y] len by (simp add: b_def)
    then have "dec_raw Y (p + n) w' ?d'"
      using raw val [unfolded j(2) power_add] len bs(2) unfolding dec_raw_def pn
      by (auto simp: in_inv_def algebra_simps)
    ultimately show ?thesis using that by simp
  qed
qed

lemma code_in_ctx [simp]: "in_interval V T (a\<lparr>a_ctx := ms\<rparr>) = in_interval V T a"
  by (simp add: in_interval_def)

text \<open>Scaling by \<open>2 ^ n\<close> alone does not change the interval.\<close>

lemma code_in_unscale:
  assumes "in_interval V T (scale n (x * 2 ^ n) (r * 2 ^ n) a)"
  shows "in_interval V T (scale 0 x r a)"
proof -
  from assms have T: "a_pos a + n + 9 \<le> T" by (simp add: in_interval_def)
  define k where "k = T - (a_pos a + n + 9)"
  have k: "T - (a_pos a + 9) = n + k" using T by (simp add: k_def)
  have "(a_low a * 2 ^ n + x * 2 ^ n) * 2 ^ k \<le> V" "V < (a_low a * 2 ^ n + x * 2 ^ n + r * 2 ^ n) * 2 ^ k"
    using assms by (simp_all add: in_interval_def k_def)
  then show ?thesis
    unfolding in_interval_def using T by (simp add: k power_add algebra_simps)
qed

lemma dec_sim_split:
  assumes "bytes_ok Y" and "dec_sim Y a d" and "code_in Y (scale n (x * 2 ^ n) (r * 2 ^ n) a)"
  shows "x * 2 ^ 7 \<le> d_value d" and "d_value d < (x + r) * 2 ^ 7"
  using dec_value [OF assms(1) _ code_in_unscale [OF assms(3)], of "a_low a * 2 ^ 7" d] assms(2)
  by (simp_all add: dec_sim_def add_mult_distrib)

lemma dec_sim_refill:
  assumes "bytes_ok Y" and "dec_sim Y a d" and "code_in Y (scale n x R a)" and "n \<le> 8"
    and "d_value d1 + x * 2 ^ 7 = d_value d * 2 ^ n" and "d_value d1 \<le> 16777216"
    and "d_bitstream d1 = d_bitstream d" "d_bitsNeeded d1 = d_bitsNeeded d + int n" "d_range d1 = R" "d_ctx d1 = d_ctx d"
  obtains d' where "refill d1 = Some d'" and "dec_sim Y (scale n x R a) d'"
proof -
  have raw: "dec_raw Y (a_pos a) (a_low a * 2 ^ 7) d" and c: "d_ctx d = a_ctx a"
    using assms(2) by (auto simp: dec_sim_def)
  have pos: "a_pos a + n + 9 \<le> 8 * length Y" using assms(3) by (simp add: in_interval_def)
  have d1: "d\<lparr>d_value := d_value d1, d_bitsNeeded := d_bitsNeeded d + int n, d_range := R\<rparr> = d1"
    by (rule BinDecoderBase.equality) (use assms(7-10) in auto)
  have "d_value d1 + (a_low a * 2 ^ n + x) * 2 ^ 7 = (d_value d + a_low a * 2 ^ 7) * 2 ^ n"
    using assms(5) by (simp add: algebra_simps)
  from refill_ok [OF raw assms(1,4) pos this assms(6), of R] obtain d' where
    "refill d1 = Some d'" "dec_raw Y (a_pos a + n) ((a_low a * 2 ^ n + x) * 2 ^ 7) d'" "d_range d' = R"
    "d_ctx d' = d_ctx d" unfolding d1 .
  with that c show ?thesis by (simp add: dec_sim_def)
qed

lemma dec_sim_keep:
  assumes "dec_sim Y a d" and "d_bitstream d' = d_bitstream d" "d_value d' = d_value d"
    "d_bitsNeeded d' = d_bitsNeeded d" "d_range d' = R" "d_ctx d' = d_ctx d"
  shows "dec_sim Y (scale 0 0 R a) d'"
  using assms by (simp add: dec_sim_def dec_raw_def)

subsection \<open>The operations as inverse steps of the ideal coder\<close>

lemma decodeBin_ok:
  assumes "bytes_ok Y" and "dec_sim Y a d" and "range_ok (a_range a)" and "op_ok (length (a_ctx a)) (BinCtx c b)"
    and "code_in Y (arith_step (BinCtx c b) a)"
  obtains d' where "decodeBin c d = Some (b, d')" and "dec_sim Y (arith_step (BinCtx c b) a) d'"
proof -
  let ?m = "a_ctx a ! c"
  let ?lps = "getLPS (a_range a) ?m"
  define n where "n = getRenormBitsLPS ?lps"
  note l = getLPS_bounds [OF assms(3), of ?m]
  have n: "n \<le> 6" "?lps * 2 ^ n \<le> 510"
    using renorm_table [OF l(1,2)] by (auto simp: n_def)
  have R: "256 \<le> a_range a" "a_range a \<le> 510" using assms(3) by (auto simp: range_ok_def)
  have d: "d_range d = a_range a" "d_ctx d = a_ctx a" using assms(2) by (auto simp: dec_sim_def)
  have sub: "sub32 (a_range a) ?lps = a_range a - ?lps" using R l by (simp add: sub32_id)
  have SR: "u32 (push_bit 7 (a_range a - ?lps)) = (a_range a - ?lps) * 128"
    "u32 ((a_range a - ?lps) * 128) = (a_range a - ?lps) * 128"
    using R by (simp_all add: u32_id push_bit_eq_mult)
  have b1: "b \<le> 1" "mps ?m \<le> 1" "c < length (a_ctx a)" using assms(4) mps_le_1 by auto
  let ?fin = "\<lambda>d. d\<lparr>d_ctx := (d_ctx d)[c := BinProbModel_update b ?m]\<rparr>"
  have fin: "dec_sim Y (a1\<lparr>a_ctx := (a_ctx a1)[c := BinProbModel_update b ?m]\<rparr>) (?fin d1)" if "dec_sim Y a1 d1" for a1 d1
    using that by (simp add: dec_sim_def dec_raw_def)
  consider (lps) "b \<noteq> mps ?m" | (renorm) "b = mps ?m" "a_range a - ?lps < 256"
    | (keep) "b = mps ?m" "\<not> a_range a - ?lps < 256" by blast
  then show ?thesis
  proof cases
    case lps
    let ?a = "scale n ((a_range a - ?lps) * 2 ^ n) (?lps * 2 ^ n) a"
    have code: "code_in Y ?a" using assms(5) lps by (simp add: Let_def n_def)
    have v: "(a_range a - ?lps) * 2 ^ 7 \<le> d_value d" "d_value d < a_range a * 2 ^ 7"
      using dec_sim_split [OF assms(1,2) code] l(3) by simp_all
    define v' where "v' = d_value d - (a_range a - ?lps) * 2 ^ 7"
    have "v' < ?lps * 2 ^ 7" using v l(3) by (simp add: v'_def diff_mult_distrib)
    then have "v' * 2 ^ n \<le> ?lps * 2 ^ 7 * 2 ^ n" by (intro mult_le_mono1) simp
    also have "\<dots> = ?lps * 2 ^ n * 2 ^ 7" by simp
    also have "\<dots> \<le> 510 * 2 ^ 7" using n(2) by (intro mult_le_mono1)
    finally have v'n: "v' * 2 ^ n \<le> 65280" by simp
    have sv: "sub32 (d_value d) ((a_range a - ?lps) * 128) = v'"
      using v R by (simp add: v'_def sub32_id)
    let ?d = "d\<lparr>d_value := v' * 2 ^ n, d_range := ?lps * 2 ^ n, d_bitsNeeded := d_bitsNeeded d + int n\<rparr>"
    have "v' * 2 ^ n + (a_range a - ?lps) * 2 ^ n * 2 ^ 7 = d_value d * 2 ^ n"
    proof -
      have "d_value d = v' + (a_range a - ?lps) * 2 ^ 7" using v(1) by (simp add: v'_def)
      then show ?thesis by (simp add: algebra_simps)
    qed
    then obtain d' where d': "refill ?d = Some d'" "dec_sim Y ?a d'"
      by (rule_tac dec_sim_refill [OF assms(1,2) code, of ?d]) (use n v'n in auto)
    have "1 - mps ?m = b" using lps b1 by auto
    then have "decodeBin c d = Some (b, ?fin d')"
      using v(1) d'(1) b1(3) n v'n d
      by (simp add: decodeBin_def Let_def sub SR sv n_def [symmetric] u32_id push_bit_eq_mult)
    then show ?thesis using that fin [OF d'(2)] lps by (simp add: Let_def n_def)
  next
    case renorm
    let ?a = "scale 1 0 (2 * (a_range a - ?lps)) a"
    have code: "code_in Y ?a" using assms(5) renorm by (simp add: Let_def)
    then have v: "d_value d < (a_range a - ?lps) * 2 ^ 7"
      using dec_sim_split(2) [OF assms(1,2), of 1 0 "a_range a - ?lps"] by (simp add: mult.commute)
    let ?d = "d\<lparr>d_range := 2 * (a_range a - ?lps), d_value := d_value d * 2, d_bitsNeeded := d_bitsNeeded d + 1\<rparr>"
    obtain d' where d': "refill ?d = Some d'" "dec_sim Y ?a d'"
      by (rule dec_sim_refill [OF assms(1,2) code, of ?d]) (use v R in auto)
    have "decodeBin c d = Some (b, ?fin d')"
      using v d'(1) b1(3) renorm d R
      by (simp add: decodeBin_def Let_def sub SR getRenormBitsRange_def u32_id mult.commute)
    then show ?thesis using that fin [OF d'(2)] renorm by (simp add: Let_def)
  next
    case keep
    let ?a = "scale 0 0 (a_range a - ?lps) a"
    have code: "code_in Y ?a" using assms(5) keep by (simp add: Let_def)
    then have v: "d_value d < (a_range a - ?lps) * 2 ^ 7"
      using dec_sim_split(2) [OF assms(1,2), of 0 0 "a_range a - ?lps"] by simp
    let ?d = "d\<lparr>d_range := a_range a - ?lps\<rparr>"
    have "decodeBin c d = Some (b, ?fin ?d)"
      using v b1(3) keep d by (simp add: decodeBin_def Let_def sub SR)
    moreover have "dec_sim Y ?a ?d" by (rule dec_sim_keep [OF assms(2)]) simp_all
    ultimately show ?thesis using that [of "?fin ?d"] fin [of ?a ?d] keep by (simp add: Let_def)
  qed
qed

lemma decodeBinTrm_0_ok:
  assumes "bytes_ok Y" and "dec_sim Y a d" and "range_ok (a_range a)" and "code_in Y (arith_step (BinTrm 0) a)"
  obtains d' where "decodeBinTrm d = Some (0, d')" and "dec_sim Y (arith_step (BinTrm 0) a) d'"
proof -
  have R: "256 \<le> a_range a" "a_range a \<le> 510" using assms(3) by (auto simp: range_ok_def)
  have d: "d_range d = a_range a" using assms(2) by (simp add: dec_sim_def)
  let ?r = "a_range a - 2"
  have sub: "sub32 (a_range a) 2 = ?r" and SR: "u32 (push_bit 7 ?r) = ?r * 128"
    using R by (simp_all add: sub32_id u32_id push_bit_eq_mult)
  show ?thesis
  proof (cases "256 \<le> ?r")
    case True
    let ?a = "scale 0 0 ?r a"
    have code: "code_in Y ?a" using assms(4) True by simp
    then have "d_value d < ?r * 128" using dec_sim_split(2) [OF assms(1,2), of 0 0 ?r] by simp
    moreover have "dec_sim Y ?a (d\<lparr>d_range := ?r\<rparr>)" by (rule dec_sim_keep [OF assms(2)]) simp_all
    ultimately show ?thesis
      using that [of "d\<lparr>d_range := ?r\<rparr>"] True d by (simp add: decodeBinTrm_def Let_def sub SR)
  next
    case False
    let ?a = "scale 1 0 (2 * ?r) a"
    have code: "code_in Y ?a" using assms(4) False by simp
    then have v: "d_value d < ?r * 128"
      using dec_sim_split(2) [OF assms(1,2), of 1 0 ?r] by (simp add: mult.commute)
    let ?d = "d\<lparr>d_range := 2 * ?r, d_value := 2 * d_value d, d_bitsNeeded := d_bitsNeeded d + 1\<rparr>"
    obtain d' where d': "refill ?d = Some d'" "dec_sim Y ?a d'"
      by (rule dec_sim_refill [OF assms(1,2) code, of ?d]) (use v R in auto)
    have "d_bitsNeeded d < 0" using assms(2) by (simp add: dec_sim_def dec_raw_def)
    then have "d_bitsNeeded d + 1 \<ge> 0 \<longleftrightarrow> d_bitsNeeded d + 1 = 0" "d_bitsNeeded d + 1 = 0 \<longleftrightarrow> d_bitsNeeded d = - 1" by auto
    then have "decodeBinTrm d = Some (0, d')"
      using v d'(1) False d R
      by (auto simp: decodeBinTrm_def Let_def sub SR u32_id refill_def mult_2 [symmetric]
          bind_eq_Some_conv split: if_splits)
    with that d'(2) False show ?thesis by simp
  qed
qed

text \<open>The terminating bin is decoded without renormalisation.\<close>

lemma decodeBinTrm_1_ok:
  assumes "bytes_ok Y" and "dec_sim Y a d" and "range_ok (a_range a)" and "code_in Y (scale 0 (a_range a - 2) 2 a)"
  shows "decodeBinTrm d = Some (1, d\<lparr>d_range := a_range a - 2\<rparr>)"
proof -
  have R: "256 \<le> a_range a" "a_range a \<le> 510" using assms(3) by (auto simp: range_ok_def)
  have "(a_range a - 2) * 128 \<le> d_value d"
    using dec_sim_split(1) [OF assms(1,2), of 0 "a_range a - 2" 2] assms(4) by simp
  moreover have "d_range d = a_range a" using assms(2) by (simp add: dec_sim_def)
  ultimately show ?thesis
    using R by (simp add: decodeBinTrm_def Let_def sub32_id u32_id push_bit_eq_mult)
qed

lemma BinDecoder_align_ok:
  assumes "dec_sim Y a d"
  shows "dec_sim Y (arith_step Align a) (BinDecoder_align d)"
  using dec_sim_keep [OF assms, of "BinDecoder_align d" 256] by (simp add: BinDecoder_align_def)

text \<open>A group of bypass bins after the shift: the bins are the quotient by the scaled range.\<close>

lemma bins_loop_ok:
  assumes "v < Q * 2 ^ k" and "Q * 2 ^ k < 4294967296" and "bins * 2 ^ k + 2 ^ k \<le> 4294967296"
  shows "bins_loop k bins (Q * 2 ^ k) v = (bins * 2 ^ k + v div Q, v mod Q)"
  using assms
proof (induction k arbitrary: bins v)
  case 0
  then show ?case by simp
next
  case (Suc k)
  let ?SR = "Q * 2 ^ k"
  have half: "drop_bit 1 (Q * 2 ^ Suc k) = ?SR" by (simp add: drop_bit_Suc)
  have Q: "0 < Q" using Suc.prems(1) by (cases Q) auto
  have b: "2 * bins + 1 < 4294967296"
  proof -
    have "(bins * 2 + 2) * 1 \<le> (bins * 2 + 2) * (2::nat) ^ k" by (intro mult_le_mono2) simp
    also have "\<dots> \<le> 4294967296" using Suc.prems(3) by (simp add: algebra_simps)
    finally show ?thesis by simp
  qed
  show ?case
  proof (cases "?SR \<le> v")
    case True
    have "v div Q = 2 ^ k + (v - ?SR) div Q"
    proof -
      have "v = (v - ?SR) + 2 ^ k * Q" using True by (simp add: mult.commute)
      then show ?thesis using Q by (metis add.commute div_mult_self1 less_not_refl)
    qed
    moreover have "v mod Q = (v - ?SR) mod Q" using True by (metis le_mod_geq mod_mult_self1 le_add_diff_inverse2 mult.commute)
    moreover have "bins_loop k (2 * bins + 1) ?SR (v - ?SR) = ((2 * bins + 1) * 2 ^ k + (v - ?SR) div Q, (v - ?SR) mod Q)"
      by (rule Suc.IH) (use Suc.prems True in \<open>auto simp: algebra_simps\<close>)
    ultimately show ?thesis
      unfolding bins_loop.simps half Let_def
      using True b Suc.prems(1,2) by (simp add: u32_id sub32_id mult_2 [symmetric])
  next
    case False
    have "bins_loop k (2 * bins) ?SR v = (2 * bins * 2 ^ k + v div Q, v mod Q)"
      by (rule Suc.IH) (use Suc.prems False in \<open>auto simp: algebra_simps\<close>)
    then show ?thesis unfolding bins_loop.simps half Let_def
      using False b by (simp add: u32_id mult_2 [symmetric] mult.assoc)
  qed
qed

lemma decode_group:
  assumes "bytes_ok Y" and "dec_sim Y a d" and "range_ok (a_range a)" and "n \<le> 8" and "x < 2 ^ n"
    and "code_in Y (scale n (x * a_range a) (a_range a) a)"
    and "d_value d1 = d_value d * 2 ^ n" "d_bitstream d1 = d_bitstream d" "d_bitsNeeded d1 = d_bitsNeeded d + int n"
      "d_range d1 = d_range d" "d_ctx d1 = d_ctx d"
  obtains d2 where "refill d1 = Some d2" and "d_range d2 = a_range a" and "d_ctx d2 = a_ctx a"
    and "d_value d2 div (a_range a * 128) = x" and "d_value d2 < a_range a * 128 * 2 ^ n"
    and "dec_sim Y (scale n (x * a_range a) (a_range a) a) (d2\<lparr>d_value := d_value d2 mod (a_range a * 128)\<rparr>)"
proof -
  let ?Q = "a_range a * 128"
  have R: "256 \<le> a_range a" "a_range a \<le> 510" using assms(3) by (auto simp: range_ok_def)
  have raw: "dec_raw Y (a_pos a) (a_low a * 2 ^ 7) d" and c: "d_ctx d = a_ctx a" "d_range d = a_range a"
    using assms(2) by (auto simp: dec_sim_def)
  have le: "x * a_range a + a_range a \<le> a_range a * 2 ^ n"
    using mult_le_mono1 [of "x + 1" "2 ^ n" "a_range a"] assms(5) by (simp add: algebra_simps)
  have code: "code_in Y a" by (rule in_interval_scale [OF _ le, of _ _ "a_ctx a"]) (use assms(6) in simp)
  have "d_value d * 2 ^ n \<le> 65280 * 2 ^ 8"
    using dec_sim_value [OF assms(1,2) code] R assms(4) by (intro mult_le_mono power_increasing) auto
  then have v: "d_value d * 2 ^ n \<le> 16777216" by simp
  have pos: "a_pos a + n + 9 \<le> 8 * length Y" using assms(6) by (simp add: in_interval_def)
  have d1: "d\<lparr>d_value := d_value d * 2 ^ n, d_bitsNeeded := d_bitsNeeded d + int n, d_range := a_range a\<rparr> = d1"
    by (rule BinDecoderBase.equality) (use assms(7-11) c in auto)
  have "d_value d * 2 ^ n + a_low a * 2 ^ n * 2 ^ 7 = (d_value d + a_low a * 2 ^ 7) * 2 ^ n"
    by (simp add: algebra_simps)
  from refill_ok [OF raw assms(1,4) pos this v, of "a_range a"] obtain d2 where
    d2: "refill d1 = Some d2" "dec_raw Y (a_pos a + n) (a_low a * 2 ^ n * 2 ^ 7) d2" "d_range d2 = a_range a"
      "d_ctx d2 = d_ctx d" unfolding d1 .
  have lo: "x * ?Q \<le> d_value d2" and hi: "d_value d2 < (x + 1) * ?Q"
    using dec_value [OF assms(1) _ assms(6), of "a_low a * 2 ^ n * 2 ^ 7" d2] d2(2)
    by (simp_all add: algebra_simps)
  then have q: "d_value d2 div ?Q = x" "d_value d2 mod ?Q + x * ?Q = d_value d2"
    using R by (simp_all add: div_nat_eqI modulo_nat_def mult.commute)
  have "d_value d2 < ?Q * 2 ^ n" using hi mult_le_mono1 [of "x + 1" "2 ^ n" ?Q] assms(5) by (simp add: mult.commute)
  moreover have "dec_sim Y (scale n (x * a_range a) (a_range a) a) (d2\<lparr>d_value := d_value d2 mod ?Q\<rparr>)"
  proof -
    have "d_value d2 mod ?Q + (a_low a * 2 ^ n + x * a_range a) * 2 ^ 7 = d_value d2 + a_low a * 2 ^ n * 2 ^ 7"
      using q(2) by (simp add: algebra_simps)
    then show ?thesis using d2 c by (simp add: dec_sim_def dec_raw_def)
  qed
  ultimately show ?thesis using that d2 q(1) c by simp
qed

lemma decodeBinEP_ok:
  assumes "bytes_ok Y" and "dec_sim Y a d" and "range_ok (a_range a)" and "b \<le> 1"
    and "code_in Y (arith_step (BinEP b) a)"
  obtains d' where "decodeBinEP d = Some (b, d')" and "dec_sim Y (arith_step (BinEP b) a) d'"
proof -
  let ?d1 = "d\<lparr>d_value := u32 (d_value d + d_value d), d_bitsNeeded := d_bitsNeeded d + 1\<rparr>"
  have R: "256 \<le> a_range a" "a_range a \<le> 510" using assms(3) by (auto simp: range_ok_def)
  have code: "code_in Y (scale 1 (b * a_range a) (a_range a) a)" using assms(5) by simp
  have "code_in Y a"
    by (rule in_interval_step [OF assms(3) _ assms(5)]) (use assms(4) in simp)
  then have "d_value d < a_range a * 2 ^ 7" by (rule dec_sim_value [OF assms(1,2)])
  then have v: "u32 (d_value d + d_value d) = d_value d * 2 ^ 1" using R by (simp add: u32_id)
  obtain d2 where d2: "refill ?d1 = Some d2" "d_range d2 = a_range a" "d_value d2 div (a_range a * 128) = b"
    "d_value d2 < a_range a * 128 * 2 ^ 1"
    "dec_sim Y (scale 1 (b * a_range a) (a_range a) a) (d2\<lparr>d_value := d_value d2 mod (a_range a * 128)\<rparr>)"
    by (rule decode_group [OF assms(1-3) _ _ code, of ?d1]) (use assms(4) v in auto)
  have "d_bitsNeeded d < 0" using assms(2) by (simp add: dec_sim_def dec_raw_def)
  then have nb: "d_bitsNeeded d + 1 \<ge> 0 \<Longrightarrow> d_bitsNeeded d = - 1" by simp
  have SR: "u32 (push_bit 7 (a_range a)) = a_range a * 128" using R by (simp add: u32_id push_bit_eq_mult)
  have ref: "(if d_bitsNeeded ?d1 \<ge> 0
      then do { (b, bs) \<leftarrow> readByte (d_bitstream ?d1);
        Some (?d1\<lparr>d_bitstream := bs, d_value := u32 (d_value ?d1 + b), d_bitsNeeded := - 8\<rparr>) }
      else Some ?d1) = refill ?d1"
    using nb by (auto simp: refill_def)
  have q: "(if d_value d2 \<ge> a_range a * 128 then (1, d2\<lparr>d_value := sub32 (d_value d2) (a_range a * 128)\<rparr>) else (0, d2))
      = (b, d2\<lparr>d_value := d_value d2 mod (a_range a * 128)\<rparr>)"
    using d2(3,4) R by (auto simp: sub32_id le_mod_geq div_if)
  have "decodeBinEP d = Some (b, d2\<lparr>d_value := d_value d2 mod (a_range a * 128)\<rparr>)"
    unfolding decodeBinEP_def Let_def ref d2(1) using q by (simp add: SR d2(2) split: if_splits)
  with that d2(5) show ?thesis by simp
qed

text \<open>\<open>decode_prefix\<close>: the bins decoded so far are the leading ones of the group \<open>x\<close>.\<close>

lemma code_in_prefix:
  assumes "code_in Y (scale n (x * a_range a) (a_range a) a)" and "x < 2 ^ n" and "m \<le> n"
  shows "code_in Y (scale m (x div 2 ^ (n - m) * a_range a) (a_range a) a)"
proof -
  let ?y = "x div 2 ^ (n - m)" and ?R = "a_range a" and ?k = "n - m"
  let ?a = "scale m (?y * ?R) ?R a"
  have "scale n (x * ?R) ?R a = scale ?k (x mod 2 ^ ?k * ?R) ?R ?a" by (rule scale_split [OF assms(3)])
  moreover have "x mod 2 ^ ?k * ?R + ?R \<le> ?R * 2 ^ ?k"
    using mult_le_mono1 [of "x mod 2 ^ ?k + 1" "2 ^ ?k" ?R] by (simp add: algebra_simps Suc_leI)
  ultimately show ?thesis
    using assms(1) in_interval_scale [of _ _ "a_ctx a" ?k "x mod 2 ^ ?k * ?R" ?R ?a] by simp
qed

lemma decodeBinsEP_loop_step:
  assumes "bytes_ok Y" and "dec_sim Y a d" and "range_ok (a_range a)" and "y < 2 ^ 8" and "n > 8"
    and "code_in Y (scale 8 (y * a_range a) (a_range a) a)" and "bins * 2 ^ 8 + 2 ^ 8 \<le> 4294967296"
  obtains d' where "decodeBinsEP_loop bins n d = decodeBinsEP_loop (bins * 2 ^ 8 + y) (n - 8) d'"
    and "dec_sim Y (scale 8 (y * a_range a) (a_range a) a) d'"
proof -
  let ?R = "a_range a"
  let ?a = "scale 8 (y * ?R) ?R a"
  have R: "256 \<le> ?R" "?R \<le> 510" using assms(3) by (auto simp: range_ok_def)
  have "code_in Y a"
    using code_in_prefix [OF assms(6,4), of 0] assms(4) by (simp add: scale_def)
  then have u: "u32 (push_bit 8 (d_value d)) = d_value d * 256"
    using dec_sim_value [OF assms(1,2)] R by (simp add: u32_id push_bit_eq_mult)
  let ?d1 = "d\<lparr>d_value := d_value d * 2 ^ 8, d_bitsNeeded := d_bitsNeeded d + 8\<rparr>"
  obtain d2 where d2: "refill ?d1 = Some d2" "d_value d2 div (?R * 128) = y"
    "d_value d2 < ?R * 128 * 2 ^ 8" "dec_sim Y ?a (d2\<lparr>d_value := d_value d2 mod (?R * 128)\<rparr>)"
    by (rule decode_group [OF assms(1-3) _ assms(4,6), of ?d1]) auto
  have nb: "0 \<le> d_bitsNeeded d + 8" and r: "d_range d = ?R"
    using assms(2) by (auto simp: dec_sim_def dec_raw_def)
  obtain b bs where rb: "readByte (d_bitstream d) = Some (b, bs)"
    and d2': "d2 = ?d1\<lparr>d_bitstream := bs, d_value := u32 (d_value d * 256 + push_bit (nat (8 + d_bitsNeeded d)) b),
      d_bitsNeeded := d_bitsNeeded d\<rparr>"
    using d2(1) nb by (auto simp: refill_def bind_eq_Some_conv add.commute)
  let ?v = "u32 (d_value d * 256 + push_bit (nat (8 + d_bitsNeeded d)) b)"
  have v: "d_value d2 = ?v" by (simp add: d2')
  have SR: "u32 (push_bit 15 ?R) = ?R * 128 * 2 ^ 8" using R by (simp add: u32_id push_bit_eq_mult)
  have bl: "bins_loop 8 bins (u32 (push_bit 15 ?R)) ?v = (bins * 2 ^ 8 + y, ?v mod (?R * 128))"
    unfolding SR using bins_loop_ok [OF d2(3) _ assms(7)] R d2(2) v by simp
  have "d\<lparr>d_bitstream := bs, d_value := ?v mod (?R * 128)\<rparr> = d2\<lparr>d_value := d_value d2 mod (?R * 128)\<rparr>"
    by (rule BinDecoderBase.equality) (simp_all add: d2')
  with bl have "decodeBinsEP_loop bins n d =
      decodeBinsEP_loop (bins * 2 ^ 8 + y) (n - 8) (d2\<lparr>d_value := d_value d2 mod (?R * 128)\<rparr>)"
    by (subst decodeBinsEP_loop.simps) (simp add: assms(5) rb r u Let_def)
  with that d2(4) show ?thesis by blast
qed

lemma div_split:
  assumes "m \<le> n"
  shows "x div 2 ^ m = x div 2 ^ n * 2 ^ (n - m) + x mod 2 ^ n div (2::nat) ^ m"
proof -
  have "(2::nat) ^ n = 2 ^ (n - m) * 2 ^ m" using assms by (simp flip: power_add)
  then have "x = x div 2 ^ n * 2 ^ (n - m) * 2 ^ m + x mod 2 ^ n"
    using div_mult_mod_eq [of x "2 ^ n"] by (simp add: mult.assoc)
  then have "x div 2 ^ m = (x mod 2 ^ n + x div 2 ^ n * 2 ^ (n - m) * 2 ^ m) div 2 ^ m"
    by (metis add.commute)
  also have "\<dots> = x div 2 ^ n * 2 ^ (n - m) + x mod 2 ^ n div 2 ^ m" by (rule div_mult_self1) simp
  finally show ?thesis .
qed

lemma decodeBinsEP_loop_ok:
  assumes "bytes_ok Y" and "dec_sim Y a d" and "range_ok (a_range a)" and "x < 2 ^ n" and "n + k \<le> 32"
    and "code_in Y (scale n (x * a_range a) (a_range a) a)" and "bins < 2 ^ k"
  obtains m d' where "decodeBinsEP_loop bins n d = Some (bins * 2 ^ (n - m) + x div 2 ^ m, m, d')"
    and "dec_sim Y (scale (n - m) (x div 2 ^ m * a_range a) (a_range a) a) d'" and "m \<le> 8" and "m \<le> n"
  using assms
proof (induction n arbitrary: bins k d a x thesis rule: less_induct)
  case (less n)
  show ?case
  proof (cases "n > 8")
    case False
    with less.prems(1) [of n d] less.prems(3,5) show ?thesis
      by (simp add: decodeBinsEP_loop.simps scale_def)
  next
    case True
    let ?R = "a_range a" and ?n = "n - 8"
    define y where "y = x div 2 ^ ?n"
    define x' where "x' = x mod 2 ^ ?n"
    let ?a = "scale 8 (y * ?R) ?R a"
    have pn: "(2::nat) ^ n = 2 ^ 8 * 2 ^ ?n" unfolding power_add [symmetric] using True by simp
    have y: "y < 2 ^ 8" using less.prems(5) by (simp add: y_def div_less_iff_less_mult pn)
    have code: "code_in Y ?a"
      using code_in_prefix [OF less.prems(7,5), of 8] True by (simp add: y_def)
    have code': "code_in Y (scale ?n (x' * a_range ?a) (a_range ?a) ?a)"
      using less.prems(7) scale_split [of 8 n x ?R a] True by (simp add: x'_def y_def)
    have "(bins + 1) * 2 ^ 8 \<le> 2 ^ k * 2 ^ 8" using less.prems(8) by (intro mult_le_mono1) simp
    then have k': "bins * 2 ^ 8 + 2 ^ 8 \<le> 2 ^ (k + 8)" by (simp add: power_add)
    also have "\<dots> \<le> (2::nat) ^ 32" using less.prems(6) True by (intro power_increasing) auto
    finally have k: "bins * 2 ^ 8 + 2 ^ 8 \<le> 4294967296" by simp
    from decodeBinsEP_loop_step [OF less.prems(2-4) y True code k] obtain d1 where
      d1: "decodeBinsEP_loop bins n d = decodeBinsEP_loop (bins * 2 ^ 8 + y) ?n d1" "dec_sim Y ?a d1" .
    obtain m d' where ih: "decodeBinsEP_loop (bins * 2 ^ 8 + y) ?n d1 =
        Some ((bins * 2 ^ 8 + y) * 2 ^ (?n - m) + x' div 2 ^ m, m, d')"
      "dec_sim Y (scale (?n - m) (x' div 2 ^ m * ?R) ?R ?a) d'" "m \<le> 8" "m \<le> ?n"
      by (rule less.IH [OF _ _ less.prems(2) d1(2) _ _ _ code', where k = "k + 8" and bins = "bins * 2 ^ 8 + y"])
        (use True less.prems(4,6) y k' in \<open>auto simp: x'_def\<close>)
    have split: "x div 2 ^ m = y * 2 ^ (?n - m) + x' div 2 ^ m"
      unfolding y_def x'_def by (rule div_split [OF ih(4)])
    show ?thesis
    proof (rule less.prems(1) [of m d'])
      show "decodeBinsEP_loop bins n d = Some (bins * 2 ^ (n - m) + x div 2 ^ m, m, d')"
      proof -
        have "(2::nat) ^ (n - m) = 2 ^ 8 * 2 ^ (?n - m)" unfolding power_add [symmetric] using ih(4) True by simp
        then show ?thesis using d1(1) ih(1) unfolding split by (simp add: add_mult_distrib mult.assoc)
      qed
      show "dec_sim Y (scale (n - m) (x div 2 ^ m * ?R) ?R a) d'"
        using ih(2,4) True by (simp add: split scale_scale algebra_simps)
    qed (use ih True in auto)
  qed
qed

text \<open>The aligned variant takes the bins before it refills; with a range of 256 the two agree.\<close>

lemma aligned_arith:
  assumes "2 ^ k dvd A" and "c < 2 ^ k" and "k \<le> 15"
  shows "(A + c) div 2 ^ 15 = A div (2::nat) ^ 15" and "A mod 2 ^ 15 OR c = (A + c) mod 2 ^ 15"
proof -
  have "(2::nat) ^ k dvd 2 ^ 15" using assms(3) by (rule le_imp_power_dvd)
  with assms(1) have "2 ^ k dvd A mod 2 ^ 15" by (rule dvd_mod)
  then obtain t where t: "A mod 2 ^ 15 = t * 2 ^ k" by (metis dvd_def mult.commute)
  have "t * 2 ^ k < 2 ^ (15 - k) * 2 ^ k" using t [symmetric] assms(3) by (simp flip: power_add)
  then have "t + 1 \<le> 2 ^ (15 - k)" by simp
  then have "(t + 1) * 2 ^ k \<le> 2 ^ (15 - k) * 2 ^ k" by (rule mult_le_mono1)
  then have small: "A mod 2 ^ 15 + c < 2 ^ 15" using t assms(2,3) by (simp flip: power_add)
  have A: "A + c = 2 ^ 15 * (A div 2 ^ 15) + (A mod 2 ^ 15 + c)"
    using div_mult_mod_eq [of A "2 ^ 15"] by (simp only: mult.commute add.assoc [symmetric])
  then have m: "(A + c) mod 2 ^ 15 = A mod 2 ^ 15 + c" using small by (metis mod_mult_self4 mod_less)
  show "(A + c) div 2 ^ 15 = A div 2 ^ 15" using A small
    by (metis add.right_neutral div_less div_mult_self4 zero_neq_numeral power_eq_0_iff)
  show "A mod 2 ^ 15 OR c = (A + c) mod 2 ^ 15"
    unfolding m unfolding t using or_shift_add [OF assms(2), of t] by (simp add: push_bit_eq_mult)
qed

lemma aligned_refill:
  assumes "in_inv (d_bitstream d)" and "2 ^ (j + m) dvd A" and "j + m \<le> 15" and "A \<le> 16777216"
    and "d_bitsNeeded d = int j - 8"
    and "refill (d\<lparr>d_value := A, d_bitsNeeded := d_bitsNeeded d + int m\<rparr>) = Some d2"
  shows "(let d = d\<lparr>d_value := A mod 2 ^ 15, d_bitsNeeded := d_bitsNeeded d + int m\<rparr>
     in if d_bitsNeeded d \<ge> 0
        then do { (b, bs) \<leftarrow> readByte (d_bitstream d);
          Some (d\<lparr>d_bitstream := bs, d_value := d_value d OR push_bit (nat (d_bitsNeeded d)) b,
            d_bitsNeeded := d_bitsNeeded d - 8\<rparr>) }
        else Some d) = Some (d2\<lparr>d_value := d_value d2 mod 2 ^ 15\<rparr>)" (is ?fill)
    and "A div 2 ^ 15 = d_value d2 div 2 ^ 15"
proof -
  have "?fill \<and> A div 2 ^ 15 = d_value d2 div 2 ^ 15"
  proof (cases "j + m < 8")
    case True
    with assms(5,6) show ?thesis by (auto simp: refill_def)
  next
    case False
    define q where "q = j + m - 8"
    have q: "j + m = q + 8" "d_bitsNeeded d + int m = int q" using False assms(5) by (auto simp: q_def)
    obtain b bs where b: "readByte (d_bitstream d) = Some (b, bs)"
      and d2: "d2 = d\<lparr>d_value := u32 (A + push_bit q b), d_bitsNeeded := int q - 8, d_bitstream := bs\<rparr>"
      using assms(6) q(2) by (auto simp: refill_def bind_eq_Some_conv)
    have "b < 256" using b assms(1) by (auto simp: readByte_def in_inv_def bytes_ok_nth split: if_splits)
    then have "b * 2 ^ q < 256 * 2 ^ q" by simp
    then have c: "b * 2 ^ q < 2 ^ (j + m)" unfolding q(1) by (simp add: power_add mult.commute)
    have "(2::nat) ^ (j + m) \<le> 2 ^ 15" using assms(3) by (intro power_increasing) auto
    then have u: "u32 (A + push_bit q b) = A + b * 2 ^ q"
      using c assms(4) by (simp add: u32_id push_bit_eq_mult)
    show ?thesis
      using aligned_arith [OF assms(2) c assms(3)] b q(2) u by (simp add: d2 push_bit_eq_mult)
  qed
  then show ?fill "A div 2 ^ 15 = d_value d2 div 2 ^ 15" by blast+
qed

lemma decodeAligned_step:
  assumes "bytes_ok Y" and "dec_sim Y a d" and "a_range a = 256" and "y < 2 ^ m" and "0 < n" and "m = min n 8"
    and "code_in Y (scale m (y * a_range a) (a_range a) a)" and "bins * 2 ^ m < 4294967296"
  obtains d' where "decodeAlignedBins_loop bins n d = decodeAlignedBins_loop (bins * 2 ^ m + y) (n - m) d'"
    and "dec_sim Y (scale m (y * a_range a) (a_range a) a) d'"
proof -
  let ?a = "scale m (y * a_range a) (a_range a) a"
  have m: "m \<le> 8" and Rok: "range_ok (a_range a)" using assms(3,6) by (auto simp: range_ok_def)
  have raw: "dec_raw Y (a_pos a) (a_low a * 2 ^ 7) d" using assms(2) by (simp add: dec_sim_def)
  define j where "j = a_pos a mod 8"
  have j: "j \<le> 7" "d_bitsNeeded d = int j - 8" using raw by (auto simp: j_def dec_raw_def less_Suc_eq_le [symmetric])
  have "code_in Y a" using code_in_prefix [OF assms(7,4), of 0] assms(4) by (simp add: scale_def)
  then have v15: "d_value d < 2 ^ 15" using dec_sim_value [OF assms(1,2)] assms(3) by simp
  \<comment> \<open>the low \<open>j\<close> bits of the register are still empty\<close>
  have "2 ^ j dvd d_value d + a_low a * 2 ^ 7" using raw by (simp add: dec_raw_def j_def)
  moreover have "(2::nat) ^ j dvd a_low a * 2 ^ 7" using le_imp_power_dvd [OF j(1), of "2::nat"] by (rule dvd_mult)
  ultimately have "2 ^ j dvd d_value d" by (simp add: dvd_add_left_iff)
  then obtain t where t: "d_value d = t * 2 ^ j" by (metis dvd_def mult.commute)
  let ?d1 = "d\<lparr>d_value := d_value d * 2 ^ m, d_bitsNeeded := d_bitsNeeded d + int m\<rparr>"
  obtain d2 where d2: "refill ?d1 = Some d2" "d_value d2 div 2 ^ 15 = y"
    "dec_sim Y ?a (d2\<lparr>d_value := d_value d2 mod 2 ^ 15\<rparr>)"
    by (rule decode_group [OF assms(1,2) Rok m assms(4,7), of ?d1]) (use assms(3) in auto)
  let ?A = "d_value d * 2 ^ m"
  have A: "2 ^ (j + m) dvd ?A" "j + m \<le> 15" "?A < 4294967296" "?A \<le> 16777216"
  proof -
    have "?A \<le> 2 ^ 15 * 2 ^ 8" using v15 m by (intro mult_le_mono power_increasing) auto
    then show "?A < 4294967296" "?A \<le> 16777216" by simp_all
  qed (use t j(1) m in \<open>simp_all add: power_add\<close>)
  have new: "drop_bit (15 - m) (d_value d) AND (push_bit m 1 - 1) = ?A div 2 ^ 15"
  proof -
    have e: "(2::nat) ^ 15 = 2 ^ (15 - m) * 2 ^ m" unfolding power_add [symmetric] using m by simp
    have "d_value d div 2 ^ (15 - m) < 2 ^ m" 
      using v15 unfolding e by (simp add: div_less_iff_less_mult mult.commute)
    moreover have "?A div 2 ^ 15 = d_value d div 2 ^ (15 - m)" unfolding e by simp
    ultimately show ?thesis using and_mask_mod [of "d_value d div 2 ^ (15 - m)" m]
      by (simp add: drop_bit_eq_div push_bit_eq_mult)
  qed
  have low: "u32 (push_bit m (d_value d)) AND 32767 = ?A mod 2 ^ 15"
    using A(3) and_mask_mod [of ?A 15] by (simp add: u32_id push_bit_eq_mult)
  define d3 where "d3 = d2\<lparr>d_value := d_value d2 mod 2 ^ 15\<rparr>"
  let ?d4 = "d\<lparr>d_value := ?A mod 2 ^ 15, d_bitsNeeded := d_bitsNeeded d + int m\<rparr>"
  have fill: "(if d_bitsNeeded ?d4 \<ge> 0
      then do { (b, bs) \<leftarrow> readByte (d_bitstream ?d4);
        Some (?d4\<lparr>d_bitstream := bs, d_value := d_value ?d4 OR push_bit (nat (d_bitsNeeded ?d4)) b,
          d_bitsNeeded := d_bitsNeeded ?d4 - 8\<rparr>) }
      else Some ?d4) = Some d3" and bins: "?A div 2 ^ 15 = y"
  proof -
    have inv: "in_inv (d_bitstream d)" using raw by (simp add: dec_raw_def)
    note f = aligned_refill [OF inv A(1,2,4) j(2) d2(1)]
    show "?A div 2 ^ 15 = y" using f(2) d2(2) by simp
    show "(if d_bitsNeeded ?d4 \<ge> 0
      then do { (b, bs) \<leftarrow> readByte (d_bitstream ?d4);
        Some (?d4\<lparr>d_bitstream := bs, d_value := d_value ?d4 OR push_bit (nat (d_bitsNeeded ?d4)) b,
          d_bitsNeeded := d_bitsNeeded ?d4 - 8\<rparr>) }
      else Some ?d4) = Some d3"
      using f(1) unfolding Let_def d3_def .
  qed
  have "bins * 2 ^ m + y = u32 (push_bit m bins) OR y"
    using or_shift_add [OF assms(4), of bins] assms(8) by (simp add: u32_id push_bit_eq_mult)
  then have "decodeAlignedBins_loop bins n d = decodeAlignedBins_loop (bins * 2 ^ m + y) (n - m) d3"
    using fill bins assms(5)
    by (subst decodeAlignedBins_loop.simps, unfold Let_def assms(6) [symmetric] new low) simp
  with that d2(3) show ?thesis by (simp add: d3_def)
qed

lemma decodeAligned_ok:
  assumes "bytes_ok Y" and "dec_sim Y a d" and "a_range a = 256" and "x < 2 ^ n" and "n + k \<le> 32"
    and "code_in Y (scale n (x * a_range a) (a_range a) a)" and "bins < 2 ^ k"
  obtains d' where "decodeAlignedBins_loop bins n d = Some (bins * 2 ^ n + x, d')"
    and "dec_sim Y (scale n (x * a_range a) (a_range a) a) d'"
  using assms
proof (induction n arbitrary: bins k d a x thesis rule: less_induct)
  case (less n)
  show ?case
  proof (cases "n = 0")
    case True
    with less.prems(1) [of d] less.prems(3,5) show ?thesis
      by (simp add: decodeAlignedBins_loop.simps scale_def)
  next
    case False
    define m where "m = min n 8"
    let ?R = "a_range a" and ?n = "n - m"
    define y where "y = x div 2 ^ ?n"
    define x' where "x' = x mod 2 ^ ?n"
    let ?a = "scale m (y * ?R) ?R a"
    have m: "m \<le> n" "0 < m" using False by (auto simp: m_def)
    have pn: "(2::nat) ^ n = 2 ^ m * 2 ^ ?n" unfolding power_add [symmetric] using m by simp
    have y: "y < 2 ^ m" using less.prems(5) by (simp add: y_def div_less_iff_less_mult pn)
    have code: "code_in Y ?a" unfolding y_def by (rule code_in_prefix [OF less.prems(7,5) m(1)])
    have code': "code_in Y (scale ?n (x' * a_range ?a) (a_range ?a) ?a)"
      using less.prems(7) scale_split [OF m(1), of x ?R a] by (simp add: x'_def y_def)
    have "(bins + 1) * 2 ^ m \<le> 2 ^ k * 2 ^ m" using less.prems(8) by (intro mult_le_mono1) simp
    then have k': "bins * 2 ^ m + 2 ^ m \<le> 2 ^ (k + m)" by (simp add: power_add)
    also have "\<dots> \<le> (2::nat) ^ 32" using less.prems(6) m by (intro power_increasing) auto
    finally have k: "bins * 2 ^ m + 2 ^ m \<le> 4294967296" by simp
    have "bins * 2 ^ m < 4294967296"
      by (rule less_le_trans [OF _ k]) simp
    from decodeAligned_step [OF less.prems(2-4) y _ m_def code this] False obtain d1 where
      d1: "decodeAlignedBins_loop bins n d = decodeAlignedBins_loop (bins * 2 ^ m + y) ?n d1" "dec_sim Y ?a d1" by auto
    obtain d' where "decodeAlignedBins_loop (bins * 2 ^ m + y) ?n d1 = Some ((bins * 2 ^ m + y) * 2 ^ ?n + x', d')"
      "dec_sim Y (scale ?n (x' * ?R) ?R ?a) d'"
      by (rule less.IH [OF _ _ less.prems(2) d1(2) _ _ _ code', where k = "k + m" and bins = "bins * 2 ^ m + y"])
        (use m less.prems(4,6) y k' in \<open>auto simp: x'_def\<close>)
    moreover have "(bins * 2 ^ m + y) * 2 ^ ?n + x' = bins * 2 ^ n + x"
      using div_mult_mod_eq [of x "2 ^ ?n"] by (simp add: add_mult_distrib pn y_def x'_def mult.assoc)
    moreover have "scale ?n (x' * ?R) ?R ?a = scale n (x * ?R) ?R a"
      unfolding x'_def y_def by (rule scale_split [OF m(1), symmetric])
    ultimately show ?thesis using less.prems(1) d1(1) by simp
  qed
qed

lemma decode_last_group:
  assumes "bytes_ok Y" and "dec_sim Y a d" and "range_ok (a_range a)" and "m \<le> 8" and "y < 2 ^ m"
    and "code_in Y (scale m (y * a_range a) (a_range a) a)" and "z * 2 ^ m + 2 ^ m \<le> 4294967296"
  obtains d2 where "refill (d\<lparr>d_bitsNeeded := d_bitsNeeded d + int m, d_value := u32 (push_bit m (d_value d))\<rparr>) = Some d2"
    and "bins_loop m z (u32 (push_bit (m + 7) (a_range a))) (d_value d2) = (z * 2 ^ m + y, d_value d2 mod (a_range a * 128))"
    and "d_range d2 = a_range a"
    and "dec_sim Y (scale m (y * a_range a) (a_range a) a) (d2\<lparr>d_value := d_value d2 mod (a_range a * 128)\<rparr>)"
proof -
  let ?R = "a_range a"
  let ?d = "d\<lparr>d_bitsNeeded := d_bitsNeeded d + int m, d_value := u32 (push_bit m (d_value d))\<rparr>"
  have R: "256 \<le> ?R" "?R \<le> 510" using assms(3) by (auto simp: range_ok_def)
  have p: "(2::nat) ^ m \<le> 2 ^ 8" using assms(4) by (intro power_increasing) auto
  have "code_in Y a" using code_in_prefix [OF assms(6,5), of 0] assms(5) by (simp add: scale_def)
  then have "d_value d * 2 ^ m \<le> 65280 * 2 ^ 8"
    using dec_sim_value [OF assms(1,2)] R p by (intro mult_le_mono) auto
  then have u: "u32 (push_bit m (d_value d)) = d_value d * 2 ^ m" by (simp add: u32_id push_bit_eq_mult)
  obtain d2 where d2: "refill ?d = Some d2" "d_range d2 = ?R" "d_value d2 div (?R * 128) = y"
    "d_value d2 < ?R * 128 * 2 ^ m" "dec_sim Y (scale m (y * ?R) ?R a) (d2\<lparr>d_value := d_value d2 mod (?R * 128)\<rparr>)"
    by (rule decode_group [OF assms(1-6), of ?d]) (use u in auto)
  have "?R * 128 * 2 ^ m \<le> 65280 * 2 ^ 8" using R p by (intro mult_le_mono) auto
  then have Q: "?R * 128 * 2 ^ m < 4294967296" by simp
  then have SR: "u32 (push_bit (m + 7) ?R) = ?R * 128 * 2 ^ m"
    by (simp add: push_bit_eq_mult power_add u32_id mult_ac)
  have "bins_loop m z (u32 (push_bit (m + 7) ?R)) (d_value d2) = (z * 2 ^ m + y, d_value d2 mod (?R * 128))"
    unfolding SR using bins_loop_ok [OF d2(4) Q assms(7)] d2(3) by simp
  with d2 that show ?thesis by blast
qed

lemma decodeBinsEP_ok:
  assumes "bytes_ok Y" and "dec_sim Y a d" and "range_ok (a_range a)" and "x < 2 ^ n" and "n \<le> 32"
    and "code_in Y (arith_run (BinsEP x n) a)"
  obtains d' where "decodeBinsEP n d = Some (x, d')" and "dec_sim Y (arith_run (BinsEP x n) a) d'"
proof -
  let ?R = "a_range a"
  have r: "d_range d = ?R" using assms(2) by (simp add: dec_sim_def)
  note code = assms(6) [unfolded arith_run_BinsEP [OF assms(4)]]
  show ?thesis
  proof (cases "?R = 256")
    case True
    from decodeAligned_ok [OF assms(1,2) True assms(4) _ code, of 0 0] assms(5) obtain d' where
      "decodeAlignedBins_loop 0 n d = Some (x, d')" "dec_sim Y (scale n (x * ?R) ?R a) d'" by auto
    with that r True show ?thesis
      by (simp add: decodeBinsEP_def decodeAlignedBinsEP_def arith_run_BinsEP [OF assms(4)])
  next
    case False
    have n: "n + 0 \<le> 32" "0 < (2::nat) ^ 0" using assms(5) by simp_all
    obtain m d1 where "decodeBinsEP_loop 0 n d = Some (0 * 2 ^ (n - m) + x div 2 ^ m, m, d1)"
      and d1': "dec_sim Y (scale (n - m) (x div 2 ^ m * ?R) ?R a) d1" "m \<le> 8" "m \<le> n"
      using decodeBinsEP_loop_ok [OF assms(1-4) n(1) code n(2)] .
    then have d1: "decodeBinsEP_loop 0 n d = Some (x div 2 ^ m, m, d1)" "m \<le> 8" "m \<le> n"
        "dec_sim Y (scale (n - m) (x div 2 ^ m * ?R) ?R a) d1" by simp_all
    let ?a1 = "scale (n - m) (x div 2 ^ m * ?R) ?R a"
    have sp: "scale n (x * ?R) ?R a = scale m (x mod 2 ^ m * ?R) ?R ?a1"
      using scale_split [of "n - m" n x ?R a] d1(3) by simp
    have lim: "x div 2 ^ m * 2 ^ m + 2 ^ m \<le> 4294967296"
    proof -
      have pn: "(2::nat) ^ n = 2 ^ (n - m) * 2 ^ m" unfolding power_add [symmetric] using d1(3) by simp
      have "x div 2 ^ m + 1 \<le> 2 ^ (n - m)" using assms(4) unfolding pn
        by (simp add: div_less_iff_less_mult Suc_leI)
      then have "(x div 2 ^ m + 1) * 2 ^ m \<le> 2 ^ n" unfolding pn by (rule mult_le_mono1)
      also have "\<dots> \<le> (2::nat) ^ 32" using assms(5) by (intro power_increasing) auto
      finally show ?thesis by simp
    qed
    obtain d2 where d2: "refill (d1\<lparr>d_bitsNeeded := d_bitsNeeded d1 + int m,
          d_value := u32 (push_bit m (d_value d1))\<rparr>) = Some d2"
      "bins_loop m (x div 2 ^ m) (u32 (push_bit (m + 7) ?R)) (d_value d2) = (x, d_value d2 mod (?R * 128))"
      "d_range d2 = ?R" "dec_sim Y (scale m (x mod 2 ^ m * ?R) ?R ?a1) (d2\<lparr>d_value := d_value d2 mod (?R * 128)\<rparr>)"
      by (rule decode_last_group [OF assms(1) d1(4) _ d1(2), of "x mod 2 ^ m" "x div 2 ^ m"])
        (use assms(3) code sp lim div_mult_mod_eq [of x "2 ^ m"] in auto)
    with that sp r False d1(1) show ?thesis
      by (simp add: decodeBinsEP_def arith_run_BinsEP [OF assms(4)])
  qed
qed

subsection \<open>Start and finish\<close>

lemma BinDecoder_start_ok:
  assumes "in_inv (d_bitstream d)" and "i_num_held_bits (d_bitstream d) = 0"
    and "drop (i_fifo_idx (d_bitstream d)) (i_fifo (d_bitstream d)) = Y" and "2 \<le> length Y"
  obtains d' where "BinDecoder_start d = Some d'" and "dec_sim Y (arith_start (d_ctx d)) d'"
proof -
  let ?bs = "d_bitstream d"
  let ?i = "i_fifo_idx ?bs"
  from assms(4) obtain b0 b1 ys where Y: "Y = b0 # b1 # ys" by (cases Y; cases "tl Y") auto
  have i: "Suc ?i < length (i_fifo ?bs)" using assms(3,4) by auto
  have n: "i_fifo ?bs ! ?i = b0" "i_fifo ?bs ! Suc ?i = b1"
    using assms(3) i by (simp_all add: Y Cons_nth_drop_Suc [symmetric])
  have "bytes_ok Y" using assms(1,3) bytes_ok_drop by (auto simp: in_inv_def)
  let ?d = "d\<lparr>d_bitstream := ?bs\<lparr>i_fifo_idx := ?i + 2\<rparr>, d_range := 510, d_value := push_bit 8 b0 + b1, d_bitsNeeded := - 8\<rparr>"
  have "BinDecoder_start d = Some ?d"
    using i n assms(2) by (simp add: BinDecoder_start_def InputBitstream_getNumBitsUntilByteAligned_def readByte_def)
  moreover have fifo: "i_fifo ?bs = take ?i (i_fifo ?bs) @ Y"
    using append_take_drop_id [of ?i "i_fifo ?bs"] assms(3) by simp
  moreover have "take 2 Y = [b0, b1]" by (simp add: Y)
  then have "dec_sim Y (arith_start (d_ctx d)) ?d"
    unfolding dec_sim_def dec_raw_def
    using assms(1,2,4) i fifo by (auto simp: arith_start_def in_inv_def be_word_Cons push_bit_eq_mult
        intro!: exI [of _ "take ?i (i_fifo ?bs)"])
  ultimately show ?thesis using that by blast
qed

text \<open>The stop bit that \<^verbatim>\<open>finish\<close> looks for: the last byte is \<open>p mod 8\<close> bits of code, a one
  and zeros.\<close>

lemma BinDecoder_finish_ok:
  assumes "dec_sim Y a d" and "length Y = 2 + a_pos a div 8"
    and "last Y = z * 2 ^ (8 - a_pos a mod 8) + 2 ^ (7 - a_pos a mod 8)" and "d_bitstream d' = d_bitstream d"
    and "d_bitsNeeded d' = d_bitsNeeded d"
  shows "BinDecoder_finish d' = Some ()" and "i_fifo_idx (d_bitstream d') = length (i_fifo (d_bitstream d'))"
proof -
  let ?bs = "d_bitstream d" and ?j = "a_pos a mod 8"
  obtain pre where pre: "i_fifo ?bs = pre @ Y" "i_fifo_idx ?bs = length pre + length Y"
    and nb: "d_bitsNeeded d = int ?j - 8"
    using assms(1,2) by (auto simp: dec_sim_def dec_raw_def)
  have "Y \<noteq> []" using assms(2) by auto
  then have peek: "peekPreviousByte ?bs = Some (last Y)"
    using pre by (cases Y rule: rev_cases) (simp_all add: peekPreviousByte_def nth_append)
  have j: "?j \<le> 7" by (simp add: less_Suc_eq_le [symmetric])
  have "last Y * 2 ^ ?j = z * 2 ^ 8 + 2 ^ 7"
    unfolding assms(3) add_mult_distrib mult.assoc power_add [symmetric] using j by simp
  then have "push_bit ?j (last Y) AND 255 = 128"
    using and_mask_mod [of "last Y * 2 ^ ?j" 8] by (simp add: push_bit_eq_mult)
  then show "BinDecoder_finish d' = Some ()"
    using peek nb by (simp add: BinDecoder_finish_def assms(4,5))
  show "i_fifo_idx (d_bitstream d') = length (i_fifo (d_bitstream d'))" using pre by (simp add: assms(4))
qed

end
