(* ===== verification/Cabac.thy ===== *)
theory Cabac
  imports BinEncoder BinDecoder Codec
begin

section \<open>Encoder and decoder together\<close>

text \<open>
  The encoder of \<^verbatim>\<open>BinEncoder.cpp\<close> and the decoder of \<^verbatim>\<open>BinDecoder.cpp\<close> are inverse to each
  other on every sequence of bins that ends with a terminating bin.  The escape code of
  \<^verbatim>\<open>encodeRemAbsEP\<close> and \<^verbatim>\<open>decodeRemAbsEP\<close> is reduced to bypass bins on both sides.  The
  interface through which the syntax layer reads bins is the locale \<open>bin_source\<close>.
\<close>

unbundle bit_operations_syntax

subsection \<open>The escape code as bypass bins\<close>

text \<open>The two groups of bins \<^verbatim>\<open>encodeRemAbsEP\<close> sends.\<close>

definition rem_abs_groups :: "nat \<Rightarrow> nat \<Rightarrow> nat \<Rightarrow> nat \<Rightarrow> (nat \<times> nat) \<times> (nat \<times> nat)" where
  "rem_abs_groups bins g cutoff maxLog2 =
     (let q = bins div 2 ^ g
      in if q < cutoff then ((2 ^ (q + 1) - 2, q + 1), (bins mod 2 ^ g, g))
         else
           let cv = q - cutoff;
               pl = (if cv \<ge> 2 ^ (32 - cutoff - maxLog2) - 1 then 32 - cutoff - maxLog2 else prefix_loop cv 0);
               sl = (if cv \<ge> 2 ^ (32 - cutoff - maxLog2) - 1 then maxLog2 else pl + g + 1)
           in ((2 ^ (pl + cutoff) - 1, pl + cutoff), ((cv - (2 ^ pl - 1)) * 2 ^ g + bins mod 2 ^ g, sl)))"

definition RemAbsEP :: "nat \<Rightarrow> nat \<Rightarrow> nat \<Rightarrow> nat \<Rightarrow> bin_op list" where
  "RemAbsEP bins g cutoff maxLog2 =
     (case rem_abs_groups bins g cutoff maxLog2 of ((v, n), (w, m)) \<Rightarrow> BinsEP v n @ BinsEP w m)"

text \<open>The values the escape code can represent.\<close>

definition rem_abs_ok :: "nat \<Rightarrow> nat \<Rightarrow> nat \<Rightarrow> nat \<Rightarrow> bool" where
  "rem_abs_ok bins g cutoff maxLog2 \<longleftrightarrow>
     cutoff + maxLog2 \<le> 32 \<and> maxLog2 < 32 \<and> g \<le> maxLog2 \<and> bins < 2 ^ 32 \<and> cutoff * 2 ^ g < 2 ^ 32
     \<and> bins < (2 ^ (32 - cutoff - maxLog2) - 1 + cutoff) * 2 ^ g + 2 ^ maxLog2"

lemma prefix_loop_bounds:
  assumes "2 ^ l \<le> cv + 1"
  shows "2 ^ prefix_loop cv l \<le> cv + 1 \<and> cv + 1 < 2 ^ (prefix_loop cv l + 1)"
  using assms
proof (induction cv l rule: prefix_loop.induct)
  case (1 cv l)
  show ?case
  proof (cases "cv > push_bit l 2 - 2")
    case True
    then have "2 ^ (l + 1) \<le> cv + 1" by (simp add: push_bit_eq_mult)
    with True 1(1) show ?thesis by (subst (1 2) prefix_loop.simps) simp
  next
    case False
    then have "cv + 1 < 2 ^ (l + 1)"
      using one_le_power [of "2::nat" l] unfolding push_bit_eq_mult power_add power_one_right by linarith
    with False 1(2) show ?thesis by (subst (1 2) prefix_loop.simps) simp
  qed
qed

text \<open>The three shapes of the escape code, with the number of ones in its prefix.\<close>

lemma RemAbsEP_cases:
  assumes "rem_abs_ok bins g c M"
  obtains (short) q where "q < c" and "bins = q * 2 ^ g + bins mod 2 ^ g"
      and "rem_abs_groups bins g c M = ((2 ^ (q + 1) - 2, q + 1), (bins mod 2 ^ g, g))"
  | (long) pl s where "pl < 32 - c - M" and "s < 2 ^ (pl + g)" and "bins = (2 ^ pl - 1 + c) * 2 ^ g + s"
      and "rem_abs_groups bins g c M = ((2 ^ (pl + c) - 1, pl + c), (s, pl + g + 1))"
  | (escape) s where "s < 2 ^ M" and "bins = (2 ^ (32 - c - M) - 1 + c) * 2 ^ g + s"
      and "rem_abs_groups bins g c M = ((2 ^ (32 - M) - 1, 32 - M), (s, M))"
proof -
  let ?q = "bins div 2 ^ g" and ?r = "bins mod 2 ^ g"
  define P where "P = 32 - c - M"
  have bins: "bins = ?q * 2 ^ g + ?r" by (rule div_mult_mod_eq [symmetric])
  have P: "P + c = 32 - M" using assms by (simp add: P_def rem_abs_ok_def)
  have P': "32 - (c + M) = P" by (simp add: P_def)
  have r: "?r < 2 ^ g" by simp
  show ?thesis
  proof (cases "?q < c")
    case True
    with short bins show ?thesis by (simp add: rem_abs_groups_def Let_def)
  next
    case False
    define cv where "cv = ?q - c"
    have q: "?q = cv + c" using False by (simp add: cv_def)
    have comb: "bins = (k + c) * 2 ^ g + ((cv - k) * 2 ^ g + ?r)" if "k \<le> cv" for k
    proof -
      have "?q = (k + c) + (cv - k)" using q that by simp
      then have "?q * 2 ^ g = (k + c) * 2 ^ g + (cv - k) * 2 ^ g" by (metis add_mult_distrib)
      then show ?thesis using bins by linarith
    qed
    show ?thesis
    proof (cases "cv \<ge> 2 ^ P - 1")
      case True
      let ?s = "(cv - (2 ^ P - 1)) * 2 ^ g + ?r"
      have b: "bins = (2 ^ P - 1 + c) * 2 ^ g + ?s" by (rule comb [OF True])
      moreover have "bins < (2 ^ P - 1 + c) * 2 ^ g + 2 ^ M" using assms by (simp add: rem_abs_ok_def P_def)
      ultimately have "?s < 2 ^ M" by linarith
      with True False b show ?thesis
        by (intro escape [of ?s]) (simp_all add: rem_abs_groups_def Let_def cv_def [symmetric] P' P)
    next
      case small: False
      define pl where "pl = prefix_loop cv 0"
      have pl: "2 ^ pl \<le> cv + 1" "cv + 1 < 2 ^ (pl + 1)"
        using prefix_loop_bounds [of 0 cv] by (simp_all add: pl_def)
      have "(2::nat) ^ pl < 2 ^ P" using pl(1) small by linarith
      then have "pl < P" by (rule power_less_imp_less_exp [rotated]) simp
      let ?s = "(cv - (2 ^ pl - 1)) * 2 ^ g + ?r"
      have "cv - (2 ^ pl - 1) + 1 \<le> 2 ^ pl" using pl by simp
      then have "(cv - (2 ^ pl - 1) + 1) * 2 ^ g \<le> 2 ^ pl * 2 ^ g" by (rule mult_le_mono1)
      then have "?s < 2 ^ (pl + g)" using r unfolding power_add add_mult_distrib by linarith
      moreover have "bins = (2 ^ pl - 1 + c) * 2 ^ g + ?s" using pl(1) by (intro comb) simp
      ultimately show ?thesis using \<open>pl < P\<close> small False
        by (intro long [of pl ?s])
          (simp_all add: rem_abs_groups_def Let_def cv_def [symmetric] P' pl_def [symmetric])
    qed
  qed
qed

lemma encodeRemAbsEP_groups:
  assumes "rem_abs_ok bins g c M"
  shows "encodeRemAbsEP bins g c M e =
    (case rem_abs_groups bins g c M of ((v, n), (w, m)) \<Rightarrow> do { e \<leftarrow> encodeBinsEP v n e; encodeBinsEP w m e })"
proof -
  have ok: "c * 2 ^ g < 4294967296" "bins < 4294967296" using assms by (simp_all add: rem_abs_ok_def)
  have th: "bins < u32 (push_bit g c) \<longleftrightarrow> bins div 2 ^ g < c"
    using ok(1) by (simp add: u32_id push_bit_eq_mult div_less_iff_less_mult)
  have mask: "bins AND (push_bit g 1 - 1) = bins mod 2 ^ g"
    using and_mask_mod [of bins g] by (simp add: push_bit_eq_mult)
  have suffix: "u32 ((bins div 2 ^ g - k) * 2 ^ g) OR bins mod 2 ^ g = (bins div 2 ^ g - k) * 2 ^ g + bins mod 2 ^ g" for k
  proof -
    have "(bins div 2 ^ g - k) * 2 ^ g \<le> bins div 2 ^ g * 2 ^ g" by (intro mult_le_mono1) simp
    also have "\<dots> \<le> bins" by simp
    finally have "u32 ((bins div 2 ^ g - k) * 2 ^ g) = push_bit g (bins div 2 ^ g - k)"
      using ok(2) by (simp add: u32_id push_bit_eq_mult)
    then show ?thesis using or_shift_add [of "bins mod 2 ^ g" g] by simp
  qed
  show ?thesis
    unfolding encodeRemAbsEP_def Let_def th mask rem_abs_groups_def drop_bit_eq_div
    by (simp add: suffix push_bit_eq_mult split: if_splits)
qed

lemma rem_abs_groups_ok:
  assumes "rem_abs_ok bins g c M" and "rem_abs_groups bins g c M = ((v, n), (w, m))"
  shows "v < 2 ^ n" and "n \<le> 32" and "w < 2 ^ m" and "m \<le> 32"
proof -
  have lim: "c + M \<le> 32" "g \<le> M" "M < 32" using assms(1) by (auto simp: rem_abs_ok_def)
  have "v < 2 ^ n \<and> n \<le> 32 \<and> w < 2 ^ m \<and> m \<le> 32"
    using assms(1)
  proof (cases rule: RemAbsEP_cases)
    case (short q)
    with lim assms(2) show ?thesis by auto
  next
    case (long pl s)
    have "(2::nat) ^ (pl + g) \<le> 2 ^ (pl + g + 1)" by simp
    with long lim assms(2) show ?thesis by auto
  next
    case (escape s)
    with lim assms(2) show ?thesis by auto
  qed
  then show "v < 2 ^ n" "n \<le> 32" "w < 2 ^ m" "m \<le> 32" by auto
qed

lemma encodeRemAbsEP_ok:
  assumes "enc_sim bits a e" and "rem_abs_ok bins g c M"
  obtains e' where "encodeRemAbsEP bins g c M e = Some e'" and "enc_sim bits (arith_run (RemAbsEP bins g c M) a) e'"
proof -
  obtain v n w m where gr: "rem_abs_groups bins g c M = ((v, n), (w, m))" by (metis surj_pair)
  note ok = rem_abs_groups_ok [OF assms(2) gr]
  from encodeBinsEP_ok [OF assms(1) ok(1,2)] obtain e1 where
    e1: "encodeBinsEP v n e = Some e1" "enc_sim bits (arith_run (BinsEP v n) a) e1" .
  from encodeBinsEP_ok [OF e1(2) ok(3,4)] obtain e2 where
    "encodeBinsEP w m e1 = Some e2" "enc_sim bits (arith_run (BinsEP w m) (arith_run (BinsEP v n) a)) e2" .
  with e1(1) that show ?thesis
    by (simp add: encodeRemAbsEP_groups [OF assms(2)] gr RemAbsEP_def)
qed

text \<open>Unary prefixes.\<close>

lemma BinsEP_ones: "BinsEP (2 ^ n - 1) n = replicate n (BinEP 1)"
proof (induction n)
  case (Suc n)
  have "(2 ^ Suc n - 1) div 2 = 2 ^ n - (1::nat)" "odd (2 ^ Suc n - (1::nat))" by simp_all
  moreover have "BinsEP v (Suc n) = BinsEP (v div 2) n @ [BinEP (of_bool (odd v))]" for v
    by (simp add: BinsEP_def)
  ultimately have "BinsEP (2 ^ Suc n - 1) (Suc n) = BinsEP (2 ^ n - 1) n @ [BinEP 1]"
    by (simp only: of_bool_eq simp_thms)
  then show ?case using Suc by (simp add: replicate_append_same)
qed (simp add: BinsEP_def)

lemma BinsEP_ones_zero: "BinsEP (2 ^ (n + 1) - 2) (n + 1) = replicate n (BinEP 1) @ [BinEP 0]"
proof -
  have "2 ^ (n + 1) - 2 = (2 ^ n - 1) * 2 ^ 1 + 0 mod (2::nat) ^ 1" by (simp add: diff_mult_distrib)
  then have "BinsEP (2 ^ (n + 1) - 2) (n + 1) = BinsEP (2 ^ n - 1) n @ BinsEP 0 1"
    by (simp only: BinsEP_append)
  then show ?thesis unfolding BinsEP_ones by (simp add: BinsEP_def)
qed

lemma BinsEP_zero: "w < 2 ^ m \<Longrightarrow> BinsEP w (m + 1) = BinEP 0 # BinsEP w m"
  using BinsEP_append [of 0 1 w m] by (simp add: BinsEP_def)

lemma RemAbsEP_shape:
  assumes "rem_abs_ok bins g c M"
  obtains (stop) k w m where "k < 32 - M" and "RemAbsEP bins g c M = replicate k (BinEP 1) @ BinEP 0 # BinsEP w m"
      and "w < 2 ^ m" and "m \<le> 32" and "m = (if k < c then g else g + (k - c))"
      and "bins = (if k < c then k else 2 ^ (k - c) + c - 1) * 2 ^ g + w"
  | (full) w where "RemAbsEP bins g c M = replicate (32 - M) (BinEP 1) @ BinsEP w M" and "w < 2 ^ M"
      and "bins = (2 ^ (32 - M - c) + c - 1) * 2 ^ g + w"
  using assms
proof (cases rule: RemAbsEP_cases)
  case (short q)
  have "q < 32 - M" "g \<le> 32" using assms short(1) by (auto simp: rem_abs_ok_def)
  with short show ?thesis
    by (intro stop [of q "bins mod 2 ^ g" g]) (simp_all add: RemAbsEP_def BinsEP_ones_zero [simplified] )
next
  case (long pl s)
  have "pl + c < 32 - M" "pl + g \<le> 32" "(1::nat) \<le> 2 ^ pl" using assms long(1) by (auto simp: rem_abs_ok_def)
  with long show ?thesis
    by (intro stop [of "pl + c" s "pl + g"])
      (simp_all add: RemAbsEP_def BinsEP_ones [simplified] BinsEP_zero [simplified] add.commute)
next
  case (escape s)
  have "32 - c - M = 32 - M - c" "(1::nat) \<le> 2 ^ (32 - M - c)" by simp_all
  with escape show ?thesis
    by (intro full [of s]) (simp_all add: RemAbsEP_def BinsEP_ones [simplified])
qed

subsection \<open>What a decoder will read\<close>

text \<open>\<open>dec_sees Y af ops d\<close>: the decoder is at a state from which the bins \<open>ops\<close> lead the ideal
  coder to the state \<open>af\<close>, just before the terminating bin of the code word \<open>Y\<close>.\<close>

definition code_ends :: "nat list \<Rightarrow> arith \<Rightarrow> bool" where
  "code_ends Y af \<longleftrightarrow> bytes_ok Y \<and> code_in Y (scale 0 (a_range af - 2) 2 af)"

definition dec_sees :: "nat list \<Rightarrow> arith \<Rightarrow> bin_op list \<Rightarrow> BinDecoderBase \<Rightarrow> bool" where
  "dec_sees Y af ops d \<longleftrightarrow> (\<exists>a. code_ends Y af \<and> dec_sim Y a d \<and> range_ok (a_range a)
     \<and> list_all (op_ok (length (a_ctx a))) ops \<and> BinTrm 1 \<notin> set ops \<and> arith_run ops a = af)"

lemma code_ends_in:
  assumes "code_ends Y (arith_run ops a)" and "range_ok (a_range a)" and "list_all (op_ok (length (a_ctx a))) ops"
  shows "code_in Y a"
proof -
  let ?f = "arith_run ops a"
  have "2 \<le> a_range ?f" using arith_run_ok [OF assms(2,3)] by (simp add: range_ok_def)
  then have "code_in Y ?f"
    using assms(1) in_interval_scale [of _ _ "a_ctx ?f" 0 "a_range ?f - 2" 2 ?f] by (simp add: code_ends_def)
  then show ?thesis by (rule in_interval_run [OF assms(2,3)])
qed

text \<open>The steps of a decoder under \<open>dec_sees\<close>.\<close>

lemma dec_sees_step:
  assumes "dec_sees Y af (ops @ rest) d"
  obtains a where "dec_sim Y a d" and "range_ok (a_range a)" and "list_all (op_ok (length (a_ctx a))) ops"
    and "BinTrm 1 \<notin> set ops" and "bytes_ok Y" and "code_in Y (arith_run ops a)"
    and "\<And>d'. dec_sim Y (arith_run ops a) d' \<Longrightarrow> dec_sees Y af rest d'"
proof -
  from assms obtain a where a: "code_ends Y af" "dec_sim Y a d" "range_ok (a_range a)"
    "list_all (op_ok (length (a_ctx a))) (ops @ rest)" "BinTrm 1 \<notin> set (ops @ rest)" "arith_run (ops @ rest) a = af"
    unfolding dec_sees_def by blast
  let ?b = "arith_run ops a"
  have b: "range_ok (a_range ?b)" "length (a_ctx ?b) = length (a_ctx a)"
    using arith_run_ok [OF a(3), of ops] a(4) by auto
  have "code_in Y ?b"
    by (rule code_ends_in [of Y rest]) (use a b in auto)
  moreover have "dec_sees Y af rest d'" if "dec_sim Y ?b d'" for d'
    unfolding dec_sees_def using a b that by (intro exI [of _ ?b]) auto
  ultimately show ?thesis using that a by (auto simp: code_ends_def)
qed

lemma dec_sees_BinCtx:
  assumes "dec_sees Y af (BinCtx c b # rest) d"
  shows "\<exists>d'. decodeBin c d = Some (b, d') \<and> dec_sees Y af rest d'"
  by (rule dec_sees_step [of Y af "[BinCtx c b]" rest d])
    (use assms decodeBin_ok in \<open>auto simp del: arith_step.simps, metis\<close>)

lemma dec_sees_BinEP:
  assumes "dec_sees Y af (BinEP b # rest) d"
  shows "\<exists>d'. decodeBinEP d = Some (b, d') \<and> dec_sees Y af rest d'"
  by (rule dec_sees_step [of Y af "[BinEP b]" rest d])
    (use assms decodeBinEP_ok in \<open>auto simp del: arith_step.simps, metis\<close>)

lemma dec_sees_BinTrm:
  assumes "dec_sees Y af (BinTrm b # rest) d"
  shows "\<exists>d'. decodeBinTrm d = Some (b, d') \<and> dec_sees Y af rest d'"
proof -
  obtain a where a: "dec_sim Y a d" "range_ok (a_range a)" "b \<le> 1" "b \<noteq> 1" "bytes_ok Y"
      "code_in Y (arith_step (BinTrm b) a)" "\<And>d'. dec_sim Y (arith_step (BinTrm b) a) d' \<Longrightarrow> dec_sees Y af rest d'"
    by (rule dec_sees_step [of Y af "[BinTrm b]" rest d]) (use assms in \<open>auto simp del: arith_step.simps\<close>)
  then have "b = 0" by simp
  with a decodeBinTrm_0_ok [of Y a d] show ?thesis by metis
qed

lemma dec_sees_Align: "dec_sees Y af (Align # rest) d \<Longrightarrow> dec_sees Y af rest (BinDecoder_align d)"
  by (rule dec_sees_step [of Y af "[Align]" rest d])
    (use BinDecoder_align_ok in \<open>auto simp del: arith_step.simps\<close>)

lemma dec_sees_BinsEP:
  assumes "dec_sees Y af (BinsEP v n @ rest) d" and "v < 2 ^ n" and "n \<le> 32"
  shows "\<exists>d'. decodeBinsEP n d = Some (v, d') \<and> dec_sees Y af rest d'"
  by (rule dec_sees_step [OF assms(1)]) (metis assms(2,3) decodeBinsEP_ok)

lemma prefix_bins_stop:
  assumes "dec_sees Y af (replicate k (BinEP 1) @ BinEP 0 # rest) d" and "k < left"
  shows "\<exists>d'. prefix_bins p left d = Some (p + k, d') \<and> dec_sees Y af rest d'"
  using assms
proof (induction k arbitrary: p left d)
  case 0
  then show ?case using dec_sees_BinEP [of Y af 0 rest d] by (subst prefix_bins.simps) auto
next
  case (Suc k)
  from Suc.prems(1) have "dec_sees Y af (BinEP 1 # replicate k (BinEP 1) @ BinEP 0 # rest) d" by simp
  from dec_sees_BinEP [OF this] obtain d1 where
    d1: "decodeBinEP d = Some (1, d1)" "dec_sees Y af (replicate k (BinEP 1) @ BinEP 0 # rest) d1" by blast
  from Suc.IH [OF d1(2), of "left - 1" "p + 1"] Suc.prems(2) d1(1) show ?case
    by (subst prefix_bins.simps) auto
qed

lemma prefix_bins_full:
  assumes "dec_sees Y af (replicate k (BinEP 1) @ rest) d" and "0 < k"
  shows "\<exists>d'. prefix_bins p k d = Some (p + k, d') \<and> dec_sees Y af rest d'"
  using assms
proof (induction k arbitrary: p d)
  case (Suc k)
  from Suc.prems(1) have "dec_sees Y af (BinEP 1 # replicate k (BinEP 1) @ rest) d" by simp
  from dec_sees_BinEP [OF this] obtain d1 where
    d1: "decodeBinEP d = Some (1, d1)" "dec_sees Y af (replicate k (BinEP 1) @ rest) d1" by blast
  show ?case
  proof (cases "k = 0")
    case True
    with d1 show ?thesis by (subst prefix_bins.simps) auto
  next
    case False
    with Suc.IH [OF d1(2), of "p + 1"] d1(1) show ?thesis by (subst prefix_bins.simps) auto
  qed
qed simp

lemma dec_sees_RemAbsEP:
  assumes "dec_sees Y af (RemAbsEP bins g c M @ rest) d" and "rem_abs_ok bins g c M"
  shows "\<exists>d'. decodeRemAbsEP g c M d = Some (bins, d') \<and> dec_sees Y af rest d'"
proof -
  have lim: "c + M \<le> 32" "g \<le> M" "M < 32" "bins < 4294967296" using assms(2) by (auto simp: rem_abs_ok_def)
  from assms(2) show ?thesis
  proof (cases rule: RemAbsEP_shape)
    case (stop k w m)
    from assms(1) stop prefix_bins_stop [of Y af k "BinsEP w m @ rest" d "32 - M" 0] obtain d1 where
      d1: "prefix_bins 0 (32 - M) d = Some (k, d1)" "dec_sees Y af (BinsEP w m @ rest) d1" by auto
    from dec_sees_BinsEP [OF d1(2) stop(3,4)] obtain d2 where
      d2: "decodeBinsEP m d1 = Some (w, d2)" "dec_sees Y af rest d2" by blast
    have "(if k < c then k else 2 ^ (k - c) + c - 1) * 2 ^ g \<le> bins" using stop(6) by simp
    with d1(1) d2 stop lim show ?thesis
      by (auto simp: decodeRemAbsEP_def push_bit_eq_mult u32_id split: if_splits)
  next
    case (full w)
    from assms(1) full lim prefix_bins_full [of Y af "32 - M" "BinsEP w M @ rest" d 0] obtain d1 where
      d1: "prefix_bins 0 (32 - M) d = Some (32 - M, d1)" "dec_sees Y af (BinsEP w M @ rest) d1" by auto
    from dec_sees_BinsEP [OF d1(2) full(2)] lim obtain d2 where
      d2: "decodeBinsEP M d1 = Some (w, d2)" "dec_sees Y af rest d2" by auto
    have "(2 ^ (32 - M - c) + c - 1) * 2 ^ g \<le> bins" using full(3) by simp
    with d1(1) d2 full lim show ?thesis
      by (auto simp: decodeRemAbsEP_def push_bit_eq_mult u32_id)
  qed
qed

subsection \<open>A whole code word\<close>

text \<open>The calls of the writer on the encoder, and what the calls of the reader return.\<close>

fun encode_op :: "bin_op \<Rightarrow> BinEncoderBase \<Rightarrow> BinEncoderBase option" where
  "encode_op (BinCtx c b) e = encodeBin b c e"
| "encode_op (BinEP b) e = encodeBinEP b e"
| "encode_op (BinTrm b) e = encodeBinTrm b e"
| "encode_op Align e = Some (BinEncoder_align e)"

fun encode_ops :: "bin_op list \<Rightarrow> BinEncoderBase \<Rightarrow> BinEncoderBase option" where
  "encode_ops [] e = Some e"
| "encode_ops (op # ops) e = do { e \<leftarrow> encode_op op e; encode_ops ops e }"

fun decode_op :: "bin_op \<Rightarrow> BinDecoderBase \<Rightarrow> (nat \<times> BinDecoderBase) option" where
  "decode_op (BinCtx c b) d = decodeBin c d"
| "decode_op (BinEP b) d = decodeBinEP d"
| "decode_op (BinTrm b) d = decodeBinTrm d"
| "decode_op Align d = Some (0, BinDecoder_align d)"

text \<open>The decoder is told the kind of each bin (and its context), not its value.\<close>

fun decode_ops :: "bin_op list \<Rightarrow> BinDecoderBase \<Rightarrow> (nat list \<times> BinDecoderBase) option" where
  "decode_ops [] d = Some ([], d)"
| "decode_ops (op # ops) d = do { (b, d) \<leftarrow> decode_op op d; (bs, d) \<leftarrow> decode_ops ops d; Some (b # bs, d) }"

fun bin_of :: "bin_op \<Rightarrow> nat" where
  "bin_of (BinCtx c b) = b" | "bin_of (BinEP b) = b" | "bin_of (BinTrm b) = b" | "bin_of Align = 0"

text \<open>A code word as the slice encoder produces it: the bins, a terminating bin, \<^verbatim>\<open>finish\<close> and the
  byte alignment.\<close>

definition encode_with ::
  "BinProbModel_Std list \<Rightarrow> (BinEncoderBase \<Rightarrow> BinEncoderBase option) \<Rightarrow> nat list option" where
  "encode_with ms W =
     (let e = \<lparr>e_ctx = ms, e_bitstream = OutputBitstream_clear, e_low = 0, e_range = 0, e_bufferedByte = 0,
               e_numBufferedBytes = 0, e_bitsLeft = 0, e_numBinsCtx = map (\<lambda>_. 0) ms, e_numBinsEP = 0,
               e_numBinsTrm = 0, e_store_inUse = False, e_store = []\<rparr>
      in do {
        e \<leftarrow> W (BinEncoder_start e);
        e \<leftarrow> encodeBinTrm 1 e;
        e \<leftarrow> BinEncoder_finish e;
        bs \<leftarrow> writeByteAlignment (e_bitstream e);
        Some (o_fifo bs) })"

definition decode_with ::
  "BinProbModel_Std list \<Rightarrow> (BinDecoderBase \<Rightarrow> ('v \<times> BinDecoderBase) option) \<Rightarrow> nat list
     \<Rightarrow> ('v \<times> BinDecoderBase) option" where
  "decode_with ms R bytes =
     (let d = \<lparr>d_ctx = ms, d_bitstream = InputBitstream_new bytes, d_range = 0, d_value = 0, d_bitsNeeded = 0\<rparr>
      in do {
        d \<leftarrow> BinDecoder_start d;
        (v, d) \<leftarrow> R d;
        (t, d) \<leftarrow> decodeBinTrm d;
        if t = 0 then None
        else do { _ \<leftarrow> BinDecoder_finish d; Some (v, d) } })"

abbreviation encode_word :: "BinProbModel_Std list \<Rightarrow> bin_op list \<Rightarrow> nat list option" where
  "encode_word ms ops \<equiv> encode_with ms (encode_ops ops)"

abbreviation decode_word ::
  "BinProbModel_Std list \<Rightarrow> bin_op list \<Rightarrow> nat list \<Rightarrow> (nat list \<times> BinDecoderBase) option" where
  "decode_word ms kinds \<equiv> decode_with ms (decode_ops kinds)"

lemma encode_ops_ok:
  assumes "enc_sim bits a e" and "list_all (op_ok (length (a_ctx a))) ops"
  obtains e' where "encode_ops ops e = Some e'" and "enc_sim bits (arith_run ops a) e'"
  using assms
proof (induction ops arbitrary: a e thesis)
  case (Cons op ops)
  have r: "range_ok (a_range a)" using enc_sim_range [OF Cons.prems(2)] by simp
  have ok: "op_ok (length (a_ctx a)) op" using Cons.prems(3) by simp
  obtain e1 where e1: "encode_op op e = Some e1" "enc_sim bits (arith_step op a) e1"
  proof (cases op)
    case (BinCtx c b)
    with ok encodeBin_ok [OF Cons.prems(2)] that show ?thesis by (metis encode_op.simps(1) op_ok.simps(1))
  next
    case (BinEP b)
    with ok encodeBinEP_ok [OF Cons.prems(2)] that show ?thesis by (metis encode_op.simps(2) op_ok.simps(2))
  next
    case (BinTrm b)
    with encodeBinTrm_ok [OF Cons.prems(2)] that show ?thesis by (metis encode_op.simps(3))
  next
    case Align
    with BinEncoder_align_ok [OF Cons.prems(2)] that show ?thesis by simp
  qed
  have "list_all (op_ok (length (a_ctx (arith_step op a)))) ops"
    using Cons.prems(3) arith_step_ok(2) [OF r ok] by simp
  from Cons.IH [OF _ e1(2) this] obtain e2 where
    "encode_ops ops e1 = Some e2" "enc_sim bits (arith_run ops (arith_step op a)) e2" by blast
  with e1(1) Cons.prems(1) show ?case by simp
qed simp

lemma decode_ops_ok:
  assumes "dec_sees Y af (ops @ rest) d"
  obtains d' where "decode_ops ops d = Some (map bin_of ops, d')" and "dec_sees Y af rest d'"
  using assms
proof (induction ops arbitrary: d thesis)
  case (Cons op ops)
  have s: "dec_sees Y af (op # ops @ rest) d" using Cons.prems(2) by simp
  have "\<exists>d1. decode_op op d = Some (bin_of op, d1) \<and> dec_sees Y af (ops @ rest) d1"
    using s dec_sees_BinCtx dec_sees_BinEP dec_sees_BinTrm dec_sees_Align by (cases op) fastforce+
  then obtain d1 where d1: "decode_op op d = Some (bin_of op, d1)" "dec_sees Y af (ops @ rest) d1" by blast
  from Cons.IH [OF _ d1(2)] obtain d2 where
    "decode_ops ops d1 = Some (map bin_of ops, d2)" "dec_sees Y af rest d2" by blast
  with d1(1) Cons.prems(1) show ?case by simp
qed simp

text \<open>The bins a running encoder has coded since its start, as the abstraction of its state.\<close>

definition enc_emits :: "BinProbModel_Std list \<Rightarrow> bin_op list \<Rightarrow> BinEncoderBase \<Rightarrow> bool" where
  "enc_emits ms ops e \<longleftrightarrow> list_all (op_ok (length ms)) ops \<and> BinTrm 1 \<notin> set ops
     \<and> enc_sim [] (arith_run ops (arith_start ms)) e"

lemma encode_with_bits:
  assumes "writes (enc_emits ms) W ops" and "af = arith_run ops (arith_start ms)"
  obtains Y where "encode_with ms W = Some Y" and "bytes_ok Y" and "bytes_bits Y =
      bitsBE (a_pos af + 8) ((a_low af + (a_range af - 2)) div 2) @ True # replicate (7 - a_pos af mod 8) False"
    and "a_low af + a_range af \<le> 2 ^ (a_pos af + 9)" and "range_ok (a_range af)"
    and "list_all (op_ok (length ms)) ops" and "BinTrm 1 \<notin> set ops"
proof -
  let ?e = "\<lparr>e_ctx = ms, e_bitstream = OutputBitstream_clear, e_low = 0, e_range = 0, e_bufferedByte = 0,
               e_numBufferedBytes = 0, e_bitsLeft = 0, e_numBinsCtx = map (\<lambda>_. 0) ms, e_numBinsEP = 0,
               e_numBinsTrm = 0, e_store_inUse = False, e_store = []\<rparr>"
  let ?M = "a_low af + (a_range af - 2)"
  have "enc_emits ms [] (BinEncoder_start ?e)"
    using BinEncoder_start_ok [of ?e "[]"] by (simp add: enc_emits_def)
  from writesD [OF assms(1) this] obtain e1 where
    e1: "W (BinEncoder_start ?e) = Some e1" "enc_sim [] af e1"
    and ops: "list_all (op_ok (length ms)) ops" "BinTrm 1 \<notin> set ops"
    unfolding assms(2) by (auto simp: enc_emits_def)
  from encodeBinTrm_ok [OF e1(2), of 1] obtain e2 where
    e2: "encodeBinTrm 1 e1 = Some e2" "enc_sim [] (arith_step (BinTrm 1) af) e2" .
  from BinEncoder_finish_ok [OF e2(2)] obtain e3 where e3: "BinEncoder_finish e2 = Some e3" "out_inv (e_bitstream e3)"
    "bits_out (e_bitstream e3) =
      [] @ bitsBE (a_pos (arith_step (BinTrm 1) af) + 1) (a_low (arith_step (BinTrm 1) af) div 2 ^ 8)" .
  have "(a_low af * 2 ^ 7 + (a_range af - 2) * 2 ^ 7) div 2 ^ 8 = ?M div 2"
  proof -
    have "a_low af * 2 ^ 7 + (a_range af - 2) * 2 ^ 7 = ?M * 128" by (simp only: add_mult_distrib) simp
    moreover have "(2::nat) ^ 8 = 2 * 128" by simp
    ultimately show ?thesis using div_mult_mult2 [of 128 ?M 2] by (simp only:)
  qed
  then have bits: "bits_out (e_bitstream e3) = bitsBE (a_pos af + 8) (?M div 2)"
    using e3(3) by (simp del: bitsBE.simps add: add.commute)
  then have held: "o_num_held_bits (e_bitstream e3) = a_pos af mod 8"
    using out_held_mod [OF e3(2)] by simp
  from writeByteAlignment_ok [OF e3(2)] obtain bs where bs: "writeByteAlignment (e_bitstream e3) = Some bs"
    "out_inv bs" "o_num_held_bits bs = 0"
    "bits_out bs = bits_out (e_bitstream e3) @ True # replicate (7 - o_num_held_bits (e_bitstream e3)) False" .
  have "encode_with ms W = Some (o_fifo bs)"
    using e1(1) e2(1) e3(1) bs(1) by (simp add: encode_with_def)
  moreover have "bytes_ok (o_fifo bs)" using bs(2) by (simp add: out_inv_def)
  moreover have "bytes_bits (o_fifo bs) = bitsBE (a_pos af + 8) (?M div 2) @ True # replicate (7 - a_pos af mod 8) False"
  proof -
    have "bits_out bs = bytes_bits (o_fifo bs)" using bs(3) by (simp add: bits_out_def)
    then show ?thesis using bs(4) unfolding bits held by simp
  qed
  moreover have "a_low af + a_range af \<le> 2 ^ (a_pos af + 9)"
    using e1(2) enc_inv_fits [of "[]" "a_low af" "a_pos af" e1] by (simp add: enc_sim_def)
  ultimately show ?thesis using that enc_sim_range [OF e1(2)] ops by blast
qed

text \<open>The code word ends in the interval of the terminating bin, and its last byte has the stop bit.\<close>

lemma code_word_value:
  assumes "bytes_ok Y" and "M < 2 ^ (p + 9)"
    and "bytes_bits Y = bitsBE (p + 8) (M div 2) @ True # replicate (7 - p mod 8) False"
  shows "length Y = 2 + p div 8" and "be_word Y = (2 * (M div 2) + 1) * 2 ^ (7 - p mod 8)"
    and "\<exists>z. last Y = z * 2 ^ (8 - p mod 8) + 2 ^ (7 - p mod 8)"
proof -
  let ?j = "p mod 8"
  have j: "?j \<le> 7" by (simp add: less_Suc_eq_le [symmetric])
  have "8 * length Y = p + 8 + (8 - ?j)" using arg_cong [OF assms(3), of length] j by simp
  then show len: "length Y = 2 + p div 8" using div_mult_mod_eq [of p 8] j by linarith
  have p8: "(2::nat) ^ (8 - ?j) = 2 * 2 ^ (7 - ?j)" using j by (simp add: Suc_diff_le flip: power_Suc)
  have "M div 2 < 2 ^ (p + 8)" using assms(2) by (simp add: power_add)
  then have "valBE (bytes_bits Y) = M div 2 * 2 ^ (8 - ?j) + 2 ^ (7 - ?j)"
    using j unfolding assms(3) valBE_append valBE_bitsBE p8 by (simp add: valBE_Cons)
  then have V: "be_word Y = M div 2 * 2 ^ (8 - ?j) + 2 ^ (7 - ?j)" by (simp add: valBE_bytes_bits assms(1))
  show "be_word Y = (2 * (M div 2) + 1) * 2 ^ (7 - ?j)" unfolding V p8 by (simp add: algebra_simps)
  let ?X = "M div 2"
  have r: "(?X mod 2 ^ ?j) * 2 ^ (8 - ?j) + 2 ^ (7 - ?j) < 256"
  proof -
    have "?X mod 2 ^ ?j + 1 \<le> 2 ^ ?j" by (simp add: Suc_leI)
    then have "(?X mod 2 ^ ?j + 1) * 2 ^ (8 - ?j) \<le> 2 ^ ?j * 2 ^ (8 - ?j)" by (rule mult_le_mono1)
    also have "\<dots> = 256" using j by (simp flip: power_add)
    finally have "?X mod 2 ^ ?j * (2 * 2 ^ (7 - ?j)) + 2 * 2 ^ (7 - ?j) \<le> 256"
      unfolding p8 add_mult_distrib by simp
    moreover have "(0::nat) < 2 ^ (7 - ?j)" by simp
    ultimately show ?thesis unfolding p8 by linarith
  qed
  obtain Y' y where Y: "Y = Y' @ [y]" using len by (cases Y rule: rev_cases) auto
  have "y < 256" "be_word Y = be_word Y' * 256 + y" using assms(1) by (auto simp: Y)
  then have y: "y = be_word Y mod 256" by simp
  have "be_word Y = (?X div 2 ^ ?j * 2 ^ ?j + ?X mod 2 ^ ?j) * 2 ^ (8 - ?j) + 2 ^ (7 - ?j)"
    unfolding V by (simp only: div_mult_mod_eq)
  also have "\<dots> = ?X div 2 ^ ?j * (2 ^ ?j * 2 ^ (8 - ?j)) + ((?X mod 2 ^ ?j) * 2 ^ (8 - ?j) + 2 ^ (7 - ?j))"
    by (simp only: add_mult_distrib mult.assoc add.assoc)
  also have "2 ^ ?j * 2 ^ (8 - ?j) = (256::nat)" using j by (simp flip: power_add)
  finally have "y = (?X mod 2 ^ ?j) * 2 ^ (8 - ?j) + 2 ^ (7 - ?j)" unfolding y using r by simp
  then show "\<exists>z. last Y = z * 2 ^ (8 - ?j) + 2 ^ (7 - ?j)" using Y by auto
qed

lemma code_word_ends:
  assumes "bytes_ok Y" and "range_ok (a_range af)" and "length Y = 2 + a_pos af div 8"
    and "be_word Y = (2 * ((a_low af + (a_range af - 2)) div 2) + 1) * 2 ^ (7 - a_pos af mod 8)"
  shows "code_ends Y af"
proof -
  let ?j = "a_pos af mod 8" and ?M = "a_low af + (a_range af - 2)"
  have j: "?j \<le> 7" by (simp add: less_Suc_eq_le [symmetric])
  have arith: "x = 8 * q + k \<Longrightarrow> k \<le> 7 \<Longrightarrow> x + 9 \<le> 8 * (2 + q) \<and> 8 * (2 + q) - (x + 9) = 7 - k" for x q k :: nat
    by auto
  have T: "a_pos af + 9 \<le> 8 * length Y" "8 * length Y - (a_pos af + 9) = 7 - ?j"
    using arith [of "a_pos af" "a_pos af div 8" ?j] j unfolding assms(3) by simp_all
  have M: "?M \<le> 2 * (?M div 2) + 1" "2 * (?M div 2) + 1 < ?M + 2" by linarith+
  have "?M * 2 ^ (7 - ?j) \<le> be_word Y" unfolding assms(4) using M(1) by (rule mult_le_mono1)
  moreover have "be_word Y < (?M + 2) * 2 ^ (7 - ?j)" unfolding assms(4) using M(2) by (intro mult_strict_right_mono) auto
  ultimately show ?thesis using T assms(1) by (simp add: code_ends_def in_interval_def)
qed

lemma code_word_roundtrip:
  assumes "writes (enc_emits ms) W ops" and "\<And>Y af. reads (dec_sees Y af) R ops v"
  obtains Y d where "encode_with ms W = Some Y" and "bytes_ok Y" and "decode_with ms R Y = Some (v, d)"
    and "d_ctx d = a_ctx (arith_run ops (arith_start ms))" and "i_fifo_idx (d_bitstream d) = length (i_fifo (d_bitstream d))"
proof -
  define af where "af = arith_run ops (arith_start ms)"
  let ?M = "a_low af + (a_range af - 2)"
  from encode_with_bits [OF assms(1) af_def] obtain Y where Y: "encode_with ms W = Some Y" "bytes_ok Y"
    "bytes_bits Y = bitsBE (a_pos af + 8) (?M div 2) @ True # replicate (7 - a_pos af mod 8) False"
    and fits: "a_low af + a_range af \<le> 2 ^ (a_pos af + 9)" and r: "range_ok (a_range af)"
    and ops: "list_all (op_ok (length ms)) ops" "BinTrm 1 \<notin> set ops" .
  have "?M < 2 ^ (a_pos af + 9)" using fits r unfolding range_ok_def by linarith
  note val = code_word_value [OF Y(2) this Y(3)]
  have ends: "code_ends Y af" by (rule code_word_ends [OF Y(2) r val(1,2)])
  let ?d = "\<lparr>d_ctx = ms, d_bitstream = InputBitstream_new Y, d_range = 0, d_value = 0, d_bitsNeeded = 0\<rparr>"
  obtain d0 where d0: "BinDecoder_start ?d = Some d0" "dec_sim Y (arith_start ms) d0"
    by (rule BinDecoder_start_ok [of ?d Y]) (use Y(2) val(1) in \<open>auto simp: InputBitstream_new_def in_inv_def\<close>)
  have "dec_sees Y af (ops @ []) d0"
    unfolding dec_sees_def using ends d0(2) ops af_def by (intro exI [of _ "arith_start ms"])
      (auto simp: arith_start_def range_ok_def)
  from readsD [OF assms(2) this] obtain d1 where
    d1: "R d0 = Some (v, d1)" "dec_sees Y af [] d1" by blast
  then have sim: "dec_sim Y af d1" by (auto simp: dec_sees_def)
  let ?d2 = "d1\<lparr>d_range := a_range af - 2\<rparr>"
  have trm: "decodeBinTrm d1 = Some (1, ?d2)"
    by (rule decodeBinTrm_1_ok [OF Y(2) sim r]) (use ends in \<open>simp add: code_ends_def\<close>)
  from val(3) obtain z where z: "last Y = z * 2 ^ (8 - a_pos af mod 8) + 2 ^ (7 - a_pos af mod 8)" by blast
  have fin: "BinDecoder_finish ?d2 = Some ()" "i_fifo_idx (d_bitstream ?d2) = length (i_fifo (d_bitstream ?d2))"
    by (rule BinDecoder_finish_ok [OF sim val(1) z], simp, simp)+
  have "decode_with ms R Y = Some (v, ?d2)"
    using d0(1) d1(1) trm fin(1) by (simp add: decode_with_def)
  moreover have "d_ctx ?d2 = a_ctx af" using sim by (simp add: dec_sim_def)
  ultimately show ?thesis using that Y(1,2) fin(2) unfolding af_def by blast
qed

text \<open>Single bins.\<close>

lemma writes_op:
  assumes "\<And>bits a e. length (a_ctx a) = length ms \<Longrightarrow> enc_sim bits a e
      \<Longrightarrow> \<exists>e'. W e = Some e' \<and> enc_sim bits (arith_run ops a) e'"
    and "list_all (op_ok (length ms)) ops" and "BinTrm 1 \<notin> set ops"
  shows "writes (enc_emits ms) W ops"
  unfolding writes_def enc_emits_def
proof (intro allI impI)
  fix l e
  assume e: "list_all (op_ok (length ms)) l \<and> BinTrm 1 \<notin> set l \<and> enc_sim [] (arith_run l (arith_start ms)) e"
  have "length (a_ctx (arith_run l (arith_start ms))) = length ms"
    using e arith_run_ok [of "arith_start ms" l] by (simp add: arith_start_def range_ok_def)
  from assms(1) [OF this, of "[]" e] e assms(2,3)
  show "\<exists>s'. W e = Some s' \<and> list_all (op_ok (length ms)) (l @ ops) \<and> BinTrm 1 \<notin> set (l @ ops)
      \<and> enc_sim [] (arith_run (l @ ops) (arith_start ms)) s'"
    by auto
qed

lemma writes_encode_ops:
  assumes "list_all (op_ok (length ms)) ops" and "BinTrm 1 \<notin> set ops"
  shows "writes (enc_emits ms) (encode_ops ops) ops"
  by (rule writes_op [OF _ assms]) (use assms(1) encode_ops_ok in metis)

lemma reads_decode_ops: "reads (dec_sees Y af) (decode_ops ops) ops (map bin_of ops)"
  unfolding reads_def using decode_ops_ok by metis

subsection \<open>The interface of the syntax layer\<close>

text \<open>The methods of \<^verbatim>\<open>BinDecoderBase\<close> that \<^verbatim>\<open>CABACReader\<close> calls, as a record of functions on a
  state; the reader is defined over any such record.\<close>

record 's BinDecIf =
  if_decodeBin :: "nat \<Rightarrow> 's \<Rightarrow> (nat \<times> 's) option"
  if_decodeBinEP :: "'s \<Rightarrow> (nat \<times> 's) option"
  if_decodeBinsEP :: "nat \<Rightarrow> 's \<Rightarrow> (nat \<times> 's) option"
  if_decodeRemAbsEP :: "nat \<Rightarrow> nat \<Rightarrow> nat \<Rightarrow> 's \<Rightarrow> (nat \<times> 's) option"
  if_decodeBinTrm :: "'s \<Rightarrow> (nat \<times> 's) option"

definition BinDecoder_Std :: "BinDecoderBase BinDecIf" where
  "BinDecoder_Std = \<lparr>if_decodeBin = decodeBin, if_decodeBinEP = decodeBinEP, if_decodeBinsEP = decodeBinsEP,
     if_decodeRemAbsEP = decodeRemAbsEP, if_decodeBinTrm = decodeBinTrm\<rparr>"

record 's BinEncIf =
  ie_encodeBin :: "nat \<Rightarrow> nat \<Rightarrow> 's \<Rightarrow> 's option"
  ie_encodeBinEP :: "nat \<Rightarrow> 's \<Rightarrow> 's option"
  ie_encodeBinsEP :: "nat \<Rightarrow> nat \<Rightarrow> 's \<Rightarrow> 's option"
  ie_encodeRemAbsEP :: "nat \<Rightarrow> nat \<Rightarrow> nat \<Rightarrow> nat \<Rightarrow> 's \<Rightarrow> 's option"
  ie_encodeBinTrm :: "nat \<Rightarrow> 's \<Rightarrow> 's option"

definition BinEncoder_Std :: "BinEncoderBase BinEncIf" where
  "BinEncoder_Std = \<lparr>ie_encodeBin = encodeBin, ie_encodeBinEP = encodeBinEP, ie_encodeBinsEP = encodeBinsEP,
     ie_encodeRemAbsEP = encodeRemAbsEP, ie_encodeBinTrm = encodeBinTrm\<rparr>"

text \<open>What the reader relies on: a source that \<open>sees\<close> a list of bins hands them out in order.
  What the writer relies on: a sink with \<open>N\<close> contexts takes every bin and appends it.\<close>

locale bin_source =
  fixes D :: "'s BinDecIf"
    and sees :: "bin_op list \<Rightarrow> 's \<Rightarrow> bool"
  assumes src_BinCtx: "reads sees (if_decodeBin D c) [BinCtx c b] b"
    and src_BinEP: "reads sees (if_decodeBinEP D) [BinEP b] b"
    and src_BinTrm: "reads sees (if_decodeBinTrm D) [BinTrm b] b"
    and src_BinsEP: "v < 2 ^ n \<Longrightarrow> n \<le> 32 \<Longrightarrow> reads sees (if_decodeBinsEP D n) (BinsEP v n) v"
    and src_RemAbsEP:
      "rem_abs_ok v g c M \<Longrightarrow> reads sees (if_decodeRemAbsEP D g c M) (RemAbsEP v g c M) v"

locale bin_sink =
  fixes E :: "'s BinEncIf"
    and emits :: "bin_op list \<Rightarrow> 's \<Rightarrow> bool"
    and N :: nat
  assumes snk_BinCtx: "c < N \<Longrightarrow> b \<le> 1 \<Longrightarrow> writes emits (ie_encodeBin E b c) [BinCtx c b]"
    and snk_BinEP: "b \<le> 1 \<Longrightarrow> writes emits (ie_encodeBinEP E b) [BinEP b]"
    and snk_BinTrm: "writes emits (ie_encodeBinTrm E 0) [BinTrm 0]"
    and snk_BinsEP: "v < 2 ^ n \<Longrightarrow> n \<le> 32 \<Longrightarrow> writes emits (ie_encodeBinsEP E v n) (BinsEP v n)"
    and snk_RemAbsEP:
      "rem_abs_ok v g c M \<Longrightarrow> writes emits (ie_encodeRemAbsEP E v g c M) (RemAbsEP v g c M)"

interpretation std: bin_source BinDecoder_Std "dec_sees Y af" for Y af
  by unfold_locales
    (simp_all add: reads_def BinDecoder_Std_def dec_sees_BinCtx dec_sees_BinEP dec_sees_BinTrm dec_sees_BinsEP
      dec_sees_RemAbsEP)

lemma RemAbsEP_op_ok: "list_all (op_ok n) (RemAbsEP v g c M)"
  by (simp add: RemAbsEP_def split: prod.split)

lemma BinsEP_no_Trm: "BinTrm b \<notin> set (BinsEP v n)"
  by (auto simp: BinsEP_def)

lemma RemAbsEP_no_Trm: "BinTrm b \<notin> set (RemAbsEP v g c M)"
  by (simp add: RemAbsEP_def BinsEP_no_Trm split: prod.split)

interpretation std: bin_sink BinEncoder_Std "enc_emits ms" "length ms" for ms
proof unfold_locales
  fix v g c M
  assume "rem_abs_ok v g c M"
  then show "writes (enc_emits ms) (ie_encodeRemAbsEP BinEncoder_Std v g c M) (RemAbsEP v g c M)"
    by (intro writes_op) (auto simp: BinEncoder_Std_def RemAbsEP_op_ok RemAbsEP_no_Trm elim: encodeRemAbsEP_ok)
next
  fix v n :: nat
  assume "v < 2 ^ n" "n \<le> 32"
  then show "writes (enc_emits ms) (ie_encodeBinsEP BinEncoder_Std v n) (BinsEP v n)"
    by (intro writes_op) (auto simp: BinEncoder_Std_def BinsEP_no_Trm elim: encodeBinsEP_ok)
next
  fix c b :: nat
  assume "c < length ms" "b \<le> 1"
  then show "writes (enc_emits ms) (ie_encodeBin BinEncoder_Std b c) [BinCtx c b]"
    by (intro writes_op) (auto simp: BinEncoder_Std_def simp del: arith_step.simps elim: encodeBin_ok)
next
  fix b :: nat
  assume "b \<le> 1"
  then show "writes (enc_emits ms) (ie_encodeBinEP BinEncoder_Std b) [BinEP b]"
    by (intro writes_op) (auto simp: BinEncoder_Std_def simp del: arith_step.simps elim: encodeBinEP_ok)
next
  show "writes (enc_emits ms) (ie_encodeBinTrm BinEncoder_Std 0) [BinTrm 0]"
    by (intro writes_op) (auto simp: BinEncoder_Std_def simp del: arith_step.simps elim: encodeBinTrm_ok)
qed

text \<open>A sink and the sources that deliver what it took.\<close>

locale bin_channel = bin_sink E emits N
  for E :: "'s BinEncIf" and emits and N +
  fixes D :: "'t BinDecIf"
    and S :: "(bin_op list \<Rightarrow> 't \<Rightarrow> bool) set"
  assumes source: "sees \<in> S \<Longrightarrow> bin_source D sees"
begin

abbreviation (input) bins :: "('s \<Rightarrow> 's option) \<Rightarrow> ('t \<Rightarrow> ('v \<times> 't) option) \<Rightarrow> 'v \<Rightarrow> bool" where
  "bins \<equiv> codec emits S"

lemma bins_Bin: "c < N \<Longrightarrow> b \<le> 1 \<Longrightarrow> bins (ie_encodeBin E b c) (if_decodeBin D c) b"
  using source by (intro codecI [OF snk_BinCtx]) (auto intro: bin_source.src_BinCtx)

lemma bins_EP: "b \<le> 1 \<Longrightarrow> bins (ie_encodeBinEP E b) (if_decodeBinEP D) b"
  using source by (intro codecI [OF snk_BinEP]) (auto intro: bin_source.src_BinEP)

lemma bins_Trm: "bins (ie_encodeBinTrm E 0) (if_decodeBinTrm D) 0"
  using source by (intro codecI [OF snk_BinTrm]) (auto intro: bin_source.src_BinTrm)

lemma bins_EPs: "v < 2 ^ n \<Longrightarrow> n \<le> 32 \<Longrightarrow> bins (ie_encodeBinsEP E v n) (if_decodeBinsEP D n) v"
  using source by (intro codecI [OF snk_BinsEP]) (auto intro: bin_source.src_BinsEP)

lemma bins_RemAbs:
  "rem_abs_ok v g c M \<Longrightarrow> bins (ie_encodeRemAbsEP E v g c M) (if_decodeRemAbsEP D g c M) v"
  using source by (intro codecI [OF snk_RemAbsEP]) (auto intro: bin_source.src_RemAbsEP)

lemmas bins_rules = bins_Bin bins_EP bins_Trm bins_EPs bins_RemAbs

end

definition dec_sources :: "(bin_op list \<Rightarrow> BinDecoderBase \<Rightarrow> bool) set" where
  "dec_sources = {dec_sees Y af | Y af. True}"

interpretation std: bin_channel BinEncoder_Std "enc_emits ms" "length ms" BinDecoder_Std dec_sources for ms
  by unfold_locales (auto simp: dec_sources_def intro: std.src_BinCtx std.src_BinEP std.src_BinTrm std.src_BinsEP std.src_RemAbsEP)

text \<open>The round trip of a syntax structure through a code word.\<close>

lemma bins_roundtrip:
  assumes "codec (enc_emits ms) dec_sources W R v"
  shows "\<exists>Y d. encode_with ms W = Some Y \<and> bytes_ok Y \<and> decode_with ms R Y = Some (v, d)
    \<and> i_fifo_idx (d_bitstream d) = length (i_fifo (d_bitstream d))"
proof -
  from assms obtain ops where "writes (enc_emits ms) W ops" "\<And>Y af. reads (dec_sees Y af) R ops v"
    by (rule codecE) (auto simp: dec_sources_def)
  then show ?thesis using code_word_roundtrip by metis
qed

end
