(* ===== verification/CtxTables.thy ===== *)
theory CtxTables
  imports Contexts
begin

section \<open>Context sets and their initialisation: \<^verbatim>\<open>ContextSetCfg\<close>, \<^verbatim>\<open>CtxStore\<close>, \<^verbatim>\<open>Ctx\<close>\<close>

text \<open>
  The static initialisers of \<^verbatim>\<open>Contexts.cpp\<close> register one context set after the other with
  \<^verbatim>\<open>addCtxSet\<close>, which appends the initial values of the set to the four tables
  \<^verbatim>\<open>sm_InitTables\<close> (one for each slice type B, P, I, and the window sizes) and returns the place of
  the set.  The registration is run here with its checks, on the values of the source
  (branch \<^verbatim>\<open>RETRAIN_CABAC\<close>), and \<^verbatim>\<open>CtxStore::init\<close> is shown to succeed on its result for every
  slice type and QP.
\<close>

subsection \<open>Context sets\<close>

record CtxSet =
  Offset :: nat
  Size :: nat

text \<open>The constructor that combines context sets; the results are stored in 16 bits.\<close>

definition CtxSet_combine :: "CtxSet list \<Rightarrow> CtxSet" where
  "CtxSet_combine ctxSets =
     (let (minOffset, maxOffset) =
        foldl (\<lambda>(mn, mx) c. (min mn (Offset c), max mx (u16 (Offset c + Size c)))) (65535, 0) ctxSets
      in \<lparr>Offset = minOffset, Size = u16 (maxOffset + 65536 - minOffset)\<rparr>)"

text \<open>\<^verbatim>\<open>operator()(inc)\<close>, with its check.\<close>

definition CtxSet_at :: "CtxSet \<Rightarrow> nat \<Rightarrow> nat option" where
  "CtxSet_at c inc = (if inc \<ge> Size c then None else Some (u16 (Offset c + inc)))"

definition getInitTable :: "nat list list \<Rightarrow> nat \<Rightarrow> nat list option" where
  "getInitTable tables initId = (if initId \<ge> length tables then None else Some (tables ! initId))"

text \<open>The loop of \<^verbatim>\<open>addCtxSet\<close> over the rows and the tables; \<^verbatim>\<open>resize\<close> cuts or pads the table.\<close>

fun addCtxSet_loop :: "nat \<Rightarrow> nat \<Rightarrow> nat list list \<Rightarrow> nat list list \<Rightarrow> nat list list option" where
  "addCtxSet_loop startIdx numValues [] tables = Some tables"
| "addCtxSet_loop startIdx numValues (initSet # rows) [] = Some []"
| "addCtxSet_loop startIdx numValues (initSet # rows) (initTable # tables) =
     (if length initSet \<noteq> numValues then None
      else do {
        tables \<leftarrow> addCtxSet_loop startIdx numValues rows tables;
        Some ((take startIdx initTable @ replicate (startIdx - length initTable) 0 @ initSet) # tables) })"

definition addCtxSet :: "nat list list \<Rightarrow> nat list list \<Rightarrow> (CtxSet \<times> nat list list) option" where
  "addCtxSet initSet2d tables =
     (case (initSet2d, tables) of
        (first # _, table0 # _) \<Rightarrow> do {
          let startIdx = length table0;
          let numValues = length first;
          tables \<leftarrow> addCtxSet_loop startIdx numValues initSet2d tables;
          Some (\<lparr>Offset = u16 startIdx, Size = u16 numValues\<rparr>, tables) }
      | _ \<Rightarrow> None)"

subsection \<open>Initial values\<close>

text \<open>An unused context, and the default window sizes.\<close>

definition CNU :: nat where
  "CNU = 35"

definition DWS :: nat where
  "DWS = 8"

definition init_SplitFlag :: "nat list list" where
  "init_SplitFlag =
    [[18, 27, 15, 18, 28, 30, 19, 7, 23],
     [11, 35, 53, 12, 6, 30, 13, 15, 31],
     [19, 28, 38, 27, 29, 38, 28, 38, 31],
     [12, 13, 8, 8, 13, 12, 5, 9, 9]]"

definition init_SplitQtFlag :: "nat list list" where
  "init_SplitQtFlag =
    [[26, 36, 38, 33, 34, 21],
     [20, 14, 23, 18, 19, 6],
     [27, 6, 15, 25, 19, 22],
     [0, 8, 8, 12, 12, 9]]"

definition init_SplitHvFlag :: "nat list list" where
  "init_SplitHvFlag =
    [[43, 42, 37, 35, 44],
     [36, 35, 37, 27, 52],
     [43, 42, 29, 27, 44],
     [9, 8, 9, 8, 8]]"

definition init_Split12Flag :: "nat list list" where
  "init_Split12Flag =
    [[28, 29, 28, 29],
     [43, 37, 21, 22],
     [51, 45, 36, 45],
     [12, 13, 12, 13]]"

definition init_ModeConsFlag :: "nat list list" where
  "init_ModeConsFlag =
    [[25, 20],
     [25, 12],
     [CNU, CNU],
     [1, 0]]"

definition init_SkipFlag :: "nat list list" where
  "init_SkipFlag =
    [[57, 60, 53],
     [57, 59, 45],
     [0, 26, 28],
     [5, 4, 8]]"

definition init_MergeFlag :: "nat list list" where
  "init_MergeFlag =
    [[6],
     [6],
     [26],
     [4]]"

definition init_RegularMergeFlag :: "nat list list" where
  "init_RegularMergeFlag =
    [[46, 15],
     [38, 7],
     [CNU, CNU],
     [5, 5]]"

definition init_MergeIdx :: "nat list list" where
  "init_MergeIdx =
    [[33],
     [35],
     [34],
     [4]]"

definition init_MmvdFlag :: "nat list list" where
  "init_MmvdFlag =
    [[40],
     [26],
     [CNU],
     [4]]"

definition init_MmvdMergeIdx :: "nat list list" where
  "init_MmvdMergeIdx =
    [[43],
     [43],
     [CNU],
     [10]]"

definition init_MmvdStepMvpIdx :: "nat list list" where
  "init_MmvdStepMvpIdx =
    [[51],
     [60],
     [CNU],
     [0]]"

definition init_PredMode :: "nat list list" where
  "init_PredMode =
    [[40, 35],
     [40, 35],
     [CNU, CNU],
     [5, 1]]"

definition init_MultiRefLineIdx :: "nat list list" where
  "init_MultiRefLineIdx =
    [[25, 58],
     [25, 50],
     [25, 59],
     [6, 8]]"

definition init_IntraLumaMpmFlag :: "nat list list" where
  "init_IntraLumaMpmFlag =
    [[29],
     [36],
     [45],
     [6]]"

definition init_IntraLumaPlanarFlag :: "nat list list" where
  "init_IntraLumaPlanarFlag =
    [[13, 6],
     [12, 20],
     [13, 28],
     [1, 5]]"

definition init_CclmModeFlag :: "nat list list" where
  "init_CclmModeFlag =
    [[26],
     [34],
     [59],
     [4]]"

definition init_CclmModeIdx :: "nat list list" where
  "init_CclmModeIdx =
    [[27],
     [27],
     [27],
     [9]]"

definition init_IntraChromaPredMode :: "nat list list" where
  "init_IntraChromaPredMode =
    [[25],
     [18],
     [34],
     [5]]"

definition init_MipFlag :: "nat list list" where
  "init_MipFlag =
    [[56, 57, 50, 26],
     [41, 57, 58, 26],
     [33, 49, 42, 25],
     [9, 10, 9, 6]]"

definition init_DeltaQP :: "nat list list" where
  "init_DeltaQP =
    [[CNU, CNU],
     [CNU, CNU],
     [CNU, CNU],
     [DWS, DWS]]"

definition init_InterDir :: "nat list list" where
  "init_InterDir =
    [[14, 6, 5, 4, 3, 40],
     [7, 6, 5, 4, 11, 40],
     [CNU, CNU, CNU, CNU, CNU, CNU],
     [0, 0, 1, 4, 1, 0]]"

definition init_RefPic :: "nat list list" where
  "init_RefPic =
    [[20, 20],
     [27, 35],
     [CNU, CNU],
     [0, 4]]"

definition init_SubblockMergeFlag :: "nat list list" where
  "init_SubblockMergeFlag =
    [[40, 51, 45],
     [48, 57, 44],
     [CNU, CNU, CNU],
     [4, 4, 4]]"

definition init_AffineFlag :: "nat list list" where
  "init_AffineFlag =
    [[12, 13, 6],
     [12, 13, 6],
     [CNU, CNU, CNU],
     [4, 0, 0]]"

definition init_AffineType :: "nat list list" where
  "init_AffineType =
    [[35],
     [35],
     [CNU],
     [4]]"

definition init_AffMergeIdx :: "nat list list" where
  "init_AffMergeIdx =
    [[4],
     [5],
     [CNU],
     [0]]"

definition init_GBiIdx :: "nat list list" where
  "init_GBiIdx =
    [[5],
     [4],
     [CNU],
     [0]]"

definition init_Mvd :: "nat list list" where
  "init_Mvd =
    [[51, 58],
     [44, 43],
     [14, 45],
     [9, 5]]"

definition init_BDPCMMode :: "nat list list" where
  "init_BDPCMMode =
    [[19, 28],
     [40, 36],
     [19, 35],
     [4, 4]]"

definition init_QtRootCbf :: "nat list list" where
  "init_QtRootCbf =
    [[12],
     [5],
     [6],
     [4]]"

definition init_ACTFlag :: "nat list list" where
  "init_ACTFlag =
    [[CNU],
     [CNU],
     [CNU],
     [DWS]]"

definition init_QtCbf_0 :: "nat list list" where
  "init_QtCbf_0 =
    [[15, 13, 5, 14],
     [23, 4, 20, 7],
     [7, 19, 5, 7],
     [5, 1, 8, 9]]"

definition init_QtCbf_1 :: "nat list list" where
  "init_QtCbf_1 =
    [[25, CNU],
     [25, CNU],
     [4, CNU],
     [5, DWS]]"

definition init_QtCbf_2 :: "nat list list" where
  "init_QtCbf_2 =
    [[9, 44, CNU],
     [25, 29, CNU],
     [33, 28, CNU],
     [2, 1, DWS]]"

definition init_SigCoeffGroup_0 :: "nat list list" where
  "init_SigCoeffGroup_0 =
    [[25, 45],
     [25, 30],
     [18, 31],
     [8, 5]]"

definition init_SigCoeffGroup_1 :: "nat list list" where
  "init_SigCoeffGroup_1 =
    [[25, 45],
     [25, 52],
     [25, 7],
     [5, 8]]"

definition init_SigFlag_0 :: "nat list list" where
  "init_SigFlag_0 =
    [[17, 41, 49, 36, 1, 49, 50, 37, 48, 51, 58, 45],
     [17, 41, 42, 29, 25, 49, 43, 37, 33, 51, 51, 30],
     [25, 19, 28, 14, 25, 20, 29, 30, 19, 37, 30, 38],
     [12, 9, 9, 10, 9, 9, 9, 10, 8, 8, 8, 10]]"

definition init_SigFlag_1 :: "nat list list" where
  "init_SigFlag_1 =
    [[9, 49, 42, 21, 48, 59, 59, 53],
     [17, 19, 20, 29, 41, 59, 60, 38],
     [25, 27, 28, 37, 49, 53, 53, 46],
     [9, 9, 9, 13, 4, 5, 8, 9]]"

definition init_SigFlag_2 :: "nat list list" where
  "init_SigFlag_2 =
    [[26, 45, 53, 46, 49, 54, 61, 39, 42, 39, 39, 39],
     [19, 38, 38, 46, 34, 54, 54, 39, 6, 39, 39, 39],
     [11, 38, 46, 54, 27, 39, 39, 39, 36, 39, 39, 39],
     [9, 13, 8, 8, 8, 8, 8, 5, 8, 0, 0, 0]]"

definition init_SigFlag_3 :: "nat list list" where
  "init_SigFlag_3 =
    [[34, 45, 38, 31, 58, 39, 39, 39],
     [35, 45, 53, 54, 44, 39, 39, 39],
     [19, 46, 38, 39, 52, 39, 39, 39],
     [8, 12, 8, 8, 4, 0, 0, 0]]"

definition init_SigFlag_4 :: "nat list list" where
  "init_SigFlag_4 =
    [[19, 54, 39, 39, 50, 39, 39, 39, 0, 39, 39, 39],
     [19, 39, 54, 39, 19, 39, 39, 39, 56, 39, 39, 39],
     [18, 39, 39, 39, 19, 39, 39, 39, 0, 39, 39, 39],
     [8, 8, 8, 8, 8, 0, 4, 4, 0, 0, 0, 0]]"

definition init_SigFlag_5 :: "nat list list" where
  "init_SigFlag_5 =
    [[34, 38, 54, 39, 41, 39, 39, 39],
     [34, 38, 62, 39, 26, 39, 39, 39],
     [26, 39, 39, 39, 19, 39, 39, 39],
     [8, 8, 8, 8, 4, 0, 0, 0]]"

definition init_ParFlag_0 :: "nat list list" where
  "init_ParFlag_0 =
    [[33, 40, 25, 41, 26, 42, 25, 33, 26, 34, 27, 25, 41, 42, 42, 35, 33, 27, 35, 42, 43],
     [18, 17, 33, 18, 34, 42, 25, 33, 26, 42, 27, 25, 34, 42, 42, 35, 26, 27, 42, 20, 20],
     [33, 25, 18, 26, 34, 27, 25, 26, 19, 42, 35, 33, 19, 27, 35, 35, 34, 42, 20, 43, 20],
     [8, 9, 12, 13, 13, 13, 10, 13, 13, 13, 13, 13, 13, 13, 13, 13, 10, 13, 13, 13, 13]]"

definition init_ParFlag_1 :: "nat list list" where
  "init_ParFlag_1 =
    [[33, 25, 26, 19, 19, 27, 33, 42, 43, 35, 43],
     [25, 25, 26, 11, 19, 27, 33, 42, 50, 20, 43],
     [33, 25, 26, 42, 19, 27, 26, 50, 35, 20, 43],
     [9, 13, 12, 12, 13, 13, 13, 13, 13, 13, 13]]"

definition init_GtxFlag_0 :: "nat list list" where
  "init_GtxFlag_0 =
    [[25, 0, 0, 17, 25, 18, 0, 9, 25, 33, 19, 0, 25, 33, 26, 20, 25, 33, 34, 35, 29],
     [17, 0, 1, 17, 25, 18, 0, 9, 25, 33, 34, 9, 25, 18, 26, 20, 25, 18, 19, 27, 21],
     [25, 1, 40, 25, 33, 11, 17, 25, 25, 18, 4, 17, 33, 26, 19, 5, 33, 19, 20, 28, 22],
     [1, 5, 9, 9, 9, 6, 5, 9, 10, 10, 9, 9, 9, 9, 9, 9, 6, 8, 9, 9, 9]]"

definition init_GtxFlag_1 :: "nat list list" where
  "init_GtxFlag_1 =
    [[25, 1, 40, 33, 26, 4, 25, 33, 27, 36, 37],
     [17, 9, 25, 10, 3, 4, 17, 33, 19, 28, 29],
     [48, 9, 25, 18, 26, 35, 25, 26, 35, 28, 37],
     [1, 5, 8, 8, 8, 6, 6, 9, 8, 8, 10]]"

definition init_GtxFlag_2 :: "nat list list" where
  "init_GtxFlag_2 =
    [[0, 0, 33, 34, 35, 36, 25, 34, 35, 28, 29, 40, 42, 43, 36, 30, 56, 43, 44, 45, 38],
     [0, 17, 26, 19, 20, 21, 25, 34, 20, 28, 29, 33, 27, 28, 29, 22, 34, 28, 44, 37, 38],
     [25, 25, 11, 27, 20, 21, 18, 12, 28, 21, 22, 34, 28, 29, 29, 30, 28, 29, 45, 30, 23],
     [9, 5, 10, 13, 13, 10, 9, 10, 13, 13, 13, 9, 10, 10, 10, 13, 8, 9, 9, 10, 13]]"

definition init_GtxFlag_3 :: "nat list list" where
  "init_GtxFlag_3 =
    [[0, 40, 42, 20, 21, 29, 57, 52, 53, 38, 46],
     [0, 25, 27, 20, 13, 6, 57, 52, 30, 38, 31],
     [40, 33, 27, 28, 21, 37, 51, 37, 53, 38, 46],
     [9, 9, 10, 12, 12, 10, 5, 9, 9, 9, 12]]"

definition init_LastX_0 :: "nat list list" where
  "init_LastX_0 =
    [[14, 6, 5, 7, 14, 4, 7, 7, 6, 12, 29, 7, 6, 6, 20, 28, 7, 13, 13, 20],
     [6, 13, 12, 6, 6, 4, 14, 14, 5, 12, 29, 14, 13, 5, 36, 28, 14, 13, 20, 19],
     [13, 5, 4, 6, 14, 4, 6, 14, 21, 11, 14, 7, 14, 13, 11, 21, 37, 37, 21, 50],
     [8, 5, 4, 5, 4, 4, 5, 4, 1, 0, 4, 1, 0, 0, 0, 1, 1, 0, 0, 0]]"

definition init_LastX_1 :: "nat list list" where
  "init_LastX_1 =
    [[11, 5, 3],
     [12, 4, 18],
     [12, 4, 3],
     [2, 1, 1]]"

definition init_LastY_0 :: "nat list list" where
  "init_LastY_0 =
    [[13, 5, 5, 6, 6, 12, 14, 6, 5, 5, 14, 7, 5, 12, 21, 13, 7, 13, 12, 41],
     [5, 5, 12, 6, 6, 19, 6, 14, 5, 19, 29, 7, 13, 5, 36, 21, 7, 13, 5, 27],
     [13, 5, 4, 6, 6, 11, 14, 14, 5, 11, 14, 22, 14, 12, 3, 21, 37, 52, 28, 34],
     [8, 5, 8, 5, 5, 4, 5, 5, 4, 0, 5, 5, 1, 0, 0, 1, 4, 0, 0, 0]]"

definition init_LastY_1 :: "nat list list" where
  "init_LastY_1 =
    [[11, 5, 19],
     [11, 4, 18],
     [12, 4, 3],
     [6, 2, 2]]"

definition init_MVPIdx :: "nat list list" where
  "init_MVPIdx =
    [[34],
     [34],
     [42],
     [12]]"

definition init_SmvdFlag :: "nat list list" where
  "init_SmvdFlag =
    [[50],
     [28],
     [CNU],
     [5]]"

definition init_SaoMergeFlag :: "nat list list" where
  "init_SaoMergeFlag =
    [[10],
     [60],
     [52],
     [0]]"

definition init_SaoTypeIdx :: "nat list list" where
  "init_SaoTypeIdx =
    [[10],
     [5],
     [5],
     [0]]"

definition init_TransquantBypassFlag :: "nat list list" where
  "init_TransquantBypassFlag =
    [[CNU],
     [CNU],
     [CNU],
     [DWS]]"

definition init_LFNSTIdx :: "nat list list" where
  "init_LFNSTIdx =
    [[52, 37, 33],
     [45, 45, 18],
     [CNU, 52, 33],
     [9, 9, 5]]"

definition init_PLTFlag :: "nat list list" where
  "init_PLTFlag =
    [[CNU],
     [CNU],
     [CNU],
     [DWS]]"

definition init_RotationFlag :: "nat list list" where
  "init_RotationFlag =
    [[CNU],
     [CNU],
     [CNU],
     [DWS]]"

definition init_RunTypeFlag :: "nat list list" where
  "init_RunTypeFlag =
    [[CNU],
     [CNU],
     [CNU],
     [DWS]]"

definition init_IdxRunModel :: "nat list list" where
  "init_IdxRunModel =
    [[CNU, CNU, CNU, CNU, CNU],
     [CNU, CNU, CNU, CNU, CNU],
     [CNU, CNU, CNU, CNU, CNU],
     [DWS, DWS, DWS, DWS, DWS]]"

definition init_CopyRunModel :: "nat list list" where
  "init_CopyRunModel =
    [[CNU, CNU, CNU],
     [CNU, CNU, CNU],
     [CNU, CNU, CNU],
     [DWS, DWS, DWS]]"

definition init_RdpcmFlag :: "nat list list" where
  "init_RdpcmFlag =
    [[CNU, CNU],
     [CNU, CNU],
     [CNU, CNU],
     [DWS, DWS]]"

definition init_RdpcmDir :: "nat list list" where
  "init_RdpcmDir =
    [[CNU, CNU],
     [CNU, CNU],
     [CNU, CNU],
     [DWS, DWS]]"

definition init_TransformSkipFlag :: "nat list list" where
  "init_TransformSkipFlag =
    [[25, 17],
     [25, 17],
     [25, 1],
     [1, 1]]"

definition init_MTSIdx :: "nat list list" where
  "init_MTSIdx =
    [[37, 25, 27, 0],
     [30, 40, 27, 0],
     [13, 0, 35, 0],
     [8, 0, 9, 0]]"

definition init_ISPMode :: "nat list list" where
  "init_ISPMode =
    [[33, 43],
     [33, 36],
     [33, 43],
     [9, 2]]"

definition init_SbtFlag :: "nat list list" where
  "init_SbtFlag =
    [[49, 50],
     [49, 50],
     [CNU, CNU],
     [1, 5]]"

definition init_SbtQuadFlag :: "nat list list" where
  "init_SbtQuadFlag =
    [[42],
     [42],
     [CNU],
     [10]]"

definition init_SbtHorFlag :: "nat list list" where
  "init_SbtHorFlag =
    [[35, 51, 27],
     [20, 43, 12],
     [CNU, CNU, CNU],
     [8, 4, 1]]"

definition init_SbtPosFlag :: "nat list list" where
  "init_SbtPosFlag =
    [[28],
     [28],
     [CNU],
     [13]]"

definition init_CrossCompPred :: "nat list list" where
  "init_CrossCompPred =
    [[CNU, CNU, CNU, CNU, CNU, CNU, CNU, CNU, CNU, CNU],
     [CNU, CNU, CNU, CNU, CNU, CNU, CNU, CNU, CNU, CNU],
     [CNU, CNU, CNU, CNU, CNU, CNU, CNU, CNU, CNU, CNU],
     [DWS, DWS, DWS, DWS, DWS, DWS, DWS, DWS, DWS, DWS]]"

definition init_ChromaQpAdjFlag :: "nat list list" where
  "init_ChromaQpAdjFlag =
    [[CNU],
     [CNU],
     [CNU],
     [DWS]]"

definition init_ChromaQpAdjIdc :: "nat list list" where
  "init_ChromaQpAdjIdc =
    [[CNU],
     [CNU],
     [CNU],
     [DWS]]"

definition init_ImvFlag :: "nat list list" where
  "init_ImvFlag =
    [[51, 33, 50, 60, 45],
     [59, 48, 58, 60, 60],
     [CNU, 34, CNU, CNU, CNU],
     [0, 5, 1, 0, 4]]"

definition init_ctbAlfFlag :: "nat list list" where
  "init_ctbAlfFlag =
    [[26, 52, 46, 18, 61, 54, 18, 61, 54],
     [6, 23, 46, 12, 61, 54, 5, 46, 54],
     [39, 39, 39, 62, 39, 39, 31, 39, 39],
     [0, 0, 0, 0, 0, 0, 0, 0, 0]]"

definition init_ctbAlfAlternative :: "nat list list" where
  "init_ctbAlfAlternative =
    [[11, 11],
     [20, 12],
     [28, 28],
     [0, 0]]"

definition init_AlfUseTemporalFilt :: "nat list list" where
  "init_AlfUseTemporalFilt =
    [[46],
     [53],
     [46],
     [0]]"

definition init_MHIntraFlag :: "nat list list" where
  "init_MHIntraFlag =
    [[50],
     [50],
     [CNU],
     [1]]"

definition init_IBCFlag :: "nat list list" where
  "init_IBCFlag =
    [[0, 43, 45],
     [0, 42, 37],
     [17, 42, 36],
     [1, 5, 8]]"

definition init_JointCbCrFlag :: "nat list list" where
  "init_JointCbCrFlag =
    [[43, 51, 45],
     [35, 44, 45],
     [35, 29, 51],
     [1, 1, 0]]"

definition init_TsSigCoeffGroup :: "nat list list" where
  "init_TsSigCoeffGroup =
    [[18, 35, 37],
     [18, 12, 29],
     [18, 20, 38],
     [5, 8, 8]]"

definition init_TsSigFlag :: "nat list list" where
  "init_TsSigFlag =
    [[25, 50, 37],
     [40, 35, 44],
     [25, 28, 38],
     [13, 13, 8]]"

definition init_TsParFlag :: "nat list list" where
  "init_TsParFlag =
    [[11],
     [3],
     [11],
     [6]]"

definition init_TsGtxFlag :: "nat list list" where
  "init_TsGtxFlag =
    [[CNU, 10, 4, 4, 5],
     [CNU, 2, 3, 3, 11],
     [CNU, 10, 3, 3, 3],
     [DWS, 1, 1, 1, 1]]"

definition init_TsLrg1Flag :: "nat list list" where
  "init_TsLrg1Flag =
    [[19, 11, 4, 6],
     [18, 11, 4, 28],
     [11, 5, 5, 6],
     [4, 2, 1, 6]]"

definition init_TsResidualSign :: "nat list list" where
  "init_TsResidualSign =
    [[28, 25, 53, 28, 33, 30],
     [5, 10, 53, 35, 25, 53],
     [20, 17, 46, 20, 25, 46],
     [1, 4, 4, 8, 8, 8]]"

subsection \<open>The registration\<close>

text \<open>The initialisers run in the order of their definition in the file.\<close>

definition ctx_inits :: "nat list list list" where
  "ctx_inits =
    [init_SplitFlag, init_SplitQtFlag, init_SplitHvFlag, init_Split12Flag,
     init_ModeConsFlag, init_SkipFlag, init_MergeFlag, init_RegularMergeFlag,
     init_MergeIdx, init_MmvdFlag, init_MmvdMergeIdx, init_MmvdStepMvpIdx,
     init_PredMode, init_MultiRefLineIdx, init_IntraLumaMpmFlag, init_IntraLumaPlanarFlag,
     init_CclmModeFlag, init_CclmModeIdx, init_IntraChromaPredMode, init_MipFlag,
     init_DeltaQP, init_InterDir, init_RefPic, init_SubblockMergeFlag,
     init_AffineFlag, init_AffineType, init_AffMergeIdx, init_GBiIdx,
     init_Mvd, init_BDPCMMode, init_QtRootCbf, init_ACTFlag,
     init_QtCbf_0, init_QtCbf_1, init_QtCbf_2, init_SigCoeffGroup_0,
     init_SigCoeffGroup_1, init_SigFlag_0, init_SigFlag_1, init_SigFlag_2,
     init_SigFlag_3, init_SigFlag_4, init_SigFlag_5, init_ParFlag_0,
     init_ParFlag_1, init_GtxFlag_0, init_GtxFlag_1, init_GtxFlag_2,
     init_GtxFlag_3, init_LastX_0, init_LastX_1, init_LastY_0,
     init_LastY_1, init_MVPIdx, init_SmvdFlag, init_SaoMergeFlag,
     init_SaoTypeIdx, init_TransquantBypassFlag, init_LFNSTIdx, init_PLTFlag,
     init_RotationFlag, init_RunTypeFlag, init_IdxRunModel, init_CopyRunModel,
     init_RdpcmFlag, init_RdpcmDir, init_TransformSkipFlag, init_MTSIdx,
     init_ISPMode, init_SbtFlag, init_SbtQuadFlag, init_SbtHorFlag,
     init_SbtPosFlag, init_CrossCompPred, init_ChromaQpAdjFlag, init_ChromaQpAdjIdc,
     init_ImvFlag, init_ctbAlfFlag, init_ctbAlfAlternative, init_AlfUseTemporalFilt,
     init_MHIntraFlag, init_IBCFlag, init_JointCbCrFlag, init_TsSigCoeffGroup,
     init_TsSigFlag, init_TsParFlag, init_TsGtxFlag, init_TsLrg1Flag,
     init_TsResidualSign]"

fun register :: "nat list list list \<Rightarrow> nat list list \<Rightarrow> (CtxSet list \<times> nat list list) option" where
  "register [] tables = Some ([], tables)"
| "register (i # is) tables = do {
     (c, tables) \<leftarrow> addCtxSet i tables;
     (cs, tables) \<leftarrow> register is tables;
     Some (c # cs, tables) }"

definition ctx_cfg :: "(CtxSet list \<times> nat list list) option" where
  "ctx_cfg = register ctx_inits [[], [], [], []]"

definition sm_InitTables :: "nat list list" where
  "sm_InitTables = (case ctx_cfg of Some (_, tables) \<Rightarrow> tables | None \<Rightarrow> [])"

definition ctx_sets :: "CtxSet list" where
  "ctx_sets = (case ctx_cfg of Some (cs, _) \<Rightarrow> cs | None \<Rightarrow> [])"

definition NumberOfContexts :: nat where
  "NumberOfContexts = length (sm_InitTables ! 0)"

text \<open>The context sets by name: the position is that of the initialiser in \<open>ctx_inits\<close>.\<close>

definition Ctx_SplitFlag :: CtxSet where
  "Ctx_SplitFlag = ctx_sets ! 0"

definition Ctx_SplitQtFlag :: CtxSet where
  "Ctx_SplitQtFlag = ctx_sets ! 1"

definition Ctx_SplitHvFlag :: CtxSet where
  "Ctx_SplitHvFlag = ctx_sets ! 2"

definition Ctx_Split12Flag :: CtxSet where
  "Ctx_Split12Flag = ctx_sets ! 3"

definition Ctx_ModeConsFlag :: CtxSet where
  "Ctx_ModeConsFlag = ctx_sets ! 4"

definition Ctx_SkipFlag :: CtxSet where
  "Ctx_SkipFlag = ctx_sets ! 5"

definition Ctx_MergeFlag :: CtxSet where
  "Ctx_MergeFlag = ctx_sets ! 6"

definition Ctx_RegularMergeFlag :: CtxSet where
  "Ctx_RegularMergeFlag = ctx_sets ! 7"

definition Ctx_MergeIdx :: CtxSet where
  "Ctx_MergeIdx = ctx_sets ! 8"

definition Ctx_MmvdFlag :: CtxSet where
  "Ctx_MmvdFlag = ctx_sets ! 9"

definition Ctx_MmvdMergeIdx :: CtxSet where
  "Ctx_MmvdMergeIdx = ctx_sets ! 10"

definition Ctx_MmvdStepMvpIdx :: CtxSet where
  "Ctx_MmvdStepMvpIdx = ctx_sets ! 11"

definition Ctx_PredMode :: CtxSet where
  "Ctx_PredMode = ctx_sets ! 12"

definition Ctx_MultiRefLineIdx :: CtxSet where
  "Ctx_MultiRefLineIdx = ctx_sets ! 13"

definition Ctx_IntraLumaMpmFlag :: CtxSet where
  "Ctx_IntraLumaMpmFlag = ctx_sets ! 14"

definition Ctx_IntraLumaPlanarFlag :: CtxSet where
  "Ctx_IntraLumaPlanarFlag = ctx_sets ! 15"

definition Ctx_CclmModeFlag :: CtxSet where
  "Ctx_CclmModeFlag = ctx_sets ! 16"

definition Ctx_CclmModeIdx :: CtxSet where
  "Ctx_CclmModeIdx = ctx_sets ! 17"

definition Ctx_IntraChromaPredMode :: CtxSet where
  "Ctx_IntraChromaPredMode = ctx_sets ! 18"

definition Ctx_MipFlag :: CtxSet where
  "Ctx_MipFlag = ctx_sets ! 19"

definition Ctx_DeltaQP :: CtxSet where
  "Ctx_DeltaQP = ctx_sets ! 20"

definition Ctx_InterDir :: CtxSet where
  "Ctx_InterDir = ctx_sets ! 21"

definition Ctx_RefPic :: CtxSet where
  "Ctx_RefPic = ctx_sets ! 22"

definition Ctx_SubblockMergeFlag :: CtxSet where
  "Ctx_SubblockMergeFlag = ctx_sets ! 23"

definition Ctx_AffineFlag :: CtxSet where
  "Ctx_AffineFlag = ctx_sets ! 24"

definition Ctx_AffineType :: CtxSet where
  "Ctx_AffineType = ctx_sets ! 25"

definition Ctx_AffMergeIdx :: CtxSet where
  "Ctx_AffMergeIdx = ctx_sets ! 26"

definition Ctx_GBiIdx :: CtxSet where
  "Ctx_GBiIdx = ctx_sets ! 27"

definition Ctx_Mvd :: CtxSet where
  "Ctx_Mvd = ctx_sets ! 28"

definition Ctx_BDPCMMode :: CtxSet where
  "Ctx_BDPCMMode = ctx_sets ! 29"

definition Ctx_QtRootCbf :: CtxSet where
  "Ctx_QtRootCbf = ctx_sets ! 30"

definition Ctx_ACTFlag :: CtxSet where
  "Ctx_ACTFlag = ctx_sets ! 31"

definition Ctx_QtCbf_0 :: CtxSet where
  "Ctx_QtCbf_0 = ctx_sets ! 32"

definition Ctx_QtCbf_1 :: CtxSet where
  "Ctx_QtCbf_1 = ctx_sets ! 33"

definition Ctx_QtCbf_2 :: CtxSet where
  "Ctx_QtCbf_2 = ctx_sets ! 34"

definition Ctx_SigCoeffGroup_0 :: CtxSet where
  "Ctx_SigCoeffGroup_0 = ctx_sets ! 35"

definition Ctx_SigCoeffGroup_1 :: CtxSet where
  "Ctx_SigCoeffGroup_1 = ctx_sets ! 36"

definition Ctx_SigFlag_0 :: CtxSet where
  "Ctx_SigFlag_0 = ctx_sets ! 37"

definition Ctx_SigFlag_1 :: CtxSet where
  "Ctx_SigFlag_1 = ctx_sets ! 38"

definition Ctx_SigFlag_2 :: CtxSet where
  "Ctx_SigFlag_2 = ctx_sets ! 39"

definition Ctx_SigFlag_3 :: CtxSet where
  "Ctx_SigFlag_3 = ctx_sets ! 40"

definition Ctx_SigFlag_4 :: CtxSet where
  "Ctx_SigFlag_4 = ctx_sets ! 41"

definition Ctx_SigFlag_5 :: CtxSet where
  "Ctx_SigFlag_5 = ctx_sets ! 42"

definition Ctx_ParFlag_0 :: CtxSet where
  "Ctx_ParFlag_0 = ctx_sets ! 43"

definition Ctx_ParFlag_1 :: CtxSet where
  "Ctx_ParFlag_1 = ctx_sets ! 44"

definition Ctx_GtxFlag_0 :: CtxSet where
  "Ctx_GtxFlag_0 = ctx_sets ! 45"

definition Ctx_GtxFlag_1 :: CtxSet where
  "Ctx_GtxFlag_1 = ctx_sets ! 46"

definition Ctx_GtxFlag_2 :: CtxSet where
  "Ctx_GtxFlag_2 = ctx_sets ! 47"

definition Ctx_GtxFlag_3 :: CtxSet where
  "Ctx_GtxFlag_3 = ctx_sets ! 48"

definition Ctx_LastX_0 :: CtxSet where
  "Ctx_LastX_0 = ctx_sets ! 49"

definition Ctx_LastX_1 :: CtxSet where
  "Ctx_LastX_1 = ctx_sets ! 50"

definition Ctx_LastY_0 :: CtxSet where
  "Ctx_LastY_0 = ctx_sets ! 51"

definition Ctx_LastY_1 :: CtxSet where
  "Ctx_LastY_1 = ctx_sets ! 52"

definition Ctx_MVPIdx :: CtxSet where
  "Ctx_MVPIdx = ctx_sets ! 53"

definition Ctx_SmvdFlag :: CtxSet where
  "Ctx_SmvdFlag = ctx_sets ! 54"

definition Ctx_SaoMergeFlag :: CtxSet where
  "Ctx_SaoMergeFlag = ctx_sets ! 55"

definition Ctx_SaoTypeIdx :: CtxSet where
  "Ctx_SaoTypeIdx = ctx_sets ! 56"

definition Ctx_TransquantBypassFlag :: CtxSet where
  "Ctx_TransquantBypassFlag = ctx_sets ! 57"

definition Ctx_LFNSTIdx :: CtxSet where
  "Ctx_LFNSTIdx = ctx_sets ! 58"

definition Ctx_PLTFlag :: CtxSet where
  "Ctx_PLTFlag = ctx_sets ! 59"

definition Ctx_RotationFlag :: CtxSet where
  "Ctx_RotationFlag = ctx_sets ! 60"

definition Ctx_RunTypeFlag :: CtxSet where
  "Ctx_RunTypeFlag = ctx_sets ! 61"

definition Ctx_IdxRunModel :: CtxSet where
  "Ctx_IdxRunModel = ctx_sets ! 62"

definition Ctx_CopyRunModel :: CtxSet where
  "Ctx_CopyRunModel = ctx_sets ! 63"

definition Ctx_RdpcmFlag :: CtxSet where
  "Ctx_RdpcmFlag = ctx_sets ! 64"

definition Ctx_RdpcmDir :: CtxSet where
  "Ctx_RdpcmDir = ctx_sets ! 65"

definition Ctx_TransformSkipFlag :: CtxSet where
  "Ctx_TransformSkipFlag = ctx_sets ! 66"

definition Ctx_MTSIdx :: CtxSet where
  "Ctx_MTSIdx = ctx_sets ! 67"

definition Ctx_ISPMode :: CtxSet where
  "Ctx_ISPMode = ctx_sets ! 68"

definition Ctx_SbtFlag :: CtxSet where
  "Ctx_SbtFlag = ctx_sets ! 69"

definition Ctx_SbtQuadFlag :: CtxSet where
  "Ctx_SbtQuadFlag = ctx_sets ! 70"

definition Ctx_SbtHorFlag :: CtxSet where
  "Ctx_SbtHorFlag = ctx_sets ! 71"

definition Ctx_SbtPosFlag :: CtxSet where
  "Ctx_SbtPosFlag = ctx_sets ! 72"

definition Ctx_CrossCompPred :: CtxSet where
  "Ctx_CrossCompPred = ctx_sets ! 73"

definition Ctx_ChromaQpAdjFlag :: CtxSet where
  "Ctx_ChromaQpAdjFlag = ctx_sets ! 74"

definition Ctx_ChromaQpAdjIdc :: CtxSet where
  "Ctx_ChromaQpAdjIdc = ctx_sets ! 75"

definition Ctx_ImvFlag :: CtxSet where
  "Ctx_ImvFlag = ctx_sets ! 76"

definition Ctx_ctbAlfFlag :: CtxSet where
  "Ctx_ctbAlfFlag = ctx_sets ! 77"

definition Ctx_ctbAlfAlternative :: CtxSet where
  "Ctx_ctbAlfAlternative = ctx_sets ! 78"

definition Ctx_AlfUseTemporalFilt :: CtxSet where
  "Ctx_AlfUseTemporalFilt = ctx_sets ! 79"

definition Ctx_MHIntraFlag :: CtxSet where
  "Ctx_MHIntraFlag = ctx_sets ! 80"

definition Ctx_IBCFlag :: CtxSet where
  "Ctx_IBCFlag = ctx_sets ! 81"

definition Ctx_JointCbCrFlag :: CtxSet where
  "Ctx_JointCbCrFlag = ctx_sets ! 82"

definition Ctx_TsSigCoeffGroup :: CtxSet where
  "Ctx_TsSigCoeffGroup = ctx_sets ! 83"

definition Ctx_TsSigFlag :: CtxSet where
  "Ctx_TsSigFlag = ctx_sets ! 84"

definition Ctx_TsParFlag :: CtxSet where
  "Ctx_TsParFlag = ctx_sets ! 85"

definition Ctx_TsGtxFlag :: CtxSet where
  "Ctx_TsGtxFlag = ctx_sets ! 86"

definition Ctx_TsLrg1Flag :: CtxSet where
  "Ctx_TsLrg1Flag = ctx_sets ! 87"

definition Ctx_TsResidualSign :: CtxSet where
  "Ctx_TsResidualSign = ctx_sets ! 88"

definition Ctx_Palette :: CtxSet where
  "Ctx_Palette = CtxSet_combine [Ctx_RotationFlag, Ctx_RunTypeFlag, Ctx_IdxRunModel, Ctx_CopyRunModel]"

definition Ctx_Sao :: CtxSet where
  "Ctx_Sao = CtxSet_combine [Ctx_SaoMergeFlag, Ctx_SaoTypeIdx]"

definition Ctx_Alf :: CtxSet where
  "Ctx_Alf = CtxSet_combine [Ctx_ctbAlfFlag, Ctx_ctbAlfAlternative, Ctx_AlfUseTemporalFilt]"

subsection \<open>The registration succeeds\<close>

fun consecutive :: "nat \<Rightarrow> nat list list list \<Rightarrow> CtxSet list" where
  "consecutive k [] = []"
| "consecutive k (i # is) = \<lparr>Offset = k, Size = length (hd i)\<rparr> # consecutive (k + length (hd i)) is"

definition ctx_init_ok :: "nat list list \<Rightarrow> bool" where
  "ctx_init_ok i \<longleftrightarrow> length i = 4 \<and> list_all (\<lambda>row. length row = length (hd i)) i"

lemma addCtxSet_ok:
  assumes "ctx_init_ok [r0, r1, r2, r3]" and "length t0 = k" and "length t1 = k" and "length t2 = k"
    and "length t3 = k" and "k + length r0 < 65536"
  shows "addCtxSet [r0, r1, r2, r3] [t0, t1, t2, t3] =
    Some (\<lparr>Offset = k, Size = length r0\<rparr>, [t0 @ r0, t1 @ r1, t2 @ r2, t3 @ r3])"
  using assms by (simp add: addCtxSet_def ctx_init_ok_def u16_def)

lemma register_ok:
  assumes "list_all ctx_init_ok is" and "length t0 = k" and "length t1 = k" and "length t2 = k"
    and "length t3 = k" and "k + sum_list (map (\<lambda>i. length (hd i)) is) < 65536"
  shows "register is [t0, t1, t2, t3] = Some (consecutive k is,
    [t0 @ concat (map (\<lambda>i. i ! 0) is), t1 @ concat (map (\<lambda>i. i ! 1) is),
     t2 @ concat (map (\<lambda>i. i ! 2) is), t3 @ concat (map (\<lambda>i. i ! 3) is)])"
  using assms
proof (induction "is" arbitrary: k t0 t1 t2 t3)
  case (Cons i "is")
  obtain r0 r1 r2 r3 where i: "i = [r0, r1, r2, r3]"
    using Cons.prems(1) by (auto simp: ctx_init_ok_def length_Suc_conv numeral_eq_Suc)
  then have r: "length r1 = length r0" "length r2 = length r0" "length r3 = length r0"
    using Cons.prems(1) by (auto simp: ctx_init_ok_def)
  have "addCtxSet i [t0, t1, t2, t3] =
      Some (\<lparr>Offset = k, Size = length r0\<rparr>, [t0 @ r0, t1 @ r1, t2 @ r2, t3 @ r3])"
    unfolding i by (rule addCtxSet_ok) (use Cons.prems i in auto)
  moreover have "register is [t0 @ r0, t1 @ r1, t2 @ r2, t3 @ r3] = Some (consecutive (k + length r0) is,
      [(t0 @ r0) @ concat (map (\<lambda>i. i ! 0) is), (t1 @ r1) @ concat (map (\<lambda>i. i ! 1) is),
       (t2 @ r2) @ concat (map (\<lambda>i. i ! 2) is), (t3 @ r3) @ concat (map (\<lambda>i. i ! 3) is)])"
    by (rule Cons.IH) (use Cons.prems i r in auto)
  ultimately show ?case by (simp add: i)
qed simp

lemmas init_defs = CNU_def DWS_def init_SplitFlag_def init_SplitQtFlag_def init_SplitHvFlag_def init_Split12Flag_def
  init_ModeConsFlag_def init_SkipFlag_def init_MergeFlag_def init_RegularMergeFlag_def
  init_MergeIdx_def init_MmvdFlag_def init_MmvdMergeIdx_def init_MmvdStepMvpIdx_def
  init_PredMode_def init_MultiRefLineIdx_def init_IntraLumaMpmFlag_def init_IntraLumaPlanarFlag_def
  init_CclmModeFlag_def init_CclmModeIdx_def init_IntraChromaPredMode_def init_MipFlag_def
  init_DeltaQP_def init_InterDir_def init_RefPic_def init_SubblockMergeFlag_def
  init_AffineFlag_def init_AffineType_def init_AffMergeIdx_def init_GBiIdx_def
  init_Mvd_def init_BDPCMMode_def init_QtRootCbf_def init_ACTFlag_def
  init_QtCbf_0_def init_QtCbf_1_def init_QtCbf_2_def init_SigCoeffGroup_0_def
  init_SigCoeffGroup_1_def init_SigFlag_0_def init_SigFlag_1_def init_SigFlag_2_def
  init_SigFlag_3_def init_SigFlag_4_def init_SigFlag_5_def init_ParFlag_0_def
  init_ParFlag_1_def init_GtxFlag_0_def init_GtxFlag_1_def init_GtxFlag_2_def
  init_GtxFlag_3_def init_LastX_0_def init_LastX_1_def init_LastY_0_def
  init_LastY_1_def init_MVPIdx_def init_SmvdFlag_def init_SaoMergeFlag_def
  init_SaoTypeIdx_def init_TransquantBypassFlag_def init_LFNSTIdx_def init_PLTFlag_def
  init_RotationFlag_def init_RunTypeFlag_def init_IdxRunModel_def init_CopyRunModel_def
  init_RdpcmFlag_def init_RdpcmDir_def init_TransformSkipFlag_def init_MTSIdx_def
  init_ISPMode_def init_SbtFlag_def init_SbtQuadFlag_def init_SbtHorFlag_def
  init_SbtPosFlag_def init_CrossCompPred_def init_ChromaQpAdjFlag_def init_ChromaQpAdjIdc_def
  init_ImvFlag_def init_ctbAlfFlag_def init_ctbAlfAlternative_def init_AlfUseTemporalFilt_def
  init_MHIntraFlag_def init_IBCFlag_def init_JointCbCrFlag_def init_TsSigCoeffGroup_def
  init_TsSigFlag_def init_TsParFlag_def init_TsGtxFlag_def init_TsLrg1Flag_def
  init_TsResidualSign_def

lemma ctx_inits_ok: "list_all ctx_init_ok ctx_inits"
  by code_simp

definition ctx_sizes :: "nat list" where
  "ctx_sizes = map (\<lambda>i. length (hd i)) ctx_inits"

lemma ctx_sizes_eq: "ctx_sizes = [9, 6, 5, 4, 2, 3, 1, 2, 1, 1, 1, 1, 2, 2, 1, 2, 1, 1, 1, 4, 2, 6, 2, 3, 3, 1, 1, 1, 2, 2, 1, 1, 4, 2, 3, 2, 2, 12, 8, 12, 8, 12, 8, 21, 11, 21, 11, 21, 11, 20, 3, 20, 3, 1, 1, 1, 1, 1, 3, 1, 1, 1, 5, 3, 2, 2, 2, 4, 2, 2, 1, 3, 1, 10, 1, 1, 5, 9, 2, 1, 1, 3, 3, 3, 3, 1, 5, 4, 6]"
  by code_simp

lemma ctx_cfg_ok: "ctx_cfg = Some (consecutive 0 ctx_inits,
    [concat (map (\<lambda>i. i ! 0) ctx_inits), concat (map (\<lambda>i. i ! 1) ctx_inits),
     concat (map (\<lambda>i. i ! 2) ctx_inits), concat (map (\<lambda>i. i ! 3) ctx_inits)])"
proof -
  have "sum_list (map (\<lambda>i. length (hd i)) ctx_inits) < 65536"
    using ctx_sizes_eq unfolding ctx_sizes_def by simp
  then show ?thesis unfolding ctx_cfg_def by (subst register_ok [OF ctx_inits_ok]) simp_all
qed

lemma ctx_sets_eq: "ctx_sets = consecutive 0 ctx_inits"
  by (simp add: ctx_sets_def ctx_cfg_ok)

lemma sm_InitTables_eq: "sm_InitTables = map (\<lambda>k. concat (map (\<lambda>i. i ! k) ctx_inits)) [0, 1, 2, 3]"
  by (simp add: sm_InitTables_def ctx_cfg_ok)

lemma sm_InitTables_lengths: "map length sm_InitTables = [386, 386, 386, 386]"
  unfolding sm_InitTables_eq by code_simp

lemma NumberOfContexts_eq: "NumberOfContexts = 386"
  using sm_InitTables_lengths by (simp add: NumberOfContexts_def sm_InitTables_eq)

text \<open>Every entry of the fourth table passes the check in \<^verbatim>\<open>setLog2WindowSize\<close>.\<close>

lemma window_sizes_ok: "list_all (\<lambda>w. w div 4 + w mod 4 \<le> 4 \<and> w < 16) (sm_InitTables ! 3)"
  by (simp add: sm_InitTables_eq ctx_inits_def init_defs)


lemma ctx_sets_explicit: "ctx_sets = map (\<lambda>(k, n). \<lparr>Offset = k, Size = n\<rparr>)
    [(0, 9), (9, 6), (15, 5), (20, 4), (24, 2), (26, 3), (29, 1), (30, 2),
     (32, 1), (33, 1), (34, 1), (35, 1), (36, 2), (38, 2), (40, 1), (41, 2),
     (43, 1), (44, 1), (45, 1), (46, 4), (50, 2), (52, 6), (58, 2), (60, 3),
     (63, 3), (66, 1), (67, 1), (68, 1), (69, 2), (71, 2), (73, 1), (74, 1),
     (75, 4), (79, 2), (81, 3), (84, 2), (86, 2), (88, 12), (100, 8), (108, 12),
     (120, 8), (128, 12), (140, 8), (148, 21), (169, 11), (180, 21), (201, 11), (212, 21),
     (233, 11), (244, 20), (264, 3), (267, 20), (287, 3), (290, 1), (291, 1), (292, 1),
     (293, 1), (294, 1), (295, 3), (298, 1), (299, 1), (300, 1), (301, 5), (306, 3),
     (309, 2), (311, 2), (313, 2), (315, 4), (319, 2), (321, 2), (323, 1), (324, 3),
     (327, 1), (328, 10), (338, 1), (339, 1), (340, 5), (345, 9), (354, 2), (356, 1),
     (357, 1), (358, 3), (361, 3), (364, 3), (367, 3), (370, 1), (371, 5), (376, 4),
     (380, 6)]"
  by (simp add: ctx_sets_eq ctx_inits_def init_defs)

lemma ctx_set_values [simp]:
  "Ctx_SplitFlag = \<lparr>Offset = 0, Size = 9\<rparr>"
  "Ctx_SplitQtFlag = \<lparr>Offset = 9, Size = 6\<rparr>"
  "Ctx_SplitHvFlag = \<lparr>Offset = 15, Size = 5\<rparr>"
  "Ctx_Split12Flag = \<lparr>Offset = 20, Size = 4\<rparr>"
  "Ctx_ModeConsFlag = \<lparr>Offset = 24, Size = 2\<rparr>"
  "Ctx_SkipFlag = \<lparr>Offset = 26, Size = 3\<rparr>"
  "Ctx_MergeFlag = \<lparr>Offset = 29, Size = 1\<rparr>"
  "Ctx_RegularMergeFlag = \<lparr>Offset = 30, Size = 2\<rparr>"
  "Ctx_MergeIdx = \<lparr>Offset = 32, Size = 1\<rparr>"
  "Ctx_MmvdFlag = \<lparr>Offset = 33, Size = 1\<rparr>"
  "Ctx_MmvdMergeIdx = \<lparr>Offset = 34, Size = 1\<rparr>"
  "Ctx_MmvdStepMvpIdx = \<lparr>Offset = 35, Size = 1\<rparr>"
  "Ctx_PredMode = \<lparr>Offset = 36, Size = 2\<rparr>"
  "Ctx_MultiRefLineIdx = \<lparr>Offset = 38, Size = 2\<rparr>"
  "Ctx_IntraLumaMpmFlag = \<lparr>Offset = 40, Size = 1\<rparr>"
  "Ctx_IntraLumaPlanarFlag = \<lparr>Offset = 41, Size = 2\<rparr>"
  "Ctx_CclmModeFlag = \<lparr>Offset = 43, Size = 1\<rparr>"
  "Ctx_CclmModeIdx = \<lparr>Offset = 44, Size = 1\<rparr>"
  "Ctx_IntraChromaPredMode = \<lparr>Offset = 45, Size = 1\<rparr>"
  "Ctx_MipFlag = \<lparr>Offset = 46, Size = 4\<rparr>"
  "Ctx_DeltaQP = \<lparr>Offset = 50, Size = 2\<rparr>"
  "Ctx_InterDir = \<lparr>Offset = 52, Size = 6\<rparr>"
  "Ctx_RefPic = \<lparr>Offset = 58, Size = 2\<rparr>"
  "Ctx_SubblockMergeFlag = \<lparr>Offset = 60, Size = 3\<rparr>"
  "Ctx_AffineFlag = \<lparr>Offset = 63, Size = 3\<rparr>"
  "Ctx_AffineType = \<lparr>Offset = 66, Size = 1\<rparr>"
  "Ctx_AffMergeIdx = \<lparr>Offset = 67, Size = 1\<rparr>"
  "Ctx_GBiIdx = \<lparr>Offset = 68, Size = 1\<rparr>"
  "Ctx_Mvd = \<lparr>Offset = 69, Size = 2\<rparr>"
  "Ctx_BDPCMMode = \<lparr>Offset = 71, Size = 2\<rparr>"
  "Ctx_QtRootCbf = \<lparr>Offset = 73, Size = 1\<rparr>"
  "Ctx_ACTFlag = \<lparr>Offset = 74, Size = 1\<rparr>"
  "Ctx_QtCbf_0 = \<lparr>Offset = 75, Size = 4\<rparr>"
  "Ctx_QtCbf_1 = \<lparr>Offset = 79, Size = 2\<rparr>"
  "Ctx_QtCbf_2 = \<lparr>Offset = 81, Size = 3\<rparr>"
  "Ctx_SigCoeffGroup_0 = \<lparr>Offset = 84, Size = 2\<rparr>"
  "Ctx_SigCoeffGroup_1 = \<lparr>Offset = 86, Size = 2\<rparr>"
  "Ctx_SigFlag_0 = \<lparr>Offset = 88, Size = 12\<rparr>"
  "Ctx_SigFlag_1 = \<lparr>Offset = 100, Size = 8\<rparr>"
  "Ctx_SigFlag_2 = \<lparr>Offset = 108, Size = 12\<rparr>"
  "Ctx_SigFlag_3 = \<lparr>Offset = 120, Size = 8\<rparr>"
  "Ctx_SigFlag_4 = \<lparr>Offset = 128, Size = 12\<rparr>"
  "Ctx_SigFlag_5 = \<lparr>Offset = 140, Size = 8\<rparr>"
  "Ctx_ParFlag_0 = \<lparr>Offset = 148, Size = 21\<rparr>"
  "Ctx_ParFlag_1 = \<lparr>Offset = 169, Size = 11\<rparr>"
  "Ctx_GtxFlag_0 = \<lparr>Offset = 180, Size = 21\<rparr>"
  "Ctx_GtxFlag_1 = \<lparr>Offset = 201, Size = 11\<rparr>"
  "Ctx_GtxFlag_2 = \<lparr>Offset = 212, Size = 21\<rparr>"
  "Ctx_GtxFlag_3 = \<lparr>Offset = 233, Size = 11\<rparr>"
  "Ctx_LastX_0 = \<lparr>Offset = 244, Size = 20\<rparr>"
  "Ctx_LastX_1 = \<lparr>Offset = 264, Size = 3\<rparr>"
  "Ctx_LastY_0 = \<lparr>Offset = 267, Size = 20\<rparr>"
  "Ctx_LastY_1 = \<lparr>Offset = 287, Size = 3\<rparr>"
  "Ctx_MVPIdx = \<lparr>Offset = 290, Size = 1\<rparr>"
  "Ctx_SmvdFlag = \<lparr>Offset = 291, Size = 1\<rparr>"
  "Ctx_SaoMergeFlag = \<lparr>Offset = 292, Size = 1\<rparr>"
  "Ctx_SaoTypeIdx = \<lparr>Offset = 293, Size = 1\<rparr>"
  "Ctx_TransquantBypassFlag = \<lparr>Offset = 294, Size = 1\<rparr>"
  "Ctx_LFNSTIdx = \<lparr>Offset = 295, Size = 3\<rparr>"
  "Ctx_PLTFlag = \<lparr>Offset = 298, Size = 1\<rparr>"
  "Ctx_RotationFlag = \<lparr>Offset = 299, Size = 1\<rparr>"
  "Ctx_RunTypeFlag = \<lparr>Offset = 300, Size = 1\<rparr>"
  "Ctx_IdxRunModel = \<lparr>Offset = 301, Size = 5\<rparr>"
  "Ctx_CopyRunModel = \<lparr>Offset = 306, Size = 3\<rparr>"
  "Ctx_RdpcmFlag = \<lparr>Offset = 309, Size = 2\<rparr>"
  "Ctx_RdpcmDir = \<lparr>Offset = 311, Size = 2\<rparr>"
  "Ctx_TransformSkipFlag = \<lparr>Offset = 313, Size = 2\<rparr>"
  "Ctx_MTSIdx = \<lparr>Offset = 315, Size = 4\<rparr>"
  "Ctx_ISPMode = \<lparr>Offset = 319, Size = 2\<rparr>"
  "Ctx_SbtFlag = \<lparr>Offset = 321, Size = 2\<rparr>"
  "Ctx_SbtQuadFlag = \<lparr>Offset = 323, Size = 1\<rparr>"
  "Ctx_SbtHorFlag = \<lparr>Offset = 324, Size = 3\<rparr>"
  "Ctx_SbtPosFlag = \<lparr>Offset = 327, Size = 1\<rparr>"
  "Ctx_CrossCompPred = \<lparr>Offset = 328, Size = 10\<rparr>"
  "Ctx_ChromaQpAdjFlag = \<lparr>Offset = 338, Size = 1\<rparr>"
  "Ctx_ChromaQpAdjIdc = \<lparr>Offset = 339, Size = 1\<rparr>"
  "Ctx_ImvFlag = \<lparr>Offset = 340, Size = 5\<rparr>"
  "Ctx_ctbAlfFlag = \<lparr>Offset = 345, Size = 9\<rparr>"
  "Ctx_ctbAlfAlternative = \<lparr>Offset = 354, Size = 2\<rparr>"
  "Ctx_AlfUseTemporalFilt = \<lparr>Offset = 356, Size = 1\<rparr>"
  "Ctx_MHIntraFlag = \<lparr>Offset = 357, Size = 1\<rparr>"
  "Ctx_IBCFlag = \<lparr>Offset = 358, Size = 3\<rparr>"
  "Ctx_JointCbCrFlag = \<lparr>Offset = 361, Size = 3\<rparr>"
  "Ctx_TsSigCoeffGroup = \<lparr>Offset = 364, Size = 3\<rparr>"
  "Ctx_TsSigFlag = \<lparr>Offset = 367, Size = 3\<rparr>"
  "Ctx_TsParFlag = \<lparr>Offset = 370, Size = 1\<rparr>"
  "Ctx_TsGtxFlag = \<lparr>Offset = 371, Size = 5\<rparr>"
  "Ctx_TsLrg1Flag = \<lparr>Offset = 376, Size = 4\<rparr>"
  "Ctx_TsResidualSign = \<lparr>Offset = 380, Size = 6\<rparr>"
  unfolding Ctx_SplitFlag_def Ctx_SplitQtFlag_def Ctx_SplitHvFlag_def Ctx_Split12Flag_def
    Ctx_ModeConsFlag_def Ctx_SkipFlag_def Ctx_MergeFlag_def Ctx_RegularMergeFlag_def
    Ctx_MergeIdx_def Ctx_MmvdFlag_def Ctx_MmvdMergeIdx_def Ctx_MmvdStepMvpIdx_def
    Ctx_PredMode_def Ctx_MultiRefLineIdx_def Ctx_IntraLumaMpmFlag_def Ctx_IntraLumaPlanarFlag_def
    Ctx_CclmModeFlag_def Ctx_CclmModeIdx_def Ctx_IntraChromaPredMode_def Ctx_MipFlag_def
    Ctx_DeltaQP_def Ctx_InterDir_def Ctx_RefPic_def Ctx_SubblockMergeFlag_def
    Ctx_AffineFlag_def Ctx_AffineType_def Ctx_AffMergeIdx_def Ctx_GBiIdx_def
    Ctx_Mvd_def Ctx_BDPCMMode_def Ctx_QtRootCbf_def Ctx_ACTFlag_def
    Ctx_QtCbf_0_def Ctx_QtCbf_1_def Ctx_QtCbf_2_def Ctx_SigCoeffGroup_0_def
    Ctx_SigCoeffGroup_1_def Ctx_SigFlag_0_def Ctx_SigFlag_1_def Ctx_SigFlag_2_def
    Ctx_SigFlag_3_def Ctx_SigFlag_4_def Ctx_SigFlag_5_def Ctx_ParFlag_0_def
    Ctx_ParFlag_1_def Ctx_GtxFlag_0_def Ctx_GtxFlag_1_def Ctx_GtxFlag_2_def
    Ctx_GtxFlag_3_def Ctx_LastX_0_def Ctx_LastX_1_def Ctx_LastY_0_def
    Ctx_LastY_1_def Ctx_MVPIdx_def Ctx_SmvdFlag_def Ctx_SaoMergeFlag_def
    Ctx_SaoTypeIdx_def Ctx_TransquantBypassFlag_def Ctx_LFNSTIdx_def Ctx_PLTFlag_def
    Ctx_RotationFlag_def Ctx_RunTypeFlag_def Ctx_IdxRunModel_def Ctx_CopyRunModel_def
    Ctx_RdpcmFlag_def Ctx_RdpcmDir_def Ctx_TransformSkipFlag_def Ctx_MTSIdx_def
    Ctx_ISPMode_def Ctx_SbtFlag_def Ctx_SbtQuadFlag_def Ctx_SbtHorFlag_def
    Ctx_SbtPosFlag_def Ctx_CrossCompPred_def Ctx_ChromaQpAdjFlag_def Ctx_ChromaQpAdjIdc_def
    Ctx_ImvFlag_def Ctx_ctbAlfFlag_def Ctx_ctbAlfAlternative_def Ctx_AlfUseTemporalFilt_def
    Ctx_MHIntraFlag_def Ctx_IBCFlag_def Ctx_JointCbCrFlag_def Ctx_TsSigCoeffGroup_def
    Ctx_TsSigFlag_def Ctx_TsParFlag_def Ctx_TsGtxFlag_def Ctx_TsLrg1Flag_def
    Ctx_TsResidualSign_def ctx_sets_explicit
  by simp_all

lemma combined_sets:
  "Ctx_Palette = \<lparr>Offset = Offset Ctx_RotationFlag, Size = Size Ctx_RotationFlag + Size Ctx_RunTypeFlag
     + Size Ctx_IdxRunModel + Size Ctx_CopyRunModel\<rparr>"
  "Ctx_Sao = \<lparr>Offset = Offset Ctx_SaoMergeFlag, Size = Size Ctx_SaoMergeFlag + Size Ctx_SaoTypeIdx\<rparr>"
  "Ctx_Alf = \<lparr>Offset = Offset Ctx_ctbAlfFlag, Size = Size Ctx_ctbAlfFlag + Size Ctx_ctbAlfAlternative
     + Size Ctx_AlfUseTemporalFilt\<rparr>"
  by (simp_all add: Ctx_Palette_def Ctx_Sao_def Ctx_Alf_def CtxSet_combine_def u16_def)

subsection \<open>Registered sets partition the tables\<close>

text \<open>The indices of the contexts of a set.\<close>

definition ctx_range :: "CtxSet \<Rightarrow> nat set" where
  "ctx_range c = {Offset c ..< Offset c + Size c}"

abbreviation ctx_total :: "nat list list list \<Rightarrow> nat" where
  "ctx_total is \<equiv> sum_list (map (\<lambda>i. length (hd i)) is)"

lemma consecutive_append:
  "consecutive k (is @ js) = consecutive k is @ consecutive (k + ctx_total is) js"
  by (induction "is" arbitrary: k) (simp_all add: add.assoc)

lemma length_consecutive [simp]: "length (consecutive k is) = length is"
  by (induction "is" arbitrary: k) simp_all

lemma consecutive_nth:
  "n < length is \<Longrightarrow> consecutive k is ! n = \<lparr>Offset = k + ctx_total (take n is), Size = length (hd (is ! n))\<rparr>"
  by (induction "is" arbitrary: k n) (auto simp: nth_Cons split: nat.split)

lemma consecutive_drop: "drop a (consecutive k is) = consecutive (k + ctx_total (take a is)) (drop a is)"
proof (cases "a \<le> length is")
  case True
  then show ?thesis using consecutive_append [of k "take a is" "drop a is"] by simp
qed simp

lemma consecutive_take: "take b (consecutive k is) = consecutive k (take b is)"
proof (cases "b \<le> length is")
  case True
  then show ?thesis using consecutive_append [of k "take b is" "drop b is"] by simp
qed simp

lemma ctx_total_take_Suc: "n < length is \<Longrightarrow> ctx_total (take n is) + length (hd (is ! n)) \<le> ctx_total is"
  by (subst (2) append_take_drop_id [of n "is", symmetric])
    (simp add: Cons_nth_drop_Suc [symmetric] del: append_take_drop_id)

lemma table_length:
  assumes "list_all ctx_init_ok is" and "j < 4"
  shows "length (concat (map (\<lambda>i. i ! j) is)) = ctx_total is"
proof -
  have "length (i ! j) = length (hd i)" if "i \<in> set is" for i
    using assms that by (auto simp: list_all_iff ctx_init_ok_def)
  then show ?thesis unfolding length_concat map_map o_def by (metis (mono_tags, lifting) map_cong)
qed

lemma table_slice:
  assumes "list_all ctx_init_ok is" and "n < length is" and "j < 4"
  shows "take (length (hd (is ! n))) (drop (ctx_total (take n is)) (concat (map (\<lambda>i. i ! j) is))) = is ! n ! j"
proof -
  have "list_all ctx_init_ok (take n is)" using assms(1) by (auto simp: list_all_iff dest: in_set_takeD)
  then have "length (concat (map (\<lambda>i. i ! j) (take n is))) = ctx_total (take n is)"
    using assms(3) by (rule table_length)
  moreover have "concat (map (\<lambda>i. i ! j) is) =
      concat (map (\<lambda>i. i ! j) (take n is)) @ is ! n ! j @ concat (map (\<lambda>i. i ! j) (drop (Suc n) is))"
    using id_take_nth_drop [OF assms(2)] by (metis concat.simps(2) concat_append list.map(2) map_append)
  moreover have "length (is ! n ! j) = length (hd (is ! n))"
    using assms by (auto simp: list_all_iff ctx_init_ok_def)
  ultimately show ?thesis by simp
qed

lemma map_Size_consecutive: "map Size (consecutive k is) = map (\<lambda>i. length (hd i)) is"
  by (induction "is" arbitrary: k) simp_all

lemma combine_fold:
  "k + ctx_total is < 65536 \<Longrightarrow> 0 < length is \<Longrightarrow> mx \<le> k \<Longrightarrow>
   foldl (\<lambda>(mn, mx) c. (min mn (Offset c), max mx (u16 (Offset c + Size c)))) (mn, mx) (consecutive k is)
     = (min mn k, k + ctx_total is)"
proof (induction "is" arbitrary: k mn mx)
  case (Cons i "is")
  have "u16 (k + length (hd i)) = k + length (hd i)" using Cons.prems(1) by (simp add: u16_def)
  moreover have "min (min mn k) (k + length (hd i)) = min mn k" by simp
  ultimately show ?case using Cons.IH [of "k + length (hd i)" "k + length (hd i)" "min mn k"] Cons.prems
    by (cases "is = []") (simp_all add: add.assoc)
qed simp

lemma combine_consecutive:
  assumes "k + ctx_total is < 65536" and "is \<noteq> []"
  shows "CtxSet_combine (consecutive k is) = \<lparr>Offset = k, Size = ctx_total is\<rparr>"
  using combine_fold [OF assms(1), of 0 65535] assms by (simp add: CtxSet_combine_def u16_def)

lemma consecutive_ranges: "(\<Union>c \<in> set (consecutive k is). ctx_range c) = {k ..< k + ctx_total is}"
  by (induction "is" arbitrary: k) (auto simp: ctx_range_def)

lemma combine_range:
  assumes "ctx_total is < 65536" and "a < b" and "b \<le> length is"
  shows "ctx_range (CtxSet_combine (take (b - a) (drop a (consecutive 0 is)))) =
    (\<Union>c \<in> set (take (b - a) (drop a (consecutive 0 is))). ctx_range c)"
proof -
  let ?js = "take (b - a) (drop a is)"
  have "ctx_total (take a is) + ctx_total ?js \<le> ctx_total is"
    by (metis add_le_cancel_left append_take_drop_id le_add1 map_append sum_list_append)
  then have "CtxSet_combine (consecutive (ctx_total (take a is)) ?js) =
      \<lparr>Offset = ctx_total (take a is), Size = ctx_total ?js\<rparr>"
    using assms by (intro combine_consecutive) auto
  then show ?thesis by (simp add: consecutive_drop consecutive_take consecutive_ranges) (simp add: ctx_range_def)
qed

lemma register_sets:
  assumes "list_all ctx_init_ok is" and "ctx_total is < 65536"
  obtains tables where "register is [[], [], [], []] = Some (consecutive 0 is, tables)" and "length tables = 4"
    and "\<And>j. j < 4 \<Longrightarrow> tables ! j = concat (map (\<lambda>i. i ! j) is)"
proof -
  let ?t = "map (\<lambda>j. concat (map (\<lambda>i. i ! j) is)) [0, 1, 2, 3]"
  have "register is [[], [], [], []] = Some (consecutive 0 is, ?t)"
    using register_ok [OF assms(1), of "[]" 0 "[]" "[]" "[]"] assms(2) by simp
  moreover have "?t ! j = concat (map (\<lambda>i. i ! j) is)" if "j < 4" for j
    using that by (auto simp: numeral_eq_Suc less_Suc_eq)
  ultimately show ?thesis using that [of ?t] by simp
qed

lemma combined_ranges:
  "ctx_range Ctx_Palette = ctx_range Ctx_RotationFlag \<union> ctx_range Ctx_RunTypeFlag \<union> ctx_range Ctx_IdxRunModel
     \<union> ctx_range Ctx_CopyRunModel"
  "ctx_range Ctx_Sao = ctx_range Ctx_SaoMergeFlag \<union> ctx_range Ctx_SaoTypeIdx"
  "ctx_range Ctx_Alf = ctx_range Ctx_ctbAlfFlag \<union> ctx_range Ctx_ctbAlfAlternative
     \<union> ctx_range Ctx_AlfUseTemporalFilt"
  unfolding combined_sets by (auto simp: ctx_range_def)

subsection \<open>Context stores\<close>

type_synonym CtxStore = "BinProbModel_Std list"

definition CtxStore_new :: CtxStore where
  "CtxStore_new = replicate NumberOfContexts BinProbModel_new"

definition CtxStore_init :: "int \<Rightarrow> nat \<Rightarrow> CtxStore \<Rightarrow> CtxStore option" where
  "CtxStore_init qp initId ctx = do {
     initTable \<leftarrow> getInitTable sm_InitTables initId;
     if length ctx \<noteq> length initTable then None
     else do {
       rateInitTable \<leftarrow> getInitTable sm_InitTables 3;
       if length ctx \<noteq> length rateInitTable then None
       else do {
         let clippedQP = max 0 (min 63 qp);
         those (map (\<lambda>k. setLog2WindowSize (rateInitTable ! k) (BinProbModel_init clippedQP (initTable ! k) (ctx ! k)))
           [0..<length ctx]) } } }"

definition CtxStore_setWinSizes :: "nat list \<Rightarrow> CtxStore \<Rightarrow> CtxStore option" where
  "CtxStore_setWinSizes log2WindowSizes ctx =
     (if length ctx \<noteq> length log2WindowSizes then None
      else those (map (\<lambda>k. setLog2WindowSize (log2WindowSizes ! k) (ctx ! k)) [0..<length ctx]))"

definition CtxStore_loadPStates :: "nat list \<Rightarrow> CtxStore \<Rightarrow> CtxStore option" where
  "CtxStore_loadPStates probStates ctx =
     (if length ctx \<noteq> length probStates then None
      else Some (map (\<lambda>k. BinProbModel_setState (probStates ! k) (ctx ! k)) [0..<length ctx]))"

definition CtxStore_savePStates :: "CtxStore \<Rightarrow> nat list" where
  "CtxStore_savePStates ctx = map BinProbModel_getState ctx"

text \<open>\<^verbatim>\<open>copyFrom\<close> the contexts of one set.\<close>

definition CtxStore_copyFrom :: "CtxStore \<Rightarrow> CtxSet \<Rightarrow> CtxStore \<Rightarrow> CtxStore option" where
  "CtxStore_copyFrom src ctxSet ctx =
     (if Offset ctxSet + Size ctxSet \<le> length src \<and> Offset ctxSet + Size ctxSet \<le> length ctx
      then Some (take (Offset ctxSet) ctx @ take (Size ctxSet) (drop (Offset ctxSet) src)
             @ drop (Offset ctxSet + Size ctxSet) ctx)
      else None)"

record Ctx =
  m_CtxStore_Std :: CtxStore
  m_GRAdaptStats :: "nat list"

definition Ctx_new :: Ctx where
  "Ctx_new = \<lparr>m_CtxStore_Std = CtxStore_new, m_GRAdaptStats = replicate 4 0\<rparr>"

definition Ctx_init :: "int \<Rightarrow> nat \<Rightarrow> Ctx \<Rightarrow> Ctx option" where
  "Ctx_init qp initId c = do {
     cs \<leftarrow> CtxStore_init qp initId (m_CtxStore_Std c);
     Some (c\<lparr>m_CtxStore_Std := cs, m_GRAdaptStats := replicate 4 0\<rparr>) }"

definition Ctx_assign_sub :: "CtxSet \<Rightarrow> Ctx \<Rightarrow> Ctx \<Rightarrow> Ctx option" where
  "Ctx_assign_sub ctxSet src c = do {
     cs \<leftarrow> CtxStore_copyFrom (m_CtxStore_Std src) ctxSet (m_CtxStore_Std c);
     Some (c\<lparr>m_CtxStore_Std := cs\<rparr>) }"

definition Ctx_initCtxAndWinSize :: "nat \<Rightarrow> Ctx \<Rightarrow> nat \<Rightarrow> Ctx \<Rightarrow> Ctx option" where
  "Ctx_initCtxAndWinSize ctxId src winSize c =
     (if ctxId < length (m_CtxStore_Std c) \<and> ctxId < length (m_CtxStore_Std src)
      then do {
        m \<leftarrow> setLog2WindowSize winSize (m_CtxStore_Std src ! ctxId);
        Some (c\<lparr>m_CtxStore_Std := (m_CtxStore_Std c)[ctxId := m]\<rparr>) }
      else None)"

lemma those_map_Some:
  assumes "\<And>k. k < n \<Longrightarrow> \<exists>y. f k = Some y \<and> P y"
  shows "\<exists>ys. those (map f [0..<n]) = Some ys \<and> length ys = n \<and> list_all P ys"
  using assms
proof (induction n)
  case (Suc n)
  then obtain ys where ys: "those (map f [0..<n]) = Some ys" "length ys = n" "list_all P ys" by auto
  obtain y where y: "f n = Some y" "P y" using Suc.prems by blast
  have "those (xs @ [Some y]) = map_option (\<lambda>ys. ys @ [y]) (those xs)" for xs
    by (induction xs) (auto simp: option.map_comp o_def split: option.split)
  then show ?case using ys y by (auto simp: upt_Suc_append)
qed simp

lemma CtxStore_init_ok:
  assumes "initId < 3" and "length ctx = NumberOfContexts"
  shows "\<exists>ctx'. CtxStore_init qp initId ctx = Some ctx' \<and> length ctx' = NumberOfContexts
    \<and> list_all (\<lambda>m. model_ok m \<and> 2 \<le> m_rate m div 16 \<and> m_rate m mod 16 \<le> 9) ctx'"
proof -
  have len: "length sm_InitTables = 4" "length (sm_InitTables ! initId) = 386" "length (sm_InitTables ! 3) = 386"
    using assms(1) sm_InitTables_lengths by (auto simp: sm_InitTables_eq less_Suc_eq numeral_3_eq_3)
  have c: "length ctx = 386" using assms(2) NumberOfContexts_eq by simp
  let ?P = "\<lambda>m. model_ok m \<and> 2 \<le> m_rate m div 16 \<and> m_rate m mod 16 \<le> 9"
  have "\<exists>y. setLog2WindowSize (sm_InitTables ! 3 ! k) (BinProbModel_init q i m) = Some y \<and> ?P y"
    if "k < 386" for k q i m
  proof -
    let ?w = "sm_InitTables ! 3 ! k"
    have w: "?w div 4 + ?w mod 4 \<le> 4" "?w < 16"
      using window_sizes_ok that len(3) by (auto simp: list_all_length)
    have a: "drop_bit 2 ?w AND 3 = ?w div 4" "?w AND 3 = ?w mod 4"
      using and_mask_mod [of _ 2] w(2) by (simp_all add: drop_bit_eq_div)
    have rate: "u8 (16 * (2 + x) + (3 + (2 + x) + y)) div 16 = 2 + x \<and> u8 (16 * (2 + x) + (3 + (2 + x) + y)) mod 16 = 5 + x + y"
      if "x + y \<le> 4" for x y :: nat
    proof -
      have "u8 (16 * (2 + x) + (3 + (2 + x) + y)) = 16 * (2 + x) + (3 + (2 + x) + y)"
        using that by (intro u8_id) simp
      also have "\<dots> = 16 * (2 + x) + (5 + x + y)" by simp
      finally have "u8 (16 * (2 + x) + (3 + (2 + x) + y)) = 16 * (2 + x) + (5 + x + y)" .
      moreover have "(16 * a + b) div 16 = a \<and> (16 * a + b) mod 16 = b" if "b < 16" for a b :: nat using that by simp
      from this [of "5 + x + y" "2 + x"] have "(16 * (2 + x) + (5 + x + y)) div 16 = 2 + x"
        "(16 * (2 + x) + (5 + x + y)) mod 16 = 5 + x + y" using that by simp_all
      ultimately show ?thesis by (simp only:)
    qed
    from rate [OF w(1)] w BinProbModel_init_ok [of q i m] show ?thesis
      unfolding setLog2WindowSize_def a Let_def by (auto simp: model_ok_def)
  qed
  from those_map_Some [of 386, OF this] show ?thesis
    using assms(1) len c unfolding CtxStore_init_def getInitTable_def NumberOfContexts_eq
    by (simp add: Let_def)
qed

subsection \<open>Bit estimates\<close>

definition m_binFracBits :: "(nat \<times> nat) list" where
  "m_binFracBits =
    [(92, 294912), (278, 242976), (464, 218827), (651, 202921), (838, 191040), (1027, 181553),
     (1216, 173656), (1406, 166891), (1596, 160974), (1788, 155716), (1980, 150985), (2173, 146684),
     (2367, 142742), (2561, 139104), (2756, 135726), (2953, 132573), (3150, 129617), (3347, 126836),
     (3546, 124209), (3746, 121720), (3946, 119356), (4147, 117104), (4349, 114955), (4552, 112899),
     (4756, 110929), (4960, 109038), (5166, 107220), (5372, 105468), (5580, 103780), (5788, 102150),
     (5997, 100574), (6207, 99048), (6418, 97571), (6630, 96138), (6843, 94748), (7057, 93397),
     (7272, 92084), (7488, 90806), (7705, 89562), (7923, 88350), (8141, 87168), (8361, 86015),
     (8582, 84889), (8804, 83790), (9027, 82715), (9251, 81665), (9476, 80637), (9702, 79631),
     (9930, 78646), (10158, 77681), (10388, 76736), (10618, 75809), (10850, 74900), (11083, 74008),
     (11317, 73132), (11552, 72273), (11788, 71428), (12026, 70599), (12265, 69784), (12505, 68983),
     (12746, 68195), (12988, 67420), (13232, 66657), (13477, 65907), (13723, 65168), (13971, 64441),
     (14220, 63725), (14470, 63019), (14721, 62324), (14974, 61639), (15228, 60963), (15484, 60297),
     (15741, 59641), (15999, 58993), (16259, 58354), (16520, 57724), (16782, 57102), (17047, 56488),
     (17312, 55882), (17579, 55283), (17848, 54693), (18118, 54109), (18390, 53532), (18663, 52963),
     (18938, 52400), (19214, 51844), (19492, 51294), (19772, 50751), (20053, 50214), (20337, 49682),
     (20621, 49157), (20908, 48638), (21196, 48124), (21486, 47615), (21778, 47112), (22072, 46615),
     (22367, 46122), (22664, 45635), (22964, 45153), (23265, 44675), (23568, 44202), (23873, 43734),
     (24180, 43271), (24489, 42812), (24800, 42357), (25113, 41907), (25428, 41461), (25745, 41019),
     (26065, 40581), (26386, 40148), (26710, 39718), (27036, 39292), (27364, 38870), (27695, 38452),
     (28028, 38037), (28363, 37626), (28701, 37218), (29041, 36814), (29383, 36414), (29729, 36016),
     (30076, 35622), (30426, 35232), (30779, 34844), (31135, 34460), (31493, 34079), (31854, 33700),
     (32217, 33325), (32584, 32953), (32953, 32584), (33325, 32217), (33700, 31854), (34079, 31493),
     (34460, 31135), (34844, 30779), (35232, 30426), (35622, 30076), (36016, 29729), (36414, 29383),
     (36814, 29041), (37218, 28701), (37626, 28363), (38037, 28028), (38452, 27695), (38870, 27364),
     (39292, 27036), (39718, 26710), (40148, 26386), (40581, 26065), (41019, 25745), (41461, 25428),
     (41907, 25113), (42357, 24800), (42812, 24489), (43271, 24180), (43734, 23873), (44202, 23568),
     (44675, 23265), (45153, 22964), (45635, 22664), (46122, 22367), (46615, 22072), (47112, 21778),
     (47615, 21486), (48124, 21196), (48638, 20908), (49157, 20621), (49682, 20337), (50214, 20053),
     (50751, 19772), (51294, 19492), (51844, 19214), (52400, 18938), (52963, 18663), (53532, 18390),
     (54109, 18118), (54693, 17848), (55283, 17579), (55882, 17312), (56488, 17047), (57102, 16782),
     (57724, 16520), (58354, 16259), (58993, 15999), (59641, 15741), (60297, 15484), (60963, 15228),
     (61639, 14974), (62324, 14721), (63019, 14470), (63725, 14220), (64441, 13971), (65168, 13723),
     (65907, 13477), (66657, 13232), (67420, 12988), (68195, 12746), (68983, 12505), (69784, 12265),
     (70599, 12026), (71428, 11788), (72273, 11552), (73132, 11317), (74008, 11083), (74900, 10850),
     (75809, 10618), (76736, 10388), (77681, 10158), (78646, 9930), (79631, 9702), (80637, 9476),
     (81665, 9251), (82715, 9027), (83790, 8804), (84889, 8582), (86015, 8361), (87168, 8141),
     (88350, 7923), (89562, 7705), (90806, 7488), (92084, 7272), (93397, 7057), (94748, 6843),
     (96138, 6630), (97571, 6418), (99048, 6207), (100574, 5997), (102150, 5788), (103780, 5580),
     (105468, 5372), (107220, 5166), (109038, 4960), (110929, 4756), (112899, 4552), (114955, 4349),
     (117104, 4147), (119356, 3946), (121720, 3746), (124209, 3546), (126836, 3347), (129617, 3150),
     (132573, 2953), (135726, 2756), (139104, 2561), (142742, 2367), (146684, 2173), (150985, 1980),
     (155716, 1788), (160974, 1596), (166891, 1406), (173656, 1216), (181553, 1027), (191040, 838),
     (202921, 651), (218827, 464), (242976, 278), (294912, 92)]"

definition getFracBitsArray :: "BinProbModel_Std \<Rightarrow> nat \<times> nat" where
  "getFracBitsArray m = m_binFracBits ! BinProbModel_state m"

definition estFracBits :: "nat \<Rightarrow> BinProbModel_Std \<Rightarrow> nat" where
  "estFracBits bin m = (if bin = 0 then fst (getFracBitsArray m) else snd (getFracBitsArray m))"

definition estFracBitsTrm :: "nat \<Rightarrow> nat" where
  "estFracBitsTrm bin = (if bin \<noteq> 0 then 245691 else 268)"

definition estFracBitsEP :: "nat \<Rightarrow> nat" where
  "estFracBitsEP numBins = u32 (push_bit 15 numBins)"

definition estFracBitsUpdate :: "nat \<Rightarrow> nat \<Rightarrow> BinProbModel_Std \<Rightarrow> nat \<times> BinProbModel_Std" where
  "estFracBitsUpdate bin b m = ((b + estFracBits bin m) mod 2 ^ 64, BinProbModel_update bin m)"

text \<open>The table is symmetric in the two bins, and a more probable bin costs less.\<close>

lemma frac_bits_symmetric: "map (\<lambda>(a, b). (b, a)) (rev m_binFracBits) = m_binFracBits"
  by (simp add: m_binFracBits_def)

lemma frac_bits_length: "length m_binFracBits = 256"
  by (simp add: m_binFracBits_def)

lemma frac_bits_increasing: "list_all2 (\<lambda>x y. fst x < fst y) (butlast m_binFracBits) (tl m_binFracBits)"
  by (simp add: m_binFracBits_def)

end
