(* ===== verification/RefPicLists.thy ===== *)
theory RefPicLists
  imports Hls
begin

section \<open>Reference picture lists: \<^verbatim>\<open>ReferencePictureList\<close> and its syntax\<close>

text \<open>
  The class \<^verbatim>\<open>ReferencePictureList\<close> of \<^verbatim>\<open>Slice.h\<close> with its fixed arrays of
  \<^verbatim>\<open>MAX_NUM_REF_PICS\<close> entries, \<^verbatim>\<open>xCodeRefPicList\<close> of \<^verbatim>\<open>VLCWriter.cpp\<close> and
  \<^verbatim>\<open>parseRefPicList\<close>, \<^verbatim>\<open>copyRefPicList\<close> of \<^verbatim>\<open>VLCReader.cpp\<close>.  An access beyond the arrays,
  undefined in C++, is \<^const>\<open>None\<close>.  The parameters of the sequence that the functions ask for
  (long-term pictures present, bits of a picture order count, weighted prediction) are
  arguments.  Short-term entries are coded by differences of picture order counts, with the sign
  apart; the theorem is that the parser restores every entry.
\<close>

definition MAX_NUM_REF_PICS :: nat where
  "MAX_NUM_REF_PICS = 16"

record ReferencePictureList =
  m_numberOfShorttermPictures :: nat
  m_numberOfLongtermPictures :: nat
  m_isLongtermRefPic :: "bool list"
  m_refPicIdentifier :: "int list"
  m_POC :: "int list"
  m_numberOfActivePictures :: int
  m_deltaPocMSBPresentFlag :: "bool list"
  m_deltaPOCMSBCycleLT :: "int list"
  m_ltrp_in_slice_header_flag :: bool

definition ReferencePictureList_new :: ReferencePictureList where
  "ReferencePictureList_new = \<lparr>m_numberOfShorttermPictures = 0, m_numberOfLongtermPictures = 0,
     m_isLongtermRefPic = replicate 16 False, m_refPicIdentifier = replicate 16 0, m_POC = replicate 16 0,
     m_numberOfActivePictures = 2147483647, m_deltaPocMSBPresentFlag = replicate 16 False,
     m_deltaPOCMSBCycleLT = replicate 16 0, m_ltrp_in_slice_header_flag = False\<rparr>"

definition setRefPicIdentifier :: "nat \<Rightarrow> int \<Rightarrow> bool \<Rightarrow> ReferencePictureList \<Rightarrow> ReferencePictureList option" where
  "setRefPicIdentifier idx identifier isLongterm rpl =
     (if idx \<ge> MAX_NUM_REF_PICS then None
      else Some (rpl\<lparr>m_refPicIdentifier := (m_refPicIdentifier rpl)[idx := identifier],
                     m_isLongtermRefPic := (m_isLongtermRefPic rpl)[idx := isLongterm],
                     m_deltaPocMSBPresentFlag := (m_deltaPocMSBPresentFlag rpl)[idx := False],
                     m_deltaPOCMSBCycleLT := (m_deltaPOCMSBCycleLT rpl)[idx := 0]\<rparr>))"

definition getRefPicIdentifier :: "ReferencePictureList \<Rightarrow> nat \<Rightarrow> int option" where
  "getRefPicIdentifier rpl idx = (if idx \<ge> MAX_NUM_REF_PICS then None else Some (m_refPicIdentifier rpl ! idx))"

definition isRefPicLongterm :: "ReferencePictureList \<Rightarrow> nat \<Rightarrow> bool option" where
  "isRefPicLongterm rpl idx = (if idx \<ge> MAX_NUM_REF_PICS then None else Some (m_isLongtermRefPic rpl ! idx))"

definition getNumRefEntries :: "ReferencePictureList \<Rightarrow> nat" where
  "getNumRefEntries rpl = m_numberOfShorttermPictures rpl + m_numberOfLongtermPictures rpl"

definition setPOC :: "nat \<Rightarrow> int \<Rightarrow> ReferencePictureList \<Rightarrow> ReferencePictureList option" where
  "setPOC idx POC rpl = (if idx \<ge> MAX_NUM_REF_PICS then None else Some (rpl\<lparr>m_POC := (m_POC rpl)[idx := POC]\<rparr>))"

subsection \<open>Writer\<close>

text \<open>The loop over the entries, with \<^verbatim>\<open>prevDelta\<close> and \<^verbatim>\<open>firstSTRP\<close> as loop state; the first
  short-term difference is the picture order count itself.\<close>

fun code_entries :: "ReferencePictureList \<Rightarrow> bool \<Rightarrow> nat \<Rightarrow> bool \<Rightarrow> nat \<Rightarrow> nat \<Rightarrow> int \<Rightarrow> bool
    \<Rightarrow> OutputBitstream \<Rightarrow> OutputBitstream option" where
  "code_entries rpl isLongTermPresent ltLsbBitsCount isForbiddenZeroDeltaPoc 0 ii prevDelta firstSTRP s = Some s"
| "code_entries rpl isLongTermPresent ltLsbBitsCount isForbiddenZeroDeltaPoc (Suc n) ii prevDelta firstSTRP s = do {
     isLongterm \<leftarrow> isRefPicLongterm rpl ii;
     s \<leftarrow> (if isLongTermPresent then WRITE_FLAG (\<not> isLongterm) s else Some s);
     identifier \<leftarrow> getRefPicIdentifier rpl ii;
     if \<not> isLongterm then do {
       let deltaValue = (if firstSTRP then identifier else identifier - prevDelta);
       let absDeltaValue = nat \<bar>deltaValue\<bar>;
       s \<leftarrow> (if isForbiddenZeroDeltaPoc
            then (if absDeltaValue = 0 then None else xWriteUvlc (absDeltaValue - 1) s)
            else xWriteUvlc absDeltaValue s);
       s \<leftarrow> (if absDeltaValue > 0 then WRITE_FLAG (\<not> deltaValue < 0) s else Some s);
       code_entries rpl isLongTermPresent ltLsbBitsCount isForbiddenZeroDeltaPoc n (ii + 1) identifier False s }
     else do {
       s \<leftarrow> (if \<not> m_ltrp_in_slice_header_flag rpl
            then xWriteCode (nat (identifier mod 2 ^ 32)) ltLsbBitsCount s else Some s);
       code_entries rpl isLongTermPresent ltLsbBitsCount isForbiddenZeroDeltaPoc n (ii + 1) prevDelta firstSTRP s } }"

definition xCodeRefPicList ::
  "ReferencePictureList \<Rightarrow> bool \<Rightarrow> nat \<Rightarrow> bool \<Rightarrow> OutputBitstream \<Rightarrow> OutputBitstream option" where
  "xCodeRefPicList rpl isLongTermPresent ltLsbBitsCount isForbiddenZeroDeltaPoc s = do {
     s \<leftarrow> xWriteUvlc (getNumRefEntries rpl) s;
     s \<leftarrow> (if isLongTermPresent then WRITE_FLAG (m_ltrp_in_slice_header_flag rpl) s else Some s);
     code_entries rpl isLongTermPresent ltLsbBitsCount isForbiddenZeroDeltaPoc (getNumRefEntries rpl) 0
       2147483647 True s }"

subsection \<open>Parser\<close>

text \<open>\<^verbatim>\<open>int readValue = code\<close>\<close>

definition int32_of :: "nat \<Rightarrow> int" where
  "int32_of c = (if c < 2 ^ 31 then int c else int c - 2 ^ 32)"

text \<open>The loop; a long-term entry that is signalled in the slice header gets the value \<^verbatim>\<open>code\<close> has
  from the flag just read, which is 0.\<close>

fun parse_entries :: "bool \<Rightarrow> bool \<Rightarrow> nat \<Rightarrow> nat \<Rightarrow> nat \<Rightarrow> int \<Rightarrow> bool \<Rightarrow> nat \<Rightarrow> nat \<Rightarrow> ReferencePictureList
    \<Rightarrow> InputBitstream \<Rightarrow> ((nat \<times> nat \<times> ReferencePictureList) \<times> InputBitstream) option" where
  "parse_entries longTermRefsPresent useWP bitsForPOC 0 ii prevDelta firstSTRP numStrp numLtrp rpl s =
     Some ((numStrp, numLtrp, rpl), s)"
| "parse_entries longTermRefsPresent useWP bitsForPOC (Suc n) ii prevDelta firstSTRP numStrp numLtrp rpl s = do {
     (isLongTerm, s) \<leftarrow> (if longTermRefsPresent then do { (st, s) \<leftarrow> READ_FLAG s; Some (\<not> st, s) } else Some (False, s));
     if \<not> isLongTerm then do {
       (code, s) \<leftarrow> xReadUvlc s;
       let code = (if \<not> useWP then u32 (code + 1) else code);
       let readValue = int32_of code;
       (sign, s) \<leftarrow> (if readValue > 0 then READ_FLAG s else Some (True, s));
       let readValue = (if sign then readValue else 0 - readValue);
       let deltaValue = (if firstSTRP then readValue else prevDelta + readValue);
       (rpl, s) \<leftarrow> (case setRefPicIdentifier ii deltaValue isLongTerm rpl of None \<Rightarrow> None | Some r \<Rightarrow> Some (r, s));
       parse_entries longTermRefsPresent useWP bitsForPOC n (ii + 1) deltaValue False (numStrp + 1) numLtrp rpl s }
     else do {
       (code, s) \<leftarrow> (if \<not> m_ltrp_in_slice_header_flag rpl then xReadCode bitsForPOC s else Some (0, s));
       (rpl, s) \<leftarrow> (case setRefPicIdentifier ii (int32_of code) isLongTerm rpl of None \<Rightarrow> None | Some r \<Rightarrow> Some (r, s));
       parse_entries longTermRefsPresent useWP bitsForPOC n (ii + 1) prevDelta firstSTRP numStrp (numLtrp + 1) rpl s } }"

definition parseRefPicList :: "bool \<Rightarrow> bool \<Rightarrow> bool \<Rightarrow> nat \<Rightarrow> ReferencePictureList
    \<Rightarrow> InputBitstream \<Rightarrow> (ReferencePictureList \<times> InputBitstream) option" where
  "parseRefPicList longTermRefsPresent useWP useWPBiPred bitsForPOC rpl s = do {
     (numRefPic, s) \<leftarrow> xReadUvlc s;
     (rpl, s) \<leftarrow> (if longTermRefsPresent
                then do { (b, s) \<leftarrow> READ_FLAG s; Some (rpl\<lparr>m_ltrp_in_slice_header_flag := b\<rparr>, s) }
                else Some (rpl, s));
     ((numStrp, numLtrp, rpl), s) \<leftarrow>
       parse_entries longTermRefsPresent (useWP \<or> useWPBiPred) bitsForPOC numRefPic 0 2147483647 True 0 0 rpl s;
     Some (rpl\<lparr>m_numberOfShorttermPictures := numStrp, m_numberOfLongtermPictures := numLtrp\<rparr>, s) }"

text \<open>\<^verbatim>\<open>copyRefPicList\<close>; with long-term pictures present, the number of long-term pictures of the
  destination is set to itself.\<close>

fun copy_entries :: "ReferencePictureList \<Rightarrow> nat \<Rightarrow> nat \<Rightarrow> ReferencePictureList \<Rightarrow> ReferencePictureList option" where
  "copy_entries src 0 ii dest = Some dest"
| "copy_entries src (Suc n) ii dest = do {
     identifier \<leftarrow> getRefPicIdentifier src ii;
     isLongterm \<leftarrow> isRefPicLongterm src ii;
     dest \<leftarrow> setRefPicIdentifier ii identifier isLongterm dest;
     copy_entries src n (ii + 1) dest }"

definition copyRefPicList :: "bool \<Rightarrow> ReferencePictureList \<Rightarrow> ReferencePictureList \<Rightarrow> ReferencePictureList option" where
  "copyRefPicList longTermRefsPresent source_rpl dest_rp =
     (let dest_rp = dest_rp\<lparr>m_numberOfShorttermPictures := m_numberOfShorttermPictures source_rpl\<rparr>;
          dest_rp = dest_rp\<lparr>m_numberOfLongtermPictures :=
            (if longTermRefsPresent then m_numberOfLongtermPictures dest_rp else 0)\<rparr>
      in copy_entries source_rpl (getNumRefEntries dest_rp) 0 dest_rp)"

subsection \<open>The parser restores the list\<close>

text \<open>What a list must satisfy to be codable: within the arrays, differences that fit, no long-term
  entry where the syntax has none, and its value within the bits of a picture order count.\<close>

fun entries_ok :: "ReferencePictureList \<Rightarrow> bool \<Rightarrow> nat \<Rightarrow> bool \<Rightarrow> nat \<Rightarrow> nat \<Rightarrow> int \<Rightarrow> bool \<Rightarrow> bool" where
  "entries_ok rpl lt bits forb 0 ii prev first \<longleftrightarrow> True"
| "entries_ok rpl lt bits forb (Suc n) ii prev first \<longleftrightarrow>
     (let identifier = m_refPicIdentifier rpl ! ii in
      ii < MAX_NUM_REF_PICS \<and>
      (if \<not> m_isLongtermRefPic rpl ! ii
       then (let delta = (if first then identifier else identifier - prev)
             in \<bar>delta\<bar> < 2 ^ 31 \<and> (forb \<longrightarrow> delta \<noteq> 0)) \<and> entries_ok rpl lt bits forb n (ii + 1) identifier False
       else lt \<and> (if m_ltrp_in_slice_header_flag rpl then identifier = 0
                  else 0 < bits \<and> bits \<le> 31 \<and> 0 \<le> identifier \<and> identifier < 2 ^ bits)
         \<and> entries_ok rpl lt bits forb n (ii + 1) prev first))"

lemma setRefPicIdentifier_flag:
  "setRefPicIdentifier i v b r = Some r' \<Longrightarrow> m_ltrp_in_slice_header_flag r' = m_ltrp_in_slice_header_flag r"
  by (auto simp: setRefPicIdentifier_def split: if_splits)

lemma int32_of_id: "c < 2 ^ 31 \<Longrightarrow> int32_of c = int c"
  by (simp add: int32_of_def)

lemma delta_codec:
  assumes "\<bar>delta\<bar> < 2 ^ 31" and "forb \<longrightarrow> delta \<noteq> 0" and "hls_codec W (Q delta) v"
  shows "hls_codec
    (\<lambda>s. Option.bind (if forb then (if nat \<bar>delta\<bar> = 0 then None else xWriteUvlc (nat \<bar>delta\<bar> - 1) s) else xWriteUvlc (nat \<bar>delta\<bar>) s)
       (\<lambda>s. Option.bind (if nat \<bar>delta\<bar> > 0 then WRITE_FLAG (\<not> delta < 0) s else Some s) W))
    (\<lambda>s. Option.bind (xReadUvlc s) (\<lambda>(code, s).
       let code = (if \<not> \<not> forb then u32 (code + 1) else code);
           readValue = int32_of code
       in Option.bind (if readValue > 0 then READ_FLAG s else Some (True, s)) (\<lambda>(sign, s).
         let readValue = (if sign then readValue else 0 - readValue) in Q readValue s))) v"
proof -
  let ?c = "if forb then nat \<bar>delta\<bar> - 1 else nat \<bar>delta\<bar>"
  have d: "nat \<bar>delta\<bar> < 2 ^ 31" using assms(1) by (simp add: nat_less_iff)
  have w: "(if forb then (if nat \<bar>delta\<bar> = 0 then None else xWriteUvlc (nat \<bar>delta\<bar> - 1) s) else xWriteUvlc (nat \<bar>delta\<bar>) s)
      = xWriteUvlc ?c s" for s using assms(2) by simp
  have c: "(if \<not> \<not> forb then u32 (?c + 1) else ?c) = nat \<bar>delta\<bar>"
    using d assms(2) by (simp add: u32_id)
  have sign: "(if \<not> delta < 0 then int (nat \<bar>delta\<bar>) else 0 - int (nat \<bar>delta\<bar>)) = delta" by simp
  have 1: "hls_codec (xWriteUvlc ?c) xReadUvlc ?c" by (rule hls_UVLC) (use d in auto)
  have 2: "hls_codec (\<lambda>s. if nat \<bar>delta\<bar> > 0 then WRITE_FLAG (\<not> delta < 0) s else Some s)
      (\<lambda>s. if int (nat \<bar>delta\<bar>) > 0 then READ_FLAG s else Some (True, s)) (\<not> delta < 0)"
    by (intro codec_if hls_FLAG codec_Some') auto
  have "hls_codec W (Q (if \<not> delta < 0 then int (nat \<bar>delta\<bar>) else 0 - int (nat \<bar>delta\<bar>))) v"
    unfolding sign by (rule assms(3))
  note 3 = codec_bind [where Q = "\<lambda>x. Q (if x then int (nat \<bar>delta\<bar>) else 0 - int (nat \<bar>delta\<bar>))", OF 2 this]
  show ?thesis unfolding w Let_def
    by (rule codec_bind [OF 1]) (unfold c int32_of_id [OF d], rule 3)
qed

lemma longterm_codec:
  assumes "flag \<longrightarrow> ident = 0" and "\<not> flag \<longrightarrow> 0 < bits \<and> bits \<le> 31 \<and> 0 \<le> ident \<and> ident < 2 ^ bits"
    and "hls_codec W (Q ident) v"
  shows "hls_codec
    (\<lambda>s. Option.bind (if \<not> flag then xWriteCode (nat (ident mod 2 ^ 32)) bits s else Some s) W)
    (\<lambda>s. Option.bind (if \<not> flag then xReadCode bits s else Some (0, s)) (\<lambda>(code, s). Q (int32_of code) s)) v"
proof (cases flag)
  case True
  then show ?thesis using assms by (simp add: int32_of_def)
next
  case False
  then have i: "0 < bits" "bits \<le> 31" "0 \<le> ident" "ident < 2 ^ bits" using assms(2) by auto
  have "(2::int) ^ bits \<le> 2 ^ 31" using i(2) by (intro power_increasing) auto
  then have m: "ident mod 2 ^ 32 = ident" "nat ident < 2 ^ bits" "nat ident < 2 ^ 31"
    using i(3,4) by (simp_all add: nat_less_iff)
  have "hls_codec (xWriteCode (nat (ident mod 2 ^ 32)) bits) (xReadCode bits) (nat ident)"
    unfolding m(1) by (rule hls_CODE) (use i m in simp_all)
  moreover have "hls_codec W (Q (int32_of (nat ident))) v"
    using assms(3) int32_of_id [OF m(3)] i(3) by simp
  ultimately have "hls_codec (\<lambda>s. Option.bind (xWriteCode (nat (ident mod 2 ^ 32)) bits s) W)
      (\<lambda>s. Option.bind (xReadCode bits s) (\<lambda>(code, s). Q (int32_of code) s)) v"
    by (rule codec_bind [where v = "nat ident"])
  then show ?thesis using False by simp
qed

lemma entries_codec:
  assumes "entries_ok rpl lt bits forb n ii prev first"
    and "m_ltrp_in_slice_header_flag r = m_ltrp_in_slice_header_flag rpl" and "length (m_isLongtermRefPic rpl) = 16"
  shows "\<exists>r'. copy_entries rpl n ii r = Some r' \<and>
    hls_codec (code_entries rpl lt bits forb n ii prev first) (parse_entries lt (\<not> forb) bits n ii prev first ns nl r)
      (ns + length (filter Not (take n (drop ii (m_isLongtermRefPic rpl)))),
       nl + length (filter (\<lambda>b. b) (take n (drop ii (m_isLongtermRefPic rpl)))), r')"
  using assms
proof (induction n arbitrary: ii prev first ns nl r)
  case 0
  then show ?case
    by (auto intro!: codec_ext [where W' = Some, OF _ _ codec_Some'])
next
  case (Suc n)
  let ?id = "m_refPicIdentifier rpl ! ii" and ?lt = "m_isLongtermRefPic rpl ! ii"
  have ii: "ii < MAX_NUM_REF_PICS" using Suc.prems(1) by (simp add: Let_def)
  then obtain r1 where r1: "setRefPicIdentifier ii ?id ?lt r = Some r1" by (simp add: setRefPicIdentifier_def)
  have f1: "m_ltrp_in_slice_header_flag r1 = m_ltrp_in_slice_header_flag rpl"
    using setRefPicIdentifier_flag [OF r1] Suc.prems(2) by simp
  have get: "getRefPicIdentifier rpl ii = Some ?id" "isRefPicLongterm rpl ii = Some ?lt"
    using ii by (simp_all add: getRefPicIdentifier_def isRefPicLongterm_def)
  have drop: "drop ii (m_isLongtermRefPic rpl) = ?lt # drop (ii + 1) (m_isLongtermRefPic rpl)"
    using ii Suc.prems(3) by (simp add: MAX_NUM_REF_PICS_def Cons_nth_drop_Suc)
  let ?tl = "take n (drop (ii + 1) (m_isLongtermRefPic rpl))"
  show ?case
  proof (cases ?lt)
    case False
    let ?d = "if first then ?id else ?id - prev"
    have ok: "entries_ok rpl lt bits forb n (ii + 1) ?id False" "\<bar>?d\<bar> < 2 ^ 31" "forb \<longrightarrow> ?d \<noteq> 0"
      using Suc.prems(1) False by (auto simp: Let_def)
    from Suc.IH [OF ok(1) f1 Suc.prems(3), of "ns + 1" nl] obtain r' where
      r': "copy_entries rpl n (ii + 1) r1 = Some r'"
      "hls_codec (code_entries rpl lt bits forb n (ii + 1) ?id False)
         (parse_entries lt (\<not> forb) bits n (ii + 1) ?id False (ns + 1) nl r1)
         (ns + 1 + length (filter Not ?tl), nl + length (filter (\<lambda>b. b) ?tl), r')" by blast
    let ?v = "(ns + 1 + length (filter Not ?tl), nl + length (filter (\<lambda>b. b) ?tl), r')"
    let ?Q = "\<lambda>x s. let d = (if first then x else prev + x) in
      Option.bind (case setRefPicIdentifier ii d False r of None \<Rightarrow> None | Some r \<Rightarrow> Some (r, s))
        (\<lambda>(r, s). parse_entries lt (\<not> forb) bits n (ii + 1) d False (ns + 1) nl r s)"
    have Q: "hls_codec (code_entries rpl lt bits forb n (ii + 1) ?id False) (?Q ?d) ?v"
    proof -
      have "(if first then ?d else prev + ?d) = ?id" by simp
      then have "?Q ?d = parse_entries lt (\<not> forb) bits n (ii + 1) ?id False (ns + 1) nl r1"
        using r1 False by (auto simp: Let_def)
      with r'(2) show ?thesis by simp
    qed
    note main = delta_codec [where Q = ?Q, OF ok(2,3) Q]
    have "hls_codec (code_entries rpl lt bits forb (Suc n) ii prev first)
        (parse_entries lt (\<not> forb) bits (Suc n) ii prev first ns nl r) ?v"
      apply (rule codec_ext)
        apply (simp only: code_entries.simps get False bind.bind_lunit simp_thms if_True)
       apply (simp only: parse_entries.simps)
      apply (rule codec_bind [where v = False])
       apply (rule codec_if, simp)
        apply (rule codec_last [where v = True], rule hls_FLAG, rule codec_Some', simp)
       apply (rule codec_Some', simp)
      using main by (simp add: Let_def)
    then show ?thesis using r' r1 get False by (simp add: drop del: code_entries.simps parse_entries.simps)
  next
    case True
    have ok: "entries_ok rpl lt bits forb n (ii + 1) prev first" "lt" "m_ltrp_in_slice_header_flag rpl \<longrightarrow> ?id = 0"
      "\<not> m_ltrp_in_slice_header_flag rpl \<longrightarrow> 0 < bits \<and> bits \<le> 31 \<and> 0 \<le> ?id \<and> ?id < 2 ^ bits"
      using Suc.prems(1) True by (auto simp: Let_def split: if_splits)
    from Suc.IH [OF ok(1) f1 Suc.prems(3), of ns "nl + 1"] obtain r' where
      r': "copy_entries rpl n (ii + 1) r1 = Some r'"
      "hls_codec (code_entries rpl lt bits forb n (ii + 1) prev first)
         (parse_entries lt (\<not> forb) bits n (ii + 1) prev first ns (nl + 1) r1)
         (ns + length (filter Not ?tl), nl + 1 + length (filter (\<lambda>b. b) ?tl), r')" by blast
    let ?v = "(ns + length (filter Not ?tl), nl + 1 + length (filter (\<lambda>b. b) ?tl), r')"
    let ?Q = "\<lambda>x s. Option.bind (case setRefPicIdentifier ii x True r of None \<Rightarrow> None | Some r \<Rightarrow> Some (r, s))
        (\<lambda>(r, s). parse_entries lt (\<not> forb) bits n (ii + 1) prev first ns (nl + 1) r s)"
    have Q: "hls_codec (code_entries rpl lt bits forb n (ii + 1) prev first) (?Q ?id) ?v"
      using r'(2) r1 True by simp
    note main = longterm_codec [where Q = ?Q, OF ok(3,4) Q]
    have "hls_codec (code_entries rpl lt bits forb (Suc n) ii prev first)
        (parse_entries lt (\<not> forb) bits (Suc n) ii prev first ns nl r) ?v"
      apply (rule codec_ext)
        apply (simp only: code_entries.simps get True bind.bind_lunit simp_thms if_False ok(2) if_True)
       apply (simp only: parse_entries.simps ok(2) if_True)
      apply (rule codec_bind [where v = True])
       apply (rule codec_last [where v = False], rule hls_FLAG, rule codec_Some', simp)
      using main Suc.prems(2) ok(2) by simp
    then show ?thesis using r' r1 get True by (simp add: drop del: code_entries.simps parse_entries.simps)
  qed
qed

definition rpl_ok :: "bool \<Rightarrow> nat \<Rightarrow> bool \<Rightarrow> ReferencePictureList \<Rightarrow> bool" where
  "rpl_ok lt bits forb rpl \<longleftrightarrow>
     length (m_isLongtermRefPic rpl) = 16 \<and> length (m_refPicIdentifier rpl) = 16 \<and> getNumRefEntries rpl \<le> 16
     \<and> m_numberOfShorttermPictures rpl = length (filter Not (take (getNumRefEntries rpl) (m_isLongtermRefPic rpl)))
     \<and> m_numberOfLongtermPictures rpl = length (filter (\<lambda>b. b) (take (getNumRefEntries rpl) (m_isLongtermRefPic rpl)))
     \<and> (\<not> lt \<longrightarrow> \<not> m_ltrp_in_slice_header_flag rpl)
     \<and> entries_ok rpl lt bits forb (getNumRefEntries rpl) 0 2147483647 True"

lemma copy_entries_ok:
  assumes "copy_entries src n ii dest = Some r" and "length (m_isLongtermRefPic dest) = 16"
    and "length (m_refPicIdentifier dest) = 16"
  shows "length (m_isLongtermRefPic r) = 16 \<and> length (m_refPicIdentifier r) = 16
    \<and> m_ltrp_in_slice_header_flag r = m_ltrp_in_slice_header_flag dest
    \<and> (\<forall>i < 16. m_refPicIdentifier r ! i = (if ii \<le> i \<and> i < ii + n then m_refPicIdentifier src ! i else m_refPicIdentifier dest ! i)
         \<and> m_isLongtermRefPic r ! i = (if ii \<le> i \<and> i < ii + n then m_isLongtermRefPic src ! i else m_isLongtermRefPic dest ! i))"
  using assms
proof (induction n arbitrary: ii dest)
  case (Suc n)
  let ?id = "m_refPicIdentifier src ! ii" and ?lt = "m_isLongtermRefPic src ! ii"
  from Suc.prems(1) obtain d1 where ii: "ii < 16"
    and d1: "setRefPicIdentifier ii ?id ?lt dest = Some d1" "copy_entries src n (ii + 1) d1 = Some r"
    by (auto simp: getRefPicIdentifier_def isRefPicLongterm_def MAX_NUM_REF_PICS_def split: if_splits bind_splits)
  have f: "m_refPicIdentifier d1 = (m_refPicIdentifier dest)[ii := ?id]"
    "m_isLongtermRefPic d1 = (m_isLongtermRefPic dest)[ii := ?lt]"
    "m_ltrp_in_slice_header_flag d1 = m_ltrp_in_slice_header_flag dest"
    using d1(1) by (auto simp: setRefPicIdentifier_def split: if_splits)
  have "length (m_isLongtermRefPic d1) = 16" "length (m_refPicIdentifier d1) = 16" using f Suc.prems by simp_all
  from Suc.IH [OF d1(2) this] show ?case
    unfolding f using Suc.prems(2,3) ii by (auto simp: nth_list_update)
qed auto

text \<open>The theorem for a list coded in a parameter set or slice header: the parser, started on a fresh
  list, restores the entries and the counts.\<close>

lemma refPicList_codec:
  assumes "rpl_ok lt bits (\<not> (useWP \<or> useWPBiPred)) rpl"
  shows "\<exists>r. hls_codec (xCodeRefPicList rpl lt bits (\<not> (useWP \<or> useWPBiPred)))
      (parseRefPicList lt useWP useWPBiPred bits ReferencePictureList_new) r
    \<and> m_numberOfShorttermPictures r = m_numberOfShorttermPictures rpl
    \<and> m_numberOfLongtermPictures r = m_numberOfLongtermPictures rpl
    \<and> m_ltrp_in_slice_header_flag r = m_ltrp_in_slice_header_flag rpl
    \<and> (\<forall>i < getNumRefEntries rpl. m_refPicIdentifier r ! i = m_refPicIdentifier rpl ! i
         \<and> m_isLongtermRefPic r ! i = m_isLongtermRefPic rpl ! i)"
proof -
  let ?n = "getNumRefEntries rpl" and ?flag = "m_ltrp_in_slice_header_flag rpl" and ?forb = "\<not> (useWP \<or> useWPBiPred)"
  let ?fresh = "ReferencePictureList_new\<lparr>m_ltrp_in_slice_header_flag := ?flag\<rparr>"
  note ok = assms [unfolded rpl_ok_def]
  have "entries_ok rpl lt bits ?forb ?n 0 2147483647 True" "m_ltrp_in_slice_header_flag ?fresh = ?flag"
    "length (m_isLongtermRefPic rpl) = 16" using ok by simp_all
  from entries_codec [OF this, of 0 0] obtain r' where r': "copy_entries rpl ?n 0 ?fresh = Some r'"
    and c: "hls_codec (code_entries rpl lt bits ?forb ?n 0 2147483647 True)
      (parse_entries lt (\<not> ?forb) bits ?n 0 2147483647 True 0 0 ?fresh)
      (m_numberOfShorttermPictures rpl, m_numberOfLongtermPictures rpl, r')" using ok by auto
  let ?r = "r'\<lparr>m_numberOfShorttermPictures := m_numberOfShorttermPictures rpl,
    m_numberOfLongtermPictures := m_numberOfLongtermPictures rpl\<rparr>"
  have "length (m_isLongtermRefPic ?fresh) = 16 \<and> length (m_refPicIdentifier ?fresh) = 16"
    by (simp add: ReferencePictureList_new_def)
  then have e: "\<forall>i < 16. m_refPicIdentifier r' ! i = (if i < ?n then m_refPicIdentifier rpl ! i else m_refPicIdentifier ?fresh ! i)
         \<and> m_isLongtermRefPic r' ! i = (if i < ?n then m_isLongtermRefPic rpl ! i else m_isLongtermRefPic ?fresh ! i)"
    "m_ltrp_in_slice_header_flag r' = ?flag"
    using copy_entries_ok [OF r'] by auto
  have n: "hls_codec (xWriteUvlc ?n) xReadUvlc ?n" by (rule hls_UVLC) (use ok in simp)
  have f: "hls_codec (\<lambda>s. if lt then WRITE_FLAG ?flag s else Some s)
      (\<lambda>s. if lt then Option.bind (READ_FLAG s)
            (\<lambda>(b, s). Some (ReferencePictureList_new\<lparr>m_ltrp_in_slice_header_flag := b\<rparr>, s))
          else Some (ReferencePictureList_new, s)) ?fresh"
    by (intro codec_if codec_last [where v = ?flag] hls_FLAG codec_Some')
      (use ok in \<open>auto simp: ReferencePictureList_new_def\<close>)
  have l: "hls_codec (code_entries rpl lt bits ?forb ?n 0 2147483647 True)
      (\<lambda>s. Option.bind (parse_entries lt (useWP \<or> useWPBiPred) bits ?n 0 2147483647 True 0 0 ?fresh s)
         (\<lambda>(x, s). (\<lambda>(ns, nl, r) s. Some (r\<lparr>m_numberOfShorttermPictures := ns, m_numberOfLongtermPictures := nl\<rparr>, s)) x s)) ?r"
    by (rule codec_last [OF c [unfolded not_not]]) (simp add: codec_Some')
  have "hls_codec (xCodeRefPicList rpl lt bits ?forb) (parseRefPicList lt useWP useWPBiPred bits ReferencePictureList_new) ?r"
    apply (rule codec_ext)
      apply (rule xCodeRefPicList_def)
     apply (rule parseRefPicList_def)
    apply (rule codec_bind [OF n])
    apply (rule codec_bind [OF f])
    using l by (simp add: case_prod_beta')
  then show ?thesis using e ok by (intro exI [of _ ?r]) auto
qed

end
