(* ===== verification/Vui.thy ===== *)
theory Vui
  imports Hls
begin

section \<open>Video usability information\<close>

text \<open>
  The class \<^verbatim>\<open>VUI\<close> of \<^verbatim>\<open>Slice.h\<close>, \<^verbatim>\<open>codeVUI\<close> and \<^verbatim>\<open>parseVUI\<close>.  The parser updates an object
  field by field; a field whose flag is off keeps its value.
\<close>

record VUI =
  m_aspectRatioInfoPresentFlag :: bool
  m_aspectRatioIdc :: nat
  m_sarWidth :: nat
  m_sarHeight :: nat
  m_colourDescriptionPresentFlag :: bool
  m_colourPrimaries :: nat
  m_transferCharacteristics :: nat
  m_matrixCoefficients :: nat
  m_fieldSeqFlag :: bool
  m_chromaLocInfoPresentFlag :: bool
  m_chromaSampleLocTypeTopField :: nat
  m_chromaSampleLocTypeBottomField :: nat
  m_chromaSampleLocType :: nat
  m_overscanInfoPresentFlag :: bool
  m_overscanAppropriateFlag :: bool
  m_videoSignalTypePresentFlag :: bool
  m_videoFullRangeFlag :: bool

definition VUI_new :: VUI where
  "VUI_new = \<lparr>m_aspectRatioInfoPresentFlag = False, m_aspectRatioIdc = 0, m_sarWidth = 0, m_sarHeight = 0,
     m_colourDescriptionPresentFlag = False, m_colourPrimaries = 2, m_transferCharacteristics = 2,
     m_matrixCoefficients = 2, m_fieldSeqFlag = False, m_chromaLocInfoPresentFlag = False,
     m_chromaSampleLocTypeTopField = 0, m_chromaSampleLocTypeBottomField = 0, m_chromaSampleLocType = 0,
     m_overscanInfoPresentFlag = False, m_overscanAppropriateFlag = False, m_videoSignalTypePresentFlag = False,
     m_videoFullRangeFlag = False\<rparr>"

text \<open>The part under \<^verbatim>\<open>chroma_loc_info_present_flag\<close>.\<close>

definition code_chroma_loc :: "VUI \<Rightarrow> OutputBitstream \<Rightarrow> OutputBitstream option" where
  "code_chroma_loc v s =
     (if m_chromaLocInfoPresentFlag v then
        (if m_fieldSeqFlag v then do {
           s \<leftarrow> xWriteUvlc (m_chromaSampleLocTypeTopField v) s;
           xWriteUvlc (m_chromaSampleLocTypeBottomField v) s }
         else xWriteUvlc (m_chromaSampleLocType v) s)
      else Some s)"

definition parse_chroma_loc :: "VUI \<Rightarrow> InputBitstream \<Rightarrow> (VUI \<times> InputBitstream) option" where
  "parse_chroma_loc v s =
     (if m_chromaLocInfoPresentFlag v then
        (if m_fieldSeqFlag v then do {
           (c, s) \<leftarrow> xReadUvlc s;
           let v = v\<lparr>m_chromaSampleLocTypeTopField := c\<rparr>;
           (c, s) \<leftarrow> xReadUvlc s;
           Some (v\<lparr>m_chromaSampleLocTypeBottomField := c\<rparr>, s) }
         else do {
           (c, s) \<leftarrow> xReadUvlc s;
           Some (v\<lparr>m_chromaSampleLocType := c\<rparr>, s) })
      else Some (v, s))"

definition codeVUI :: "VUI \<Rightarrow> OutputBitstream \<Rightarrow> OutputBitstream option" where
  "codeVUI v s = do {
     s \<leftarrow> WRITE_FLAG (m_aspectRatioInfoPresentFlag v) s;
     s \<leftarrow> (if m_aspectRatioInfoPresentFlag v then do {
            s \<leftarrow> xWriteCode (m_aspectRatioIdc v) 8 s;
            if m_aspectRatioIdc v = 255 then do {
              s \<leftarrow> xWriteCode (m_sarWidth v) 16 s;
              xWriteCode (m_sarHeight v) 16 s }
            else Some s }
          else Some s);
     s \<leftarrow> WRITE_FLAG (m_colourDescriptionPresentFlag v) s;
     s \<leftarrow> (if m_colourDescriptionPresentFlag v then do {
            s \<leftarrow> xWriteCode (m_colourPrimaries v) 8 s;
            s \<leftarrow> xWriteCode (m_transferCharacteristics v) 8 s;
            xWriteCode (m_matrixCoefficients v) 8 s }
          else Some s);
     s \<leftarrow> WRITE_FLAG (m_fieldSeqFlag v) s;
     s \<leftarrow> WRITE_FLAG (m_chromaLocInfoPresentFlag v) s;
     s \<leftarrow> code_chroma_loc v s;
     s \<leftarrow> WRITE_FLAG (m_overscanInfoPresentFlag v) s;
     s \<leftarrow> (if m_overscanInfoPresentFlag v then WRITE_FLAG (m_overscanAppropriateFlag v) s else Some s);
     s \<leftarrow> WRITE_FLAG (m_videoSignalTypePresentFlag v) s;
     if m_videoSignalTypePresentFlag v then WRITE_FLAG (m_videoFullRangeFlag v) s else Some s }"

definition parseVUI :: "VUI \<Rightarrow> InputBitstream \<Rightarrow> (VUI \<times> InputBitstream) option" where
  "parseVUI v s = do {
     (b, s) \<leftarrow> READ_FLAG s;
     let v = v\<lparr>m_aspectRatioInfoPresentFlag := b\<rparr>;
     (v, s) \<leftarrow> (if m_aspectRatioInfoPresentFlag v then do {
            (c, s) \<leftarrow> xReadCode 8 s;
            let v = v\<lparr>m_aspectRatioIdc := c\<rparr>;
            if m_aspectRatioIdc v = 255 then do {
              (c, s) \<leftarrow> xReadCode 16 s;
              let v = v\<lparr>m_sarWidth := c\<rparr>;
              (c, s) \<leftarrow> xReadCode 16 s;
              Some (v\<lparr>m_sarHeight := c\<rparr>, s) }
            else Some (v, s) }
          else Some (v, s));
     (b, s) \<leftarrow> READ_FLAG s;
     let v = v\<lparr>m_colourDescriptionPresentFlag := b\<rparr>;
     (v, s) \<leftarrow> (if m_colourDescriptionPresentFlag v then do {
            (c, s) \<leftarrow> xReadCode 8 s;
            let v = v\<lparr>m_colourPrimaries := c\<rparr>;
            (c, s) \<leftarrow> xReadCode 8 s;
            let v = v\<lparr>m_transferCharacteristics := c\<rparr>;
            (c, s) \<leftarrow> xReadCode 8 s;
            Some (v\<lparr>m_matrixCoefficients := c\<rparr>, s) }
          else Some (v, s));
     (b, s) \<leftarrow> READ_FLAG s;
     let v = v\<lparr>m_fieldSeqFlag := b\<rparr>;
     (b, s) \<leftarrow> READ_FLAG s;
     let v = v\<lparr>m_chromaLocInfoPresentFlag := b\<rparr>;
     (v, s) \<leftarrow> parse_chroma_loc v s;
     (b, s) \<leftarrow> READ_FLAG s;
     let v = v\<lparr>m_overscanInfoPresentFlag := b\<rparr>;
     (v, s) \<leftarrow> (if m_overscanInfoPresentFlag v
               then do { (b, s) \<leftarrow> READ_FLAG s; Some (v\<lparr>m_overscanAppropriateFlag := b\<rparr>, s) }
               else Some (v, s));
     (b, s) \<leftarrow> READ_FLAG s;
     let v = v\<lparr>m_videoSignalTypePresentFlag := b\<rparr>;
     if m_videoSignalTypePresentFlag v
     then do { (b, s) \<leftarrow> READ_FLAG s; Some (v\<lparr>m_videoFullRangeFlag := b\<rparr>, s) }
     else Some (v, s) }"

text \<open>The values that can be coded: within their bits, and as in \<open>v0\<close> where the syntax has no element.\<close>

definition VUI_ok :: "VUI \<Rightarrow> VUI \<Rightarrow> bool" where
  "VUI_ok v0 v \<longleftrightarrow>
     m_aspectRatioIdc v < 256 \<and> m_sarWidth v < 65536 \<and> m_sarHeight v < 65536
     \<and> m_colourPrimaries v < 256 \<and> m_transferCharacteristics v < 256 \<and> m_matrixCoefficients v < 256
     \<and> m_chromaSampleLocTypeTopField v < 4294967295 \<and> m_chromaSampleLocTypeBottomField v < 4294967295
     \<and> m_chromaSampleLocType v < 4294967295
     \<and> (\<not> m_aspectRatioInfoPresentFlag v \<longrightarrow> m_aspectRatioIdc v = m_aspectRatioIdc v0)
     \<and> (\<not> (m_aspectRatioInfoPresentFlag v \<and> m_aspectRatioIdc v = 255) \<longrightarrow>
          m_sarWidth v = m_sarWidth v0 \<and> m_sarHeight v = m_sarHeight v0)
     \<and> (\<not> m_colourDescriptionPresentFlag v \<longrightarrow> m_colourPrimaries v = m_colourPrimaries v0
          \<and> m_transferCharacteristics v = m_transferCharacteristics v0
          \<and> m_matrixCoefficients v = m_matrixCoefficients v0)
     \<and> (\<not> (m_chromaLocInfoPresentFlag v \<and> m_fieldSeqFlag v) \<longrightarrow>
          m_chromaSampleLocTypeTopField v = m_chromaSampleLocTypeTopField v0
          \<and> m_chromaSampleLocTypeBottomField v = m_chromaSampleLocTypeBottomField v0)
     \<and> (\<not> (m_chromaLocInfoPresentFlag v \<and> \<not> m_fieldSeqFlag v) \<longrightarrow> m_chromaSampleLocType v = m_chromaSampleLocType v0)
     \<and> (\<not> m_overscanInfoPresentFlag v \<longrightarrow> m_overscanAppropriateFlag v = m_overscanAppropriateFlag v0)
     \<and> (\<not> m_videoSignalTypePresentFlag v \<longrightarrow> m_videoFullRangeFlag v = m_videoFullRangeFlag v0)"

lemma chroma_loc_codec:
  assumes "VUI_ok v0 v" and "m_chromaLocInfoPresentFlag u = m_chromaLocInfoPresentFlag v"
    and "m_fieldSeqFlag u = m_fieldSeqFlag v"
    and "m_chromaSampleLocTypeTopField u = m_chromaSampleLocTypeTopField v0"
    and "m_chromaSampleLocTypeBottomField u = m_chromaSampleLocTypeBottomField v0"
    and "m_chromaSampleLocType u = m_chromaSampleLocType v0"
  shows "hls_codec (code_chroma_loc v) (parse_chroma_loc u)
    (u\<lparr>m_chromaSampleLocTypeTopField := m_chromaSampleLocTypeTopField v,
       m_chromaSampleLocTypeBottomField := m_chromaSampleLocTypeBottomField v,
       m_chromaSampleLocType := m_chromaSampleLocType v\<rparr>)"
proof -
  note ok = assms(1) [unfolded VUI_ok_def] assms(2-)
  show ?thesis
    by (rule codec_ext, rule code_chroma_loc_def, rule parse_chroma_loc_def, unfold Let_def,
      ((rule hls_rules | (simp add: ok; fail))+))
qed

lemma VUI_codec:
  assumes "VUI_ok v0 v"
  shows "hls_codec (codeVUI v) (parseVUI v0) v"
proof -
  note ok = assms [unfolded VUI_ok_def]
  show ?thesis
    by (rule codec_ext, rule codeVUI_def, rule parseVUI_def, unfold Let_def,
      ((rule hls_rules chroma_loc_codec [OF assms] | (simp add: ok; fail))+))
qed

text \<open>
  C15. Video usability information: the parser, started on an object \<open>v0\<close>, reads what \<^verbatim>\<open>codeVUI\<close> wrote
  for any object that differs from \<open>v0\<close> only in signalled elements, also when the structure is
  embedded in a payload with its trailing bits.
\<close>

theorem vui_roundtrip:
  assumes "VUI_ok v0 v"
  shows "\<exists>ys s. write_rbsp (codeVUI v) = Some ys \<and> bytes_ok ys \<and> read_rbsp (parseVUI v0) ys = Some (v, s) \<and> bits_in s = []"
  by (rule rbsp_roundtrip [OF VUI_codec [OF assms]]) blast

theorem vui_roundtrip_witness:
  "let v = VUI_new\<lparr>m_aspectRatioInfoPresentFlag := True, m_aspectRatioIdc := 255, m_sarWidth := 40, m_sarHeight := 33,
       m_fieldSeqFlag := True, m_chromaLocInfoPresentFlag := True, m_chromaSampleLocTypeTopField := 2\<rparr>
   in \<exists>ys s. write_rbsp (codeVUI v) = Some ys \<and> read_rbsp (parseVUI VUI_new) ys = Some (v, s)"
  using vui_roundtrip [of VUI_new "VUI_new\<lparr>m_aspectRatioInfoPresentFlag := True, m_aspectRatioIdc := 255, m_sarWidth := 40,
       m_sarHeight := 33, m_fieldSeqFlag := True, m_chromaLocInfoPresentFlag := True, m_chromaSampleLocTypeTopField := 2\<rparr>"]
  unfolding Let_def by (auto simp: VUI_ok_def VUI_new_def)

end
