(* ===== verification/Binarisation.thy ===== *)
theory Binarisation
  imports Cabac CtxTables
begin

section \<open>Binarisations\<close>

text \<open>
  The helper functions of \<^verbatim>\<open>CABACWriter.cpp\<close> and \<^verbatim>\<open>CABACReader.cpp\<close> that map numbers to bins.  Writers
  and parsers of the same name are told apart by the prefixes \<open>w_\<close> and \<open>r_\<close>; their first argument is
  the bin encoder or decoder they call.  \<open>cabac_channel\<close> is the interface the slice data syntax rests
  on: a channel of bins with all registered contexts.
\<close>

unbundle bit_operations_syntax

subsection \<open>Context coded bins\<close>

definition w_bin :: "'s BinEncIf \<Rightarrow> nat \<Rightarrow> CtxSet \<Rightarrow> nat \<Rightarrow> 's \<Rightarrow> 's option" where
  "w_bin E b cs inc s = do { c \<leftarrow> CtxSet_at cs inc; ie_encodeBin E b c s }"

definition r_bin :: "'s BinDecIf \<Rightarrow> CtxSet \<Rightarrow> nat \<Rightarrow> 's \<Rightarrow> (nat \<times> 's) option" where
  "r_bin D cs inc s = do { c \<leftarrow> CtxSet_at cs inc; if_decodeBin D c s }"

locale cabac_channel = bin_channel E emits N D S
  for E :: "'s BinEncIf" and emits and N and D :: "'t BinDecIf" and S +
  assumes contexts: "NumberOfContexts \<le> N"
begin

lemma bins_ctx:
  assumes "inc < Size cs" and "Offset cs + Size cs \<le> 386" and "b \<le> 1"
  shows "bins (w_bin E b cs inc) (r_bin D cs inc) b"
proof -
  have "CtxSet_at cs inc = Some (Offset cs + inc)" using assms by (simp add: CtxSet_at_def u16_id)
  then have "w_bin E b cs inc = ie_encodeBin E b (Offset cs + inc)" "r_bin D cs inc = if_decodeBin D (Offset cs + inc)"
    by (auto simp: w_bin_def r_bin_def)
  moreover have "Offset cs + inc < N" using assms contexts by (simp add: NumberOfContexts_eq)
  ultimately show ?thesis using bins_Bin assms(3) by simp
qed

lemmas ctx_rules = codec_flow bins_ctx bins_EP bins_EPs bins_RemAbs refl

end

text \<open>The contexts a slice starts with (\<^verbatim>\<open>BinEncoder::reset\<close> and \<^verbatim>\<open>BinDecoder::reset\<close>).\<close>

datatype SliceType = B_SLICE | P_SLICE | I_SLICE

fun SliceType_id :: "SliceType \<Rightarrow> nat" where
  "SliceType_id B_SLICE = 0"
| "SliceType_id P_SLICE = 1"
| "SliceType_id I_SLICE = 2"

definition slice_contexts :: "int \<Rightarrow> SliceType \<Rightarrow> CtxStore" where
  "slice_contexts qp t = the (CtxStore_init qp (SliceType_id t) CtxStore_new)"

lemma length_slice_contexts: "length (slice_contexts qp t) = NumberOfContexts"
proof -
  have "SliceType_id t < 3" by (cases t) simp_all
  from CtxStore_init_ok [OF this, of CtxStore_new qp] show ?thesis
    by (auto simp: slice_contexts_def CtxStore_new_def)
qed

interpretation vtm: cabac_channel BinEncoder_Std "enc_emits (slice_contexts qp t)" "length (slice_contexts qp t)"
    BinDecoder_Std dec_sources for qp t
  by unfold_locales (simp add: length_slice_contexts)

subsection \<open>Unary codes\<close>

fun w_unary_bins :: "'s BinEncIf \<Rightarrow> nat \<Rightarrow> CtxSet \<times> nat \<Rightarrow> CtxSet \<times> nat \<Rightarrow> nat \<Rightarrow> nat \<Rightarrow> 's \<Rightarrow> 's option" where
  "w_unary_bins E symbol ctxId0 ctxIdN 0 binsWritten s = Some s"
| "w_unary_bins E symbol ctxId0 ctxIdN (Suc n) binsWritten s = do {
     let (cs, inc) = (if binsWritten = 0 then ctxId0 else ctxIdN);
     s \<leftarrow> w_bin E (of_bool (symbol > binsWritten)) cs inc s;
     w_unary_bins E symbol ctxId0 ctxIdN n (binsWritten + 1) s }"

definition w_unary_max_symbol :: "'s BinEncIf \<Rightarrow> nat \<Rightarrow> CtxSet \<times> nat \<Rightarrow> CtxSet \<times> nat \<Rightarrow> nat \<Rightarrow> 's \<Rightarrow> 's option" where
  "w_unary_max_symbol E symbol ctxId0 ctxIdN maxSymbol s =
     (if symbol > maxSymbol then None
      else w_unary_bins E symbol ctxId0 ctxIdN (min (symbol + 1) maxSymbol) 0 s)"

fun r_unary_bins :: "'s BinDecIf \<Rightarrow> CtxSet \<times> nat \<Rightarrow> CtxSet \<times> nat \<Rightarrow> nat \<Rightarrow> nat \<Rightarrow> 's \<Rightarrow> (nat \<times> 's) option" where
  "r_unary_bins D ctxId0 ctxIdN 0 onesRead s = Some (onesRead, s)"
| "r_unary_bins D ctxId0 ctxIdN (Suc n) onesRead s = do {
     let (cs, inc) = (if onesRead = 0 then ctxId0 else ctxIdN);
     (b, s) \<leftarrow> r_bin D cs inc s;
     if b = 1 then r_unary_bins D ctxId0 ctxIdN n (onesRead + 1) s else Some (onesRead, s) }"

definition r_unary_max_symbol :: "'s BinDecIf \<Rightarrow> CtxSet \<times> nat \<Rightarrow> CtxSet \<times> nat \<Rightarrow> nat \<Rightarrow> 's \<Rightarrow> (nat \<times> 's) option" where
  "r_unary_max_symbol D ctxId0 ctxIdN maxSymbol s = r_unary_bins D ctxId0 ctxIdN maxSymbol 0 s"

fun unary_pattern :: "nat \<Rightarrow> nat \<Rightarrow> nat \<Rightarrow> nat \<times> nat" where
  "unary_pattern 0 bins numBins = (bins, numBins)"
| "unary_pattern (Suc symbol) bins numBins = unary_pattern symbol (u32 (u32 (push_bit 1 bins) + 1)) (numBins + 1)"

definition w_unary_max_eqprob :: "'s BinEncIf \<Rightarrow> nat \<Rightarrow> nat \<Rightarrow> 's \<Rightarrow> 's option" where
  "w_unary_max_eqprob E symbol maxSymbol s =
     (if maxSymbol = 0 then Some s
      else let codeLast = (maxSymbol > symbol);
               (bins, numBins) = unary_pattern symbol 0 0;
               (bins, numBins) = (if codeLast then (u32 (push_bit 1 bins), numBins + 1) else (bins, numBins))
           in if \<not> numBins \<le> 32 then None else ie_encodeBinsEP E bins numBins s)"

fun r_unary_eqprob :: "'s BinDecIf \<Rightarrow> nat \<Rightarrow> nat \<Rightarrow> 's \<Rightarrow> (nat \<times> 's) option" where
  "r_unary_eqprob D 0 k s = Some (k, s)"
| "r_unary_eqprob D (Suc n) k s = do {
     (b, s) \<leftarrow> if_decodeBinEP D s;
     if b = 0 then Some (k, s) else r_unary_eqprob D n (k + 1) s }"

definition r_unary_max_eqprob :: "'s BinDecIf \<Rightarrow> nat \<Rightarrow> 's \<Rightarrow> (nat \<times> 's) option" where
  "r_unary_max_eqprob D maxSymbol s = r_unary_eqprob D maxSymbol 0 s"

subsection \<open>Exponential Golomb codes\<close>

function exp_golomb_prefix :: "nat \<Rightarrow> nat \<Rightarrow> nat \<Rightarrow> nat \<Rightarrow> nat \<times> nat \<times> nat \<times> nat" where
  "exp_golomb_prefix symbol count bins numBins =
     (if symbol \<ge> push_bit count 1
      then exp_golomb_prefix (symbol - push_bit count 1) (count + 1) (u32 (u32 (push_bit 1 bins) + 1)) (numBins + 1)
      else (symbol, count, bins, numBins))"

  by pat_completeness auto

termination exp_golomb_prefix
proof (relation "measure fst")
  fix symbol count bins numBins :: nat
  assume "push_bit count 1 \<le> symbol"
  moreover have "0 < push_bit count (1::nat)" by (simp add: push_bit_eq_mult)
  ultimately have "symbol - push_bit count 1 < symbol" by linarith
  then show "((symbol - push_bit count 1, count + 1, u32 (u32 (push_bit 1 bins) + 1), numBins + 1), symbol, count, bins, numBins)
      \<in> measure fst" by simp
qed simp

declare exp_golomb_prefix.simps [simp del]

definition w_exp_golomb_eqprob :: "'s BinEncIf \<Rightarrow> nat \<Rightarrow> nat \<Rightarrow> 's \<Rightarrow> 's option" where
  "w_exp_golomb_eqprob E symbol count s = do {
     let (symbol, count, bins, numBins) = exp_golomb_prefix symbol count 0 0;
     let bins = u32 (push_bit 1 bins);
     let numBins = numBins + 1;
     s \<leftarrow> ie_encodeBinsEP E bins numBins s;
     ie_encodeBinsEP E symbol count s }"

text \<open>The parser's loop ends with the first zero bin; it need not end on an arbitrary source.\<close>

partial_function (option) r_exp_golomb_prefix :: "'s BinDecIf \<Rightarrow> nat \<Rightarrow> nat \<Rightarrow> 's \<Rightarrow> ((nat \<times> nat) \<times> 's) option" where
  "r_exp_golomb_prefix D symbol count s = do {
     (bit, s) \<leftarrow> if_decodeBinEP D s;
     if bit \<noteq> 0 then r_exp_golomb_prefix D (u32 (symbol + u32 (push_bit count bit))) (count + 1) s
     else Some ((symbol, count), s) }"

definition r_exp_golomb_eqprob :: "'s BinDecIf \<Rightarrow> nat \<Rightarrow> 's \<Rightarrow> (nat \<times> 's) option" where
  "r_exp_golomb_eqprob D count s = do {
     ((symbol, count), s) \<leftarrow> r_exp_golomb_prefix D 0 count s;
     if count \<noteq> 0 then do { (v, s) \<leftarrow> if_decodeBinsEP D count s; Some (u32 (symbol + v), s) }
     else Some (symbol, s) }"

subsection \<open>Truncated binary codes\<close>

definition g_tbMax :: "nat list" where
  "g_tbMax = [0, 0] @ replicate 2 1 @ replicate 4 2 @ replicate 8 3 @ replicate 16 4 @ replicate 32 5
     @ replicate 64 6 @ replicate 128 7 @ [8]"

text \<open>The loop with \<^verbatim>\<open>threshVal\<close>, which is always \<open>2 ^ thresh\<close>.\<close>

function thresh_loop :: "nat \<Rightarrow> nat \<Rightarrow> nat" where
  "thresh_loop maxSymbol thresh = (if 2 ^ thresh \<le> maxSymbol then thresh_loop maxSymbol (thresh + 1) else thresh)"
  by pat_completeness auto

termination thresh_loop
proof (relation "measure (\<lambda>(m, t). m + 1 - 2 ^ t)")
  fix m t :: nat
  assume "2 ^ t \<le> m"
  moreover have "(2::nat) ^ t < 2 ^ (t + 1)" by simp
  ultimately have "m + 1 - 2 ^ (t + 1) < m + 1 - 2 ^ t" by linarith
  then show "((m, t + 1), m, t) \<in> measure (\<lambda>(m, t). m + 1 - 2 ^ t)" by simp
qed simp

declare thresh_loop.simps [simp del]

definition trunc_thresh :: "nat \<Rightarrow> nat" where
  "trunc_thresh maxSymbol = (if maxSymbol > 256 then thresh_loop maxSymbol 8 - 1 else g_tbMax ! maxSymbol)"

definition w_xWriteTruncBinCode :: "'s BinEncIf \<Rightarrow> nat \<Rightarrow> nat \<Rightarrow> 's \<Rightarrow> 's option" where
  "w_xWriteTruncBinCode E symbol maxSymbol s =
     (let thresh = trunc_thresh maxSymbol;
          val = 2 ^ thresh;
          b = maxSymbol - val
      in if \<not> (val \<le> maxSymbol \<and> 2 * val > maxSymbol \<and> symbol < maxSymbol \<and> b < val) then None
         else if symbol < val - b then ie_encodeBinsEP E symbol thresh s
         else let symbol = symbol + (val - b)
              in if \<not> (symbol < 2 * val \<and> drop_bit 1 symbol \<ge> val - b) then None
                 else ie_encodeBinsEP E symbol (thresh + 1) s)"

definition r_xReadTruncBinCode :: "'s BinDecIf \<Rightarrow> nat \<Rightarrow> 's \<Rightarrow> (nat \<times> 's) option" where
  "r_xReadTruncBinCode D maxSymbol s = do {
     let thresh = trunc_thresh maxSymbol;
     let val = 2 ^ thresh;
     let b = maxSymbol - val;
     (symbol, s) \<leftarrow> if_decodeBinsEP D thresh s;
     if symbol \<ge> val - b then do {
       (altSymbol, s) \<leftarrow> if_decodeBinEP D s;
       Some (push_bit 1 symbol + altSymbol - (val - b), s) }
     else Some (symbol, s) }"

subsection \<open>Round trips\<close>

lemma ones_step:
  assumes "k < 32"
  shows "u32 (u32 (push_bit 1 (2 ^ k - 1)) + 1) = 2 ^ Suc k - 1"
proof -
  define x :: nat where "x = 2 ^ k"
  have "x \<le> 2 ^ 31" unfolding x_def using assms by (intro power_increasing) auto
  moreover have "1 \<le> x" by (simp add: x_def)
  ultimately have "u32 (u32 (2 * (x - 1)) + 1) = 2 * x - 1" by (simp add: u32_id)
  then show ?thesis by (simp add: push_bit_eq_mult x_def mult.commute)
qed

lemma unary_pattern_ones:
  "k + n \<le> 32 \<Longrightarrow> unary_pattern n (2 ^ k - 1) k = (2 ^ (k + n) - 1, k + n)"
proof (induction n arbitrary: k)
  case (Suc n)
  then have "unary_pattern (Suc n) (2 ^ k - 1) k = unary_pattern n (2 ^ Suc k - 1) (Suc k)"
    using ones_step [of k] by simp
  with Suc.IH [of "Suc k"] Suc.prems show ?case by simp
qed simp

lemma exp_golomb_prefix_spec:
  assumes "symbol + 2 ^ count < 2 ^ 32" and "k \<le> count"
  shows "\<exists>r j. exp_golomb_prefix symbol count (2 ^ k - 1) k = (r, count + j, 2 ^ (k + j) - 1, k + j)
    \<and> r < 2 ^ (count + j) \<and> symbol = r + (2 ^ (count + j) - 2 ^ count) \<and> count + j < 32"
  using assms
proof (induction symbol arbitrary: count k rule: less_induct)
  case (less symbol)
  have "(2::nat) ^ count < 2 ^ 32" using less.prems(1) by linarith
  then have c: "count < 32" by (rule power_less_imp_less_exp [rotated]) simp
  show ?case
  proof (cases "2 ^ count \<le> symbol")
    case True
    have eq: "exp_golomb_prefix symbol count (2 ^ k - 1) k
        = exp_golomb_prefix (symbol - 2 ^ count) (count + 1) (2 ^ Suc k - 1) (k + 1)"
    proof -
      have "push_bit count 1 = (2::nat) ^ count" "k < 32" using c less.prems(2) by (simp_all add: push_bit_eq_mult)
      then show ?thesis
        by (subst exp_golomb_prefix.simps) (simp only: True ones_step if_True)
    qed
    have "symbol - 2 ^ count < symbol" using True zero_less_power [of "2::nat" count] by linarith
    moreover have "symbol - 2 ^ count + 2 ^ (count + 1) < 2 ^ 32" using True less.prems(1) by simp
    ultimately obtain r j where
      rj: "exp_golomb_prefix (symbol - 2 ^ count) (count + 1) (2 ^ Suc k - 1) (Suc k)
        = (r, count + 1 + j, 2 ^ (Suc k + j) - 1, Suc k + j)"
      "r < 2 ^ (count + 1 + j)" "symbol - 2 ^ count = r + (2 ^ (count + 1 + j) - 2 ^ (count + 1))" "count + 1 + j < 32"
      using less.IH [of "symbol - 2 ^ count" "count + 1" "Suc k"] less.prems(2) by auto
    have "symbol - 2 ^ count = r + (2 ^ (count + Suc j) - 2 * 2 ^ count)" using rj(3) by simp
    moreover have "2 * 2 ^ count \<le> (2::nat) ^ (count + Suc j)" by simp
    ultimately have "symbol = r + (2 ^ (count + Suc j) - 2 ^ count)" using True by linarith
    with rj(1,2,4) show ?thesis unfolding eq by (intro exI [of _ r] exI [of _ "Suc j"]) simp
  next
    case False
    then show ?thesis using c
      by (intro exI [of _ symbol] exI [of _ 0]) (subst exp_golomb_prefix.simps, simp add: push_bit_eq_mult)
  qed
qed

lemma thresh_loop_spec: "2 ^ thresh \<le> 2 * maxSymbol \<Longrightarrow> 0 < thresh \<Longrightarrow>
   2 ^ (thresh_loop maxSymbol thresh - 1) \<le> maxSymbol \<and> maxSymbol < 2 ^ thresh_loop maxSymbol thresh
   \<and> 0 < thresh_loop maxSymbol thresh"
proof (induction maxSymbol thresh rule: thresh_loop.induct)
  case (1 m t)
  show ?case
  proof (cases "2 ^ t \<le> m")
    case True
    with 1 show ?thesis by (subst (1 2 3) thresh_loop.simps) simp
  next
    case False
    have "2 ^ t = 2 * (2::nat) ^ (t - 1)" using 1(3) by (cases t) auto
    with False 1 show ?thesis by (subst (1 2 3) thresh_loop.simps) simp
  qed
qed

lemma trunc_thresh_spec:
  assumes "0 < m"
  shows "2 ^ trunc_thresh m \<le> m \<and> m < 2 * 2 ^ trunc_thresh m"
proof (cases "m > 256")
  case True
  then have "2 ^ (thresh_loop m 8 - 1) \<le> m \<and> m < 2 ^ thresh_loop m 8 \<and> 0 < thresh_loop m 8"
    by (intro thresh_loop_spec) auto
  with True show ?thesis by (cases "thresh_loop m 8") (auto simp: trunc_thresh_def)
next
  case False
  then consider "m = 1" | "m \<in> {2..3}" | "m \<in> {4..7}" | "m \<in> {8..15}" | "m \<in> {16..31}" | "m \<in> {32..63}"
    | "m \<in> {64..127}" | "m \<in> {128..255}" | "m = 256" using assms by force
  then show ?thesis using False
    by cases (auto simp: trunc_thresh_def g_tbMax_def nth_append nth_Cons')
qed

text \<open>The parsers on their codes.\<close>

context bin_source
begin

lemma reads_EP_bind: "reads sees (Q b) c w \<Longrightarrow> reads sees (\<lambda>s. Option.bind (if_decodeBinEP D s) (\<lambda>(x, s). Q x s)) (BinEP b # c) w"
  using reads_bind [OF src_BinEP] by fastforce

lemma reads_unary_eqprob:
  "m \<le> n \<Longrightarrow> reads sees (r_unary_eqprob D n k) (replicate m (BinEP 1) @ (if m < n then [BinEP 0] else [])) (k + m)"
proof (induction n arbitrary: m k)
  case 0
  have "r_unary_eqprob D 0 k = (\<lambda>s. Some (k, s))" by (rule ext) simp
  with 0 show ?case by (simp add: reads_Some)
next
  case (Suc n)
  have eq: "r_unary_eqprob D (Suc n) k = (\<lambda>s. Option.bind (if_decodeBinEP D s)
      (\<lambda>(b, s). (\<lambda>b s. if b = 0 then Some (k, s) else r_unary_eqprob D n (k + 1) s) b s))"
    by (rule ext) simp
  show ?case
  proof (cases m)
    case 0
    then show ?thesis unfolding eq by (simp only: replicate_0 append_Nil zero_less_Suc if_True add_0_right) (rule reads_EP_bind, simp add: reads_Some)
  next
    case (Suc m')
    with Suc.IH [of m' "k + 1"] Suc.prems
    have "reads sees (r_unary_eqprob D n (k + 1)) (replicate m' (BinEP 1) @ (if m' < n then [BinEP 0] else [])) (k + m)" by simp
    then show ?thesis unfolding eq Suc by (simp only: replicate_Suc append_Cons Suc_less_eq) (rule reads_EP_bind, simp)
  qed
qed

lemma reads_exp_golomb_prefix:
  assumes "2 ^ (count + j) \<le> 2 ^ 32 - 1 + (2::nat) ^ c0" and "c0 \<le> count"
  shows "reads sees (r_exp_golomb_prefix D (2 ^ count - 2 ^ c0) count) (replicate j (BinEP 1) @ [BinEP 0])
    (2 ^ (count + j) - 2 ^ c0, count + j)"
  using assms
proof (induction j arbitrary: count)
  case 0
  have eq: "r_exp_golomb_prefix D y count = (\<lambda>s. Option.bind (if_decodeBinEP D s) (\<lambda>(b, s).
      (\<lambda>b s. if b \<noteq> 0 then r_exp_golomb_prefix D (u32 (y + u32 (push_bit count b))) (count + 1) s
              else Some ((y, count), s)) b s))" for y
    by (rule ext) (subst r_exp_golomb_prefix.simps, simp)
  show ?case unfolding eq by (simp, rule reads_EP_bind) (simp add: reads_Some)
next
  case (Suc j)
  let ?y = "2 ^ count - 2 ^ c0 :: nat"
  have eq: "r_exp_golomb_prefix D ?y count = (\<lambda>s. Option.bind (if_decodeBinEP D s) (\<lambda>(b, s).
      (\<lambda>b s. if b \<noteq> 0 then r_exp_golomb_prefix D (u32 (?y + u32 (push_bit count b))) (count + 1) s
              else Some ((?y, count), s)) b s))"
    by (rule ext) (subst r_exp_golomb_prefix.simps, simp)
  have le: "(2::nat) ^ c0 \<le> 2 ^ count" using Suc.prems(2) by (intro power_increasing) auto
  have "(2::nat) ^ (count + 1) \<le> 2 ^ (count + Suc j)" by (intro power_increasing) auto
  then have "(2::nat) ^ (count + 1) \<le> 2 ^ 32 - 1 + 2 ^ c0" using Suc.prems(1) by linarith
  then have "(2::nat) * 2 ^ count - 2 ^ c0 < 4294967296" by simp
  moreover from this have "(2::nat) ^ count < 4294967296" using le by linarith
  ultimately have "u32 (?y + u32 (push_bit count 1)) = 2 ^ (count + 1) - 2 ^ c0"
    using le by (simp add: u32_id push_bit_eq_mult)
  then have "reads sees (r_exp_golomb_prefix D (u32 (?y + u32 (push_bit count 1))) (count + 1))
      (replicate j (BinEP 1) @ [BinEP 0]) (2 ^ (count + Suc j) - 2 ^ c0, count + Suc j)"
    using Suc.IH [of "count + 1"] Suc.prems by simp
  then show ?case unfolding eq by (simp, intro reads_EP_bind) simp
qed

end

context cabac_channel
begin

lemma bins_unary_eqprob:
  assumes "symbol \<le> maxSymbol" and "maxSymbol \<le> 32"
  shows "bins (w_unary_max_eqprob E symbol maxSymbol) (r_unary_max_eqprob D maxSymbol) symbol"
proof (cases "maxSymbol = 0")
  case True
  with assms show ?thesis
    by (intro codec_ext [OF _ _ codec_Some]) (simp_all add: w_unary_max_eqprob_def r_unary_max_eqprob_def)
next
  case False
  note p = unary_pattern_ones [of 0 symbol, simplified]
  let ?code = "replicate symbol (BinEP 1) @ (if symbol < maxSymbol then [BinEP 0] else [])"
  have reads: "reads sees (r_unary_max_eqprob D maxSymbol) ?code symbol" if "sees \<in> S" for sees
    using bin_source.reads_unary_eqprob [OF source [OF that] assms(1), of 0] by (simp add: reads_def r_unary_max_eqprob_def)
  have "writes emits (w_unary_max_eqprob E symbol maxSymbol) ?code"
  proof (cases "symbol < maxSymbol")
    case True
    have "(2::nat) ^ symbol \<le> 2 ^ 31" using True assms by (intro power_increasing) auto
    then have "u32 (push_bit 1 (2 ^ symbol - 1)) = 2 ^ (symbol + 1) - 2" by (simp add: u32_id push_bit_eq_mult)
    then have "w_unary_max_eqprob E symbol maxSymbol = ie_encodeBinsEP E (2 ^ (symbol + 1) - 2) (symbol + 1)"
      using True False assms p by (intro ext) (simp add: w_unary_max_eqprob_def)
    with True show ?thesis using snk_BinsEP [of "2 ^ (symbol + 1) - 2" "symbol + 1"] assms
      by (simp add: BinsEP_ones_zero [simplified])
  next
    case not: False
    then have "w_unary_max_eqprob E symbol maxSymbol = ie_encodeBinsEP E (2 ^ symbol - 1) symbol"
      using False assms p by (intro ext) (simp add: w_unary_max_eqprob_def)
    with not show ?thesis using snk_BinsEP [of "2 ^ symbol - 1" symbol] assms by (simp add: BinsEP_ones [simplified])
  qed
  with reads show ?thesis by (rule codecI [rotated])
qed

lemma bins_unary:
  assumes "symbol \<le> maxSymbol" and "i0 < Size c0" and "Offset c0 + Size c0 \<le> 386" and "iN < Size cN"
    and "Offset cN + Size cN \<le> 386"
  shows "bins (w_unary_max_symbol E symbol (c0, i0) (cN, iN) maxSymbol) (r_unary_max_symbol D (c0, i0) (cN, iN) maxSymbol) symbol"
proof -
  have loop: "bins (w_unary_bins E symbol (c0, i0) (cN, iN) (min (symbol + 1 - k) n) k)
      (r_unary_bins D (c0, i0) (cN, iN) n k) symbol" if "k \<le> symbol" "symbol \<le> k + n" for n k
    using that
  proof (induction n arbitrary: k)
    case 0
    then show ?case by (intro codec_ext [OF _ _ codec_Some]) simp_all
  next
    case (Suc n)
    have m: "min (symbol + 1 - k) (Suc n) = Suc (min (symbol - k) n)" using Suc.prems by simp
    have bin: "bins (w_bin E b (fst c) (snd c)) (r_bin D (fst c) (snd c)) b"
      if "c = (if k = 0 then (c0, i0) else (cN, iN))" "b \<le> 1" for b c
      using assms that by (intro bins_ctx) (auto split: if_splits)
    let ?c = "if k = 0 then (c0, i0) else (cN, iN)"
    show ?case unfolding m
    proof (rule codec_ext)
      fix s
      show "w_unary_bins E symbol (c0, i0) (cN, iN) (Suc (min (symbol - k) n)) k s
        = Option.bind (w_bin E (of_bool (symbol > k)) (fst ?c) (snd ?c) s)
            (w_unary_bins E symbol (c0, i0) (cN, iN) (min (symbol - k) n) (k + 1))" by simp
      show "r_unary_bins D (c0, i0) (cN, iN) (Suc n) k t = Option.bind (r_bin D (fst ?c) (snd ?c) t) (\<lambda>(b, s).
         (\<lambda>b s. if b = 1 then r_unary_bins D (c0, i0) (cN, iN) n (k + 1) s else Some (k, s)) b s)" for t by simp
      show "bins (\<lambda>s. Option.bind (w_bin E (of_bool (symbol > k)) (fst ?c) (snd ?c) s)
            (w_unary_bins E symbol (c0, i0) (cN, iN) (min (symbol - k) n) (k + 1)))
        (\<lambda>t. Option.bind (r_bin D (fst ?c) (snd ?c) t) (\<lambda>(b, s).
         (\<lambda>b s. if b = 1 then r_unary_bins D (c0, i0) (cN, iN) n (k + 1) s else Some (k, s)) b s)) symbol"
      proof (rule codec_bind [OF bin [OF refl]], simp, cases "symbol > k")
        case True
        have "bins (w_unary_bins E symbol (c0, i0) (cN, iN) (min (symbol + 1 - (k + 1)) n) (k + 1))
            (r_unary_bins D (c0, i0) (cN, iN) n (k + 1)) symbol"
          using True Suc.prems by (intro Suc.IH) auto
        moreover have "symbol + 1 - (k + 1) = symbol - k" "of_bool (k < symbol) = (1::nat)" using True by auto
        ultimately show "bins (w_unary_bins E symbol (c0, i0) (cN, iN) (min (symbol - k) n) (k + 1))
          (\<lambda>s. if of_bool (k < symbol) = (1::nat) then r_unary_bins D (c0, i0) (cN, iN) n (k + 1) s else Some (k, s)) symbol"
          by (simp only: if_True simp_thms)
      next
        case False
        then have "symbol = k" using Suc.prems by simp
        then show "bins (w_unary_bins E symbol (c0, i0) (cN, iN) (min (symbol - k) n) (k + 1))
          (\<lambda>s. if of_bool (k < symbol) = (1::nat) then r_unary_bins D (c0, i0) (cN, iN) n (k + 1) s else Some (k, s)) symbol"
          by (intro codec_ext [OF _ _ codec_Some]) simp_all
      qed
    qed
  qed
  show ?thesis using loop [of 0 maxSymbol] assms(1)
    by (intro codec_ext [OF w_unary_max_symbol_def r_unary_max_symbol_def]) simp
qed

lemma bins_exp_golomb:
  assumes "symbol + 2 ^ count < 4294967296"
  shows "bins (w_exp_golomb_eqprob E symbol count) (r_exp_golomb_eqprob D count) symbol"
proof -
  have "symbol + 2 ^ count < 2 ^ 32" using assms by simp
  then obtain r j where p: "exp_golomb_prefix symbol count 0 0 = (r, count + j, 2 ^ j - 1, j)"
    "r < 2 ^ (count + j)" "symbol = r + (2 ^ (count + j) - 2 ^ count)" "count + j < 32"
    using exp_golomb_prefix_spec [of symbol count 0] by auto
  have "(2::nat) ^ j \<le> 2 ^ 31" using p(4) by (intro power_increasing) auto
  then have u: "u32 (push_bit 1 (2 ^ j - 1)) = 2 ^ (j + 1) - 2" by (simp add: u32_id push_bit_eq_mult)
  let ?pre = "replicate j (BinEP 1) @ [BinEP 0]" and ?y = "2 ^ (count + j) - 2 ^ count :: nat"
  have le: "(2::nat) ^ count \<le> 2 ^ (count + j)" by (intro power_increasing) auto
  then have lim: "2 ^ (count + j) \<le> 2 ^ 32 - 1 + (2::nat) ^ count" using assms p(3) by simp
  have pre: "bins (ie_encodeBinsEP E (2 ^ (j + 1) - 2) (j + 1)) (r_exp_golomb_prefix D 0 count) (?y, count + j)"
  proof (rule codecI)
    show "writes emits (ie_encodeBinsEP E (2 ^ (j + 1) - 2) (j + 1)) ?pre"
      using snk_BinsEP [of "2 ^ (j + 1) - 2" "j + 1"] p(4) by (simp add: BinsEP_ones_zero [simplified])
    show "reads sees (r_exp_golomb_prefix D 0 count) ?pre (?y, count + j)" if "sees \<in> S" for sees
      using bin_source.reads_exp_golomb_prefix [OF source [OF that] lim] by simp
  qed
  have suf: "bins (ie_encodeBinsEP E r (count + j)) (if_decodeBinsEP D (count + j)) r" using p by (intro bins_EPs) auto
  show ?thesis
  proof (rule codec_ext)
    show "w_exp_golomb_eqprob E symbol count s = Option.bind (ie_encodeBinsEP E (2 ^ (j + 1) - 2) (j + 1) s)
        (ie_encodeBinsEP E r (count + j))" for s
      by (simp add: w_exp_golomb_eqprob_def p(1) u [simplified])
    show "r_exp_golomb_eqprob D count t = Option.bind (r_exp_golomb_prefix D 0 count t) (\<lambda>(p, s). (\<lambda>p s.
       if snd p \<noteq> 0 then Option.bind (if_decodeBinsEP D (snd p) s) (\<lambda>(v, s). (\<lambda>v s. Some (u32 (fst p + v), s)) v s)
       else Some (fst p, s)) p s)" for t
      by (simp add: r_exp_golomb_eqprob_def case_prod_beta')
    have sum: "u32 (?y + r) = symbol" using p assms by (simp add: u32_id)
    show "bins (\<lambda>s. Option.bind (ie_encodeBinsEP E (2 ^ (j + 1) - 2) (j + 1) s) (ie_encodeBinsEP E r (count + j)))
      (\<lambda>t. Option.bind (r_exp_golomb_prefix D 0 count t) (\<lambda>(p, s). (\<lambda>p s.
       if snd p \<noteq> 0 then Option.bind (if_decodeBinsEP D (snd p) s) (\<lambda>(v, s). (\<lambda>v s. Some (u32 (fst p + v), s)) v s)
       else Some (fst p, s)) p s)) symbol"
    proof (rule codec_bind [OF pre], cases "count + j = 0")
      case False
      have "bins (ie_encodeBinsEP E r (count + j)) (\<lambda>s. Option.bind (if_decodeBinsEP D (count + j) s)
          (\<lambda>(v, s). (\<lambda>v s. Some (u32 (?y + v), s)) v s)) symbol"
        by (rule codec_last [OF suf]) (rule codec_Some' [OF sum])
      with False show "bins (ie_encodeBinsEP E r (count + j)) (\<lambda>s. if snd (?y, count + j) \<noteq> 0
         then Option.bind (if_decodeBinsEP D (snd (?y, count + j)) s) (\<lambda>(v, s). (\<lambda>v s. Some (u32 (fst (?y, count + j) + v), s)) v s)
         else Some (fst (?y, count + j), s)) symbol"
        by simp
    next
      case True
      then have "r = 0" "symbol = 0" using p by auto
      moreover have "writes emits (ie_encodeBinsEP E 0 0) []"
        using snk_BinsEP [of 0 0] by (simp add: BinsEP_def)
      ultimately show "bins (ie_encodeBinsEP E r (count + j)) (\<lambda>s. if snd (?y, count + j) \<noteq> 0
         then Option.bind (if_decodeBinsEP D (snd (?y, count + j)) s) (\<lambda>(v, s). (\<lambda>v s. Some (u32 (fst (?y, count + j) + v), s)) v s)
         else Some (fst (?y, count + j), s)) symbol"
        using True by (intro codecI [where code = "[]"]) (simp_all add: reads_Some)
    qed
  qed
qed

lemma bins_trunc:
  assumes "symbol < maxSymbol" and "maxSymbol < 2147483648"
  shows "bins (w_xWriteTruncBinCode E symbol maxSymbol) (r_xReadTruncBinCode D maxSymbol) symbol"
proof -
  define t where "t = trunc_thresh maxSymbol"
  define b where "b = maxSymbol - 2 ^ t"
  have t: "2 ^ t \<le> maxSymbol" "maxSymbol < 2 * 2 ^ t" using trunc_thresh_spec [of maxSymbol] assms(1) by (auto simp: t_def)
  then have b: "b < 2 ^ t" by (simp add: b_def)
  have "(2::nat) ^ t < 2 ^ 31" using t(1) assms(2) by simp
  then have t31: "t < 31" by (rule power_less_imp_less_exp [rotated]) simp
  let ?R = "\<lambda>x s. if 2 ^ t - b \<le> x then Option.bind (if_decodeBinEP D s)
      (\<lambda>(a, s). (\<lambda>a s. Some (push_bit 1 x + a - (2 ^ t - b), s)) a s) else Some (x, s)"
  have R: "r_xReadTruncBinCode D maxSymbol s = Option.bind (if_decodeBinsEP D t s) (\<lambda>(x, s). ?R x s)" for s
    unfolding r_xReadTruncBinCode_def Let_def t_def [symmetric] b_def [symmetric] by simp
  show ?thesis
  proof (cases "symbol < 2 ^ t - b")
    case True
    have "w_xWriteTruncBinCode E symbol maxSymbol s = ie_encodeBinsEP E symbol t s" for s
      using True t b assms(1) by (simp add: w_xWriteTruncBinCode_def t_def [symmetric] b_def [symmetric])
    moreover have "bins (ie_encodeBinsEP E symbol t) (\<lambda>s. Option.bind (if_decodeBinsEP D t s) (\<lambda>(x, s). ?R x s)) symbol"
      using True t31 by (intro codec_last [OF bins_EPs] codec_ext [OF _ _ codec_Some]) auto
    ultimately show ?thesis by (intro codec_ext [OF _ R])
  next
    case False
    define y where "y = symbol + (2 ^ t - b)"
    have y: "y < 2 * 2 ^ t" using assms(1) t b by (simp add: y_def b_def)
    have half: "2 ^ t - b \<le> y div 2" using False by (simp add: y_def)
    have W: "w_xWriteTruncBinCode E symbol maxSymbol s = ie_encodeBinsEP E y (t + 1) s" for s
      using False t b assms(1) y half
      by (simp add: w_xWriteTruncBinCode_def t_def [symmetric] b_def [symmetric] y_def [symmetric] drop_bit_eq_div)
    have "writes emits (ie_encodeBinsEP E y (t + 1)) (BinsEP (y div 2) t @ [BinEP (y mod 2)])"
      using snk_BinsEP [of y "t + 1"] y t31 by (simp add: BinsEP_def mod_2_eq_odd)
    moreover have "reads sees (\<lambda>s. Option.bind (if_decodeBinsEP D t s) (\<lambda>(x, s). ?R x s)) (BinsEP (y div 2) t @ [BinEP (y mod 2)]) symbol"
      if "sees \<in> S" for sees
    proof (rule reads_bind)
      show "reads sees (if_decodeBinsEP D t) (BinsEP (y div 2) t) (y div 2)"
        using bin_source.src_BinsEP [OF source [OF that], of "y div 2" t] y t31 by simp
      have "push_bit 1 (y div 2) + y mod 2 - (2 ^ t - b) = symbol"
        by (simp add: push_bit_eq_mult y_def [symmetric]) (simp add: y_def)
      then have "reads sees (\<lambda>s. Some (push_bit 1 (y div 2) + y mod 2 - (2 ^ t - b), s)) [] symbol" using reads_Some by metis
      then have "reads sees (\<lambda>s. Option.bind (if_decodeBinEP D s)
          (\<lambda>(a, s). (\<lambda>a s. Some (push_bit 1 (y div 2) + a - (2 ^ t - b), s)) a s)) [BinEP (y mod 2)] symbol"
        by (rule bin_source.reads_EP_bind [OF source [OF that]])
      with half show "reads sees (\<lambda>s. ?R (y div 2) s) [BinEP (y mod 2)] symbol" by simp
    qed
    ultimately show ?thesis by (intro codec_ext [OF W R] codecI)
  qed
qed

lemmas syntax_rules = ctx_rules bins_unary_eqprob bins_unary bins_exp_golomb bins_trunc

end

subsection \<open>Sequences of binarised values\<close>

text \<open>The parameters of a code, which writer and parser agree on, and the values it is defined for.\<close>

datatype bin_code = UnaryCtx "CtxSet \<times> nat" "CtxSet \<times> nat" nat | UnaryEP nat | ExpGolombEP nat | TruncBin nat

fun w_code :: "'s BinEncIf \<Rightarrow> bin_code \<Rightarrow> nat \<Rightarrow> 's \<Rightarrow> 's option" where
  "w_code E (UnaryCtx c0 cN maxSymbol) v = w_unary_max_symbol E v c0 cN maxSymbol"
| "w_code E (UnaryEP maxSymbol) v = w_unary_max_eqprob E v maxSymbol"
| "w_code E (ExpGolombEP count) v = w_exp_golomb_eqprob E v count"
| "w_code E (TruncBin maxSymbol) v = w_xWriteTruncBinCode E v maxSymbol"

fun r_code :: "'s BinDecIf \<Rightarrow> bin_code \<Rightarrow> 's \<Rightarrow> (nat \<times> 's) option" where
  "r_code D (UnaryCtx c0 cN maxSymbol) = r_unary_max_symbol D c0 cN maxSymbol"
| "r_code D (UnaryEP maxSymbol) = r_unary_max_eqprob D maxSymbol"
| "r_code D (ExpGolombEP count) = r_exp_golomb_eqprob D count"
| "r_code D (TruncBin maxSymbol) = r_xReadTruncBinCode D maxSymbol"

definition ctx_in :: "CtxSet \<times> nat \<Rightarrow> bool" where
  "ctx_in x \<longleftrightarrow> snd x < Size (fst x) \<and> Offset (fst x) + Size (fst x) \<le> 386"

fun code_ok :: "bin_code \<Rightarrow> nat \<Rightarrow> bool" where
  "code_ok (UnaryCtx c0 cN maxSymbol) v \<longleftrightarrow> v \<le> maxSymbol \<and> ctx_in c0 \<and> ctx_in cN"
| "code_ok (UnaryEP maxSymbol) v \<longleftrightarrow> v \<le> maxSymbol \<and> maxSymbol \<le> 32"
| "code_ok (ExpGolombEP count) v \<longleftrightarrow> v + 2 ^ count < 2 ^ 32"
| "code_ok (TruncBin maxSymbol) v \<longleftrightarrow> v < maxSymbol \<and> maxSymbol < 2 ^ 31"

context cabac_channel
begin

lemma bins_code: "code_ok k v \<Longrightarrow> bins (w_code E k v) (r_code D k) v"
proof (cases k)
  case (UnaryCtx c0 cN m)
  moreover assume "code_ok k v"
  ultimately show ?thesis using bins_unary [of v m "snd c0" "fst c0" "snd cN" "fst cN"] by (simp add: ctx_in_def)
qed (simp_all add: bins_unary_eqprob bins_exp_golomb bins_trunc)

lemma bins_in: "ctx_in x \<Longrightarrow> b \<le> 1 \<Longrightarrow> bins (w_bin E b (fst x) (snd x)) (r_bin D (fst x) (snd x)) b"
  by (rule bins_ctx) (auto simp: ctx_in_def)

end

text \<open>C18: any sequence of values, each within the range of its code (unary with contexts, unary,
  exponential Golomb, truncated binary), is written by the binarisations of \<^verbatim>\<open>CABACWriter\<close> into a code
  word from which \<^verbatim>\<open>CABACReader\<close>, told the same codes, reads the same values and stops at its end.\<close>

theorem binarisation_roundtrip:
  assumes "\<forall>(k, v) \<in> set kvs. code_ok k v"
  shows "\<exists>Y d. encode_with (slice_contexts qp t) (write_list (\<lambda>(k, v). w_code BinEncoder_Std k v) kvs) = Some Y \<and> bytes_ok Y
    \<and> decode_with (slice_contexts qp t) (read_each (r_code BinDecoder_Std) (map fst kvs)) Y = Some (map snd kvs, d)
    \<and> i_fifo_idx (d_bitstream d) = length (i_fifo (d_bitstream d))"
  by (rule bins_roundtrip, rule codec_each) (use assms in \<open>auto intro: vtm.bins_code\<close>)

theorem binarisation_roundtrip_witness:
  "\<exists>Y d. encode_with (slice_contexts 32 I_SLICE) (write_list (\<lambda>(k, v). w_code BinEncoder_Std k v)
       [(UnaryEP 4, 3), (ExpGolombEP 1, 100), (TruncBin 67, 66), (UnaryCtx (Ctx_DeltaQP, 0) (Ctx_DeltaQP, 1) 5, 2)]) = Some Y
     \<and> bytes_ok Y
     \<and> decode_with (slice_contexts 32 I_SLICE) (read_each (r_code BinDecoder_Std)
         [UnaryEP 4, ExpGolombEP 1, TruncBin 67, UnaryCtx (Ctx_DeltaQP, 0) (Ctx_DeltaQP, 1) 5]) Y = Some ([3, 100, 66, 2], d)
     \<and> i_fifo_idx (d_bitstream d) = length (i_fifo (d_bitstream d))"
  using binarisation_roundtrip [where qp = 32 and t = I_SLICE and kvs = "[(UnaryEP 4, 3), (ExpGolombEP 1, 100),
    (TruncBin 67, 66), (UnaryCtx (Ctx_DeltaQP, 0) (Ctx_DeltaQP, 1) 5, 2)]"]
  by (simp add: ctx_in_def del: write_list.simps read_each.simps w_code.simps r_code.simps)

end
