(* ===== verification/Scan.thy ===== *)
theory Scan
  imports Prelude
begin

unbundle bit_operations_syntax

section \<open>Scan orders\<close>

text \<open>
  The scans of \<^verbatim>\<open>Rom.cpp\<close>: the class \<^verbatim>\<open>ScanGenerator\<close> and the two families of tables that \<^verbatim>\<open>initROM\<close>
  fills (\<^verbatim>\<open>SCAN_UNGROUPED\<close> and \<^verbatim>\<open>SCAN_GROUPED_4x4\<close>).  Sizes are powers of two up to 128, so the
  unsigned arithmetic of the code never wraps and is taken in \<open>nat\<close>.
\<close>

datatype CoeffScanType = SCAN_DIAG | SCAN_TRAV_HOR | SCAN_TRAV_VER

record ScanElement =
  se_idx :: nat
  se_x :: nat
  se_y :: nat

record ScanGenerator =
  m_line :: nat
  m_column :: nat
  m_blockWidth :: nat
  m_blockHeight :: nat
  m_stride :: nat
  m_scanType :: CoeffScanType

definition ScanGenerator_new :: "nat \<Rightarrow> nat \<Rightarrow> nat \<Rightarrow> CoeffScanType \<Rightarrow> ScanGenerator" where
  "ScanGenerator_new blockWidth blockHeight stride scanType =
     \<lparr>m_line = 0, m_column = 0, m_blockWidth = blockWidth, m_blockHeight = blockHeight, m_stride = stride,
      m_scanType = scanType\<rparr>"

text \<open>The move to the next position, for each type of scan.\<close>

definition advance_diag :: "ScanGenerator \<Rightarrow> ScanGenerator" where
  "advance_diag g =
     (if m_column g = m_blockWidth g - 1 \<or> m_line g = 0
      then let g = g\<lparr>m_line := m_line g + (m_column g + 1)\<rparr>;
               g = g\<lparr>m_column := 0\<rparr>
           in if m_line g \<ge> m_blockHeight g
              then g\<lparr>m_column := m_column g + (m_line g - (m_blockHeight g - 1)), m_line := m_blockHeight g - 1\<rparr>
              else g
      else g\<lparr>m_column := m_column g + 1, m_line := m_line g - 1\<rparr>)"

definition advance_trav_hor :: "ScanGenerator \<Rightarrow> ScanGenerator" where
  "advance_trav_hor g =
     (if m_line g mod 2 = 0
      then if m_column g = m_blockWidth g - 1 then g\<lparr>m_line := m_line g + 1, m_column := m_blockWidth g - 1\<rparr>
           else g\<lparr>m_column := m_column g + 1\<rparr>
      else if m_column g = 0 then g\<lparr>m_line := m_line g + 1, m_column := 0\<rparr>
           else g\<lparr>m_column := m_column g - 1\<rparr>)"

definition advance_trav_ver :: "ScanGenerator \<Rightarrow> ScanGenerator" where
  "advance_trav_ver g =
     (if m_column g mod 2 = 0
      then if m_line g = m_blockHeight g - 1 then g\<lparr>m_column := m_column g + 1, m_line := m_blockHeight g - 1\<rparr>
           else g\<lparr>m_line := m_line g + 1\<rparr>
      else if m_line g = 0 then g\<lparr>m_column := m_column g + 1, m_line := 0\<rparr>
           else g\<lparr>m_line := m_line g - 1\<rparr>)"

definition advance :: "ScanGenerator \<Rightarrow> ScanGenerator" where
  "advance g = (case m_scanType g of SCAN_DIAG \<Rightarrow> advance_diag g
                 | SCAN_TRAV_HOR \<Rightarrow> advance_trav_hor g | SCAN_TRAV_VER \<Rightarrow> advance_trav_ver g)"

definition GetNextIndex :: "nat \<Rightarrow> nat \<Rightarrow> ScanGenerator \<Rightarrow> nat \<times> ScanGenerator" where
  "GetNextIndex blockOffsetX blockOffsetY g =
     ((m_line g + blockOffsetY) * m_stride g + m_column g + blockOffsetX, advance g)"

text \<open>The loop that fills a part of a table.\<close>

fun scan_positions :: "nat \<Rightarrow> nat \<Rightarrow> nat \<Rightarrow> nat \<Rightarrow> ScanGenerator \<Rightarrow> ScanElement list" where
  "scan_positions 0 blockWidth offX offY g = []"
| "scan_positions (Suc n) blockWidth offX offY g =
     (let (rasterPos, g) = GetNextIndex offX offY g;
          posY = rasterPos div blockWidth;
          posX = rasterPos - posY * blockWidth
      in \<lparr>se_idx = rasterPos, se_x = posX, se_y = posY\<rparr> # scan_positions n blockWidth offX offY g)"

definition ungrouped_scan :: "CoeffScanType \<Rightarrow> nat \<Rightarrow> nat \<Rightarrow> ScanElement list" where
  "ungrouped_scan scanType blockWidth blockHeight =
     scan_positions (blockWidth * blockHeight) blockWidth 0 0
       (ScanGenerator_new blockWidth blockHeight blockWidth scanType)"

subsection \<open>The order of the scans\<close>

text \<open>A run of the generator: the positions (column, line) it passes.\<close>

fun gen_run :: "nat \<Rightarrow> ScanGenerator \<Rightarrow> (nat \<times> nat) list" where
  "gen_run 0 g = []"
| "gen_run (Suc n) g = (m_column g, m_line g) # gen_run n (advance g)"

text \<open>A strict linear order on positions such that the generator always moves to the next greater
  position of the block enumerates the block in this order.\<close>

locale block_order =
  fixes less :: "nat \<times> nat \<Rightarrow> nat \<times> nat \<Rightarrow> bool"
    and t :: CoeffScanType
  assumes irrefl: "\<not> less p p"
    and trans: "less p q \<Longrightarrow> less q r \<Longrightarrow> less p r"
    and total: "p \<noteq> q \<Longrightarrow> less p q \<or> less q p"
    and least: "\<not> less p (0, 0)"
    and step: "m_scanType g = t \<Longrightarrow> m_column g < m_blockWidth g \<Longrightarrow> m_line g < m_blockHeight g
      \<Longrightarrow> c < m_blockWidth g \<Longrightarrow> l < m_blockHeight g
      \<Longrightarrow> less (c, l) (m_column (advance g), m_line (advance g)) \<longleftrightarrow>
          less (c, l) (m_column g, m_line g) \<or> (c, l) = (m_column g, m_line g)"
    and final: "m_scanType g = t \<Longrightarrow> m_column g < m_blockWidth g \<Longrightarrow> m_line g < m_blockHeight g
      \<Longrightarrow> \<not> (m_column (advance g) < m_blockWidth g \<and> m_line (advance g) < m_blockHeight g)
      \<Longrightarrow> c < m_blockWidth g \<Longrightarrow> l < m_blockHeight g \<Longrightarrow> \<not> less (m_column g, m_line g) (c, l)"
begin

definition behind :: "ScanGenerator \<Rightarrow> (nat \<times> nat) set" where
  "behind g = {p. fst p < m_blockWidth g \<and> snd p < m_blockHeight g \<and> less p (m_column g, m_line g)}"

lemma finite_behind: "finite (behind g)"
proof (rule finite_subset)
  show "behind g \<subseteq> {..<m_blockWidth g} \<times> {..<m_blockHeight g}" by (auto simp: behind_def)
qed simp

lemma gen_run_enumerates:
  assumes "m_scanType g = t" and "m_column g < m_blockWidth g" and "m_line g < m_blockHeight g"
    and "n + card (behind g) = m_blockWidth g * m_blockHeight g"
  shows "sorted_wrt less (gen_run n g)
    \<and> set (gen_run n g) = {..<m_blockWidth g} \<times> {..<m_blockHeight g} - behind g"
  using assms
proof (induction n arbitrary: g)
  case 0
  let ?B = "{..<m_blockWidth g} \<times> {..<m_blockHeight g}"
  have "behind g \<subseteq> ?B" by (auto simp: behind_def)
  moreover have "card ?B = card (behind g)" using 0 by simp
  ultimately have "behind g = ?B" by (intro card_subset_eq) auto
  then show ?case by simp
next
  case (Suc n)
  let ?B = "{..<m_blockWidth g} \<times> {..<m_blockHeight g}" and ?p = "(m_column g, m_line g)" and ?g = "advance g"
  have same: "m_scanType ?g = t" "m_blockWidth ?g = m_blockWidth g" "m_blockHeight ?g = m_blockHeight g"
    using Suc.prems(1)
    by (auto simp: advance_def advance_diag_def advance_trav_hor_def advance_trav_ver_def Let_def split: CoeffScanType.split)
  have beh: "behind ?g = insert ?p (behind g)"
    using step [OF Suc.prems(1-3)] Suc.prems(2,3) unfolding behind_def same by auto
  have new: "?p \<notin> behind g" by (simp add: behind_def irrefl)
  then have card: "card (behind ?g) = Suc (card (behind g))" by (simp add: beh finite_behind)
  show ?case
  proof (cases "m_column ?g < m_blockWidth g \<and> m_line ?g < m_blockHeight g")
    case True
    then have IH: "sorted_wrt less (gen_run n ?g)" "set (gen_run n ?g) = ?B - behind ?g"
      using Suc.IH [of ?g] Suc.prems(4) same card by auto
    have "less ?p q" if "q \<in> ?B - behind ?g" for q
      using that total [of ?p q] unfolding beh by (cases q) (auto simp: behind_def)
    then show ?thesis using IH new Suc.prems(2,3) by (auto simp: beh)
  next
    case False
    have "q \<in> behind ?g" if "q \<in> ?B" for q
      using that final [OF Suc.prems(1-3) False] total [of q ?p] unfolding beh
      by (cases q) (auto simp: behind_def)
    then have "?B \<subseteq> behind ?g" by blast
    moreover have "behind ?g \<subseteq> ?B" unfolding behind_def same by auto
    ultimately have B: "?B = behind ?g" by auto
    then have "card (behind ?g) = m_blockWidth g * m_blockHeight g" by (metis card_cartesian_product card_lessThan)
    then have "n = 0" using Suc.prems(4) card by simp
    then show ?thesis using B new unfolding beh by auto
  qed
qed

lemma sorted_distinct: "sorted_wrt less ps \<Longrightarrow> distinct ps"
  using irrefl by (induction ps) auto

text \<open>The full run enumerates the block, in order.\<close>

lemma gen_run_block:
  assumes "0 < w" and "0 < h" and "g = ScanGenerator_new w h stride t"
  shows "sorted_wrt less (gen_run (w * h) g) \<and> distinct (gen_run (w * h) g)
    \<and> set (gen_run (w * h) g) = {..<w} \<times> {..<h}"
proof -
  have g: "m_column g = 0" "m_line g = 0" "m_blockWidth g = w" "m_blockHeight g = h" "m_scanType g = t"
    by (simp_all add: assms(3) ScanGenerator_new_def)
  have "behind g = {}" by (auto simp: behind_def g least)
  with gen_run_enumerates [of g "w * h"] sorted_distinct show ?thesis using assms(1,2) by (simp add: g)
qed

end

text \<open>The diagonal scan: by diagonals, within one from the lower left to the upper right.\<close>

definition diag_less :: "nat \<times> nat \<Rightarrow> nat \<times> nat \<Rightarrow> bool" where
  "diag_less p q \<longleftrightarrow> fst p + snd p < fst q + snd q \<or> fst p + snd p = fst q + snd q \<and> fst p < fst q"

text \<open>The traverse scans: row by row (or column by column) in alternating direction.\<close>

definition hor_less :: "nat \<times> nat \<Rightarrow> nat \<times> nat \<Rightarrow> bool" where
  "hor_less p q \<longleftrightarrow> snd p < snd q \<or> snd p = snd q \<and> (if even (snd p) then fst p < fst q else fst q < fst p)"

definition ver_less :: "nat \<times> nat \<Rightarrow> nat \<times> nat \<Rightarrow> bool" where
  "ver_less p q \<longleftrightarrow> fst p < fst q \<or> fst p = fst q \<and> (if even (fst p) then snd p < snd q else snd q < snd p)"

interpretation diag: block_order diag_less SCAN_DIAG
proof (unfold_locales, goal_cases)
  case (5 g c l)
  then show ?case
    by (auto simp: diag_less_def advance_def advance_diag_def Let_def)
next
  case (6 g c l)
  then show ?case
    by (auto simp: diag_less_def advance_def advance_diag_def Let_def split: if_splits)
qed (auto simp: diag_less_def)

interpretation hor: block_order hor_less SCAN_TRAV_HOR
proof (unfold_locales, goal_cases)
  case (5 g c l)
  then show ?case
    by (auto simp: hor_less_def advance_def advance_trav_hor_def less_Suc_eq)
next
  case (6 g c l)
  then show ?case
    by (auto simp: hor_less_def advance_def advance_trav_hor_def split: if_splits)
qed (auto simp: hor_less_def odd_pos split: if_splits)

interpretation ver: block_order ver_less SCAN_TRAV_VER
proof (unfold_locales, goal_cases)
  case (5 g c l)
  then show ?case
    by (auto simp: ver_less_def advance_def advance_trav_ver_def less_Suc_eq)
next
  case (6 g c l)
  then show ?case
    by (auto simp: ver_less_def advance_def advance_trav_ver_def split: if_splits)
qed (auto simp: ver_less_def odd_pos split: if_splits)

text \<open>The order of each type of scan, and the run of its generator.\<close>

definition scan_less :: "CoeffScanType \<Rightarrow> nat \<times> nat \<Rightarrow> nat \<times> nat \<Rightarrow> bool" where
  "scan_less t = (case t of SCAN_DIAG \<Rightarrow> diag_less | SCAN_TRAV_HOR \<Rightarrow> hor_less | SCAN_TRAV_VER \<Rightarrow> ver_less)"

lemma scan_less_irrefl: "\<not> scan_less t p p"
  using diag.irrefl hor.irrefl ver.irrefl by (cases t) (simp_all add: scan_less_def)

lemma scan_less_asym: "scan_less t p q \<Longrightarrow> \<not> scan_less t q p"
  using diag.trans [of p q p] hor.trans [of p q p] ver.trans [of p q p] diag.irrefl hor.irrefl ver.irrefl
  unfolding scan_less_def by (cases t) (simp, blast)+

lemma gen_run_scan:
  assumes "0 < w" and "0 < h"
  shows "sorted_wrt (scan_less t) (gen_run (w * h) (ScanGenerator_new w h stride t))
    \<and> distinct (gen_run (w * h) (ScanGenerator_new w h stride t))
    \<and> set (gen_run (w * h) (ScanGenerator_new w h stride t)) = {..<w} \<times> {..<h}"
  using diag.gen_run_block [OF assms refl] hor.gen_run_block [OF assms refl] ver.gen_run_block [OF assms refl]
  by (cases t) (simp_all add: scan_less_def)

text \<open>The tables as lists of positions.\<close>

definition scan_elem :: "nat \<Rightarrow> nat \<times> nat \<Rightarrow> ScanElement" where
  "scan_elem blockWidth p = \<lparr>se_idx = snd p * blockWidth + fst p, se_x = fst p, se_y = snd p\<rparr>"

lemma advance_same [simp]:
  "m_scanType (advance g) = m_scanType g" "m_blockWidth (advance g) = m_blockWidth g"
  "m_blockHeight (advance g) = m_blockHeight g" "m_stride (advance g) = m_stride g"
  by (simp_all add: advance_def advance_diag_def advance_trav_hor_def advance_trav_ver_def Let_def split: CoeffScanType.split)

lemma scan_positions_eq:
  assumes "m_stride g = bw" and "\<forall>p \<in> set (gen_run n g). fst p + ox < bw"
  shows "scan_positions n bw ox oy g = map (\<lambda>p. scan_elem bw (fst p + ox, snd p + oy)) (gen_run n g)"
  using assms
proof (induction n arbitrary: g)
  case (Suc n)
  then have "m_column g + ox < bw" by simp
  then have "((m_line g + oy) * bw + m_column g + ox) div bw = m_line g + oy"
    by (simp add: add.assoc)
  with Suc show ?case by (simp add: GetNextIndex_def scan_elem_def Let_def)
qed simp

subsection \<open>Grouped scans\<close>

definition g_log2SbbSize :: "(nat \<times> nat) list list" where
  "g_log2SbbSize =
    [[(0,0), (0,1), (0,2), (0,3), (0,4), (0,4), (0,4), (0,4)],
     [(1,0), (1,1), (1,1), (1,3), (1,3), (1,3), (1,3), (1,3)],
     [(2,0), (1,1), (2,2), (2,2), (2,2), (2,2), (2,2), (2,2)],
     [(3,0), (3,1), (2,2), (2,2), (2,2), (2,2), (2,2), (2,2)],
     [(4,0), (3,1), (2,2), (2,2), (2,2), (2,2), (2,2), (2,2)],
     [(4,0), (3,1), (2,2), (2,2), (2,2), (2,2), (2,2), (2,2)],
     [(4,0), (3,1), (2,2), (2,2), (2,2), (2,2), (2,2), (2,2)],
     [(4,0), (3,1), (2,2), (2,2), (2,2), (2,2), (2,2), (2,2)]]"

definition JVET_C0024_ZERO_OUT_TH :: nat where
  "JVET_C0024_ZERO_OUT_TH = 32"

text \<open>
  \<^verbatim>\<open>floorLog2\<close>: for zero the code returns -1; otherwise, with the GNU compilers, it counts the leading
  zeros of the 32-bit value with the built-in \<^verbatim>\<open>__builtin_clz\<close>.
\<close>

definition builtin_clz :: "nat \<Rightarrow> nat" where
  "builtin_clz x = length (takeWhile Not (bitsBE 32 x))"

definition floorLog2 :: "nat \<Rightarrow> int" where
  "floorLog2 x = (if x = 0 then - 1 else 31 - int (builtin_clz x))"

text \<open>The branch for other compilers, a binary search for the highest bit.\<close>

definition log2_step :: "nat \<Rightarrow> nat \<Rightarrow> nat \<times> int \<Rightarrow> nat \<times> int" where
  "log2_step m k = (\<lambda>(x, result). if x AND m \<noteq> 0 then (drop_bit k x, result + int k) else (x, result))"

definition floorLog2_portable :: "nat \<Rightarrow> int" where
  "floorLog2_portable x =
     (if x = 0 then - 1
      else snd (log2_step 2 1 (log2_step 12 2 (log2_step 240 4 (log2_step 65280 8 (log2_step 4294901760 16 (x, 0)))))))"

definition ceilLog2 :: "nat \<Rightarrow> int" where
  "ceilLog2 x = (if x = 0 then - 1 else floorLog2 (x - 1) + 1)"

fun group_scans :: "nat \<Rightarrow> nat \<Rightarrow> nat \<Rightarrow> nat \<Rightarrow> CoeffScanType \<Rightarrow> ScanGenerator \<Rightarrow> ScanElement list" where
  "group_scans 0 blockWidth groupWidth groupHeight scanType g = []"
| "group_scans (Suc n) blockWidth groupWidth groupHeight scanType g =
     (let groupPositionY = m_line g;
          groupPositionX = m_column g;
          groupOffsetX = groupPositionX * groupWidth;
          groupOffsetY = groupPositionY * groupHeight;
          elems = scan_positions (groupWidth * groupHeight) blockWidth groupOffsetX groupOffsetY
                    (ScanGenerator_new groupWidth groupHeight blockWidth scanType)
      in elems @ group_scans n blockWidth groupWidth groupHeight scanType (snd (GetNextIndex 0 0 g)))"

definition sbbSize :: "nat \<Rightarrow> nat \<Rightarrow> nat \<times> nat" where
  "sbbSize blockWidth blockHeight = g_log2SbbSize ! nat (floorLog2 blockWidth) ! nat (floorLog2 blockHeight)"

text \<open>Beyond the zero-out threshold the remaining entries of the table are preset to the last position.\<close>

definition grouped_scan :: "CoeffScanType \<Rightarrow> nat \<Rightarrow> nat \<Rightarrow> ScanElement list" where
  "grouped_scan scanType blockWidth blockHeight =
     (let totalValues = blockWidth * blockHeight;
          (log2CGWidth, log2CGHeight) = sbbSize blockWidth blockHeight;
          groupWidth = 2 ^ log2CGWidth;
          groupHeight = 2 ^ log2CGHeight;
          widthInGroups = drop_bit log2CGWidth (min JVET_C0024_ZERO_OUT_TH blockWidth);
          heightInGroups = drop_bit log2CGHeight (min JVET_C0024_ZERO_OUT_TH blockHeight);
          scan = group_scans (widthInGroups * heightInGroups) blockWidth groupWidth groupHeight scanType
                   (ScanGenerator_new widthInGroups heightInGroups groupWidth scanType)
      in scan @ replicate (totalValues - length scan)
           \<lparr>se_idx = totalValues - 1, se_x = blockWidth - 1, se_y = blockHeight - 1\<rparr>)"

text \<open>The logarithm by binary search agrees with its definition by halving.\<close>

lemma and_upper_half:
  assumes "(x::nat) < 2 ^ (2 * k)"
  shows "x AND push_bit k (mask k) \<noteq> 0 \<longleftrightarrow> 2 ^ k \<le> x"
proof -
  have "x AND push_bit k (mask k) = push_bit k (drop_bit k x AND mask k)"
    by (rule bit_eqI) (auto simp: bit_simps)
  also have "drop_bit k x AND mask k = drop_bit k x"
    using assms by (simp add: take_bit_eq_mask [symmetric] take_bit_nat_eq_self_iff drop_bit_eq_div less_mult_imp_div_less mult_2 power_add)
  finally show ?thesis by (simp add: drop_bit_eq_div push_bit_eq_mult div_eq_0_iff not_less)
qed

lemma ilog2_drop_bit:
  assumes "2 ^ k \<le> x"
  shows "ilog2 x = ilog2 (drop_bit k x) + k"
proof (rule ilog2_unique)
  have d: "0 < x div 2 ^ k" using assms by (simp add: div_greater_zero_iff)
  have "2 ^ (ilog2 (x div 2 ^ k) + k) \<le> x div 2 ^ k * 2 ^ k"
    using ilog2_bounds(1) [OF d] by (simp add: power_add)
  also have "\<dots> \<le> x" by simp
  finally show "2 ^ (ilog2 (drop_bit k x) + k) \<le> x" by (simp add: drop_bit_eq_div)
  have "x div 2 ^ k < 2 ^ (ilog2 (x div 2 ^ k) + 1)" by (rule ilog2_bounds(2) [OF d])
  then have "x < 2 ^ (ilog2 (x div 2 ^ k) + 1) * 2 ^ k" by (simp add: div_less_iff_less_mult)
  then show "x < 2 ^ (ilog2 (drop_bit k x) + k + 1)" by (simp add: drop_bit_eq_div power_add mult.commute mult.left_commute)
qed

lemma floorLog2_portable_eq:
  assumes "0 < x" and "x < 4294967296"
  shows "floorLog2_portable x = int (ilog2 x)"
proof -
  have step: "int (ilog2 (fst (log2_step m k p))) + snd (log2_step m k p) = int (ilog2 x)
      \<and> 0 < fst (log2_step m k p) \<and> fst (log2_step m k p) < 2 ^ k"
    if p: "int (ilog2 (fst p)) + snd p = int (ilog2 x) \<and> 0 < fst p \<and> fst p < 2 ^ n"
      and nk: "n = 2 * k" and m: "m = push_bit k (mask k)" for p n k m
  proof (cases p)
    case (Pair y r)
    with p nk have y: "0 < y" "y < 2 ^ (2 * k)" by auto
    show ?thesis using p and_upper_half [OF y(2)] ilog2_drop_bit [of k y] y
      unfolding m Pair by (auto simp: log2_step_def drop_bit_eq_div div_greater_zero_iff less_mult_imp_div_less mult_2 power_add)
  qed
  have masks: "4294901760 = push_bit 16 (mask 16 :: nat)" "65280 = push_bit 8 (mask 8 :: nat)"
    "240 = push_bit 4 (mask 4 :: nat)" "12 = push_bit 2 (mask 2 :: nat)" "2 = push_bit 1 (mask 1 :: nat)"
    by (simp_all add: mask_eq_exp_minus_1 push_bit_eq_mult)
  have halves: "32 = 2 * (16::nat)" "16 = 2 * (8::nat)" "8 = 2 * (4::nat)" "4 = 2 * (2::nat)" "2 = 2 * (1::nat)"
    by simp_all
  have "int (ilog2 (fst (x, 0::int))) + snd (x, 0) = int (ilog2 x) \<and> 0 < fst (x, 0::int) \<and> fst (x, 0::int) < 2 ^ 32"
    using assms by simp
  note s = step [OF step [OF step [OF step [OF step [OF this halves(1) masks(1)] halves(2) masks(2)] halves(3) masks(3)]
      halves(4) masks(4)] halves(5) masks(5)]
  let ?y = "fst (log2_step 2 1 (log2_step 12 2 (log2_step 240 4 (log2_step 65280 8 (log2_step 4294901760 16 (x, 0))))))"
  have "?y = 1" using s by simp
  then have "ilog2 ?y = 0" by (subst \<open>?y = 1\<close>) (simp add: ilog2.simps)
  with s show ?thesis using assms(1) by (simp add: floorLog2_portable_def)
qed

text \<open>The number of leading zeros gives the same value.\<close>

lemma leading_zeros:
  assumes "0 < x" and "x < 2 ^ n"
  shows "length (takeWhile Not (bitsBE n x)) + ilog2 x + 1 = n"
  using assms
proof (induction n)
  case (Suc n)
  have split: "bitsBE (Suc n) x = odd (x div 2 ^ n) # bitsBE n x"
    using bitsBE_add [of 1 n x] by simp
  show ?case
  proof (cases "x < 2 ^ n")
    case True
    then show ?thesis using Suc unfolding split by simp
  next
    case False
    then have "x div 2 ^ n = 1" using Suc.prems(2) by (intro div_nat_eqI) simp_all
    moreover have "ilog2 x = n" using False Suc.prems(2) by (intro ilog2_unique) simp_all
    ultimately show ?thesis unfolding split by simp
  qed
qed simp

lemma floorLog2_eq:
  assumes "0 < x" and "x < 4294967296"
  shows "floorLog2 x = int (ilog2 x)"
  using leading_zeros [of x 32] assms by (simp add: floorLog2_def builtin_clz_def del: bitsBE.simps)

lemma floorLog2_power: "n < 32 \<Longrightarrow> floorLog2 (2 ^ n) = int n"
  using floorLog2_eq [of "2 ^ n"] ilog2_unique [of n "2 ^ n"] power_strict_increasing [of n 32 "2::nat"] by simp


text \<open>The order of a grouped scan: by groups, then within the group.\<close>

definition grp_less :: "CoeffScanType \<Rightarrow> nat \<Rightarrow> nat \<Rightarrow> nat \<times> nat \<Rightarrow> nat \<times> nat \<Rightarrow> bool" where
  "grp_less t gw gh p q \<longleftrightarrow>
     (let P = (fst p div gw, snd p div gh); Q = (fst q div gw, snd q div gh) in
      scan_less t P Q \<or> P = Q \<and> scan_less t (fst p mod gw, snd p mod gh) (fst q mod gw, snd q mod gh))"

lemma grp_less_irrefl: "\<not> grp_less t gw gh p p"
  by (simp add: grp_less_def scan_less_irrefl Let_def)

lemma grp_less_asym: "grp_less t gw gh p q \<Longrightarrow> \<not> grp_less t gw gh q p"
  unfolding grp_less_def Let_def by (metis scan_less_asym)

text \<open>In a diagonal scan the positions to the right and below come later.\<close>

lemma grp_less_later:
  assumes "0 < gw" and "0 < gh" and "x \<le> x'" and "y \<le> y'" and "(x, y) \<noteq> (x', y')"
  shows "grp_less SCAN_DIAG gw gh (x, y) (x', y')"
proof -
  have d: "x div gw \<le> x' div gw" "y div gh \<le> y' div gh" using assms(3,4) by (simp_all add: div_le_mono)
  show ?thesis
  proof (cases "x div gw = x' div gw \<and> y div gh = y' div gh")
    case True
    then have "x mod gw + x' div gw * gw = x" "x' mod gw + x' div gw * gw = x'"
      "y mod gh + y' div gh * gh = y" "y' mod gh + y' div gh * gh = y'" by (metis mod_div_mult_eq)+
    then have "x mod gw \<le> x' mod gw" "y mod gh \<le> y' mod gh" "x mod gw < x' mod gw \<or> y mod gh < y' mod gh"
      using assms(3-5) unfolding prod.inject by linarith+
    with True show ?thesis by (auto simp: grp_less_def scan_less_def diag_less_def)
  next
    case False
    with d show ?thesis by (auto simp: grp_less_def scan_less_def diag_less_def)
  qed
qed

lemma sorted_wrt_concat_map:
  assumes "sorted_wrt Q xs" and "\<And>x. x \<in> set xs \<Longrightarrow> sorted_wrt P (f x)"
    and "\<And>x y a b. Q x y \<Longrightarrow> x \<in> set xs \<Longrightarrow> y \<in> set xs \<Longrightarrow> a \<in> set (f x) \<Longrightarrow> b \<in> set (f y) \<Longrightarrow> P a b"
  shows "sorted_wrt P (concat (map f xs))"
  using assms by (induction xs) (fastforce simp: sorted_wrt_append)+

definition grp_place :: "nat \<Rightarrow> nat \<Rightarrow> nat \<times> nat \<Rightarrow> nat \<times> nat \<Rightarrow> nat \<times> nat" where
  "grp_place gw gh G p = (fst p + fst G * gw, snd p + snd G * gh)"

definition grp_positions :: "CoeffScanType \<Rightarrow> nat \<Rightarrow> nat \<Rightarrow> nat \<Rightarrow> nat \<Rightarrow> (nat \<times> nat) list" where
  "grp_positions t gw gh wg hg = concat (map (\<lambda>G. map (grp_place gw gh G)
      (gen_run (gw * gh) (ScanGenerator_new gw gh (gw * wg) t)))
     (gen_run (wg * hg) (ScanGenerator_new wg hg gw t)))"

lemma gen_run_stride: "gen_run n (g\<lparr>m_stride := s\<rparr>) = gen_run n g"
proof (induction n arbitrary: g)
  case (Suc n)
  have "advance (g\<lparr>m_stride := s\<rparr>) = (advance g)\<lparr>m_stride := s\<rparr>"
    by (cases g; cases "m_scanType g") (simp_all add: advance_def advance_diag_def advance_trav_hor_def advance_trav_ver_def Let_def)
  with Suc show ?case by simp
qed simp

lemma gen_run_new_stride: "gen_run n (ScanGenerator_new w h s t) = gen_run n (ScanGenerator_new w h s' t)"
  using gen_run_stride [where n = n and s = s and g = "ScanGenerator_new w h s' t"] by (simp add: ScanGenerator_new_def)

lemma group_scans_eq:
  assumes "0 < gw" and "0 < gh" and "\<forall>G \<in> set (gen_run n g). fst G * gw + gw \<le> bw"
  shows "group_scans n bw gw gh t g = map (scan_elem bw) (concat (map (\<lambda>G. map (grp_place gw gh G)
      (gen_run (gw * gh) (ScanGenerator_new gw gh bw t))) (gen_run n g)))"
  using assms(3)
proof (induction n arbitrary: g)
  case (Suc n)
  let ?g = "ScanGenerator_new gw gh bw t"
  have "set (gen_run (gw * gh) ?g) = {..<gw} \<times> {..<gh}" using gen_run_scan [OF assms(1,2)] by blast
  then have "fst p < gw" if "p \<in> set (gen_run (gw * gh) ?g)" for p using that by (simp add: mem_Times_iff)
  moreover have "m_column g * gw + gw \<le> bw" using Suc.prems by simp
  ultimately have "fst p + m_column g * gw < bw" if "p \<in> set (gen_run (gw * gh) ?g)" for p
    using that by (metis add.commute add_less_cancel_left order.strict_trans2)
  then have "scan_positions (gw * gh) bw (m_column g * gw) (m_line g * gh) ?g
      = map (\<lambda>p. scan_elem bw (fst p + m_column g * gw, snd p + m_line g * gh)) (gen_run (gw * gh) ?g)"
    by (intro scan_positions_eq) (auto simp: ScanGenerator_new_def)
  with Suc show ?case by (simp add: GetNextIndex_def grp_place_def)
qed simp

lemma grp_place_simps:
  assumes "fst p < gw" and "snd p < gh"
  shows "fst (grp_place gw gh G p) div gw = fst G" "snd (grp_place gw gh G p) div gh = snd G"
    "fst (grp_place gw gh G p) mod gw = fst p" "snd (grp_place gw gh G p) mod gh = snd p"
  using assms by (simp_all add: grp_place_def)

lemma grp_positions_block:
  assumes "0 < gw" and "0 < gh" and "0 < wg" and "0 < hg"
  shows "sorted_wrt (grp_less t gw gh) (grp_positions t gw gh wg hg)"
    and "set (grp_positions t gw gh wg hg) = {..<gw * wg} \<times> {..<gh * hg}"
    and "length (grp_positions t gw gh wg hg) = gw * wg * (gh * hg)"
proof -
  let ?in = "gen_run (gw * gh) (ScanGenerator_new gw gh (gw * wg) t)"
  let ?out = "gen_run (wg * hg) (ScanGenerator_new wg hg gw t)"
  have ins: "sorted_wrt (scan_less t) ?in" "distinct ?in" "set ?in = {..<gw} \<times> {..<gh}"
    using gen_run_scan [OF assms(1,2)] by blast+
  have out: "sorted_wrt (scan_less t) ?out" "distinct ?out" "set ?out = {..<wg} \<times> {..<hg}"
    using gen_run_scan [OF assms(3,4)] by blast+
  have len: "length ?in = gw * gh" "length ?out = wg * hg"
    using distinct_card [OF ins(2)] distinct_card [OF out(2)] ins(3) out(3) by auto
  show "sorted_wrt (grp_less t gw gh) (grp_positions t gw gh wg hg)"
    unfolding grp_positions_def
  proof (rule sorted_wrt_concat_map [OF out(1)])
    fix G
    show "sorted_wrt (grp_less t gw gh) (map (grp_place gw gh G) ?in)"
      unfolding sorted_wrt_map
      by (rule sorted_wrt_mono_rel [OF _ ins(1)])
        (simp add: ins(3) mem_Times_iff grp_less_def grp_place_simps)
  next
    fix G H a b
    assume "scan_less t G H" "a \<in> set (map (grp_place gw gh G) ?in)" "b \<in> set (map (grp_place gw gh H) ?in)"
    then obtain p q where "a = grp_place gw gh G p" "b = grp_place gw gh H q" "fst p < gw" "snd p < gh" "fst q < gw" "snd q < gh"
      by (auto simp: ins(3))
    with \<open>scan_less t G H\<close> show "grp_less t gw gh a b" by (simp add: grp_less_def grp_place_simps)
  qed
  show "set (grp_positions t gw gh wg hg) = {..<gw * wg} \<times> {..<gh * hg}"
  proof (intro equalityI subsetI)
    fix p assume "p \<in> set (grp_positions t gw gh wg hg)"
    then obtain G q where p: "p = grp_place gw gh G q" "fst G < wg" "snd G < hg" "fst q < gw" "snd q < gh"
      using ins(3) out(3) by (auto simp: grp_positions_def)
    have "fst q + fst G * gw < gw * Suc (fst G)" "snd q + snd G * gh < gh * Suc (snd G)" using p by auto
    moreover have "gw * Suc (fst G) \<le> gw * wg" "gh * Suc (snd G) \<le> gh * hg"
      using p by (simp_all del: mult_Suc_right add: Suc_le_eq)
    ultimately have "fst q + fst G * gw < gw * wg" "snd q + snd G * gh < gh * hg" by (metis order.strict_trans2)+
    then show "p \<in> {..<gw * wg} \<times> {..<gh * hg}" by (simp add: p(1) grp_place_def)
  next
    fix p assume p: "p \<in> {..<gw * wg} \<times> {..<gh * hg}"
    then have "(fst p div gw, snd p div gh) \<in> set ?out" "(fst p mod gw, snd p mod gh) \<in> set ?in"
      using assms unfolding out(3) ins(3) by (auto simp: div_less_iff_less_mult mult.commute)
    moreover have "p = grp_place gw gh (fst p div gw, snd p div gh) (fst p mod gw, snd p mod gh)"
      by (simp add: grp_place_def)
    ultimately show "p \<in> set (grp_positions t gw gh wg hg)" unfolding grp_positions_def by force
  qed
  have "length (grp_positions t gw gh wg hg) = (wg * hg) * (gw * gh)"
    by (simp add: grp_positions_def length_concat o_def len sum_list_triv)
  then show "length (grp_positions t gw gh wg hg) = gw * wg * (gh * hg)" by simp
qed

text \<open>The subblock sizes divide the coded part of the block.\<close>

lemma sbbSize_le:
  assumes "a \<le> 7" and "b \<le> 7"
  shows "fst (sbbSize (2 ^ a) (2 ^ b)) \<le> min 5 a" and "snd (sbbSize (2 ^ a) (2 ^ b)) \<le> min 5 b"
    and "fst (sbbSize (2 ^ a) (2 ^ b)) + snd (sbbSize (2 ^ a) (2 ^ b)) \<le> 4"
proof -
  have sb: "sbbSize (2 ^ a) (2 ^ b) = g_log2SbbSize ! a ! b"
    using assms by (simp add: sbbSize_def floorLog2_power)
  have "\<forall>a \<in> {..<8}. \<forall>b \<in> {..<8}. fst (g_log2SbbSize ! a ! b) \<le> min 5 a \<and> snd (g_log2SbbSize ! a ! b) \<le> min 5 b
      \<and> fst (g_log2SbbSize ! a ! b) + snd (g_log2SbbSize ! a ! b) \<le> 4"
    by (simp add: g_log2SbbSize_def lessThan_nat_numeral lessThan_Suc numeral_eq_Suc)
  then show "fst (sbbSize (2 ^ a) (2 ^ b)) \<le> min 5 a" "snd (sbbSize (2 ^ a) (2 ^ b)) \<le> min 5 b"
    "fst (sbbSize (2 ^ a) (2 ^ b)) + snd (sbbSize (2 ^ a) (2 ^ b)) \<le> 4"
    using assms unfolding sb by auto
qed

lemma min_zero_out: "min JVET_C0024_ZERO_OUT_TH (2 ^ a) = 2 ^ min 5 a"
proof (cases "a \<le> 5")
  case True
  then have "(2::nat) ^ a \<le> 2 ^ 5" by (intro power_increasing) auto
  with True show ?thesis by (simp add: JVET_C0024_ZERO_OUT_TH_def min_def)
next
  case False
  then have "(2::nat) ^ 5 \<le> 2 ^ a" by (intro power_increasing) auto
  with False show ?thesis by (simp add: JVET_C0024_ZERO_OUT_TH_def min_def)
qed

lemma drop_bit_exp: "k \<le> n \<Longrightarrow> drop_bit k (2 ^ n :: nat) = 2 ^ (n - k)"
  by (simp add: drop_bit_eq_div power_diff)

text \<open>The coded positions of a block in scan order.\<close>

definition coded_positions_of :: "CoeffScanType \<Rightarrow> nat \<Rightarrow> nat \<Rightarrow> (nat \<times> nat) list" where
  "coded_positions_of t a b = (case sbbSize (2 ^ a) (2 ^ b) of (lw, lh) \<Rightarrow>
     grp_positions t (2 ^ lw) (2 ^ lh) (2 ^ (min 5 a - lw)) (2 ^ (min 5 b - lh)))"

lemma grouped_scan_eq:
  assumes "a \<le> 7" and "b \<le> 7"
  shows "grouped_scan t (2 ^ a) (2 ^ b) = map (scan_elem (2 ^ a)) (coded_positions_of t a b)
    @ replicate (2 ^ a * 2 ^ b - length (coded_positions_of t a b)) (scan_elem (2 ^ a) (2 ^ a - 1, 2 ^ b - 1))"
proof -
  obtain lw lh where l: "sbbSize (2 ^ a) (2 ^ b) = (lw, lh)" by fastforce
  note le = sbbSize_le [OF assms, unfolded l fst_conv snd_conv]
  let ?wg = "2 ^ (min 5 a - lw) :: nat" and ?hg = "2 ^ (min 5 b - lh) :: nat"
  let ?g = "ScanGenerator_new ?wg ?hg (2 ^ lw) t"
  have "set (gen_run (?wg * ?hg) ?g) = {..<?wg} \<times> {..<?hg}"
    by (rule conjunct2 [OF conjunct2 [OF gen_run_scan]]) simp_all
  then have "\<forall>G \<in> set (gen_run (?wg * ?hg) ?g). fst G * 2 ^ lw + 2 ^ lw \<le> 2 ^ a"
  proof (intro ballI)
    fix G assume "G \<in> set (gen_run (?wg * ?hg) ?g)"
    with \<open>set _ = _\<close> have "fst G < ?wg" by (simp add: mem_Times_iff)
    then have "Suc (fst G) * 2 ^ lw \<le> ?wg * 2 ^ lw" by (intro mult_le_mono1) simp
    also have "\<dots> = 2 ^ min 5 a" using le by (simp flip: power_add)
    also have "\<dots> \<le> 2 ^ a" by (intro power_increasing) auto
    finally show "fst G * 2 ^ lw + 2 ^ lw \<le> 2 ^ a" by simp
  qed
  from group_scans_eq [OF _ _ this, of "2 ^ lh"]
  have "group_scans (?wg * ?hg) (2 ^ a) (2 ^ lw) (2 ^ lh) t ?g = map (scan_elem (2 ^ a)) (coded_positions_of t a b)"
    unfolding coded_positions_of_def l prod.case grp_positions_def
    by (simp add: gen_run_new_stride [of "2 ^ lw * 2 ^ lh" "2 ^ lw" "2 ^ lh" "2 ^ a" t "2 ^ lw * ?wg"])
  moreover have "2 ^ a * 2 ^ b - 1 = (2 ^ b - 1) * 2 ^ a + (2 ^ a - 1 :: nat)" for a b :: nat
    by (simp add: algebra_simps)
  ultimately show ?thesis using le
    by (simp add: grouped_scan_def l min_zero_out drop_bit_exp Let_def scan_elem_def)
qed

text \<open>A grouped table enumerates the coded region in the order of groups.\<close>

lemma coded_positions_of_block:
  assumes "a \<le> 7" and "b \<le> 7" and "sbbSize (2 ^ a) (2 ^ b) = (lw, lh)"
  shows "sorted_wrt (grp_less t (2 ^ lw) (2 ^ lh)) (coded_positions_of t a b)"
    and "distinct (coded_positions_of t a b)"
    and "set (coded_positions_of t a b) = {..<2 ^ min 5 a} \<times> {..<2 ^ min 5 b}"
    and "length (coded_positions_of t a b) = 2 ^ min 5 a * 2 ^ min 5 b"
proof -
  note le = sbbSize_le [OF assms(1,2), unfolded assms(3) fst_conv snd_conv]
  let ?gw = "2 ^ lw :: nat" and ?gh = "2 ^ lh :: nat" and ?wg = "2 ^ (min 5 a - lw) :: nat" and ?hg = "2 ^ (min 5 b - lh) :: nat"
  have c: "coded_positions_of t a b = grp_positions t ?gw ?gh ?wg ?hg" by (simp add: coded_positions_of_def assms(3))
  have m: "?gw * ?wg = 2 ^ min 5 a" "?gh * ?hg = 2 ^ min 5 b" using le by (simp_all flip: power_add)
  show g: "sorted_wrt (grp_less t ?gw ?gh) (coded_positions_of t a b)"
    and "set (coded_positions_of t a b) = {..<2 ^ min 5 a} \<times> {..<2 ^ min 5 b}"
    and "length (coded_positions_of t a b) = 2 ^ min 5 a * 2 ^ min 5 b"
    using grp_positions_block [of ?gw ?gh ?wg ?hg] by (simp_all only: c m zero_less_power zero_less_numeral)
  show "distinct (coded_positions_of t a b)"
    using g grp_less_irrefl unfolding distinct_conv_nth sorted_wrt_iff_nth_less by (metis nat_neq_iff)
qed

text \<open>What the coders of coefficients rely on: the diagonal scan.\<close>

definition coded_positions :: "nat \<Rightarrow> nat \<Rightarrow> (nat \<times> nat) list" where
  "coded_positions a b = coded_positions_of SCAN_DIAG a b"

lemmas grouped_scan_diag = grouped_scan_eq [where t = SCAN_DIAG, folded coded_positions_def]

lemma coded_positions_block:
  assumes "a \<le> 7" and "b \<le> 7"
  shows "distinct (coded_positions a b)"
    and "set (coded_positions a b) = {..<2 ^ min 5 a} \<times> {..<2 ^ min 5 b}"
    and "length (coded_positions a b) = 2 ^ min 5 a * 2 ^ min 5 b"
    and "i < length (coded_positions a b) \<Longrightarrow> j < length (coded_positions a b)
      \<Longrightarrow> coded_positions a b ! i = (x, y) \<Longrightarrow> coded_positions a b ! j = (x', y')
      \<Longrightarrow> x \<le> x' \<Longrightarrow> y \<le> y' \<Longrightarrow> (x, y) \<noteq> (x', y') \<Longrightarrow> i < j"
proof -
  obtain lw lh where l: "sbbSize (2 ^ a) (2 ^ b) = (lw, lh)" by fastforce
  note blk = coded_positions_of_block [OF assms l, of SCAN_DIAG, folded coded_positions_def]
  let ?gw = "2 ^ lw :: nat" and ?gh = "2 ^ lh :: nat"
  show "distinct (coded_positions a b)" "set (coded_positions a b) = {..<2 ^ min 5 a} \<times> {..<2 ^ min 5 b}"
    "length (coded_positions a b) = 2 ^ min 5 a * 2 ^ min 5 b" by (fact blk)+
  assume i: "i < length (coded_positions a b)" "j < length (coded_positions a b)"
    "coded_positions a b ! i = (x, y)" "coded_positions a b ! j = (x', y')" "x \<le> x'" "y \<le> y'" "(x, y) \<noteq> (x', y')"
  then have less: "grp_less SCAN_DIAG ?gw ?gh (x, y) (x', y')" by (intro grp_less_later) auto
  show "i < j"
  proof (rule ccontr)
    assume "\<not> i < j"
    then have "j < i \<or> j = i" by auto
    then have "grp_less SCAN_DIAG ?gw ?gh (x', y') (x, y) \<or> (x, y) = (x', y')"
      using blk(1) i unfolding sorted_wrt_iff_nth_less by metis
    with less i(7) grp_less_asym show False by blast
  qed
qed

lemma ungrouped_scan_run:
  assumes "0 < w" and "0 < h"
  shows "ungrouped_scan t w h = map (scan_elem w) (gen_run (w * h) (ScanGenerator_new w h w t))"
    and "sorted_wrt (scan_less t) (gen_run (w * h) (ScanGenerator_new w h w t))"
    and "distinct (gen_run (w * h) (ScanGenerator_new w h w t))"
    and "set (gen_run (w * h) (ScanGenerator_new w h w t)) = {..<w} \<times> {..<h}"
proof -
  let ?g = "ScanGenerator_new w h w t"
  have *: "sorted_wrt (scan_less t) (gen_run (w * h) ?g) \<and> distinct (gen_run (w * h) ?g)
      \<and> set (gen_run (w * h) ?g) = {..<w} \<times> {..<h}"
    by (rule gen_run_scan [OF assms])
  then have "ungrouped_scan t w h = map (\<lambda>p. scan_elem w (fst p + 0, snd p + 0)) (gen_run (w * h) ?g)"
    unfolding ungrouped_scan_def by (intro scan_positions_eq) (auto simp: ScanGenerator_new_def)
  then show "ungrouped_scan t w h = map (scan_elem w) (gen_run (w * h) ?g)" by simp
  show "sorted_wrt (scan_less t) (gen_run (w * h) ?g)" "distinct (gen_run (w * h) ?g)"
    "set (gen_run (w * h) ?g) = {..<w} \<times> {..<h}" using * by blast+
qed

lemma ungrouped_scan_eq:
  assumes "0 < w" and "0 < h"
  obtains ps where "ungrouped_scan t w h = map (scan_elem w) ps" and "sorted_wrt (scan_less t) ps"
    and "distinct ps" and "set ps = {..<w} \<times> {..<h}"
  using ungrouped_scan_run [OF assms] that by blast

text \<open>The positions of the \<open>k\<close>-th group in the grouped scan, and the group in the scan of the groups.\<close>

lemma nth_concat_equal:
  assumes "\<forall>xs \<in> set xss. length xs = n" and "k < length xss" and "r < n"
  shows "concat xss ! (k * n + r) = xss ! k ! r"
  using assms
proof (induction xss arbitrary: k)
  case (Cons xs xss)
  show ?case
  proof (cases k)
    case 0
    with Cons.prems show ?thesis by (simp add: nth_append)
  next
    case (Suc k')
    with Cons.prems Cons.IH [of k'] show ?thesis by (simp add: nth_append add.assoc)
  qed
qed simp

lemma coded_positions_group:
  assumes "a \<le> 7" and "b \<le> 7" and "sbbSize (2 ^ a) (2 ^ b) = (lw, lh)"
    and "k < 2 ^ (min 5 a - lw) * 2 ^ (min 5 b - lh)" and "r < 2 ^ lw * 2 ^ lh"
  defines "G \<equiv> ungrouped_scan SCAN_DIAG (2 ^ (min 5 a - lw)) (2 ^ (min 5 b - lh)) ! k"
  shows "fst (coded_positions a b ! (k * (2 ^ lw * 2 ^ lh) + r)) div 2 ^ lw = se_x G"
    and "snd (coded_positions a b ! (k * (2 ^ lw * 2 ^ lh) + r)) div 2 ^ lh = se_y G"
proof -
  let ?gw = "2 ^ lw :: nat" and ?gh = "2 ^ lh :: nat" and ?wg = "2 ^ (min 5 a - lw) :: nat" and ?hg = "2 ^ (min 5 b - lh) :: nat"
  let ?in = "gen_run (?gw * ?gh) (ScanGenerator_new ?gw ?gh (?gw * ?wg) SCAN_DIAG)"
  let ?out = "gen_run (?wg * ?hg) (ScanGenerator_new ?wg ?hg ?gw SCAN_DIAG)"
  have pos: "0 < ?gw" "0 < ?gh" "0 < ?wg" "0 < ?hg" by simp_all
  note run = ungrouped_scan_run [OF pos(3,4), of SCAN_DIAG]
  have ins: "distinct ?in" "set ?in = {..<?gw} \<times> {..<?gh}" using diag.gen_run_block [OF pos(1,2) refl] by blast+
  have li: "length ?in = ?gw * ?gh" using distinct_card [OF ins(1)] unfolding ins(2) by simp
  have lo: "length (gen_run (?wg * ?hg) (ScanGenerator_new ?wg ?hg ?wg SCAN_DIAG)) = ?wg * ?hg"
    using distinct_card [OF run(3)] unfolding run(4) by simp
  have out: "?out = gen_run (?wg * ?hg) (ScanGenerator_new ?wg ?hg ?wg SCAN_DIAG)" by (rule gen_run_new_stride)
  have G: "G = scan_elem ?wg (?out ! k)" unfolding G_def run(1) out
    by (rule nth_map) (simp only: lo assms(4))
  let ?xss = "map (\<lambda>G. map (grp_place ?gw ?gh G) ?in) ?out"
  have ko: "k < length ?out" unfolding out lo by (fact assms(4))
  have "concat ?xss ! (k * (?gw * ?gh) + r) = ?xss ! k ! r"
  proof (rule nth_concat_equal)
    show "\<forall>xs \<in> set ?xss. length xs = ?gw * ?gh" by (simp add: li)
    show "k < length ?xss" unfolding length_map by (fact ko)
  qed (fact assms(5))
  also have "?xss ! k = map (grp_place ?gw ?gh (?out ! k)) ?in" using ko by (rule nth_map)
  finally have "coded_positions a b ! (k * (?gw * ?gh) + r) = map (grp_place ?gw ?gh (?out ! k)) ?in ! r"
    unfolding coded_positions_def coded_positions_of_def assms(3) prod.case grp_positions_def .
  moreover have "map (grp_place ?gw ?gh (?out ! k)) ?in ! r = grp_place ?gw ?gh (?out ! k) (?in ! r)"
    by (rule nth_map) (simp only: li assms(5))
  ultimately have eq: "coded_positions a b ! (k * (?gw * ?gh) + r) = grp_place ?gw ?gh (?out ! k) (?in ! r)" by (rule trans)
  have "?in ! r \<in> {..<?gw} \<times> {..<?gh}" using nth_mem [of r ?in] unfolding ins(2) li using assms(5) .
  then have "fst (?in ! r) < ?gw" "snd (?in ! r) < ?gh" by auto
  then show "fst (coded_positions a b ! (k * (?gw * ?gh) + r)) div ?gw = se_x G"
    "snd (coded_positions a b ! (k * (?gw * ?gh) + r)) div ?gh = se_y G"
    unfolding eq G by (simp_all add: grp_place_def scan_elem_def)
qed

text \<open>
  C16. The scan tables: for every type of scan, block width and height, the ungrouped table lists each
  position of the block exactly once, in the order of the scan type, with the raster index of the
  position.  The grouped table of a block with sides up to 128 lists each position of the coded region
  (at most 32 columns and 32 rows) exactly once, group by group in the order of the scan type and in
  the same order within a group; the entries behind those of the coded region all name the last
  position of the block.  In the grouped diagonal table a position to the right of or below another one
  always comes later.
\<close>

theorem scan_tables:
  assumes "0 < w" and "0 < h" and "a \<le> 7" and "b \<le> 7" and "sbbSize (2 ^ a) (2 ^ b) = (lw, lh)"
  shows "(\<exists>ps. ungrouped_scan t w h = map (scan_elem w) ps \<and> sorted_wrt (scan_less t) ps \<and> distinct ps
      \<and> set ps = {..<w} \<times> {..<h})
    \<and> (\<exists>ps. grouped_scan t (2 ^ a) (2 ^ b) = map (scan_elem (2 ^ a)) ps
           @ replicate (2 ^ a * 2 ^ b - length ps) (scan_elem (2 ^ a) (2 ^ a - 1, 2 ^ b - 1))
      \<and> sorted_wrt (grp_less t (2 ^ lw) (2 ^ lh)) ps
      \<and> distinct ps \<and> set ps = {..<2 ^ min 5 a} \<times> {..<2 ^ min 5 b}
      \<and> (t = SCAN_DIAG \<longrightarrow> (\<forall>i < length ps. \<forall>j < length ps.
           fst (ps ! i) \<le> fst (ps ! j) \<and> snd (ps ! i) \<le> snd (ps ! j) \<longrightarrow> i \<le> j)))"
proof
  show "\<exists>ps. ungrouped_scan t w h = map (scan_elem w) ps \<and> sorted_wrt (scan_less t) ps \<and> distinct ps
      \<and> set ps = {..<w} \<times> {..<h}"
    using ungrouped_scan_eq [OF assms(1,2)] by metis
  note diag_block = coded_positions_block [OF assms(3,4)]
  have "i \<le> j" if "i < length (coded_positions a b)" "j < length (coded_positions a b)"
    "fst (coded_positions a b ! i) \<le> fst (coded_positions a b ! j)"
    "snd (coded_positions a b ! i) \<le> snd (coded_positions a b ! j)" for i j
    using that diag_block(4) [OF that(1,2) prod.collapse [symmetric] prod.collapse [symmetric]]
      nth_eq_iff_index_eq [OF diag_block(1)]
    by (metis less_imp_le prod.collapse order_refl)
  with coded_positions_of_block(1-3) [OF assms(3-5), of t] grouped_scan_eq [OF assms(3,4), of t]
  show "\<exists>ps. grouped_scan t (2 ^ a) (2 ^ b) = map (scan_elem (2 ^ a)) ps
           @ replicate (2 ^ a * 2 ^ b - length ps) (scan_elem (2 ^ a) (2 ^ a - 1, 2 ^ b - 1))
      \<and> sorted_wrt (grp_less t (2 ^ lw) (2 ^ lh)) ps
      \<and> distinct ps \<and> set ps = {..<2 ^ min 5 a} \<times> {..<2 ^ min 5 b}
      \<and> (t = SCAN_DIAG \<longrightarrow> (\<forall>i < length ps. \<forall>j < length ps.
           fst (ps ! i) \<le> fst (ps ! j) \<and> snd (ps ! i) \<le> snd (ps ! j) \<longrightarrow> i \<le> j))"
    unfolding coded_positions_def by (intro exI [of _ "coded_positions_of t a b"]) blast
qed

theorem scan_tables_witness:
  "(\<exists>ps. ungrouped_scan SCAN_DIAG 4 2 = map (scan_elem 4) ps \<and> distinct ps \<and> set ps = {..<4} \<times> {..<2})
    \<and> (\<exists>ps. grouped_scan SCAN_TRAV_HOR 64 8 = map (scan_elem 64) ps
           @ replicate (512 - length ps) (scan_elem 64 (63, 7))
         \<and> sorted_wrt (grp_less SCAN_TRAV_HOR 4 4) ps \<and> distinct ps \<and> set ps = {..<32} \<times> {..<8})"
proof -
  have "sbbSize (2 ^ 6) (2 ^ 3) = (2, 2)"
    unfolding sbbSize_def using floorLog2_power [of 6] floorLog2_power [of 3] by (simp add: g_log2SbbSize_def)
  from scan_tables [of 4 2 6 3 2 2 SCAN_DIAG, OF _ _ _ _ this]
    scan_tables [of 4 2 6 3 2 2 SCAN_TRAV_HOR, OF _ _ _ _ this] show ?thesis by auto
qed

text \<open>
  C17. \<^verbatim>\<open>floorLog2\<close> and \<^verbatim>\<open>ceilLog2\<close> on all 32-bit values: both are -1 for zero; for any other value
  \<^verbatim>\<open>floorLog2\<close> is the exponent of the largest power of two not above it and \<^verbatim>\<open>ceilLog2\<close> the least
  exponent of a power of two not below it, in particular 0 for the value 1.  The branch of
  \<^verbatim>\<open>floorLog2\<close> by binary search computes the same as the one that counts leading zeros.
\<close>

theorem log2_functions:
  assumes "x < 4294967296"
  shows "floorLog2 x = floorLog2_portable x
    \<and> (x = 0 \<longrightarrow> floorLog2 x = - 1 \<and> ceilLog2 x = - 1)
    \<and> (0 < x \<longrightarrow> 0 \<le> floorLog2 x \<and> 2 ^ nat (floorLog2 x) \<le> x \<and> x < 2 ^ (nat (floorLog2 x) + 1)
        \<and> 0 \<le> ceilLog2 x \<and> x \<le> 2 ^ nat (ceilLog2 x) \<and> (\<forall>n. x \<le> 2 ^ n \<longrightarrow> nat (ceilLog2 x) \<le> n))"
proof (intro conjI impI)
  show "floorLog2 x = floorLog2_portable x"
    using floorLog2_eq [of x] floorLog2_portable_eq [of x] assms
    by (cases "x = 0") (simp_all add: floorLog2_def floorLog2_portable_def)
  assume "0 < x"
  then show "0 \<le> floorLog2 x" "2 ^ nat (floorLog2 x) \<le> x" "x < 2 ^ (nat (floorLog2 x) + 1)"
    using floorLog2_eq [of x] ilog2_bounds [of x] assms by simp_all
  have "0 \<le> ceilLog2 x \<and> x \<le> 2 ^ nat (ceilLog2 x) \<and> (\<forall>n. x \<le> 2 ^ n \<longrightarrow> nat (ceilLog2 x) \<le> n)"
  proof (cases "x = 1")
    case False
    then have y: "0 < x - 1" "x - 1 < 4294967296" using \<open>0 < x\<close> assms by auto
    have c: "ceilLog2 x = int (ilog2 (x - 1) + 1)"
      using floorLog2_eq [OF y] \<open>0 < x\<close> by (simp add: ceilLog2_def)
    have "ilog2 (x - 1) + 1 \<le> n" if "x \<le> 2 ^ n" for n
    proof -
      have "(2::nat) ^ ilog2 (x - 1) < 2 ^ n" using ilog2_bounds(1) [OF y(1)] that \<open>0 < x\<close> by linarith
      then show ?thesis by simp
    qed
    moreover have "x \<le> 2 ^ (ilog2 (x - 1) + 1)" using ilog2_bounds(2) [OF y(1)] by linarith
    ultimately show ?thesis unfolding c nat_int by simp
  qed (simp add: ceilLog2_def floorLog2_def)
  then show "0 \<le> ceilLog2 x" "x \<le> 2 ^ nat (ceilLog2 x)" "\<forall>n. x \<le> 2 ^ n \<longrightarrow> nat (ceilLog2 x) \<le> n" by blast+
qed (simp_all add: floorLog2_def ceilLog2_def)

theorem log2_functions_witness:
  "2 ^ nat (floorLog2 100) \<le> (100::nat) \<and> (100::nat) < 2 ^ (nat (floorLog2 100) + 1) \<and> ceilLog2 1 = 0"
proof -
  have "0 \<le> ceilLog2 1 \<and> nat (ceilLog2 1) \<le> 0" using log2_functions [of 1] by (metis less_numeral_extra(1) one_less_numeral_iff order_refl power_0 semiring_norm(76))
  then show ?thesis using log2_functions [of 100] by auto
qed

end
