(* ===== verification/CoeffContext.thy ===== *)
theory CoeffContext
  imports Binarisation Scan
begin

section \<open>Context modelling of coefficients\<close>

text \<open>
  \<^verbatim>\<open>struct CoeffCodingContext\<close> of \<^verbatim>\<open>ContextModelling.h\<close>: the position of the coder in a transform block,
  the context sets and the local templates.  A context identifier is modelled as the pair of the
  context set and the increment it is formed of (\<^verbatim>\<open>CtxSet::operator()\<close>).  Coefficients are lists of
  integers in raster order.
\<close>

unbundle bit_operations_syntax

datatype ChannelType = CHANNEL_TYPE_LUMA | CHANNEL_TYPE_CHROMA

record CoeffCodingContext =
  m_chType :: ChannelType
  m_width :: nat
  m_height :: nat
  m_log2CGWidth :: nat
  m_log2CGHeight :: nat
  m_log2CGSize :: nat
  m_widthInGroups :: nat
  m_heightInGroups :: nat
  m_maxNumCoeff :: nat
  m_signHiding :: bool
  m_maxLog2TrDynamicRange :: nat
  m_scan :: "ScanElement list"
  m_scanCG :: "ScanElement list"
  m_CtxSetLastX :: CtxSet
  m_CtxSetLastY :: CtxSet
  m_maxLastPosX :: nat
  m_maxLastPosY :: nat
  m_lastOffsetX :: nat
  m_lastOffsetY :: nat
  m_lastShiftX :: nat
  m_lastShiftY :: nat
  m_scanPosLast :: int
  m_subSetId :: int
  m_subSetPos :: int
  m_subSetPosX :: int
  m_subSetPosY :: int
  m_minSubPos :: int
  m_maxSubPos :: int
  m_sigGroupCtxId :: "CtxSet \<times> nat"
  m_tmplCpSum1 :: int
  m_tmplCpDiag :: int
  m_sigFlagCtxSet :: "CtxSet list"
  m_parFlagCtxSet :: CtxSet
  m_gtxFlagCtxSet :: "CtxSet list"
  m_sigGroupCtxIdTS :: "CtxSet \<times> nat"
  m_remainingContextBins :: int
  m_sigCoeffGroupFlag :: "bool list"
  m_bdpcm :: bool
  regBinLimit :: int

subsection \<open>Tables\<close>

definition g_uiMinInGroup :: "nat list" where
  "g_uiMinInGroup = [0, 1, 2, 3, 4, 6, 8, 12, 16, 24, 32, 48, 64, 96]"

definition g_uiGroupIdx :: "nat list" where
  "g_uiGroupIdx = [0, 1, 2, 3, 4, 4, 5, 5, 6, 6, 6, 6, 7, 7, 7, 7, 8, 8, 8, 8, 8, 8, 8, 8, 9, 9, 9, 9, 9, 9, 9, 9,
     10, 10, 10, 10, 10, 10, 10, 10, 10, 10, 10, 10, 10, 10, 10, 10, 11, 11, 11, 11, 11, 11, 11, 11, 11, 11, 11, 11, 11, 11, 11, 11]"

definition g_auiGoRiceParsCoeff :: "nat list" where
  "g_auiGoRiceParsCoeff =
     [0, 0, 0, 0, 0, 0, 0, 1, 1, 1, 1, 1, 1, 1, 2, 2, 2, 2, 2, 2, 2, 2, 2, 2, 2, 2, 2, 2, 3, 3, 3, 3]"

definition g_auiGoRicePosCoeff0 :: "nat \<Rightarrow> nat \<Rightarrow> nat" where
  "g_auiGoRicePosCoeff0 st ricePar = push_bit ricePar (if st < 2 then 1 else 2)"

definition SBH_THRESHOLD :: int where
  "SBH_THRESHOLD = 4"

definition COEF_REMAIN_BIN_REDUCTION :: nat where
  "COEF_REMAIN_BIN_REDUCTION = 5"

subsection \<open>Construction\<close>

definition ctxSets :: "ChannelType \<Rightarrow> CtxSet \<Rightarrow> CtxSet \<Rightarrow> CtxSet" where
  "ctxSets ch luma chroma = (case ch of CHANNEL_TYPE_LUMA \<Rightarrow> luma | CHANNEL_TYPE_CHROMA \<Rightarrow> chroma)"

definition prefix_ctx :: "nat list" where
  "prefix_ctx = [0, 0, 0, 3, 6, 10, 15, 21]"

definition CoeffCodingContext_new :: "ChannelType \<Rightarrow> nat \<Rightarrow> nat \<Rightarrow> bool \<Rightarrow> nat \<Rightarrow> bool \<Rightarrow> CoeffCodingContext" where
  "CoeffCodingContext_new chType width height signHide maxLog2TrDynamicRange bdpcm =
     (let (log2CGWidth, log2CGHeight) = sbbSize width height;
          widthInGroups = drop_bit log2CGWidth (min JVET_C0024_ZERO_OUT_TH width);
          heightInGroups = drop_bit log2CGHeight (min JVET_C0024_ZERO_OUT_TH height);
          log2sizeX = nat (floorLog2 width);
          log2sizeY = nat (floorLog2 height)
      in \<lparr>m_chType = chType, m_width = width, m_height = height,
          m_log2CGWidth = log2CGWidth, m_log2CGHeight = log2CGHeight, m_log2CGSize = log2CGWidth + log2CGHeight,
          m_widthInGroups = widthInGroups, m_heightInGroups = heightInGroups,
          m_maxNumCoeff = width * height, m_signHiding = signHide, m_maxLog2TrDynamicRange = maxLog2TrDynamicRange,
          m_scan = grouped_scan SCAN_DIAG width height,
          m_scanCG = ungrouped_scan SCAN_DIAG widthInGroups heightInGroups,
          m_CtxSetLastX = ctxSets chType Ctx_LastX_0 Ctx_LastX_1,
          m_CtxSetLastY = ctxSets chType Ctx_LastY_0 Ctx_LastY_1,
          m_maxLastPosX = g_uiGroupIdx ! (min JVET_C0024_ZERO_OUT_TH width - 1),
          m_maxLastPosY = g_uiGroupIdx ! (min JVET_C0024_ZERO_OUT_TH height - 1),
          m_lastOffsetX = (case chType of CHANNEL_TYPE_LUMA \<Rightarrow> prefix_ctx ! log2sizeX | CHANNEL_TYPE_CHROMA \<Rightarrow> 0),
          m_lastOffsetY = (case chType of CHANNEL_TYPE_LUMA \<Rightarrow> prefix_ctx ! log2sizeY | CHANNEL_TYPE_CHROMA \<Rightarrow> 0),
          m_lastShiftX = (case chType of CHANNEL_TYPE_LUMA \<Rightarrow> drop_bit 2 (log2sizeX + 1)
                           | CHANNEL_TYPE_CHROMA \<Rightarrow> min 2 (drop_bit 3 width)),
          m_lastShiftY = (case chType of CHANNEL_TYPE_LUMA \<Rightarrow> drop_bit 2 (log2sizeY + 1)
                           | CHANNEL_TYPE_CHROMA \<Rightarrow> min 2 (drop_bit 3 height)),
          m_scanPosLast = - 1, m_subSetId = - 1, m_subSetPos = - 1, m_subSetPosX = - 1, m_subSetPosY = - 1,
          m_minSubPos = - 1, m_maxSubPos = - 1, m_sigGroupCtxId = (Ctx_SigCoeffGroup_0, 0),
          m_tmplCpSum1 = - 1, m_tmplCpDiag = - 1,
          m_sigFlagCtxSet = [ctxSets chType Ctx_SigFlag_0 Ctx_SigFlag_1, ctxSets chType Ctx_SigFlag_2 Ctx_SigFlag_3,
                             ctxSets chType Ctx_SigFlag_4 Ctx_SigFlag_5],
          m_parFlagCtxSet = ctxSets chType Ctx_ParFlag_0 Ctx_ParFlag_1,
          m_gtxFlagCtxSet = [ctxSets chType Ctx_GtxFlag_0 Ctx_GtxFlag_1, ctxSets chType Ctx_GtxFlag_2 Ctx_GtxFlag_3],
          m_sigGroupCtxIdTS = (Ctx_TsSigCoeffGroup, 0), m_remainingContextBins = 0,
          m_sigCoeffGroupFlag = replicate 1024 False, m_bdpcm = bdpcm, regBinLimit = 0\<rparr>)"

subsection \<open>Queries and updates\<close>

definition blockPos :: "CoeffCodingContext \<Rightarrow> nat \<Rightarrow> nat" where
  "blockPos c scanPos = se_idx (m_scan c ! scanPos)"

definition setSigGroup :: "CoeffCodingContext \<Rightarrow> CoeffCodingContext" where
  "setSigGroup c = c\<lparr>m_sigCoeffGroupFlag := (m_sigCoeffGroupFlag c)[nat (m_subSetPos c) := True]\<rparr>"

definition isSigGroup :: "CoeffCodingContext \<Rightarrow> bool" where
  "isSigGroup c = m_sigCoeffGroupFlag c ! nat (m_subSetPos c)"

definition isLast :: "CoeffCodingContext \<Rightarrow> bool" where
  "isLast c \<longleftrightarrow> drop_bit (m_log2CGSize c) (m_scanPosLast c) = m_subSetId c"

definition isNotFirst :: "CoeffCodingContext \<Rightarrow> bool" where
  "isNotFirst c \<longleftrightarrow> m_subSetId c \<noteq> 0"

definition hideSign :: "CoeffCodingContext \<Rightarrow> int \<Rightarrow> int \<Rightarrow> bool" where
  "hideSign c posFirst posLast \<longleftrightarrow> m_signHiding c \<and> posLast - posFirst \<ge> SBH_THRESHOLD"

definition lastXCtxId :: "CoeffCodingContext \<Rightarrow> nat \<Rightarrow> CtxSet \<times> nat" where
  "lastXCtxId c posLastX = (m_CtxSetLastX c, m_lastOffsetX c + drop_bit (m_lastShiftX c) posLastX)"

definition lastYCtxId :: "CoeffCodingContext \<Rightarrow> nat \<Rightarrow> CtxSet \<times> nat" where
  "lastYCtxId c posLastY = (m_CtxSetLastY c, m_lastOffsetY c + drop_bit (m_lastShiftY c) posLastY)"

text \<open>\<^verbatim>\<open>initSubblock\<close> in three steps: the position, the flag, the contexts of the neighbouring groups.\<close>

definition place_subblock :: "int \<Rightarrow> CoeffCodingContext \<Rightarrow> CoeffCodingContext" where
  "place_subblock SubsetId c =
     (let subSetPos = int (se_idx (m_scanCG c ! nat SubsetId));
          subSetPosY = subSetPos div int (m_widthInGroups c);
          minSubPos = push_bit (m_log2CGSize c) SubsetId
      in c\<lparr>m_subSetId := SubsetId, m_subSetPos := subSetPos, m_subSetPosY := subSetPosY,
           m_subSetPosX := subSetPos - subSetPosY * int (m_widthInGroups c),
           m_minSubPos := minSubPos, m_maxSubPos := minSubPos + push_bit (m_log2CGSize c) 1 - 1\<rparr>)"

definition neighbour_flags :: "CoeffCodingContext \<Rightarrow> bool \<times> bool \<times> bool \<times> bool" where
  "neighbour_flags c =
     (let CGPosY = nat (m_subSetPosY c);
          CGPosX = nat (m_subSetPosX c);
          pos = nat (m_subSetPos c);
          sigRight = (if CGPosX + 1 < m_widthInGroups c then m_sigCoeffGroupFlag c ! (pos + 1) else False);
          sigLower = (if CGPosY + 1 < m_heightInGroups c then m_sigCoeffGroupFlag c ! (pos + m_widthInGroups c) else False);
          sigLeft = (if CGPosX > 0 then m_sigCoeffGroupFlag c ! (pos - 1) else False);
          sigAbove = (if CGPosY > 0 then m_sigCoeffGroupFlag c ! (pos - m_widthInGroups c) else False)
      in (sigRight, sigLower, sigLeft, sigAbove))"

definition group_contexts :: "CoeffCodingContext \<Rightarrow> CoeffCodingContext" where
  "group_contexts c = (case neighbour_flags c of (sigRight, sigLower, sigLeft, sigAbove) \<Rightarrow>
     c\<lparr>m_sigGroupCtxId := (ctxSets (m_chType c) Ctx_SigCoeffGroup_0 Ctx_SigCoeffGroup_1, of_bool (sigRight \<or> sigLower)),
       m_sigGroupCtxIdTS := (Ctx_TsSigCoeffGroup, of_bool sigLeft + of_bool sigAbove)\<rparr>)"

definition initSubblock :: "int \<Rightarrow> bool \<Rightarrow> CoeffCodingContext \<Rightarrow> CoeffCodingContext" where
  "initSubblock SubsetId sigGroupFlag c =
     (let c = place_subblock SubsetId c;
          c = (if sigGroupFlag then setSigGroup c else c)
      in group_contexts c)"

subsection \<open>The local template\<close>

text \<open>The neighbours to the right and below that \<^verbatim>\<open>sigCtxIdAbs\<close> and \<^verbatim>\<open>templateAbsSum\<close> look at.\<close>

definition template_idx :: "nat \<Rightarrow> nat \<Rightarrow> nat \<Rightarrow> nat \<Rightarrow> nat list" where
  "template_idx w h posX posY =
     (let p = posX + posY * w in
      (if posX < w - 1
       then [p + 1] @ (if posX < w - 2 then [p + 2] else []) @ (if posY < h - 1 then [p + (w + 1)] else [])
       else [])
      @ (if posY < h - 1 then [p + w] @ (if posY < h - 2 then [p + 2 * w] else []) else []))"

definition template_vals :: "CoeffCodingContext \<Rightarrow> nat \<Rightarrow> int list \<Rightarrow> int list" where
  "template_vals c scanPos coeff =
     map (\<lambda>p. \<bar>coeff ! p\<bar>) (template_idx (m_width c) (m_height c) (se_x (m_scan c ! scanPos)) (se_y (m_scan c ! scanPos)))"

text \<open>\<^verbatim>\<open>sigCtxIdAbs\<close> returns the context and leaves \<^verbatim>\<open>m_tmplCpDiag\<close> and \<^verbatim>\<open>m_tmplCpSum1\<close>.\<close>

definition sigCtxIdAbs :: "CoeffCodingContext \<Rightarrow> nat \<Rightarrow> int list \<Rightarrow> nat \<Rightarrow> (CtxSet \<times> nat) \<times> (int \<times> int)" where
  "sigCtxIdAbs c scanPos coeff state =
     (let posY = se_y (m_scan c ! scanPos);
          posX = se_x (m_scan c ! scanPos);
          diag = posX + posY;
          vals = template_vals c scanPos coeff;
          sumAbs = sum_list (map (\<lambda>a. min (4 + a mod 2) a) vals);
          numPos = sum_list (map (\<lambda>a. of_bool (a \<noteq> 0)) vals);
          ctxOfs = min (drop_bit 1 (sumAbs + 1)) 3 + (if diag < 2 then 4 else 0);
          ctxOfs = (if m_chType c = CHANNEL_TYPE_LUMA then ctxOfs + (if diag < 5 then 4 else 0) else ctxOfs)
      in ((m_sigFlagCtxSet c ! (state - 1), nat ctxOfs), (int diag, sumAbs - numPos)))"

definition ctxOffsetAbs :: "CoeffCodingContext \<Rightarrow> int \<times> int \<Rightarrow> nat" where
  "ctxOffsetAbs c t = (case t of (tmplCpDiag, tmplCpSum1) \<Rightarrow>
     if tmplCpDiag \<noteq> - 1
     then let offset = min tmplCpSum1 4 + 1;
              offset = offset + (if tmplCpDiag = 0 then (if m_chType c = CHANNEL_TYPE_LUMA then 15 else 5)
                                 else if m_chType c = CHANNEL_TYPE_LUMA
                                      then (if tmplCpDiag < 3 then 10 else if tmplCpDiag < 10 then 5 else 0) else 0)
          in u8 (nat offset)
     else 0)"

definition parityCtxIdAbs :: "CoeffCodingContext \<Rightarrow> nat \<Rightarrow> CtxSet \<times> nat" where
  "parityCtxIdAbs c offset = (m_parFlagCtxSet c, offset)"

definition greater1CtxIdAbs :: "CoeffCodingContext \<Rightarrow> nat \<Rightarrow> CtxSet \<times> nat" where
  "greater1CtxIdAbs c offset = (m_gtxFlagCtxSet c ! 1, offset)"

definition greater2CtxIdAbs :: "CoeffCodingContext \<Rightarrow> nat \<Rightarrow> CtxSet \<times> nat" where
  "greater2CtxIdAbs c offset = (m_gtxFlagCtxSet c ! 0, offset)"

definition templateAbsSum :: "CoeffCodingContext \<Rightarrow> nat \<Rightarrow> int list \<Rightarrow> int \<Rightarrow> nat" where
  "templateAbsSum c scanPos coeff baseLevel =
     nat (max (min (sum_list (template_vals c scanPos coeff) - 5 * baseLevel) 31) 0)"

subsection \<open>Well-formed contexts\<close>

text \<open>What the coding of a block relies on: the first \<open>N\<close> entries of the scan are different positions
  of the block, and a neighbour of the template is either later in the scan or not coded at all.\<close>

definition scan_ok :: "CoeffCodingContext \<Rightarrow> nat \<Rightarrow> bool" where
  "scan_ok c N \<longleftrightarrow>
     (\<forall>i < N. blockPos c i < m_width c * m_height c)
     \<and> inj_on (blockPos c) {..<N}
     \<and> (\<forall>i < N. \<forall>p \<in> set (template_idx (m_width c) (m_height c) (se_x (m_scan c ! i)) (se_y (m_scan c ! i))).
          p < m_width c * m_height c \<and> (\<forall>j < N. blockPos c j = p \<longrightarrow> i < j))"

definition sets_ok :: "CoeffCodingContext \<Rightarrow> bool" where
  "sets_ok c \<longleftrightarrow>
     m_sigFlagCtxSet c = [ctxSets (m_chType c) Ctx_SigFlag_0 Ctx_SigFlag_1, ctxSets (m_chType c) Ctx_SigFlag_2 Ctx_SigFlag_3,
                             ctxSets (m_chType c) Ctx_SigFlag_4 Ctx_SigFlag_5]
     \<and> m_parFlagCtxSet c = ctxSets (m_chType c) Ctx_ParFlag_0 Ctx_ParFlag_1
     \<and> m_gtxFlagCtxSet c = [ctxSets (m_chType c) Ctx_GtxFlag_0 Ctx_GtxFlag_1, ctxSets (m_chType c) Ctx_GtxFlag_2 Ctx_GtxFlag_3]
     \<and> 4 \<le> m_maxLog2TrDynamicRange c \<and> m_maxLog2TrDynamicRange c \<le> 27"

definition tmpl_ok :: "int \<times> int \<Rightarrow> bool" where
  "tmpl_ok t \<longleftrightarrow> fst t = - 1 \<or> 0 \<le> fst t \<and> 0 \<le> snd t"

lemma template_sums:
  assumes "\<forall>a \<in> set xs. (0::int) \<le> a"
  shows "0 \<le> sum_list (map (\<lambda>a. min (4 + a mod 2) a) xs)"
    and "sum_list (map (\<lambda>a. of_bool (a \<noteq> 0)) xs) \<le> sum_list (map (\<lambda>a. min (4 + a mod 2) a) xs)"
  using assms by (induction xs) (auto simp: add_mono)

lemma sigCtxIdAbs_ok:
  assumes "sets_ok c" and "state < 4"
  shows "ctx_in (fst (sigCtxIdAbs c i coeff state))" and "tmpl_ok (snd (sigCtxIdAbs c i coeff state))"
proof -
  have "\<forall>a \<in> set (template_vals c i coeff). 0 \<le> a" by (auto simp: template_vals_def)
  note t = template_sums [OF this]
  show "tmpl_ok (snd (sigCtxIdAbs c i coeff state))" using t by (simp add: sigCtxIdAbs_def tmpl_ok_def Let_def)
  let ?s = "sum_list (map (\<lambda>a. min (4 + a mod 2) a) (template_vals c i coeff))"
  have "0 \<le> drop_bit 1 (?s + 1)" using t(1) by (simp add: drop_bit_eq_div)
  moreover have "state - 1 < 3" using assms(2) by simp
  moreover have "state - 1 = 0 \<or> state - 1 = 1 \<or> state - 1 = 2" using assms(2) by auto
  ultimately show "ctx_in (fst (sigCtxIdAbs c i coeff state))"
    using assms(1) unfolding sets_ok_def sigCtxIdAbs_def Let_def ctx_in_def
    by (cases "m_chType c") (auto simp: ctxSets_def nat_less_iff)
qed

lemma ctxOffsetAbs_ok:
  assumes "sets_ok c" and "tmpl_ok t"
  shows "ctx_in (parityCtxIdAbs c (ctxOffsetAbs c t))" and "ctx_in (greater1CtxIdAbs c (ctxOffsetAbs c t))"
    and "ctx_in (greater2CtxIdAbs c (ctxOffsetAbs c t))"
proof -
  obtain d s where t: "t = (d, s)" by fastforce
  have "ctxOffsetAbs c t < (case m_chType c of CHANNEL_TYPE_LUMA \<Rightarrow> 21 | CHANNEL_TYPE_CHROMA \<Rightarrow> 11)"
  proof -
    define o1 where "o1 = min s 4 + 1 + (if d = 0 then (if m_chType c = CHANNEL_TYPE_LUMA then 15 else 5)
       else if m_chType c = CHANNEL_TYPE_LUMA then (if d < 3 then 10 else if d < 10 then 5 else 0) else 0)"
    have "d = - 1 \<or> 0 \<le> s" using assms(2) by (auto simp: tmpl_ok_def t)
    moreover have "0 \<le> s \<Longrightarrow> 0 \<le> o1 \<and> o1 \<le> (case m_chType c of CHANNEL_TYPE_LUMA \<Rightarrow> 20 | CHANNEL_TYPE_CHROMA \<Rightarrow> 10)"
      unfolding o1_def by (cases "m_chType c") auto
    ultimately show ?thesis unfolding t ctxOffsetAbs_def prod.case Let_def o1_def [symmetric]
      by (cases "m_chType c") (auto simp: u8_id nat_less_iff)
  qed
  with assms(1) show "ctx_in (parityCtxIdAbs c (ctxOffsetAbs c t))" "ctx_in (greater1CtxIdAbs c (ctxOffsetAbs c t))"
    "ctx_in (greater2CtxIdAbs c (ctxOffsetAbs c t))"
    unfolding sets_ok_def ctx_in_def parityCtxIdAbs_def greater1CtxIdAbs_def greater2CtxIdAbs_def
    by (cases "m_chType c"; simp add: ctxSets_def)+
qed

subsection \<open>Blocks seen in scan order\<close>

text \<open>\<open>view c N a f\<close>: the block \<open>a\<close> has the value \<open>f i\<close> at the position \<open>i\<close> of the scan, and zero
  at positions the scan does not reach.\<close>

definition view :: "CoeffCodingContext \<Rightarrow> nat \<Rightarrow> int list \<Rightarrow> (nat \<Rightarrow> int) \<Rightarrow> bool" where
  "view c N a f \<longleftrightarrow> length a = m_width c * m_height c \<and> (\<forall>i < N. a ! blockPos c i = f i)
     \<and> (\<forall>p < length a. p \<notin> blockPos c ` {..<N} \<longrightarrow> a ! p = 0)"

lemma view_nth: "view c N a f \<Longrightarrow> i < N \<Longrightarrow> a ! blockPos c i = f i"
  by (simp add: view_def)

lemma view_cong: "view c N a f \<Longrightarrow> (\<And>i. i < N \<Longrightarrow> f i = g i) \<Longrightarrow> view c N a g"
  by (simp add: view_def)

lemma view_update:
  assumes "scan_ok c N" and "view c N a f" and "i < N"
  shows "view c N (a[blockPos c i := v]) (f(i := v))"
proof -
  have eq: "blockPos c i = blockPos c j \<longleftrightarrow> j = i" if "j < N" for j
    using assms(1,3) that by (auto simp: scan_ok_def inj_on_def)
  have l: "blockPos c i < length a" using assms by (simp add: scan_ok_def view_def)
  have "a[blockPos c i := v] ! blockPos c j = (f(i := v)) j" if "j < N" for j
    using assms(2) that l eq [OF that] by (simp add: view_def nth_list_update)
  moreover have "a[blockPos c i := v] ! p = 0" if "p < length a" "p \<notin> blockPos c ` {..<N}" for p
  proof -
    have "blockPos c i \<noteq> p" using that(2) assms(3) by blast
    with assms(2) that show ?thesis by (simp add: view_def)
  qed
  ultimately show ?thesis using assms(2) by (simp add: view_def)
qed

lemma view_eq:
  assumes "view c N a f" and "view c N b g" and "\<And>i. i < N \<Longrightarrow> f i = g i"
  shows "a = b"
proof (rule nth_equalityI)
  show "length a = length b" using assms by (simp add: view_def)
  fix p assume p: "p < length a"
  show "a ! p = b ! p"
  proof (cases "p \<in> blockPos c ` {..<N}")
    case True
    then show ?thesis using assms by (auto simp: view_def)
  next
    case False
    then show ?thesis using assms(1,2) p by (auto simp: view_def)
  qed
qed

lemma view_template:
  assumes "scan_ok c N" and "view c N a f" and "view c N b g" and "i < N"
    and "\<And>j. i < j \<Longrightarrow> j < N \<Longrightarrow> P (f j) (g j)" and "P 0 0"
    and "p \<in> set (template_idx (m_width c) (m_height c) (se_x (m_scan c ! i)) (se_y (m_scan c ! i)))"
  shows "P (a ! p) (b ! p)"
proof -
  have p: "p < m_width c * m_height c" "\<forall>j < N. blockPos c j = p \<longrightarrow> i < j"
    using assms(1,4,7) by (auto simp: scan_ok_def)
  show ?thesis
  proof (cases "p \<in> blockPos c ` {..<N}")
    case True
    then show ?thesis using assms(2,3,5) p(2) by (auto simp: view_def)
  next
    case False
    then show ?thesis using assms(2,3,6) p(1) by (auto simp: view_def)
  qed
qed

text \<open>The level known after the first pass.\<close>

definition base_level :: "int \<Rightarrow> int" where
  "base_level a = min (4 + a mod 2) a"

lemma base_level_simps [simp]:
  "base_level 0 = 0" "a \<noteq> 0 \<Longrightarrow> 0 \<le> a \<Longrightarrow> base_level a \<noteq> 0" "base_level a mod 2 = a mod 2"
  "0 \<le> a \<Longrightarrow> 0 \<le> base_level a" "0 \<le> a \<Longrightarrow> base_level (base_level a) = base_level a"
proof -
  have m: "(4 + a mod 2) mod 2 = a mod 2" for a :: int by presburger
  show "base_level 0 = 0" "a \<noteq> 0 \<Longrightarrow> 0 \<le> a \<Longrightarrow> base_level a \<noteq> 0" "base_level a mod 2 = a mod 2"
    "0 \<le> a \<Longrightarrow> 0 \<le> base_level a" "0 \<le> a \<Longrightarrow> base_level (base_level a) = base_level a"
    using m [of a] by (auto simp: base_level_def min_def)
qed

text \<open>Values that the template cannot tell apart.\<close>

definition same_flags :: "int \<Rightarrow> int \<Rightarrow> bool" where
  "same_flags x y \<longleftrightarrow> base_level \<bar>x\<bar> = base_level \<bar>y\<bar> \<and> (x = 0 \<longleftrightarrow> y = 0)"

lemma sigCtxIdAbs_cong:
  assumes "scan_ok c N" and "view c N a f" and "view c N b g" and "i < N"
    and "\<And>j. i < j \<Longrightarrow> j < N \<Longrightarrow> same_flags (f j) (g j)"
  shows "sigCtxIdAbs c i a state = sigCtxIdAbs c i b state"
proof -
  let ?T = "template_idx (m_width c) (m_height c) (se_x (m_scan c ! i)) (se_y (m_scan c ! i))"
  have "same_flags (a ! p) (b ! p)" if "p \<in> set ?T" for p
    using view_template [OF assms(1-4), of same_flags] assms(5) that by (simp add: same_flags_def)
  then have "map (\<lambda>a. min (4 + a mod 2) a) (template_vals c i a) = map (\<lambda>a. min (4 + a mod 2) a) (template_vals c i b)"
    "map (\<lambda>a. of_bool (a \<noteq> 0) :: int) (template_vals c i a) = map (\<lambda>a. of_bool (a \<noteq> 0)) (template_vals c i b)"
    unfolding template_vals_def base_level_def [symmetric] by (auto simp: same_flags_def)
  then show ?thesis unfolding sigCtxIdAbs_def Let_def by simp
qed

lemma templateAbsSum_cong:
  assumes "scan_ok c N" and "view c N a f" and "view c N b g" and "i < N"
    and "\<And>j. i < j \<Longrightarrow> j < N \<Longrightarrow> \<bar>f j\<bar> = \<bar>g j\<bar>"
  shows "templateAbsSum c i a k = templateAbsSum c i b k"
proof -
  let ?T = "template_idx (m_width c) (m_height c) (se_x (m_scan c ! i)) (se_y (m_scan c ! i))"
  have "\<bar>a ! p\<bar> = \<bar>b ! p\<bar>" if "p \<in> set ?T" for p
    using view_template [OF assms(1-4), of "\<lambda>x y. \<bar>x\<bar> = \<bar>y\<bar>"] assms(5) that by simp
  then have "template_vals c i a = template_vals c i b" by (simp add: template_vals_def)
  then show ?thesis by (simp add: templateAbsSum_def)
qed

subsection \<open>The constant part of a context\<close>

text \<open>The members that do not change while a block is coded.\<close>

definition same_block :: "CoeffCodingContext \<Rightarrow> CoeffCodingContext \<Rightarrow> bool" where
  "same_block c d \<longleftrightarrow> m_chType c = m_chType d \<and> m_width c = m_width d \<and> m_height c = m_height d \<and> m_scan c = m_scan d
     \<and> m_maxLog2TrDynamicRange c = m_maxLog2TrDynamicRange d \<and> m_sigFlagCtxSet c = m_sigFlagCtxSet d
     \<and> m_parFlagCtxSet c = m_parFlagCtxSet d \<and> m_gtxFlagCtxSet c = m_gtxFlagCtxSet d
     \<and> m_signHiding c = m_signHiding d \<and> m_scanPosLast c = m_scanPosLast d
     \<and> m_log2CGWidth c = m_log2CGWidth d \<and> m_log2CGHeight c = m_log2CGHeight d \<and> m_log2CGSize c = m_log2CGSize d
     \<and> m_widthInGroups c = m_widthInGroups d \<and> m_heightInGroups c = m_heightInGroups d \<and> m_scanCG c = m_scanCG d"

lemma same_block_trans: "same_block c d \<Longrightarrow> same_block d e \<Longrightarrow> same_block c e"
  by (simp add: same_block_def)

lemma same_block_queries:
  assumes "same_block c d"
  shows "blockPos c = blockPos d" and "sigCtxIdAbs c = sigCtxIdAbs d" and "ctxOffsetAbs c = ctxOffsetAbs d"
    and "parityCtxIdAbs c = parityCtxIdAbs d" and "greater1CtxIdAbs c = greater1CtxIdAbs d"
    and "greater2CtxIdAbs c = greater2CtxIdAbs d" and "templateAbsSum c = templateAbsSum d"
    and "hideSign c = hideSign d" and "m_scanPosLast c = m_scanPosLast d"
    and "m_maxLog2TrDynamicRange c = m_maxLog2TrDynamicRange d"
    and "scan_ok c = scan_ok d" and "sets_ok c = sets_ok d" and "view c = view d"
proof -
  have f: "m_chType c = m_chType d" "m_width c = m_width d" "m_height c = m_height d" "m_scan c = m_scan d"
    "m_maxLog2TrDynamicRange c = m_maxLog2TrDynamicRange d" "m_sigFlagCtxSet c = m_sigFlagCtxSet d"
    "m_parFlagCtxSet c = m_parFlagCtxSet d" "m_gtxFlagCtxSet c = m_gtxFlagCtxSet d"
    "m_signHiding c = m_signHiding d" "m_scanPosLast c = m_scanPosLast d" using assms by (auto simp: same_block_def)
  show b: "blockPos c = blockPos d" by (rule ext) (simp add: blockPos_def f)
  have t: "template_vals c = template_vals d" by (intro ext) (simp add: template_vals_def f)
  show "sigCtxIdAbs c = sigCtxIdAbs d" by (intro ext) (simp only: sigCtxIdAbs_def f t)
  show "ctxOffsetAbs c = ctxOffsetAbs d" by (intro ext) (simp only: ctxOffsetAbs_def f)
  show "parityCtxIdAbs c = parityCtxIdAbs d" by (intro ext) (simp only: parityCtxIdAbs_def f)
  show "greater1CtxIdAbs c = greater1CtxIdAbs d" by (intro ext) (simp only: greater1CtxIdAbs_def f)
  show "greater2CtxIdAbs c = greater2CtxIdAbs d" by (intro ext) (simp only: greater2CtxIdAbs_def f)
  show "templateAbsSum c = templateAbsSum d" by (intro ext) (simp only: templateAbsSum_def t)
  show "hideSign c = hideSign d" by (intro ext) (simp only: hideSign_def f)
  show "m_scanPosLast c = m_scanPosLast d" "m_maxLog2TrDynamicRange c = m_maxLog2TrDynamicRange d" by (fact f)+
  show "scan_ok c = scan_ok d" by (intro ext) (simp only: scan_ok_def f b)
  show "sets_ok c = sets_ok d" by (simp only: sets_ok_def f)
  show "view c = view d" by (intro ext) (simp only: view_def f b)
qed

subsection \<open>Coefficient groups\<close>

text \<open>\<open>groups_ok c G\<close>: the first \<open>G\<close> entries of the scan of the groups are different groups of the block.\<close>

definition groupPos :: "CoeffCodingContext \<Rightarrow> nat \<Rightarrow> nat" where
  "groupPos c k = se_idx (m_scanCG c ! k)"

definition groups_ok :: "CoeffCodingContext \<Rightarrow> nat \<Rightarrow> bool" where
  "groups_ok c G \<longleftrightarrow> 0 < m_widthInGroups c \<and> inj_on (groupPos c) {..<G} \<and> (\<forall>k < G. groupPos c k < 1024)"

lemma same_block_setSigGroup: "same_block (setSigGroup c) c"
  by (simp add: same_block_def setSigGroup_def)

lemma same_block_place: "same_block (place_subblock k c) c"
  by (simp add: same_block_def place_subblock_def Let_def)

lemma same_block_contexts: "same_block (group_contexts c) c"
  by (simp add: same_block_def group_contexts_def split: prod.split)

lemma same_block_init: "same_block (initSubblock k f c) c"
  unfolding initSubblock_def Let_def
  by (rule same_block_trans [OF same_block_contexts]) (simp add: same_block_place same_block_trans [OF same_block_setSigGroup same_block_place])

lemma place_fields [simp]:
  "m_subSetId (place_subblock k c) = k" "m_subSetPos (place_subblock k c) = int (groupPos c (nat k))"
  "m_minSubPos (place_subblock k c) = push_bit (m_log2CGSize c) k"
  "m_maxSubPos (place_subblock k c) = push_bit (m_log2CGSize c) k + push_bit (m_log2CGSize c) 1 - 1"
  "m_tmplCpSum1 (place_subblock k c) = m_tmplCpSum1 c" "m_tmplCpDiag (place_subblock k c) = m_tmplCpDiag c"
  "m_sigCoeffGroupFlag (place_subblock k c) = m_sigCoeffGroupFlag c" "regBinLimit (place_subblock k c) = regBinLimit c"
  by (simp_all add: place_subblock_def Let_def groupPos_def)

lemma contexts_fields [simp]:
  "m_subSetId (group_contexts c) = m_subSetId c" "m_subSetPos (group_contexts c) = m_subSetPos c"
  "m_minSubPos (group_contexts c) = m_minSubPos c" "m_maxSubPos (group_contexts c) = m_maxSubPos c"
  "m_tmplCpSum1 (group_contexts c) = m_tmplCpSum1 c" "m_tmplCpDiag (group_contexts c) = m_tmplCpDiag c"
  "m_sigCoeffGroupFlag (group_contexts c) = m_sigCoeffGroupFlag c" "regBinLimit (group_contexts c) = regBinLimit c"
  by (simp_all add: group_contexts_def split: prod.split)

lemma setSigGroup_fields [simp]:
  "m_subSetId (setSigGroup c) = m_subSetId c" "m_subSetPos (setSigGroup c) = m_subSetPos c"
  "m_minSubPos (setSigGroup c) = m_minSubPos c" "m_maxSubPos (setSigGroup c) = m_maxSubPos c"
  "m_tmplCpSum1 (setSigGroup c) = m_tmplCpSum1 c" "m_tmplCpDiag (setSigGroup c) = m_tmplCpDiag c"
  "m_sigCoeffGroupFlag (setSigGroup c) = (m_sigCoeffGroupFlag c)[nat (m_subSetPos c) := True]" "regBinLimit (setSigGroup c) = regBinLimit c"
  by (simp_all add: setSigGroup_def)

lemma initSubblock_ctx: "ctx_in (m_sigGroupCtxId (initSubblock k f c))"
  by (cases "m_chType (if f then setSigGroup (place_subblock k c) else place_subblock k c)")
    (simp_all add: initSubblock_def Let_def group_contexts_def ctx_in_def ctxSets_def split: prod.split)

text \<open>The flag of the group itself does not enter its contexts.\<close>

lemma initSubblock_flag:
  assumes "0 < m_widthInGroups c"
  shows "initSubblock k True c = setSigGroup (initSubblock k False c)"
proof -
  let ?c = "place_subblock k c"
  let ?pos = "groupPos c (nat k)" and ?w = "m_widthInGroups c"
  have w: "m_widthInGroups ?c = ?w" using same_block_place [of k c] by (simp add: same_block_def)
  have d: "nat (m_subSetPosY ?c) = ?pos div ?w" "nat (m_subSetPosX ?c) = ?pos mod ?w"
    by (simp_all add: place_subblock_def Let_def groupPos_def nat_div_distrib minus_div_mult_eq_mod nat_mod_distrib)
  have "0 < ?pos div ?w \<Longrightarrow> ?pos \<noteq> ?pos - ?w" using assms by (auto simp: div_greater_zero_iff)
  moreover have "0 < ?pos mod ?w \<Longrightarrow> ?pos \<noteq> ?pos - 1" by (cases ?pos) auto
  moreover have "neighbour_flags (setSigGroup ?c) = neighbour_flags (?c\<lparr>m_sigCoeffGroupFlag := (m_sigCoeffGroupFlag ?c)[?pos := True]\<rparr>)"
    by (simp add: setSigGroup_def)
  ultimately have "neighbour_flags (setSigGroup ?c) = neighbour_flags ?c" using assms
    by (simp add: neighbour_flags_def Let_def d w nth_list_update)
  then show ?thesis
    by (simp add: initSubblock_def Let_def group_contexts_def setSigGroup_def split: prod.split)
qed

end
