(* ===== verification/Residual.thy ===== *)
theory Residual
  imports CoeffContext
begin

section \<open>Coding of transform coefficients\<close>

text \<open>
  \<^verbatim>\<open>residual_coding_subblock\<close> of \<^verbatim>\<open>CABACWriter\<close> and \<^verbatim>\<open>CABACReader\<close>: significance and level flags with
  adaptive contexts while the budget of context coded bins lasts, escape codes, the bypass mode for the
  rest, and the signs, of which one may be hidden in the parity of the sum.

  The loops run over scan positions downwards; \<open>n\<close> counts the positions of the subblock that are left,
  so that the current position is \<open>minSubPos + n - 1\<close>.
\<close>

unbundle bit_operations_syntax

text \<open>The local variables of the first and third pass that both sides keep.\<close>

record SubblockState =
  sb_tmpl :: "int \<times> int"
  sb_state :: nat
  sb_numNonZero :: nat
  sb_firstNZPos :: int
  sb_lastNZPos :: int
  sb_remRegBins :: int

definition next_state :: "nat \<Rightarrow> nat \<Rightarrow> int \<Rightarrow> nat" where
  "next_state stateTransTable state v = drop_bit (4 * state + 2 * nat (v mod 2)) stateTransTable AND 3"

definition note_nonzero :: "nat \<Rightarrow> SubblockState \<Rightarrow> SubblockState" where
  "note_nonzero scanPos sb = sb\<lparr>sb_numNonZero := sb_numNonZero sb + 1, sb_firstNZPos := int scanPos,
     sb_lastNZPos := max (sb_lastNZPos sb) (int scanPos)\<rparr>"

subsection \<open>First pass: flags\<close>

definition w_sig_flag :: "'s BinEncIf \<Rightarrow> CoeffCodingContext \<Rightarrow> int list \<Rightarrow> int \<Rightarrow> nat \<Rightarrow> SubblockState \<Rightarrow> 's
    \<Rightarrow> (SubblockState \<times> 's) option" where
  "w_sig_flag E c coeff inferSigPos nextSigPos sb s =
     (if sb_numNonZero sb \<noteq> 0 \<or> int nextSigPos \<noteq> inferSigPos then do {
        let (ctx, tmpl) = sigCtxIdAbs c nextSigPos coeff (sb_state sb);
        s \<leftarrow> w_bin E (of_bool (coeff ! blockPos c nextSigPos \<noteq> 0)) (fst ctx) (snd ctx) s;
        Some (sb\<lparr>sb_tmpl := tmpl, sb_remRegBins := sb_remRegBins sb - 1\<rparr>, s) }
      else if int nextSigPos \<noteq> m_scanPosLast c
      then Some (sb\<lparr>sb_tmpl := snd (sigCtxIdAbs c nextSigPos coeff (sb_state sb))\<rparr>, s)
      else Some (sb, s))"

definition r_sig_flag :: "'s BinDecIf \<Rightarrow> CoeffCodingContext \<Rightarrow> int list \<Rightarrow> int \<Rightarrow> nat \<Rightarrow> SubblockState \<Rightarrow> 's
    \<Rightarrow> ((bool \<times> SubblockState) \<times> 's) option" where
  "r_sig_flag D c coeff inferSigPos nextSigPos sb s =
     (let sigFlag = (sb_numNonZero sb = 0 \<and> int nextSigPos = inferSigPos) in
      if \<not> sigFlag then do {
        let (ctx, tmpl) = sigCtxIdAbs c nextSigPos coeff (sb_state sb);
        (b, s) \<leftarrow> r_bin D (fst ctx) (snd ctx) s;
        Some ((b \<noteq> 0, sb\<lparr>sb_tmpl := tmpl, sb_remRegBins := sb_remRegBins sb - 1\<rparr>), s) }
      else if int nextSigPos \<noteq> m_scanPosLast c
      then Some ((sigFlag, sb\<lparr>sb_tmpl := snd (sigCtxIdAbs c nextSigPos coeff (sb_state sb))\<rparr>), s)
      else Some ((sigFlag, sb), s))"

definition w_gt_flags :: "'s BinEncIf \<Rightarrow> CoeffCodingContext \<Rightarrow> nat \<Rightarrow> nat \<Rightarrow> 's \<Rightarrow> 's option" where
  "w_gt_flags E c ctxOff absLevel s = do {
     let remAbsLevel = absLevel - 1;
     let gt1 = (remAbsLevel \<noteq> 0);
     s \<leftarrow> w_bin E (of_bool gt1) (fst (greater1CtxIdAbs c ctxOff)) (snd (greater1CtxIdAbs c ctxOff)) s;
     if gt1 then do {
       let remAbsLevel = remAbsLevel - 1;
       s \<leftarrow> w_bin E (remAbsLevel mod 2) (fst (parityCtxIdAbs c ctxOff)) (snd (parityCtxIdAbs c ctxOff)) s;
       let remAbsLevel = drop_bit 1 remAbsLevel;
       let gt2 = (remAbsLevel \<noteq> 0);
       w_bin E (of_bool gt2) (fst (greater2CtxIdAbs c ctxOff)) (snd (greater2CtxIdAbs c ctxOff)) s }
     else Some s }"

definition r_gt_flags :: "'s BinDecIf \<Rightarrow> CoeffCodingContext \<Rightarrow> nat \<Rightarrow> 's \<Rightarrow> (nat \<times> 's) option" where
  "r_gt_flags D c ctxOff s = do {
     (gt1Flag, s) \<leftarrow> r_bin D (fst (greater1CtxIdAbs c ctxOff)) (snd (greater1CtxIdAbs c ctxOff)) s;
     if gt1Flag \<noteq> 0 then do {
       (parFlag, s) \<leftarrow> r_bin D (fst (parityCtxIdAbs c ctxOff)) (snd (parityCtxIdAbs c ctxOff)) s;
       (gt2Flag, s) \<leftarrow> r_bin D (fst (greater2CtxIdAbs c ctxOff)) (snd (greater2CtxIdAbs c ctxOff)) s;
       Some (1 + parFlag + gt1Flag + push_bit 1 gt2Flag, s) }
     else Some (1 + gt1Flag, s) }"

text \<open>The number of context coded bins of the level flags.\<close>

definition gt_bins :: "bool \<Rightarrow> int" where
  "gt_bins gt1 = (if gt1 then 3 else 1)"

fun w_sig_pass :: "'s BinEncIf \<Rightarrow> CoeffCodingContext \<Rightarrow> int list \<Rightarrow> nat \<Rightarrow> int \<Rightarrow> nat \<Rightarrow> nat \<Rightarrow> SubblockState \<Rightarrow> nat \<Rightarrow> 's
    \<Rightarrow> ((nat \<times> SubblockState \<times> nat) \<times> 's) option" where
  "w_sig_pass E c coeff stt inferSigPos minSubPos 0 sb signPattern s = Some ((0, sb, signPattern), s)"
| "w_sig_pass E c coeff stt inferSigPos minSubPos (Suc n) sb signPattern s =
     (if sb_remRegBins sb < 4 then Some ((Suc n, sb, signPattern), s)
      else do {
        let nextSigPos = minSubPos + n;
        let Coeff = coeff ! blockPos c nextSigPos;
        (sb, s) \<leftarrow> w_sig_flag E c coeff inferSigPos nextSigPos sb s;
        if Coeff \<noteq> 0 then do {
          let ctxOff = ctxOffsetAbs c (sb_tmpl sb);
          let sb = note_nonzero nextSigPos sb;
          let signPattern = (if int nextSigPos \<noteq> m_scanPosLast c then u32 (push_bit 1 signPattern) else signPattern);
          let signPattern = (if Coeff < 0 then signPattern + 1 else signPattern);
          s \<leftarrow> w_gt_flags E c ctxOff (nat \<bar>Coeff\<bar>) s;
          let sb = sb\<lparr>sb_remRegBins := sb_remRegBins sb - gt_bins (\<bar>Coeff\<bar> \<noteq> 1),
                      sb_state := next_state stt (sb_state sb) Coeff\<rparr>;
          w_sig_pass E c coeff stt inferSigPos minSubPos n sb signPattern s }
        else w_sig_pass E c coeff stt inferSigPos minSubPos n
               (sb\<lparr>sb_state := next_state stt (sb_state sb) Coeff\<rparr>) signPattern s })"

fun r_sig_pass :: "'s BinDecIf \<Rightarrow> CoeffCodingContext \<Rightarrow> nat \<Rightarrow> int \<Rightarrow> nat \<Rightarrow> nat \<Rightarrow> SubblockState \<Rightarrow> int list \<Rightarrow> nat list \<Rightarrow> 's
    \<Rightarrow> ((nat \<times> SubblockState \<times> int list \<times> nat list) \<times> 's) option" where
  "r_sig_pass D c stt inferSigPos minSubPos 0 sb coeff sigBlkPos s = Some ((0, sb, coeff, sigBlkPos), s)"
| "r_sig_pass D c stt inferSigPos minSubPos (Suc n) sb coeff sigBlkPos s =
     (if sb_remRegBins sb < 4 then Some ((Suc n, sb, coeff, sigBlkPos), s)
      else do {
        let nextSigPos = minSubPos + n;
        let blkPos = blockPos c nextSigPos;
        ((sigFlag, sb), s) \<leftarrow> r_sig_flag D c coeff inferSigPos nextSigPos sb s;
        if sigFlag then do {
          let ctxOff = ctxOffsetAbs c (sb_tmpl sb);
          let sb = note_nonzero nextSigPos sb;
          (v, s) \<leftarrow> r_gt_flags D c ctxOff s;
          let coeff = coeff[blkPos := coeff ! blkPos + int v];
          let sb = sb\<lparr>sb_remRegBins := sb_remRegBins sb - gt_bins (v \<noteq> 1),
                      sb_state := next_state stt (sb_state sb) (coeff ! blkPos)\<rparr>;
          r_sig_pass D c stt inferSigPos minSubPos n sb coeff (sigBlkPos @ [blkPos]) s }
        else r_sig_pass D c stt inferSigPos minSubPos n
               (sb\<lparr>sb_state := next_state stt (sb_state sb) (coeff ! blkPos)\<rparr>) coeff sigBlkPos s })"

subsection \<open>Second pass: remaining levels\<close>

text \<open>The positions from \<open>minSubPos + n - 1\<close> down to \<open>minSubPos + stop\<close>.\<close>

fun w_rem_pass :: "'s BinEncIf \<Rightarrow> CoeffCodingContext \<Rightarrow> int list \<Rightarrow> nat \<Rightarrow> nat \<Rightarrow> nat \<Rightarrow> 's \<Rightarrow> 's option" where
  "w_rem_pass E c coeff minSubPos stop 0 s = Some s"
| "w_rem_pass E c coeff minSubPos stop (Suc n) s =
     (if n < stop then Some s
      else do {
        let scanPos = minSubPos + n;
        let ricePar = g_auiGoRiceParsCoeff ! templateAbsSum c scanPos coeff 4;
        let absLevel = nat \<bar>coeff ! blockPos c scanPos\<bar>;
        s \<leftarrow> (if absLevel \<ge> 4
             then ie_encodeRemAbsEP E (drop_bit 1 (absLevel - 4)) ricePar COEF_REMAIN_BIN_REDUCTION
                    (m_maxLog2TrDynamicRange c) s
             else Some s);
        w_rem_pass E c coeff minSubPos stop n s })"

fun r_rem_pass :: "'s BinDecIf \<Rightarrow> CoeffCodingContext \<Rightarrow> nat \<Rightarrow> nat \<Rightarrow> nat \<Rightarrow> int list \<Rightarrow> 's \<Rightarrow> (int list \<times> 's) option" where
  "r_rem_pass D c minSubPos stop 0 coeff s = Some (coeff, s)"
| "r_rem_pass D c minSubPos stop (Suc n) coeff s =
     (if n < stop then Some (coeff, s)
      else do {
        let scanPos = minSubPos + n;
        let ricePar = g_auiGoRiceParsCoeff ! templateAbsSum c scanPos coeff 4;
        let blkPos = blockPos c scanPos;
        (coeff, s) \<leftarrow> (if coeff ! blkPos \<ge> 4 then do {
              (r, s) \<leftarrow> if_decodeRemAbsEP D ricePar COEF_REMAIN_BIN_REDUCTION (m_maxLog2TrDynamicRange c) s;
              Some (coeff[blkPos := coeff ! blkPos + int (push_bit 1 r)], s) }
            else Some (coeff, s));
        r_rem_pass D c minSubPos stop n coeff s })"

subsection \<open>Third pass: bypass levels\<close>

fun w_bypass_pass :: "'s BinEncIf \<Rightarrow> CoeffCodingContext \<Rightarrow> int list \<Rightarrow> nat \<Rightarrow> nat \<Rightarrow> nat \<Rightarrow> SubblockState \<Rightarrow> nat \<Rightarrow> 's
    \<Rightarrow> ((SubblockState \<times> nat) \<times> 's) option" where
  "w_bypass_pass E c coeff stt minSubPos 0 sb signPattern s = Some ((sb, signPattern), s)"
| "w_bypass_pass E c coeff stt minSubPos (Suc n) sb signPattern s = do {
     let scanPos = minSubPos + n;
     let Coeff = coeff ! blockPos c scanPos;
     let absLevel = nat \<bar>Coeff\<bar>;
     let rice = g_auiGoRiceParsCoeff ! templateAbsSum c scanPos coeff 0;
     let pos0 = g_auiGoRicePosCoeff0 (sb_state sb) rice;
     let r = (if absLevel = 0 then pos0 else if absLevel \<le> pos0 then absLevel - 1 else absLevel);
     s \<leftarrow> ie_encodeRemAbsEP E r rice COEF_REMAIN_BIN_REDUCTION (m_maxLog2TrDynamicRange c) s;
     let sb = sb\<lparr>sb_state := next_state stt (sb_state sb) (int absLevel)\<rparr>;
     if absLevel \<noteq> 0
     then w_bypass_pass E c coeff stt minSubPos n (note_nonzero scanPos sb)
            (u32 (push_bit 1 signPattern) + of_bool (Coeff < 0)) s
     else w_bypass_pass E c coeff stt minSubPos n sb signPattern s }"

fun r_bypass_pass :: "'s BinDecIf \<Rightarrow> CoeffCodingContext \<Rightarrow> nat \<Rightarrow> nat \<Rightarrow> nat \<Rightarrow> SubblockState \<Rightarrow> int list \<Rightarrow> nat list \<Rightarrow> 's
    \<Rightarrow> ((SubblockState \<times> int list \<times> nat list) \<times> 's) option" where
  "r_bypass_pass D c stt minSubPos 0 sb coeff sigBlkPos s = Some ((sb, coeff, sigBlkPos), s)"
| "r_bypass_pass D c stt minSubPos (Suc n) sb coeff sigBlkPos s = do {
     let scanPos = minSubPos + n;
     let rice = g_auiGoRiceParsCoeff ! templateAbsSum c scanPos coeff 0;
     let pos0 = g_auiGoRicePosCoeff0 (sb_state sb) rice;
     (r, s) \<leftarrow> if_decodeRemAbsEP D rice COEF_REMAIN_BIN_REDUCTION (m_maxLog2TrDynamicRange c) s;
     let tcoeff = (if r = pos0 then 0 else if r < pos0 then r + 1 else r);
     let sb = sb\<lparr>sb_state := next_state stt (sb_state sb) (int tcoeff)\<rparr>;
     if tcoeff \<noteq> 0
     then r_bypass_pass D c stt minSubPos n (note_nonzero scanPos sb)
            (coeff[blockPos c scanPos := int tcoeff]) (sigBlkPos @ [blockPos c scanPos]) s
     else r_bypass_pass D c stt minSubPos n sb coeff sigBlkPos s }"

subsection \<open>Signs\<close>

fun r_set_signs :: "nat list \<Rightarrow> nat \<Rightarrow> int \<Rightarrow> int list \<Rightarrow> int \<times> int list" where
  "r_set_signs [] signPattern sumAbs coeff = (sumAbs, coeff)"
| "r_set_signs (p # ps) signPattern sumAbs coeff =
     (let AbsCoeff = coeff ! p
      in r_set_signs ps (u32 (push_bit 1 signPattern)) (sumAbs + AbsCoeff)
           (coeff[p := if signPattern AND 2147483648 \<noteq> 0 then - AbsCoeff else AbsCoeff]))"

definition w_signs :: "'s BinEncIf \<Rightarrow> CoeffCodingContext \<Rightarrow> SubblockState \<Rightarrow> nat \<Rightarrow> 's \<Rightarrow> 's option" where
  "w_signs E c sb signPattern s =
     (let hide = hideSign c (sb_firstNZPos sb) (sb_lastNZPos sb);
          numSigns = (if hide then sb_numNonZero sb - 1 else sb_numNonZero sb);
          signPattern = (if hide then drop_bit 1 signPattern else signPattern)
      in ie_encodeBinsEP E signPattern numSigns s)"

definition r_signs :: "'s BinDecIf \<Rightarrow> CoeffCodingContext \<Rightarrow> SubblockState \<Rightarrow> int list \<Rightarrow> nat list \<Rightarrow> 's \<Rightarrow> (int list \<times> 's) option" where
  "r_signs D c sb coeff sigBlkPos s = do {
     let numSigns = (if hideSign c (sb_firstNZPos sb) (sb_lastNZPos sb) then sb_numNonZero sb - 1 else sb_numNonZero sb);
     (v, s) \<leftarrow> if_decodeBinsEP D numSigns s;
     let (sumAbs, coeff) = r_set_signs (take numSigns sigBlkPos) (u32 (push_bit (32 - numSigns) v)) 0 coeff;
     let coeff = (if sb_numNonZero sb > numSigns
                  then let k = sigBlkPos ! numSigns; AbsCoeff = coeff ! k; sumAbs = sumAbs + AbsCoeff
                       in coeff[k := if sumAbs mod 2 = 1 then - AbsCoeff else AbsCoeff]
                  else coeff);
     Some (coeff, s) }"

subsection \<open>Subblocks\<close>

definition firstSigPos :: "CoeffCodingContext \<Rightarrow> int" where
  "firstSigPos c = (if isLast c then m_scanPosLast c else m_maxSubPos c)"

definition inferSigPos :: "CoeffCodingContext \<Rightarrow> int" where
  "inferSigPos c = (if firstSigPos c \<noteq> m_scanPosLast c then (if isNotFirst c then m_minSubPos c else - 1) else firstSigPos c)"

definition SubblockState_new :: "CoeffCodingContext \<Rightarrow> nat \<Rightarrow> SubblockState" where
  "SubblockState_new c state = \<lparr>sb_tmpl = (m_tmplCpDiag c, m_tmplCpSum1 c), sb_state = state, sb_numNonZero = 0,
     sb_firstNZPos = firstSigPos c, sb_lastNZPos = - 1, sb_remRegBins = regBinLimit c\<rparr>"

text \<open>After the first pass the context object holds the bins left and the last template.\<close>

definition end_pass1 :: "SubblockState \<Rightarrow> CoeffCodingContext \<Rightarrow> CoeffCodingContext" where
  "end_pass1 sb c = c\<lparr>regBinLimit := sb_remRegBins sb, m_tmplCpDiag := fst (sb_tmpl sb), m_tmplCpSum1 := snd (sb_tmpl sb)\<rparr>"

definition w_levels :: "'s BinEncIf \<Rightarrow> int list \<Rightarrow> nat \<Rightarrow> CoeffCodingContext \<Rightarrow> nat \<Rightarrow> 's
    \<Rightarrow> ((CoeffCodingContext \<times> nat) \<times> 's) option" where
  "w_levels E coeff stt c state s = do {
     let minSubPos = nat (m_minSubPos c);
     let n = nat (firstSigPos c - m_minSubPos c + 1);
     ((stop, sb, signPattern), s) \<leftarrow> w_sig_pass E c coeff stt (inferSigPos c) minSubPos n (SubblockState_new c state) 0 s;
     let c = end_pass1 sb c;
     s \<leftarrow> w_rem_pass E c coeff minSubPos stop n s;
     ((sb, signPattern), s) \<leftarrow> w_bypass_pass E c coeff stt minSubPos stop sb signPattern s;
     s \<leftarrow> w_signs E c sb signPattern s;
     Some ((c, sb_state sb), s) }"

definition r_levels :: "'s BinDecIf \<Rightarrow> nat \<Rightarrow> CoeffCodingContext \<Rightarrow> nat \<Rightarrow> int list \<Rightarrow> 's
    \<Rightarrow> ((CoeffCodingContext \<times> nat \<times> int list) \<times> 's) option" where
  "r_levels D stt c state coeff s = do {
     let minSubPos = nat (m_minSubPos c);
     let n = nat (firstSigPos c - m_minSubPos c + 1);
     ((stop, sb, coeff, sigBlkPos), s) \<leftarrow> r_sig_pass D c stt (inferSigPos c) minSubPos n (SubblockState_new c state) coeff [] s;
     let c = end_pass1 sb c;
     (coeff, s) \<leftarrow> r_rem_pass D c minSubPos stop n coeff s;
     ((sb, coeff, sigBlkPos), s) \<leftarrow> r_bypass_pass D c stt minSubPos stop sb coeff sigBlkPos s;
     (coeff, s) \<leftarrow> r_signs D c sb coeff sigBlkPos s;
     Some ((c, sb_state sb, coeff), s) }"

definition w_residual_coding_subblock :: "'s BinEncIf \<Rightarrow> int list \<Rightarrow> nat \<Rightarrow> CoeffCodingContext \<Rightarrow> nat \<Rightarrow> 's
    \<Rightarrow> ((CoeffCodingContext \<times> nat) \<times> 's) option" where
  "w_residual_coding_subblock E coeff stt c state s =
     (if \<not> isLast c \<and> isNotFirst c then do {
        s \<leftarrow> w_bin E (of_bool (isSigGroup c)) (fst (m_sigGroupCtxId c)) (snd (m_sigGroupCtxId c)) s;
        if isSigGroup c then w_levels E coeff stt c state s else Some ((c, state), s) }
      else w_levels E coeff stt c state s)"

definition r_residual_coding_subblock :: "'s BinDecIf \<Rightarrow> nat \<Rightarrow> CoeffCodingContext \<Rightarrow> nat \<Rightarrow> int list \<Rightarrow> 's
    \<Rightarrow> ((CoeffCodingContext \<times> nat \<times> int list) \<times> 's) option" where
  "r_residual_coding_subblock D stt c state coeff s =
     (if \<not> (isLast c \<or> m_minSubPos c = 0) then do {
        (sigGroup, s) \<leftarrow> r_bin D (fst (m_sigGroupCtxId c)) (snd (m_sigGroupCtxId c)) s;
        if sigGroup \<noteq> 0 then r_levels D stt (setSigGroup c) state coeff s else Some ((c, state, coeff), s) }
      else r_levels D stt (setSigGroup c) state coeff s)"

subsection \<open>Invariants\<close>

text \<open>\<open>ix\<close> are the scan positions of the nonzero coefficients met so far, \<open>pat\<close> their signs.\<close>

definition sb_inv :: "(nat \<Rightarrow> int) \<Rightarrow> SubblockState \<Rightarrow> nat list \<Rightarrow> nat \<Rightarrow> bool" where
  "sb_inv g sb ix pat \<longleftrightarrow> sb_numNonZero sb = length ix \<and> sb_state sb < 4 \<and> tmpl_ok (sb_tmpl sb)
     \<and> (if ix = [] then sb_lastNZPos sb = - 1 \<and> 0 \<le> sb_firstNZPos sb
        else sb_firstNZPos sb = int (last ix) \<and> sb_lastNZPos sb = int (hd ix))
     \<and> pat = valBE (map (\<lambda>i. g i < 0) ix)"

definition nonzeros :: "(nat \<Rightarrow> int) \<Rightarrow> nat \<Rightarrow> nat \<Rightarrow> nat list" where
  "nonzeros g lo hi = filter (\<lambda>i. g i \<noteq> 0) (rev [lo..<hi])"

lemma nonzeros_simps:
  "nonzeros g k k = []"
  "lo \<le> k \<Longrightarrow> nonzeros g lo (Suc k) = (if g k \<noteq> 0 then k # nonzeros g lo k else nonzeros g lo k)"
  by (simp_all add: nonzeros_def)

lemma set_nonzeros: "set (nonzeros g lo hi) = {i. lo \<le> i \<and> i < hi \<and> g i \<noteq> 0}"
  by (auto simp: nonzeros_def)

lemma next_state_less: "next_state stt st v < 4"
  using and_mask_mod [of "drop_bit (4 * st + 2 * nat (v mod 2)) stt" 2] by (simp add: next_state_def)

lemma sb_inv_note:
  assumes "sb_inv g sb ix pat" and "\<forall>i \<in> set ix. p < i" and "length ix < 32"
  shows "sb_inv g (note_nonzero p sb\<lparr>sb_remRegBins := r, sb_state := next_state stt st v\<rparr>) (ix @ [p])
      (u32 (push_bit 1 pat) + of_bool (g p < 0))"
    and "sb_inv g (note_nonzero p sb) (ix @ [p]) (u32 (push_bit 1 pat) + of_bool (g p < 0))"
proof -
  have "pat < 2 ^ length ix" using assms(1) valBE_less [of "map (\<lambda>i. g i < 0) ix"] by (simp add: sb_inv_def)
  also have "\<dots> \<le> 2 ^ 31" using assms(3) by (intro power_increasing) auto
  finally have "u32 (push_bit 1 pat) = 2 * pat" by (simp add: u32_id push_bit_eq_mult)
  moreover have "p < hd ix" if "ix \<noteq> []" using assms(2) that by simp
  ultimately show "sb_inv g (note_nonzero p sb\<lparr>sb_remRegBins := r, sb_state := next_state stt st v\<rparr>) (ix @ [p])
      (u32 (push_bit 1 pat) + of_bool (g p < 0))" "sb_inv g (note_nonzero p sb) (ix @ [p]) (u32 (push_bit 1 pat) + of_bool (g p < 0))"
    using assms(1) by (auto simp: sb_inv_def note_nonzero_def valBE_snoc next_state_less max_def hd_append split: if_splits)
qed

definition stage1 :: "(nat \<Rightarrow> int) \<Rightarrow> nat \<Rightarrow> nat \<Rightarrow> nat \<Rightarrow> nat \<Rightarrow> int" where
  "stage1 g m n0 k i = (if i < m + k then 0 else if i < m + n0 then base_level \<bar>g i\<bar> else g i)"

lemma stage1_flags: "m + k \<le> j \<Longrightarrow> same_flags (stage1 g m n0 k j) (g j)"
  by (cases "g j = 0") (simp_all add: stage1_def same_flags_def)

lemma stage1_step:
  assumes "k < n0"
  shows "(stage1 g m n0 (Suc k))(m + k := base_level \<bar>g (m + k)\<bar>) = stage1 g m n0 k"
  using assms by (auto simp: stage1_def fun_eq_iff)

definition stage2 :: "(nat \<Rightarrow> int) \<Rightarrow> nat \<Rightarrow> nat \<Rightarrow> nat \<Rightarrow> nat \<Rightarrow> nat \<Rightarrow> int" where
  "stage2 g m n0 stop k i = (if i < m + stop then 0 else if i < m + k then base_level \<bar>g i\<bar>
     else if i < m + n0 then \<bar>g i\<bar> else g i)"

lemma stage2_step:
  assumes "stop \<le> k" and "k < n0"
  shows "(stage2 g m n0 stop (Suc k))(m + k := \<bar>g (m + k)\<bar>) = stage2 g m n0 stop k"
  using assms by (auto simp: stage2_def fun_eq_iff)

text \<open>The escape codes stay within their range.\<close>

lemma rem_abs_ok_coeff:
  assumes "r \<le> 2 ^ M" and "4 \<le> M" and "M \<le> 27" and "g \<le> 3"
  shows "rem_abs_ok r g COEF_REMAIN_BIN_REDUCTION M"
proof -
  have "(2::nat) ^ M \<le> 2 ^ 27" using assms(3) by (intro power_increasing) auto
  moreover have "(2::nat) ^ g \<le> 2 ^ 3" using assms(4) by (intro power_increasing) auto
  moreover have "0 < (4 + 2 ^ (27 - M)) * (2::nat) ^ g" by simp
  with assms(1) have "r < (4 + 2 ^ (27 - M)) * 2 ^ g + 2 ^ M" by linarith
  ultimately show ?thesis using assms by (simp add: rem_abs_ok_def COEF_REMAIN_BIN_REDUCTION_def)
qed

lemma goRice_le: "g_auiGoRiceParsCoeff ! templateAbsSum c i coeff k \<le> 3"
proof -
  have "templateAbsSum c i coeff k \<le> 31" by (simp add: templateAbsSum_def)
  moreover have "\<forall>j < 32. g_auiGoRiceParsCoeff ! j \<le> 3"
    by (simp add: g_auiGoRiceParsCoeff_def All_less_Suc numeral_eq_Suc)
  ultimately show ?thesis by simp
qed

text \<open>The passes depend on the constant part of the context only.\<close>

lemma passes_same_block:
  assumes "same_block c d"
  shows "w_sig_pass E c = w_sig_pass E d" and "r_sig_pass D c = r_sig_pass D d"
    and "w_rem_pass E c = w_rem_pass E d" and "r_rem_pass D c = r_rem_pass D d"
    and "w_bypass_pass E c = w_bypass_pass E d" and "r_bypass_pass D c = r_bypass_pass D d"
proof -
  note q = same_block_queries [OF assms]
  have g: "w_gt_flags E c = w_gt_flags E d" "r_gt_flags D c = r_gt_flags D d"
    "w_sig_flag E c = w_sig_flag E d" "r_sig_flag D c = r_sig_flag D d"
    by (intro ext, simp only: w_gt_flags_def r_gt_flags_def w_sig_flag_def r_sig_flag_def q)+
  have "w_sig_pass E c coeff stt inf m n = w_sig_pass E d coeff stt inf m n" for coeff stt inf m n
    by (induction n; intro ext; simp only: w_sig_pass.simps q g)
  then show "w_sig_pass E c = w_sig_pass E d" by (intro ext) (simp only:)
  have "r_sig_pass D c stt inf m n = r_sig_pass D d stt inf m n" for stt inf m n
    by (induction n; intro ext; simp only: r_sig_pass.simps q g)
  then show "r_sig_pass D c = r_sig_pass D d" by (intro ext) (simp only:)
  have "w_rem_pass E c coeff m st n = w_rem_pass E d coeff m st n" for coeff m st n
    by (induction n; intro ext; simp only: w_rem_pass.simps q)
  then show "w_rem_pass E c = w_rem_pass E d" by (intro ext) (simp only:)
  have "r_rem_pass D c m st n = r_rem_pass D d m st n" for m st n
    by (induction n; intro ext; simp only: r_rem_pass.simps q)
  then show "r_rem_pass D c = r_rem_pass D d" by (intro ext) (simp only:)
  have "w_bypass_pass E c coeff stt m n = w_bypass_pass E d coeff stt m n" for coeff stt m n
    by (induction n; intro ext; simp only: w_bypass_pass.simps q)
  then show "w_bypass_pass E c = w_bypass_pass E d" by (intro ext) (simp only:)
  have "r_bypass_pass D c stt m n = r_bypass_pass D d stt m n" for stt m n
    by (induction n; intro ext; simp only: r_bypass_pass.simps q)
  then show "r_bypass_pass D c = r_bypass_pass D d" by (intro ext) (simp only:)
qed

text \<open>Distribution of the signs.\<close>

lemma top_bit:
  fixes y :: nat
  assumes "y < 2 ^ 31"
  shows "((of_bool b * 2 ^ 31 + y) AND 2147483648 \<noteq> 0) = b" and "u32 (push_bit 1 (of_bool b * 2 ^ 31 + y)) = 2 * y"
proof -
  have "(of_bool b * 2 ^ 31 + y) AND 2 ^ 31 = 0 \<longleftrightarrow> \<not> bit (of_bool b * 2 ^ 31 + y) 31"
    by (rule and_exp_eq_0_iff_not_bit)
  moreover have "(of_bool b * 2 ^ 31 + y) div 2 ^ 31 = (of_bool b :: nat)" using assms by simp
  ultimately show "((of_bool b * 2 ^ 31 + y) AND 2147483648 \<noteq> 0) = b" by (simp add: bit_iff_odd)
  show "u32 (push_bit 1 (of_bool b * 2 ^ 31 + y)) = 2 * y"
    using assms by (cases b) (simp_all add: u32_def push_bit_eq_mult)
qed

lemma r_set_signs_view:
  assumes "scan_ok c N" and "view c N a f" and "distinct ix" and "set ix \<subseteq> {..<N}" and "length ix \<le> 32"
  shows "\<exists>a'. r_set_signs (map (blockPos c) ix) (valBE (map b ix) * 2 ^ (32 - length ix)) s a = (s + sum_list (map f ix), a')
    \<and> view c N a' (\<lambda>i. if i \<in> set ix \<and> b i then - f i else f i)"
  using assms(2-)
proof (induction ix arbitrary: a f s)
  case Nil
  then show ?case by simp
next
  case (Cons i ix)
  let ?k = "length ix" and ?y = "valBE (map b ix) * 2 ^ (31 - length ix)"
  have iN: "i < N" using Cons.prems(3) by simp
  have "valBE (map b ix) + 1 \<le> 2 ^ ?k" using valBE_less [of "map b ix"] by simp
  then have "(valBE (map b ix) + 1) * 2 ^ (31 - ?k) \<le> 2 ^ ?k * 2 ^ (31 - ?k)" by (rule mult_le_mono1)
  also have "\<dots> = 2 ^ 31" using Cons.prems(4) by (simp flip: power_add)
  finally have "?y + 2 ^ (31 - ?k) \<le> 2 ^ 31" by (simp only: add_mult_distrib mult_1)
  then have y: "?y < 2 ^ 31" using zero_less_power [of "2::nat" "31 - ?k"] by linarith
  have pw: "2 ^ ?k * 2 ^ (31 - ?k) = (2::nat) ^ 31" using Cons.prems(4) by (simp flip: power_add)
  have pat: "valBE (map b (i # ix)) * 2 ^ (32 - length (i # ix)) = of_bool (b i) * 2 ^ 31 + ?y"
    unfolding list.map valBE_Cons length_map list.size pw [symmetric] by (simp add: add_mult_distrib)
  have "2 * 2 ^ (31 - ?k) = (2::nat) ^ (32 - ?k)" using Cons.prems(4) by (simp flip: power_Suc add: Suc_diff_le)
  then have pat': "2 * ?y = valBE (map b ix) * 2 ^ (32 - ?k)" by (metis mult.left_commute)
  have A: "a ! blockPos c i = f i" using view_nth [OF Cons.prems(1) iN] .
  let ?v = "if b i then - f i else f i"
  have side: "distinct ix" "set ix \<subseteq> {..<N}" "?k \<le> 32" using Cons.prems(2-4) by simp_all
  have "view c N (a[blockPos c i := ?v]) (f(i := ?v))" by (rule view_update [OF assms(1) Cons.prems(1) iN])
  from Cons.IH [OF this, of "s + f i"] side obtain a' where
    IH: "r_set_signs (map (blockPos c) ix) (valBE (map b ix) * 2 ^ (32 - ?k)) (s + f i) (a[blockPos c i := ?v])
        = (s + f i + sum_list (map (f(i := ?v)) ix), a')"
      "view c N a' (\<lambda>j. if j \<in> set ix \<and> b j then - (f(i := ?v)) j else (f(i := ?v)) j)" by blast
  have mp: "map (f(i := ?v)) ix = map f ix" using Cons.prems(2) by auto
  have "r_set_signs (map (blockPos c) (i # ix)) (valBE (map b (i # ix)) * 2 ^ (32 - length (i # ix))) s a
      = (s + sum_list (map f (i # ix)), a')"
    unfolding pat unfolding list.map r_set_signs.simps Let_def top_bit [OF y] A pat' IH(1) mp by simp
  moreover have "view c N a' (\<lambda>j. if j \<in> set (i # ix) \<and> b j then - f j else f j)"
    by (rule view_cong [OF IH(2)]) (use Cons.prems(2) in auto)
  ultimately show ?case by blast
qed

text \<open>With sign hiding, the parity of the levels gives the sign of the last coefficient of a subblock.\<close>

definition hide_ok :: "CoeffCodingContext \<Rightarrow> (nat \<Rightarrow> int) \<Rightarrow> nat list \<Rightarrow> bool" where
  "hide_ok c g ix \<longleftrightarrow> (ix \<noteq> [] \<and> hideSign c (int (last ix)) (int (hd ix)) \<longrightarrow>
     (g (last ix) < 0 \<longleftrightarrow> sum_list (map (\<lambda>i. \<bar>g i\<bar>) ix) mod 2 = 1))"

lemma hide_positions:
  assumes "sb_inv g sb ix pat"
  shows "hideSign c (sb_firstNZPos sb) (sb_lastNZPos sb) \<longleftrightarrow> ix \<noteq> [] \<and> hideSign c (int (last ix)) (int (hd ix))"
  using assms by (auto simp: sb_inv_def hideSign_def SBH_THRESHOLD_def split: if_splits)

lemma u32_shift_up:
  assumes "v < 2 ^ k" and "k \<le> 32"
  shows "u32 (push_bit (32 - k) v) = v * 2 ^ (32 - k)"
proof -
  have "v * 2 ^ (32 - k) < 2 ^ k * 2 ^ (32 - k)" using assms(1) by simp
  also have "\<dots> = 2 ^ 32" using assms(2) by (simp flip: power_add)
  finally show ?thesis by (simp add: u32_id push_bit_eq_mult)
qed

lemma stage2_signs:
  assumes "set ix = {i. m \<le> i \<and> i < m + n0 \<and> g i \<noteq> 0}"
  shows "(if i \<in> set ix \<and> g i < 0 then - stage2 g m n0 0 0 i else stage2 g m n0 0 0 i) = (if i < m then 0 else g i)"
  unfolding assms stage2_def by auto

subsection \<open>Agreement of the passes\<close>

context cabac_channel
begin

lemma sig_flag_codec:
  assumes "sets_ok c" and "sb_state sb < 4" and "sigCtxIdAbs c p a (sb_state sb) = sigCtxIdAbs c p coeff (sb_state sb)"
    and "sb_numNonZero sb = 0 \<Longrightarrow> int p = infer \<Longrightarrow> coeff ! blockPos c p \<noteq> 0"
  obtains sb' where "codec2 emits S (w_sig_flag E c coeff infer p sb) sb' (r_sig_flag D c a infer p sb) (coeff ! blockPos c p \<noteq> 0, sb')"
    and "sb_state sb' = sb_state sb" and "sb_numNonZero sb' = sb_numNonZero sb" and "sb_firstNZPos sb' = sb_firstNZPos sb"
    and "sb_lastNZPos sb' = sb_lastNZPos sb" and "tmpl_ok (sb_tmpl sb) \<Longrightarrow> tmpl_ok (sb_tmpl sb')"
proof -
  let ?v = "coeff ! blockPos c p \<noteq> 0"
  obtain ctx tmpl where ct: "sigCtxIdAbs c p coeff (sb_state sb) = (ctx, tmpl)" by (metis surj_pair)
  have ok: "ctx_in ctx" "tmpl_ok tmpl" using sigCtxIdAbs_ok [OF assms(1,2), of p coeff] by (simp_all add: ct)
  show ?thesis
  proof (cases "sb_numNonZero sb \<noteq> 0 \<or> int p \<noteq> infer")
    case True
    let ?sb = "sb\<lparr>sb_tmpl := tmpl, sb_remRegBins := sb_remRegBins sb - 1\<rparr>"
    have "codec2 emits S (\<lambda>s. Option.bind (w_bin E (of_bool ?v) (fst ctx) (snd ctx) s) (\<lambda>s. Some (?sb, s))) ?sb
        (\<lambda>s. Option.bind (r_bin D (fst ctx) (snd ctx) s) (\<lambda>(b, s). (\<lambda>b s. Some ((b \<noteq> 0, ?sb), s)) b s)) (?v, ?sb)"
      by (rule codec2_step [OF bins_in [OF ok(1)]]) (simp, rule codec2_Some, simp_all)
    then have "codec2 emits S (w_sig_flag E c coeff infer p sb) ?sb (r_sig_flag D c a infer p sb) (?v, ?sb)"
      by (rule codec2_ext [rotated 2]) (use True in \<open>auto simp: w_sig_flag_def r_sig_flag_def ct assms(3)\<close>)
    with ok(2) that [of ?sb] show ?thesis by simp
  next
    case False
    then have v: "?v" using assms(4) by auto
    let ?sb = "if int p \<noteq> m_scanPosLast c then sb\<lparr>sb_tmpl := tmpl\<rparr> else sb"
    have "codec2 emits S (w_sig_flag E c coeff infer p sb) ?sb (r_sig_flag D c a infer p sb) (?v, ?sb)"
      by (rule codec2_ext [OF _ _ codec2_Some [OF refl refl]])
        (use False v in \<open>auto simp: w_sig_flag_def r_sig_flag_def ct assms(3)\<close>)
    with ok(2) that [of ?sb] show ?thesis by (simp split: if_splits)
  qed
qed

lemma gt_flags_codec:
  assumes "sets_ok c" and "tmpl_ok t" and "v \<noteq> 0"
  shows "bins (w_gt_flags E c (ctxOffsetAbs c t) (nat \<bar>v\<bar>)) (r_gt_flags D c (ctxOffsetAbs c t)) (nat (base_level \<bar>v\<bar>))"
proof -
  define a where "a = nat \<bar>v\<bar>"
  have a: "a \<noteq> 0" "\<bar>v\<bar> = int a" using assms(3) by (simp_all add: a_def)
  have "4 + int a mod 2 = int (4 + a mod 2)" by (simp add: zmod_int)
  then have lev: "nat (base_level (int a)) = min (4 + a mod 2) a" by (simp add: base_level_def of_nat_min [symmetric] del: of_nat_add)
  note ok = ctxOffsetAbs_ok [OF assms(1,2)]
  have arith: "1 + (a - 1 - 1) mod 2 + of_bool (a - 1 \<noteq> 0) + push_bit 1 (of_bool (drop_bit 1 (a - 1 - 1) \<noteq> 0)) = min (4 + a mod 2) a"
    if "a - 1 \<noteq> 0"
  proof -
    have "2 \<le> a" using that by simp
    then obtain k where k: "a = k + 2" by (metis add.commute le_Suc_ex)
    have "Suc (Suc (k mod 2)) \<le> k" if "\<not> k < 2" using that by presburger
    then show ?thesis unfolding k by (cases "k < 2") (auto simp: drop_bit_eq_div push_bit_eq_mult min_def less_2_cases_iff)
  qed
  show ?thesis unfolding a(2) lev nat_int
  proof (rule codec_ext, rule w_gt_flags_def, rule r_gt_flags_def, unfold Let_def,
      rule codec_bind [OF bins_in [OF ok(2)]], simp, rule codec_if)
    show "(of_bool (a - 1 \<noteq> 0) \<noteq> (0::nat)) = (a - 1 \<noteq> 0)" by simp
    show "a - 1 \<noteq> 0 \<Longrightarrow> bins
       (\<lambda>s. w_bin E ((a - 1 - 1) mod 2) (fst (parityCtxIdAbs c (ctxOffsetAbs c t))) (snd (parityCtxIdAbs c (ctxOffsetAbs c t))) s \<bind>
          w_bin E (of_bool (drop_bit 1 (a - 1 - 1) \<noteq> 0)) (fst (greater2CtxIdAbs c (ctxOffsetAbs c t)))
            (snd (greater2CtxIdAbs c (ctxOffsetAbs c t))))
       (\<lambda>s. r_bin D (fst (parityCtxIdAbs c (ctxOffsetAbs c t))) (snd (parityCtxIdAbs c (ctxOffsetAbs c t))) s \<bind>
          (\<lambda>(parFlag, s). r_bin D (fst (greater2CtxIdAbs c (ctxOffsetAbs c t))) (snd (greater2CtxIdAbs c (ctxOffsetAbs c t))) s \<bind>
             (\<lambda>(gt2Flag, s). Some (1 + parFlag + of_bool (a - 1 \<noteq> 0) + push_bit 1 gt2Flag, s))))
       (min (4 + a mod 2) a)"
      by (rule codec_bind [OF bins_in [OF ok(1)]], simp, rule codec_last [OF bins_in [OF ok(3)]], simp,
        rule codec_Some', rule arith)
    show "\<not> a - 1 \<noteq> 0 \<Longrightarrow> bins Some (\<lambda>s. Some (1 + of_bool (a - 1 \<noteq> 0), s)) (min (4 + a mod 2) a)"
      using a(1) by (intro codec_Some') auto
  qed
qed

lemma sig_pass_codec:
  assumes "scan_ok c Np" and "sets_ok c" and "view c Np coeff g" and "m + n0 \<le> Np"
    and "n \<le> n0" and "view c Np a (stage1 g m n0 n)" and "sb_inv g sb ix pat" and "\<forall>i \<in> set ix. m + n \<le> i"
    and "length ix + n \<le> 32"
    and "\<And>k. infer = int k \<Longrightarrow> m \<le> k \<Longrightarrow> k < m + n \<Longrightarrow> ix = [] \<Longrightarrow> \<exists>i \<ge> k. i < m + n \<and> g i \<noteq> 0"
    and "int (m + n) \<le> m_scanPosLast c + 1" and "ix \<noteq> [] \<Longrightarrow> int (m + n) \<le> m_scanPosLast c"
  shows "\<exists>stop sb' pat' a'. codec2 emits S (w_sig_pass E c coeff stt infer m n sb pat) (stop, sb', pat')
      (r_sig_pass D c stt infer m n sb a (map (blockPos c) ix))
        (stop, sb', a', map (blockPos c) (ix @ nonzeros g (m + stop) (m + n)))
    \<and> stop \<le> n \<and> view c Np a' (stage1 g m n0 stop) \<and> sb_inv g sb' (ix @ nonzeros g (m + stop) (m + n)) pat'"
  using assms(5-)
proof (induction n arbitrary: a sb ix pat)
  case 0
  have cd: "codec2 emits S (w_sig_pass E c coeff stt infer m 0 sb pat) (0, sb, pat)
      (r_sig_pass D c stt infer m 0 sb a (map (blockPos c) ix)) (0, sb, a, map (blockPos c) (ix @ nonzeros g (m + 0) (m + 0)))"
    by (rule codec2_ext [OF _ _ codec2_Some [OF refl refl]]) (simp_all add: nonzeros_simps)
  show ?case by (rule exI [where x = 0], rule exI [where x = sb], rule exI [where x = pat], rule exI [where x = a], rule conjI [OF cd])
    (use 0 in \<open>simp add: nonzeros_simps\<close>)
next
  case (Suc n)
  let ?p = "m + n" and ?C = "g (m + n)"
  have pN: "?p < Np" using assms(4) Suc.prems(1) by simp
  have C: "coeff ! blockPos c ?p = ?C" by (rule view_nth [OF assms(3) pN])
  have a0: "a ! blockPos c ?p = 0" using view_nth [OF Suc.prems(2) pN] by (simp add: stage1_def)
  show ?case
  proof (cases "sb_remRegBins sb < 4")
    case True
    have cd: "codec2 emits S (w_sig_pass E c coeff stt infer m (Suc n) sb pat) (Suc n, sb, pat)
        (r_sig_pass D c stt infer m (Suc n) sb a (map (blockPos c) ix))
        (Suc n, sb, a, map (blockPos c) (ix @ nonzeros g (m + Suc n) (m + Suc n)))"
      by (rule codec2_ext [OF _ _ codec2_Some [OF refl refl]]) (simp_all add: True nonzeros_simps)
    show ?thesis by (rule exI [where x = "Suc n"], rule exI [where x = sb], rule exI [where x = pat], rule exI [where x = a], rule conjI [OF cd])
      (use Suc.prems in \<open>simp add: nonzeros_simps\<close>)
  next
    case False
    have st: "sb_state sb < 4" "sb_numNonZero sb = length ix" "tmpl_ok (sb_tmpl sb)" using Suc.prems(3) by (auto simp: sb_inv_def)
    have eq: "sigCtxIdAbs c ?p a (sb_state sb) = sigCtxIdAbs c ?p coeff (sb_state sb)"
      by (rule sigCtxIdAbs_cong [OF assms(1) Suc.prems(2) assms(3) pN]) (rule stage1_flags, simp)
    have inf: "coeff ! blockPos c ?p \<noteq> 0" if "sb_numNonZero sb = 0" "int ?p = infer"
      using Suc.prems(6) [of ?p] that st(2) C by (auto simp: le_less_Suc_eq)
    obtain sb1 where flag: "codec2 emits S (w_sig_flag E c coeff infer ?p sb) sb1 (r_sig_flag D c a infer ?p sb) (?C \<noteq> 0, sb1)"
      and sb1: "sb_state sb1 = sb_state sb" "sb_numNonZero sb1 = sb_numNonZero sb" "sb_firstNZPos sb1 = sb_firstNZPos sb"
        "sb_lastNZPos sb1 = sb_lastNZPos sb" "tmpl_ok (sb_tmpl sb1)"
      using sig_flag_codec [OF assms(2) st(1) eq inf] C st(3) by metis
    have inv1: "sb_inv g sb1 ix pat" using Suc.prems(3) sb1 by (simp add: sb_inv_def)
    have last: "int (m + n) \<le> m_scanPosLast c" using Suc.prems(7) by simp
    show ?thesis
    proof (cases "?C = 0")
      case zero: True
      let ?sb = "sb1\<lparr>sb_state := next_state stt (sb_state sb1) 0\<rparr>"
      have "view c Np a (stage1 g m n0 n)"
        by (rule view_cong [OF Suc.prems(2)]) (use zero Suc.prems(1) in \<open>auto simp: stage1_def less_Suc_eq\<close>)
      moreover have "sb_inv g ?sb ix pat" using inv1 by (simp add: sb_inv_def next_state_less)
      moreover have "\<exists>i \<ge> k. i < m + n \<and> g i \<noteq> 0" if "infer = int k" "m \<le> k" "k < m + n" "ix = []" for k
        using Suc.prems(6) [of k] that zero by (metis add_Suc_right less_Suc_eq)
      ultimately obtain stop sb' pat' a' where
        IH: "codec2 emits S (w_sig_pass E c coeff stt infer m n ?sb pat) (stop, sb', pat')
            (r_sig_pass D c stt infer m n ?sb a (map (blockPos c) ix))
            (stop, sb', a', map (blockPos c) (ix @ nonzeros g (m + stop) (m + n)))"
        "stop \<le> n" "view c Np a' (stage1 g m n0 stop)" "sb_inv g sb' (ix @ nonzeros g (m + stop) (m + n)) pat'"
        using Suc.IH [of a ?sb ix pat] Suc.prems(1,4,5) last by force
      have nz: "nonzeros g (m + stop) (m + Suc n) = nonzeros g (m + stop) (m + n)"
        using IH(2) zero by (simp add: nonzeros_simps)
      have "codec2 emits S (w_sig_pass E c coeff stt infer m (Suc n) sb pat) (stop, sb', pat')
          (r_sig_pass D c stt infer m (Suc n) sb a (map (blockPos c) ix))
          (stop, sb', a', map (blockPos c) (ix @ nonzeros g (m + stop) (m + n)))"
        by (rule codec2_ext, rule w_sig_pass.simps(2), rule r_sig_pass.simps(2), unfold Let_def,
            simp only: False if_False C a0, rule codec2_bind [OF flag], simp only: zero prod.case simp_thms if_False, rule IH(1))
      then show ?thesis using IH nz by (metis le_SucI)
    next
      case nonzero: False
      let ?v = "nat (base_level \<bar>?C\<bar>)"
      have v: "int ?v = base_level \<bar>?C\<bar>" by simp
      have v1: "?v \<noteq> 1 \<longleftrightarrow> \<bar>?C\<bar> \<noteq> 1" using nonzero by (auto simp: base_level_def min_def)
      have par: "next_state stt st (base_level \<bar>?C\<bar>) = next_state stt st ?C" for st
      proof -
        have "base_level \<bar>?C\<bar> mod 2 = ?C mod 2" by (simp add: abs_if) presburger
        then show ?thesis by (simp add: next_state_def)
      qed
      let ?sb = "note_nonzero ?p sb1\<lparr>sb_remRegBins := sb_remRegBins (note_nonzero ?p sb1) - gt_bins (\<bar>?C\<bar> \<noteq> 1),
          sb_state := next_state stt (sb_state (note_nonzero ?p sb1)) ?C\<rparr>"
      let ?a = "a[blockPos c ?p := base_level \<bar>?C\<bar>]" and ?pat = "u32 (push_bit 1 pat) + of_bool (?C < 0)"
      have inv: "sb_inv g ?sb (ix @ [?p]) ?pat"
        using Suc.prems(4,5) by (intro sb_inv_note [OF inv1]) auto
      have view: "view c Np ?a (stage1 g m n0 n)"
        using view_update [OF assms(1) Suc.prems(2) pN, of "base_level \<bar>?C\<bar>"] stage1_step [of n n0 g m] Suc.prems(1) by simp
      obtain stop sb' pat' a' where
        IH: "codec2 emits S (w_sig_pass E c coeff stt infer m n ?sb ?pat) (stop, sb', pat')
            (r_sig_pass D c stt infer m n ?sb ?a (map (blockPos c) (ix @ [?p])))
            (stop, sb', a', map (blockPos c) ((ix @ [?p]) @ nonzeros g (m + stop) (m + n)))"
        "stop \<le> n" "view c Np a' (stage1 g m n0 stop)" "sb_inv g sb' ((ix @ [?p]) @ nonzeros g (m + stop) (m + n)) pat'"
        using Suc.IH [OF _ view inv] Suc.prems(1,4,5) last by fastforce
      have nz: "(ix @ [?p]) @ nonzeros g (m + stop) (m + n) = ix @ nonzeros g (m + stop) (m + Suc n)"
        using IH(2) nonzero by (simp add: nonzeros_simps)
      have pat: "(if ?C < 0 then (if int ?p \<noteq> m_scanPosLast c then u32 (push_bit 1 pat) else pat) + 1
          else (if int ?p \<noteq> m_scanPosLast c then u32 (push_bit 1 pat) else pat)) = ?pat"
      proof (cases "int ?p = m_scanPosLast c")
        case True
        then have "ix = []" using Suc.prems(8) by fastforce
        then have "pat = 0" using inv1 by (simp add: sb_inv_def)
        then show ?thesis by (simp add: u32_def)
      qed simp
      have upd: "a[blockPos c ?p := a ! blockPos c ?p + int ?v] = ?a" "?a ! blockPos c ?p = base_level \<bar>?C\<bar>"
        using a0 v assms(1) pN Suc.prems(2) by (simp_all add: scan_ok_def view_def)
      note gt = gt_flags_codec [OF assms(2) sb1(5) nonzero]
      have "codec2 emits S (w_sig_pass E c coeff stt infer m (Suc n) sb pat) (stop, sb', pat')
          (r_sig_pass D c stt infer m (Suc n) sb a (map (blockPos c) ix))
          (stop, sb', a', map (blockPos c) ((ix @ [?p]) @ nonzeros g (m + stop) (m + n)))"
        by (rule codec2_ext, rule w_sig_pass.simps(2), rule r_sig_pass.simps(2), unfold Let_def,
            simp only: False if_False C, rule codec2_bind [OF flag],
            simp only: nonzero prod.case simp_thms if_True not_False_eq_True pat, rule codec2_step [OF gt],
            simp only: upd v1 par, unfold map_append list.map, rule IH(1) [unfolded map_append list.map])
      then show ?thesis using IH nz by (metis le_SucI)
    qed
  qed
qed

lemma rem_pass_codec:
  assumes "scan_ok c Np" and "sets_ok c" and "view c Np coeff g" and "m + n0 \<le> Np"
    and bound: "\<And>i. i < Np \<Longrightarrow> \<bar>g i\<bar> \<le> 2 ^ m_maxLog2TrDynamicRange c"
    and "stop \<le> n" and "n \<le> n0" and "view c Np a (stage2 g m n0 stop n)"
  shows "\<exists>a'. bins (w_rem_pass E c coeff m stop n) (r_rem_pass D c m stop n a) a' \<and> view c Np a' (stage2 g m n0 stop stop)"
  using assms(6-)
proof (induction n arbitrary: a)
  case 0
  have "bins (w_rem_pass E c coeff m stop 0) (r_rem_pass D c m stop 0 a) a"
    by (rule codec_ext [OF _ _ codec_Some]) simp_all
  with 0 show ?case by (metis le_zero_eq)
next
  case (Suc n)
  let ?p = "m + n"
  show ?case
  proof (cases "n < stop")
    case True
    then have "stop = Suc n" using Suc.prems by simp
    moreover have "bins (w_rem_pass E c coeff m stop (Suc n)) (r_rem_pass D c m stop (Suc n) a) a"
      by (rule codec_ext [OF _ _ codec_Some]) (simp_all add: True)
    ultimately show ?thesis using Suc.prems(3) by metis
  next
    case False
    have pN: "?p < Np" using assms(4) Suc.prems(2) by simp
    have C: "coeff ! blockPos c ?p = g ?p" by (rule view_nth [OF assms(3) pN])
    have A: "a ! blockPos c ?p = base_level \<bar>g ?p\<bar>"
      using view_nth [OF Suc.prems(3) pN] False Suc.prems(2) by (simp add: stage2_def)
    have eq: "templateAbsSum c ?p a 4 = templateAbsSum c ?p coeff 4"
      by (rule templateAbsSum_cong [OF assms(1) Suc.prems(3) assms(3) pN]) (use False in \<open>auto simp: stage2_def\<close>)
    let ?L = "nat \<bar>g ?p\<bar>" and ?rice = "g_auiGoRiceParsCoeff ! templateAbsSum c ?p coeff 4"
    let ?a = "a[blockPos c ?p := \<bar>g ?p\<bar>]"
    have view: "view c Np ?a (stage2 g m n0 stop n)"
      using view_update [OF assms(1) Suc.prems(3) pN, of "\<bar>g ?p\<bar>"] stage2_step [of stop n n0 g m] Suc.prems(2) False by simp
    have ge: "base_level \<bar>g ?p\<bar> \<ge> 4 \<longleftrightarrow> ?L \<ge> 4" by (auto simp: base_level_def min_def)
    have small: "a[blockPos c ?p := \<bar>g ?p\<bar>] = a" if "\<not> ?L \<ge> 4"
    proof -
      have "base_level \<bar>g ?p\<bar> = \<bar>g ?p\<bar>" using that by (auto simp: base_level_def min_def)
      with A show ?thesis by (metis list_update_id)
    qed
    have step: "bins (\<lambda>s. if ?L \<ge> 4 then ie_encodeRemAbsEP E (drop_bit 1 (?L - 4)) ?rice COEF_REMAIN_BIN_REDUCTION (m_maxLog2TrDynamicRange c) s else Some s)
      (\<lambda>s. if a ! blockPos c ?p \<ge> 4 then Option.bind (if_decodeRemAbsEP D ?rice COEF_REMAIN_BIN_REDUCTION (m_maxLog2TrDynamicRange c) s)
          (\<lambda>(r, s). (\<lambda>r s. Some (a[blockPos c ?p := a ! blockPos c ?p + int (push_bit 1 r)], s)) r s) else Some (a, s)) ?a"
    proof (rule codec_if)
      show "(a ! blockPos c ?p \<ge> 4) = (?L \<ge> 4)" unfolding A by (rule ge)
      show "\<not> ?L \<ge> 4 \<Longrightarrow> bins Some (\<lambda>s. Some (a, s)) ?a" using small by (intro codec_Some') simp
      assume L: "?L \<ge> 4"
      have "?L \<le> 2 ^ m_maxLog2TrDynamicRange c" using bound [OF pN] by (simp add: nat_le_iff)
      moreover have "drop_bit 1 (?L - 4) \<le> ?L" using div_le_dividend [of "?L - 4" 2] by (simp add: drop_bit_eq_div)
      ultimately have "drop_bit 1 (?L - 4) \<le> 2 ^ m_maxLog2TrDynamicRange c" by (rule order_trans [rotated])
      then have ok: "rem_abs_ok (drop_bit 1 (?L - 4)) ?rice COEF_REMAIN_BIN_REDUCTION (m_maxLog2TrDynamicRange c)"
        using assms(2) goRice_le by (intro rem_abs_ok_coeff) (auto simp: sets_ok_def)
      have "base_level \<bar>g ?p\<bar> + int (push_bit 1 (drop_bit 1 (?L - 4))) = \<bar>g ?p\<bar>"
      proof -
        obtain k where k: "\<bar>g ?p\<bar> = int (k + 4)" using L by (metis add.commute le_Suc_ex nat_eq_iff abs_ge_zero)
        then have "?L = k + 4" by simp
        moreover have "base_level (int (k + 4)) = int (4 + k mod 2)" by (simp add: base_level_def zmod_int) presburger
        moreover have "4 + k mod 2 + push_bit 1 (drop_bit 1 k) = k + 4" by (simp add: push_bit_eq_mult drop_bit_eq_div)
        ultimately show ?thesis unfolding k by (metis add_diff_cancel_right' of_nat_add)
      qed
      then show "bins (ie_encodeRemAbsEP E (drop_bit 1 (?L - 4)) ?rice COEF_REMAIN_BIN_REDUCTION (m_maxLog2TrDynamicRange c))
        (\<lambda>s. Option.bind (if_decodeRemAbsEP D ?rice COEF_REMAIN_BIN_REDUCTION (m_maxLog2TrDynamicRange c) s)
          (\<lambda>(r, s). (\<lambda>r s. Some (a[blockPos c ?p := a ! blockPos c ?p + int (push_bit 1 r)], s)) r s)) ?a"
        by (intro codec_last [OF bins_RemAbs [OF ok]] codec_Some') (simp only: A)
    qed
    from Suc.IH [OF _ _ view] Suc.prems(2) False obtain a' where
      IH: "bins (w_rem_pass E c coeff m stop n) (r_rem_pass D c m stop n ?a) a'" "view c Np a' (stage2 g m n0 stop stop)" by auto
    have "bins (w_rem_pass E c coeff m stop (Suc n)) (r_rem_pass D c m stop (Suc n) a) a'"
      by (rule codec_ext, rule w_rem_pass.simps(2), rule r_rem_pass.simps(2), unfold Let_def,
          simp only: False if_False eq C, rule codec_bind [OF step], rule IH(1))
    with IH(2) show ?thesis by blast
  qed
qed

lemma bypass_pass_codec:
  assumes "scan_ok c Np" and "sets_ok c" and "view c Np coeff g" and "m + n0 \<le> Np"
    and bound: "\<And>i. i < Np \<Longrightarrow> \<bar>g i\<bar> \<le> 2 ^ m_maxLog2TrDynamicRange c"
    and "n \<le> n0" and "view c Np a (stage2 g m n0 n n)" and "sb_inv g sb ix pat" and "\<forall>i \<in> set ix. m + n \<le> i"
    and "length ix + n \<le> 32"
  shows "\<exists>sb' pat' a'. codec2 emits S (w_bypass_pass E c coeff stt m n sb pat) (sb', pat')
      (r_bypass_pass D c stt m n sb a (map (blockPos c) ix)) (sb', a', map (blockPos c) (ix @ nonzeros g m (m + n)))
    \<and> view c Np a' (stage2 g m n0 0 0) \<and> sb_inv g sb' (ix @ nonzeros g m (m + n)) pat'"
  using assms(6-)
proof (induction n arbitrary: a sb ix pat)
  case 0
  have cd: "codec2 emits S (w_bypass_pass E c coeff stt m 0 sb pat) (sb, pat)
      (r_bypass_pass D c stt m 0 sb a (map (blockPos c) ix)) (sb, a, map (blockPos c) (ix @ nonzeros g m (m + 0)))"
    by (rule codec2_ext [OF _ _ codec2_Some [OF refl refl]]) (simp_all add: nonzeros_simps)
  show ?case by (rule exI [where x = sb], rule exI [where x = pat], rule exI [where x = a], rule conjI [OF cd])
    (use 0 in \<open>simp add: nonzeros_simps\<close>)
next
  case (Suc n)
  let ?p = "m + n" and ?M = "m_maxLog2TrDynamicRange c"
  have pN: "?p < Np" using assms(4) Suc.prems(1) by simp
  have C: "coeff ! blockPos c ?p = g ?p" by (rule view_nth [OF assms(3) pN])
  have eq: "templateAbsSum c ?p a 0 = templateAbsSum c ?p coeff 0"
    by (rule templateAbsSum_cong [OF assms(1) Suc.prems(2) assms(3) pN]) (auto simp: stage2_def)
  let ?L = "nat \<bar>g ?p\<bar>" and ?rice = "g_auiGoRiceParsCoeff ! templateAbsSum c ?p coeff 0"
  let ?pos0 = "g_auiGoRicePosCoeff0 (sb_state sb) ?rice"
  let ?r = "if ?L = 0 then ?pos0 else if ?L \<le> ?pos0 then ?L - 1 else ?L"
  let ?sb = "sb\<lparr>sb_state := next_state stt (sb_state sb) (int ?L)\<rparr>"
  have inv: "sb_inv g ?sb ix pat" using Suc.prems(3) by (simp add: sb_inv_def next_state_less)
  have "?L \<le> 2 ^ ?M" using bound [OF pN] by (simp add: nat_le_iff)
  moreover have "?pos0 \<le> 2 ^ ?M"
  proof -
    have "?pos0 \<le> 2 * 2 ^ ?rice" by (simp add: g_auiGoRicePosCoeff0_def push_bit_eq_mult)
    also have "\<dots> \<le> 2 ^ 4" using power_increasing [OF goRice_le, of "2::nat"] by simp
    also have "\<dots> \<le> 2 ^ ?M" using assms(2) by (intro power_increasing) (auto simp: sets_ok_def)
    finally show ?thesis .
  qed
  ultimately have "?r \<le> 2 ^ ?M" by auto
  then have ok: "rem_abs_ok ?r ?rice COEF_REMAIN_BIN_REDUCTION ?M"
    using assms(2) goRice_le by (intro rem_abs_ok_coeff) (auto simp: sets_ok_def)
  have undo: "(if ?r = ?pos0 then 0 else if ?r < ?pos0 then ?r + 1 else ?r) = ?L" by auto
  show ?case
  proof (cases "?L = 0")
    case zero: True
    then have g0: "g ?p = 0" by simp
    have "view c Np a (stage2 g m n0 n n)"
      by (rule view_cong [OF Suc.prems(2)]) (use g0 Suc.prems(1) in \<open>auto simp: stage2_def less_Suc_eq\<close>)
    then obtain sb' pat' a' where
      IH: "codec2 emits S (w_bypass_pass E c coeff stt m n ?sb pat) (sb', pat')
          (r_bypass_pass D c stt m n ?sb a (map (blockPos c) ix)) (sb', a', map (blockPos c) (ix @ nonzeros g m (m + n)))"
      "view c Np a' (stage2 g m n0 0 0)" "sb_inv g sb' (ix @ nonzeros g m (m + n)) pat'"
      using Suc.IH [of a ?sb ix pat] inv Suc.prems(1,4,5) by force
    have nz: "nonzeros g m (m + Suc n) = nonzeros g m (m + n)" using g0 by (simp add: nonzeros_simps)
    have "codec2 emits S (w_bypass_pass E c coeff stt m (Suc n) sb pat) (sb', pat')
        (r_bypass_pass D c stt m (Suc n) sb a (map (blockPos c) ix)) (sb', a', map (blockPos c) (ix @ nonzeros g m (m + n)))"
      by (rule codec2_ext, rule w_bypass_pass.simps(2), rule r_bypass_pass.simps(2), unfold Let_def,
          simp only: eq C, rule codec2_step [OF bins_RemAbs [OF ok]],
          simp only: undo, simp only: zero simp_thms if_False, rule IH(1) [unfolded zero])
    then show ?thesis using IH nz by metis
  next
    case nonzero: False
    let ?a = "a[blockPos c ?p := int ?L]" and ?pat = "u32 (push_bit 1 pat) + of_bool (g ?p < 0)"
    have "(stage2 g m n0 (Suc n) (Suc n))(?p := int ?L) = stage2 g m n0 n n"
      using Suc.prems(1) by (auto simp: stage2_def fun_eq_iff)
    with view_update [OF assms(1) Suc.prems(2) pN, of "int ?L"] have view: "view c Np ?a (stage2 g m n0 n n)" by simp
    have inv: "sb_inv g (note_nonzero ?p ?sb) (ix @ [?p]) ?pat" using Suc.prems(4,5) by (intro sb_inv_note [OF inv]) auto
    from Suc.IH [OF _ view this] obtain sb' pat' a' where
      IH: "codec2 emits S (w_bypass_pass E c coeff stt m n (note_nonzero ?p ?sb) ?pat) (sb', pat')
          (r_bypass_pass D c stt m n (note_nonzero ?p ?sb) ?a (map (blockPos c) (ix @ [?p])))
          (sb', a', map (blockPos c) ((ix @ [?p]) @ nonzeros g m (m + n)))"
      "view c Np a' (stage2 g m n0 0 0)" "sb_inv g sb' ((ix @ [?p]) @ nonzeros g m (m + n)) pat'"
      using Suc.prems(1,4,5) by fastforce
    have nz: "(ix @ [?p]) @ nonzeros g m (m + n) = ix @ nonzeros g m (m + Suc n)"
      using nonzero by (simp add: nonzeros_simps)
    have "codec2 emits S (w_bypass_pass E c coeff stt m (Suc n) sb pat) (sb', pat')
        (r_bypass_pass D c stt m (Suc n) sb a (map (blockPos c) ix)) (sb', a', map (blockPos c) ((ix @ [?p]) @ nonzeros g m (m + n)))"
      by (rule codec2_ext, rule w_bypass_pass.simps(2), rule r_bypass_pass.simps(2), unfold Let_def,
          simp only: eq C, rule codec2_step [OF bins_RemAbs [OF ok]],
          simp only: undo, simp only: nonzero simp_thms if_True not_False_eq_True, unfold map_append list.map,
          rule IH(1) [unfolded map_append list.map])
    then show ?thesis using IH nz by metis
  qed
qed

lemma signs_codec:
  assumes "scan_ok c Np" and v: "view c Np a (stage2 g m n0 0 0)" and ix: "ix = nonzeros g m (m + n0)" and "m + n0 \<le> Np"
    and "n0 \<le> 32" and inv: "sb_inv g sb ix pat" and hide: "hide_ok c g ix"
  shows "\<exists>a'. bins (w_signs E c sb pat) (r_signs D c sb a (map (blockPos c) ix)) a' \<and> view c Np a' (\<lambda>i. if i < m then 0 else g i)"
proof -
  let ?f = "stage2 g m n0 0 0"
  define h where "h \<longleftrightarrow> ix \<noteq> [] \<and> hideSign c (int (last ix)) (int (hd ix))"
  define k where "k = (if h then length ix - 1 else length ix)"
  have set: "set ix = {i. m \<le> i \<and> i < m + n0 \<and> g i \<noteq> 0}" "set ix \<subseteq> {..<Np}"
    unfolding ix set_nonzeros using assms(4) by auto
  have dist: "distinct ix" by (simp add: ix nonzeros_def)
  have len: "length ix \<le> 32" using assms(5) length_filter_le [of "\<lambda>i. g i \<noteq> 0" "rev [m..<m + n0]"] by (simp add: ix nonzeros_def)
  have sb: "sb_numNonZero sb = length ix" "pat = valBE (map (\<lambda>i. g i < 0) ix)" using inv by (simp_all add: sb_inv_def)
  have split: "ix = take k ix @ [last ix]" "k < length ix" if h
    using that append_butlast_last_id [of ix] by (simp_all add: k_def butlast_conv_take, simp_all add: h_def)
  have all: "take k ix = ix" if "\<not> h" using that by (simp add: k_def)
  let ?pat = "valBE (map (\<lambda>i. g i < 0) (take k ix))"
  have pat: "(if h then drop_bit 1 pat else pat) = ?pat"
  proof (cases h)
    case True
    have "pat = valBE (map (\<lambda>i. g i < 0) (take k ix) @ [g (last ix) < 0])" unfolding sb(2)
      by (subst split(1) [OF True]) simp
    with True show ?thesis by (simp add: valBE_snoc drop_bit_eq_div)
  next
    case False
    with all show ?thesis by (simp add: sb(2))
  qed
  have lk: "length (take k ix) = k" "k \<le> 32" using len by (auto simp: k_def)
  have less: "?pat < 2 ^ k" using valBE_less [of "map (\<lambda>i. g i < 0) (take k ix)"] lk by simp
  have "distinct (take k ix)" "set (take k ix) \<subseteq> {..<Np}" "length (take k ix) \<le> 32"
    using dist set(2) lk set_take_subset [of k ix] by (auto simp del: length_take)
  from r_set_signs_view [OF assms(1) v this, of "\<lambda>i. g i < 0" 0] obtain a1 where
    a1: "r_set_signs (map (blockPos c) (take k ix)) (?pat * 2 ^ (32 - k)) 0 a = (sum_list (map ?f (take k ix)), a1)"
      "view c Np a1 (\<lambda>i. if i \<in> set (take k ix) \<and> g i < 0 then - ?f i else ?f i)" unfolding lk(1) by auto
  let ?fin = "if length ix > k then a1[map (blockPos c) ix ! k := if (sum_list (map ?f (take k ix)) + a1 ! (map (blockPos c) ix ! k)) mod 2 = 1
      then - a1 ! (map (blockPos c) ix ! k) else a1 ! (map (blockPos c) ix ! k)] else a1"
  have cd: "bins (w_signs E c sb pat) (r_signs D c sb a (map (blockPos c) ix)) ?fin"
  proof (rule codec_ext)
    show "w_signs E c sb pat s = ie_encodeBinsEP E ?pat k s" for s
      by (simp only: w_signs_def Let_def hide_positions [OF inv] h_def [symmetric] pat sb(1) k_def [symmetric])
    show "r_signs D c sb a (map (blockPos c) ix) s = Option.bind (if_decodeBinsEP D k s) (\<lambda>(v, s). (\<lambda>v s.
      case r_set_signs (take k (map (blockPos c) ix)) (u32 (push_bit (32 - k) v)) 0 a of (sumAbs, coeff) \<Rightarrow>
       Some (if length ix > k then coeff[map (blockPos c) ix ! k := if (sumAbs + coeff ! (map (blockPos c) ix ! k)) mod 2 = 1
        then - coeff ! (map (blockPos c) ix ! k) else coeff ! (map (blockPos c) ix ! k)] else coeff, s)) v s)" for s
      by (simp only: r_signs_def Let_def hide_positions [OF inv] h_def [symmetric] sb(1) k_def [symmetric])
    show "bins (ie_encodeBinsEP E ?pat k) (\<lambda>s. Option.bind (if_decodeBinsEP D k s) (\<lambda>(v, s). (\<lambda>v s.
      case r_set_signs (take k (map (blockPos c) ix)) (u32 (push_bit (32 - k) v)) 0 a of (sumAbs, coeff) \<Rightarrow>
       Some (if length ix > k then coeff[map (blockPos c) ix ! k := if (sumAbs + coeff ! (map (blockPos c) ix ! k)) mod 2 = 1
        then - coeff ! (map (blockPos c) ix ! k) else coeff ! (map (blockPos c) ix ! k)] else coeff, s)) v s)) ?fin"
      by (rule codec_last [OF bins_EPs [OF less lk(2)]]) (simp only: u32_shift_up [OF less lk(2)] take_map a1(1) prod.case codec_Some)
  qed
  have "view c Np ?fin (\<lambda>i. if i < m then 0 else g i)"
  proof (cases h)
    case False
    then have "k = length ix" by (simp add: k_def)
    then have "?fin = a1" by simp
    moreover have "view c Np a1 (\<lambda>i. if i < m then 0 else g i)"
      using view_cong [OF a1(2)] stage2_signs [OF set(1)] all [OF False] by simp
    ultimately show ?thesis by simp
  next
    case True
    let ?l = "last ix"
    have "distinct (take k ix @ [?l])" using dist split(1) [OF True] by simp
    moreover have "ix \<noteq> []" using True by (simp add: h_def)
    ultimately have l: "?l \<in> set ix" "?l \<notin> set (take k ix)" "ix ! k = ?l"
      using True by (simp_all add: k_def last_conv_nth)
    then have lN: "?l < Np" "m \<le> ?l" "?l < m + n0" using set by auto
    have A: "a1 ! blockPos c ?l = \<bar>g ?l\<bar>" using view_nth [OF a1(2) lN(1)] l(2) lN(2,3) by (simp add: stage2_def)
    have mp: "map ?f ix = map (\<lambda>i. \<bar>g i\<bar>) ix" using set(1) by (auto simp: stage2_def)
    have fl: "?f ?l = \<bar>g ?l\<bar>" using lN by (simp add: stage2_def)
    have "sum_list (map ?f ix) = sum_list (map ?f (take k ix)) + ?f ?l" by (subst (1) split(1) [OF True]) simp
    then have "sum_list (map ?f (take k ix)) + \<bar>g ?l\<bar> = sum_list (map (\<lambda>i. \<bar>g i\<bar>) ix)" unfolding mp fl by (rule sym)
    then have "?fin = a1[blockPos c ?l := g ?l]"
      using split(2) [OF True] l(3) A hide True by (auto simp: hide_ok_def h_def)
    moreover have "view c Np (a1[blockPos c ?l := g ?l]) (\<lambda>i. if i < m then 0 else g i)"
    proof (rule view_cong [OF view_update [OF assms(1) a1(2) lN(1)]])
      fix i
      have "set ix = insert ?l (set (take k ix))" by (subst (1) split(1) [OF True]) simp
      with stage2_signs [OF set(1), of i] lN(2)
      show "((\<lambda>i. if i \<in> set (take k ix) \<and> g i < 0 then - ?f i else ?f i)(?l := g ?l)) i = (if i < m then 0 else g i)"
        by (cases "i = ?l") auto
    qed
    ultimately show ?thesis by simp
  qed
  with cd show ?thesis by blast
qed

lemma levels_codec:
  assumes ctx: "scan_ok c Np" "sets_ok c" and coeff: "view c Np coeff g" "\<And>i. i < Np \<Longrightarrow> \<bar>g i\<bar> \<le> 2 ^ m_maxLog2TrDynamicRange c"
    and pos: "m_minSubPos c = int m" "firstSigPos c = int m + int n0 - 1" "0 < n0" "n0 \<le> 32" "m + n0 \<le> Np"
      "int (m + n0) \<le> m_scanPosLast c + 1"
    and infer: "\<And>k. inferSigPos c = int k \<Longrightarrow> m \<le> k \<Longrightarrow> k < m + n0 \<Longrightarrow> \<exists>i \<ge> k. i < m + n0 \<and> g i \<noteq> 0"
    and a: "view c Np a (\<lambda>i. if i < m + n0 then 0 else g i)"
    and st: "state < 4" "tmpl_ok (m_tmplCpDiag c, m_tmplCpSum1 c)" and hide: "hide_ok c g (nonzeros g m (m + n0))"
    and d: "d = c\<lparr>m_sigCoeffGroupFlag := fl\<rparr>"
  shows "\<exists>sb st' a'. codec2 emits S (w_levels E coeff stt c state) (end_pass1 sb c, st')
      (r_levels D stt d state a) (end_pass1 sb d, st', a')
    \<and> view c Np a' (\<lambda>i. if i < m then 0 else g i) \<and> st' < 4 \<and> tmpl_ok (sb_tmpl sb)"
proof -
  have n: "nat (firstSigPos c - m_minSubPos c + 1) = n0" "nat (m_minSubPos c) = m" using pos by simp_all
  have d_eq: "m_minSubPos d = m_minSubPos c" "firstSigPos d = firstSigPos c" "inferSigPos d = inferSigPos c"
    "SubblockState_new d state = SubblockState_new c state"
    by (simp_all add: d firstSigPos_def inferSigPos_def isLast_def isNotFirst_def SubblockState_new_def)
  have blk: "same_block d c" "same_block (end_pass1 sb c) c" "same_block (end_pass1 sb d) c" for sb
    by (simp_all add: d same_block_def end_pass1_def)
  note same = passes_same_block [OF blk(1)] passes_same_block [OF blk(2)] passes_same_block [OF blk(3)]
  have sgn: "w_signs E (end_pass1 sb c) = w_signs E c" "r_signs D (end_pass1 sb d) = r_signs D c" for sb
    by (intro ext, simp only: w_signs_def r_signs_def same_block_queries [OF blk(2)] same_block_queries [OF blk(3)])+
  have inv0: "sb_inv g (SubblockState_new c state) [] 0" using st pos by (simp add: sb_inv_def SubblockState_new_def)
  have "view c Np a (stage1 g m n0 n0)" by (rule view_cong [OF a]) (simp add: stage1_def)
  from sig_pass_codec [OF ctx coeff(1) pos(5) order_refl this inv0, of "inferSigPos c" stt] infer pos(4,6)
  obtain stop sb1 pat1 a1 where p1: "codec2 emits S (w_sig_pass E c coeff stt (inferSigPos c) m n0 (SubblockState_new c state) 0) (stop, sb1, pat1)
      (r_sig_pass D c stt (inferSigPos c) m n0 (SubblockState_new c state) a []) (stop, sb1, a1, map (blockPos c) (nonzeros g (m + stop) (m + n0)))"
    "stop \<le> n0" "view c Np a1 (stage1 g m n0 stop)" "sb_inv g sb1 (nonzeros g (m + stop) (m + n0)) pat1" by auto
  have "view c Np a1 (stage2 g m n0 stop n0)" by (rule view_cong [OF p1(3)]) (simp add: stage1_def stage2_def)
  from rem_pass_codec [OF ctx coeff(1) pos(5) coeff(2) p1(2) order_refl this]
  obtain a2 where p2: "bins (w_rem_pass E c coeff m stop n0) (r_rem_pass D c m stop n0 a1) a2"
    "view c Np a2 (stage2 g m n0 stop stop)" by auto
  have split: "nonzeros g (m + stop) (m + n0) @ nonzeros g m (m + stop) = nonzeros g m (m + n0)"
  proof -
    have "rev [m..<m + n0] = rev [m + stop..<m + n0] @ rev [m..<m + stop]"
      using upt_add_eq_append [of m "m + stop" "n0 - stop"] p1(2) by simp
    then show ?thesis by (simp add: nonzeros_def)
  qed
  have "length (nonzeros g (m + stop) (m + n0)) \<le> n0 - stop"
    using length_filter_le [of "\<lambda>i. g i \<noteq> 0" "rev [m + stop..<m + n0]"] by (simp add: nonzeros_def)
  then have len: "length (nonzeros g (m + stop) (m + n0)) + stop \<le> 32" using p1(2) pos(4) by simp
  have above: "\<forall>i \<in> set (nonzeros g (m + stop) (m + n0)). m + stop \<le> i" by (simp add: set_nonzeros)
  from bypass_pass_codec [OF ctx coeff(1) pos(5) coeff(2) p1(2) p2(2) p1(4) above len, of stt]
  obtain sb3 pat3 a3 where p3: "codec2 emits S (w_bypass_pass E c coeff stt m stop sb1 pat1) (sb3, pat3)
      (r_bypass_pass D c stt m stop sb1 a2 (map (blockPos c) (nonzeros g (m + stop) (m + n0)))) (sb3, a3, map (blockPos c) (nonzeros g m (m + n0)))"
    "view c Np a3 (stage2 g m n0 0 0)" "sb_inv g sb3 (nonzeros g m (m + n0)) pat3" unfolding split by auto
  from signs_codec [OF ctx(1) p3(2) refl pos(5,4) p3(3) hide]
  obtain a4 where p4: "bins (w_signs E c sb3 pat3) (r_signs D c sb3 a3 (map (blockPos c) (nonzeros g m (m + n0)))) a4"
    "view c Np a4 (\<lambda>i. if i < m then 0 else g i)" by auto
  have "codec2 emits S (w_levels E coeff stt c state) (end_pass1 sb1 c, sb_state sb3)
      (r_levels D stt d state a) (end_pass1 sb1 d, sb_state sb3, a4)"
    by (rule codec2_ext, rule w_levels_def, rule r_levels_def, unfold Let_def, simp only: d_eq n same sgn,
        rule codec2_bind [OF p1(1)], simp only: prod.case, rule codec2_step [OF p2(1)],
        rule codec2_bind [OF p3(1)], simp only: prod.case, rule codec2_step [OF p4(1)], rule codec2_Some [OF refl refl])
  moreover have "sb_state sb3 < 4" "tmpl_ok (sb_tmpl sb1)" using p1(4) p3(3) by (simp_all add: sb_inv_def)
  ultimately show ?thesis using p4(2) by blast
qed

text \<open>One subblock: the writer's context has the flag of the group, the reader's has it after parsing it.\<close>

lemma subblock_codec:
  assumes ctx: "scan_ok c Np" "sets_ok c" "ctx_in (m_sigGroupCtxId c)"
    and coeff: "view c Np coeff g" "\<And>i. i < Np \<Longrightarrow> \<bar>g i\<bar> \<le> 2 ^ m_maxLog2TrDynamicRange c"
    and pos: "m_minSubPos c = int m" "m_maxSubPos c = int m + int K - 1" "0 < K" "K \<le> 32" "m + K \<le> Np" "isNotFirst c \<longleftrightarrow> m \<noteq> 0"
      "m_scanPosLast c = int L" "isLast c \<longleftrightarrow> L < m + K" "m \<le> L" "g L \<noteq> 0" "\<And>i. L < i \<Longrightarrow> i < Np \<Longrightarrow> g i = 0"
    and flag: "\<not> isSigGroup c" "isSigGroup (setSigGroup c)" "f \<longleftrightarrow> (\<exists>i. m \<le> i \<and> i < m + K \<and> g i \<noteq> 0)"
    and a: "view c Np a (\<lambda>i. if i < m + K then 0 else g i)"
    and st: "state < 4" "tmpl_ok (m_tmplCpDiag c, m_tmplCpSum1 c)" and hide: "hide_ok c g (nonzeros g m (m + K))"
  shows "\<exists>cw cr st' a'. codec2 emits S (w_residual_coding_subblock E coeff stt (if f then setSigGroup c else c) state) (cw, st')
      (r_residual_coding_subblock D stt c state a) (cr, st', a')
    \<and> view c Np a' (\<lambda>i. if i < m then 0 else g i) \<and> st' < 4 \<and> tmpl_ok (m_tmplCpDiag cw, m_tmplCpSum1 cw)
    \<and> (m \<noteq> 0 \<longrightarrow> cr = cw) \<and> same_block cw c
    \<and> m_sigCoeffGroupFlag cw \<in> {m_sigCoeffGroupFlag c, (m_sigCoeffGroupFlag c)[nat (m_subSetPos c) := True]}"
proof -
  define cw where "cw = (if f then setSigGroup c else c)"
  have cw: "cw = c\<lparr>m_sigCoeffGroupFlag := m_sigCoeffGroupFlag cw\<rparr>" "same_block cw c"
    "m_sigCoeffGroupFlag cw \<in> {m_sigCoeffGroupFlag c, (m_sigCoeffGroupFlag c)[nat (m_subSetPos c) := True]}"
    by (simp_all add: cw_def setSigGroup_def same_block_def)
  have sig: "isSigGroup cw \<longleftrightarrow> f" using flag by (simp add: cw_def)
  have q: "m_minSubPos cw = m_minSubPos c" "m_maxSubPos cw = m_maxSubPos c" "isLast cw = isLast c" "isNotFirst cw = isNotFirst c"
    "m_tmplCpDiag cw = m_tmplCpDiag c" "m_tmplCpSum1 cw = m_tmplCpSum1 c" "m_sigGroupCtxId cw = m_sigGroupCtxId c"
    by (simp_all add: cw_def setSigGroup_def isLast_def isNotFirst_def)
  note q2 = same_block_queries [OF cw(2)]
  define n0 where "n0 = (if isLast c then L + 1 - m else K)"
  have n0: "0 < n0" "n0 \<le> K" using pos(3,8,9) by (auto simp: n0_def)
  have zero: "g i = 0" if "m + n0 \<le> i" "i < m + K" for i
    using pos(5,8,11) that by (auto simp: n0_def split: if_splits)
  have fsp: "firstSigPos cw = int m + int n0 - 1" using pos(2,7,8,9) by (simp add: firstSigPos_def q q2 n0_def)
  have nz: "nonzeros g m (m + n0) = nonzeros g m (m + K)"
  proof -
    have "rev [m..<m + K] = rev [m + n0..<m + K] @ rev [m..<m + n0]"
      using upt_add_eq_append [of m "m + n0" "K - n0"] n0(2) by simp
    moreover have "filter (\<lambda>i. g i \<noteq> 0) (rev [m + n0..<m + K]) = []" using zero by (auto simp: filter_empty_conv)
    ultimately show ?thesis by (simp add: nonzeros_def)
  qed
  have lev: "\<exists>sb st' a'. codec2 emits S (w_levels E coeff stt cw state) (end_pass1 sb cw, st')
      (r_levels D stt (setSigGroup c) state a) (end_pass1 sb (setSigGroup c), st', a')
    \<and> view cw Np a' (\<lambda>i. if i < m then 0 else g i) \<and> st' < 4 \<and> tmpl_ok (sb_tmpl sb)" if coded: "isLast c \<or> m = 0 \<or> f"
  proof (rule levels_codec)
    show "scan_ok cw Np" "sets_ok cw" "view cw Np coeff g" "\<And>i. i < Np \<Longrightarrow> \<bar>g i\<bar> \<le> 2 ^ m_maxLog2TrDynamicRange cw"
      unfolding q2 by (fact ctx coeff)+
    show "m_minSubPos cw = int m" "firstSigPos cw = int m + int n0 - 1" "0 < n0" "n0 \<le> 32" "m + n0 \<le> Np" "state < 4"
      "tmpl_ok (m_tmplCpDiag cw, m_tmplCpSum1 cw)" unfolding q using pos fsp n0 st by simp_all
    show "int (m + n0) \<le> m_scanPosLast cw + 1" using pos(7,8,9) by (simp add: q2 n0_def not_less)
    show "view cw Np a (\<lambda>i. if i < m + n0 then 0 else g i)" unfolding q2
      by (rule view_cong [OF a]) (use zero n0(2) in auto)
    show "hide_ok cw g (nonzeros g m (m + n0))" using hide unfolding nz hide_ok_def q2 .
    show "setSigGroup c = cw\<lparr>m_sigCoeffGroupFlag := (m_sigCoeffGroupFlag c)[nat (m_subSetPos c) := True]\<rparr>"
      by (simp add: cw_def setSigGroup_def)
    fix k assume k: "inferSigPos cw = int k" "m \<le> k" "k < m + n0"
    show "\<exists>i \<ge> k. i < m + n0 \<and> g i \<noteq> 0"
    proof (cases "firstSigPos cw = m_scanPosLast cw")
      case True
      then have "int k = int L" "L < m + n0" using k(1) fsp by (simp_all add: inferSigPos_def q2 pos(7))
      then show ?thesis using pos(10) by auto
    next
      case False
      then have "k = m" "m \<noteq> 0" using k(1) pos(1,6) by (auto simp: inferSigPos_def q split: if_splits)
      moreover have "\<not> isLast c" using False by (auto simp: firstSigPos_def q q2)
      ultimately have f "n0 = K" using coded by (auto simp: n0_def)
      with flag(3) \<open>k = m\<close> show ?thesis by auto
    qed
  qed
  have last: "f" if "isLast c" using flag(3) pos(8,9,10) that by auto
  show ?thesis
  proof (cases "isLast c \<or> m = 0 \<or> f")
    case True
    from lev [OF True] obtain sb st' a' where
      lv: "codec2 emits S (w_levels E coeff stt cw state) (end_pass1 sb cw, st')
        (r_levels D stt (setSigGroup c) state a) (end_pass1 sb (setSigGroup c), st', a')"
      "view cw Np a' (\<lambda>i. if i < m then 0 else g i)" "st' < 4" "tmpl_ok (sb_tmpl sb)" by blast
    have "codec2 emits S (w_residual_coding_subblock E coeff stt cw state) (end_pass1 sb cw, st')
        (r_residual_coding_subblock D stt c state a) (end_pass1 sb (setSigGroup c), st', a')"
    proof (cases "isLast c \<or> m = 0")
      case True
      then have "\<not> (\<not> isLast c \<and> isNotFirst c)" "\<not> \<not> (isLast c \<or> m_minSubPos c = 0)" using pos(1,6) by auto
      then show ?thesis
        by (intro codec2_ext [OF w_residual_coding_subblock_def r_residual_coding_subblock_def])
          (simp only: q if_False simp_thms lv(1))
    next
      case False
      then have "\<not> isLast c \<and> isNotFirst c" "\<not> (isLast c \<or> m_minSubPos c = 0)" f using pos(1,6) True by auto
      then show ?thesis
        by (intro codec2_ext [OF w_residual_coding_subblock_def r_residual_coding_subblock_def])
          (simp only: q sig if_True simp_thms not_False_eq_True, rule codec2_step [OF bins_in [OF ctx(3)]], simp_all add: lv(1))
    qed
    moreover have "m \<noteq> 0 \<longrightarrow> setSigGroup c = cw" using True last by (auto simp: cw_def)
    moreover have "same_block (end_pass1 sb cw) c" using cw(2) by (simp add: same_block_def end_pass1_def)
    ultimately show ?thesis using lv(2-4) cw(3) unfolding cw_def [symmetric] q2
      by (intro exI [of _ "end_pass1 sb cw"] exI [of _ "end_pass1 sb (setSigGroup c)"] exI [of _ st'] exI [of _ a'])
        (simp add: end_pass1_def)
  next
    case False
    then have no: "\<not> isLast c \<and> isNotFirst c" "\<not> (isLast c \<or> m_minSubPos c = 0)" "\<not> f" using pos(1,6) by auto
    then have "codec2 emits S (w_residual_coding_subblock E coeff stt cw state) (cw, state)
        (r_residual_coding_subblock D stt c state a) (c, state, a)"
      by (intro codec2_ext [OF w_residual_coding_subblock_def r_residual_coding_subblock_def])
        (simp only: q sig if_True simp_thms not_False_eq_True, rule codec2_step [OF bins_in [OF ctx(3)]], simp_all add: codec2_Some)
    moreover have "view c Np a (\<lambda>i. if i < m then 0 else g i)" by (rule view_cong [OF a]) (use flag(3) no(3) in auto)
    moreover have "cw = c" using no by (simp add: cw_def)
    ultimately show ?thesis using st cw unfolding cw_def [symmetric] by blast
  qed
qed

end

end
