(* ===== verification/TransformBlock.thy ===== *)
theory TransformBlock
  imports Residual
begin

section \<open>Coding of a transform block\<close>

text \<open>
  \<^verbatim>\<open>residual_coding\<close> and \<^verbatim>\<open>last_sig_coeff\<close> of \<^verbatim>\<open>CABACWriter\<close> and \<^verbatim>\<open>CABACReader\<close> for blocks without transform
  skip: the position of the last coefficient, then the subblocks backwards.  The theorem at the end
  says that the reader recovers the coefficients and the constraints on the transform from the bins.
\<close>

unbundle bit_operations_syntax

datatype ComponentID = COMPONENT_Y | COMPONENT_Cb | COMPONENT_Cr

definition toChannelType :: "ComponentID \<Rightarrow> ChannelType" where
  "toChannelType compID = (if compID = COMPONENT_Y then CHANNEL_TYPE_LUMA else CHANNEL_TYPE_CHROMA)"

text \<open>What the functions read of the transform unit, its coding unit and the parameter sets.\<close>

record TuParams =
  tu_compID :: ComponentID
  tu_width :: nat
  tu_height :: nat
  tu_useMTS :: bool
  tu_sbtInfo :: nat
  tu_transQuantBypass :: bool
  tu_depQuantEnabled :: bool
  tu_maxLog2TrDynamicRange :: nat

record CUCtx =
  isDQPCoded :: bool
  isChromaQpAdjCoded :: bool
  qgStart :: bool
  lfnstLastScanPos :: bool
  cu_qp :: int
  violatesLfnstLuma :: bool
  violatesLfnstChroma :: bool
  violatesMtsCoeffConstraint :: bool

definition sbt_zero_out :: "TuParams \<Rightarrow> bool" where
  "sbt_zero_out tu \<longleftrightarrow> tu_useMTS tu \<and> tu_sbtInfo tu \<noteq> 0 \<and> tu_width tu \<le> 32 \<and> tu_height tu \<le> 32
     \<and> \<not> tu_transQuantBypass tu \<and> tu_compID tu = COMPONENT_Y"

definition getTbAreaAfterCoefZeroOut :: "TuParams \<Rightarrow> nat" where
  "getTbAreaAfterCoefZeroOut tu =
     (let w = (if sbt_zero_out tu \<and> tu_width tu = 32 then 16 else tu_width tu);
          h = (if sbt_zero_out tu \<and> tu_height tu = 32 then 16 else tu_height tu)
      in min JVET_C0024_ZERO_OUT_TH w * min JVET_C0024_ZERO_OUT_TH h)"

subsection \<open>The last coefficient\<close>

definition maxLastPos :: "TuParams \<Rightarrow> CoeffCodingContext \<Rightarrow> nat \<times> nat" where
  "maxLastPos tu c =
     (if sbt_zero_out tu
      then (if tu_width tu = 32 then g_uiGroupIdx ! 15 else m_maxLastPosX c,
            if tu_height tu = 32 then g_uiGroupIdx ! 15 else m_maxLastPosY c)
      else (m_maxLastPosX c, m_maxLastPosY c))"

fun w_ones :: "'s BinEncIf \<Rightarrow> (nat \<Rightarrow> CtxSet \<times> nat) \<Rightarrow> nat \<Rightarrow> nat \<Rightarrow> 's \<Rightarrow> 's option" where
  "w_ones E ctx 0 k s = Some s"
| "w_ones E ctx (Suc n) k s = do { s \<leftarrow> w_bin E 1 (fst (ctx k)) (snd (ctx k)) s; w_ones E ctx n (k + 1) s }"

definition w_prefix :: "'s BinEncIf \<Rightarrow> (nat \<Rightarrow> CtxSet \<times> nat) \<Rightarrow> nat \<Rightarrow> nat \<Rightarrow> 's \<Rightarrow> 's option" where
  "w_prefix E ctx GroupIdx maxPos s = do {
     s \<leftarrow> w_ones E ctx GroupIdx 0 s;
     if GroupIdx < maxPos then w_bin E 0 (fst (ctx GroupIdx)) (snd (ctx GroupIdx)) s else Some s }"

fun r_prefix :: "'s BinDecIf \<Rightarrow> (nat \<Rightarrow> CtxSet \<times> nat) \<Rightarrow> nat \<Rightarrow> nat \<Rightarrow> 's \<Rightarrow> (nat \<times> 's) option" where
  "r_prefix D ctx 0 PosLast s = Some (PosLast, s)"
| "r_prefix D ctx (Suc n) PosLast s = do {
     (b, s) \<leftarrow> r_bin D (fst (ctx PosLast)) (snd (ctx PosLast)) s;
     if b = 0 then Some (PosLast, s) else r_prefix D ctx n (PosLast + 1) s }"

fun w_ep_bits :: "'s BinEncIf \<Rightarrow> nat \<Rightarrow> nat \<Rightarrow> 's \<Rightarrow> 's option" where
  "w_ep_bits E v 0 s = Some s"
| "w_ep_bits E v (Suc i) s = do { s \<leftarrow> ie_encodeBinEP E (drop_bit i v mod 2) s; w_ep_bits E v i s }"

fun r_ep_bits :: "'s BinDecIf \<Rightarrow> nat \<Rightarrow> nat \<Rightarrow> 's \<Rightarrow> (nat \<times> 's) option" where
  "r_ep_bits D 0 uiTemp s = Some (uiTemp, s)"
| "r_ep_bits D (Suc i) uiTemp s = do { (b, s) \<leftarrow> if_decodeBinEP D s; r_ep_bits D i (uiTemp + push_bit i b) s }"

definition w_suffix :: "'s BinEncIf \<Rightarrow> nat \<Rightarrow> nat \<Rightarrow> 's \<Rightarrow> 's option" where
  "w_suffix E GroupIdx pos s =
     (if GroupIdx > 3 then w_ep_bits E (pos - g_uiMinInGroup ! GroupIdx) (drop_bit 1 (GroupIdx - 2)) s else Some s)"

definition r_suffix :: "'s BinDecIf \<Rightarrow> nat \<Rightarrow> 's \<Rightarrow> (nat \<times> 's) option" where
  "r_suffix D PosLast s =
     (if PosLast > 3 then do {
        (uiTemp, s) \<leftarrow> r_ep_bits D (drop_bit 1 (PosLast - 2)) 0 s;
        Some (g_uiMinInGroup ! PosLast + uiTemp, s) }
      else Some (PosLast, s))"

definition w_last_sig_coeff :: "'s BinEncIf \<Rightarrow> TuParams \<Rightarrow> CoeffCodingContext \<Rightarrow> 's \<Rightarrow> 's option" where
  "w_last_sig_coeff E tu c s = do {
     let blkPos = blockPos c (nat (m_scanPosLast c));
     let posY = blkPos div m_width c;
     let posX = blkPos - posY * m_width c;
     let GroupIdxX = g_uiGroupIdx ! posX;
     let GroupIdxY = g_uiGroupIdx ! posY;
     s \<leftarrow> w_prefix E (lastXCtxId c) GroupIdxX (fst (maxLastPos tu c)) s;
     s \<leftarrow> w_prefix E (lastYCtxId c) GroupIdxY (snd (maxLastPos tu c)) s;
     s \<leftarrow> w_suffix E GroupIdxX posX s;
     w_suffix E GroupIdxY posY s }"

text \<open>The search for the scan position of \<^verbatim>\<open>blkPos\<close>; \<open>n\<close> positions are left.\<close>

fun find_scanPos :: "CoeffCodingContext \<Rightarrow> nat \<Rightarrow> nat \<Rightarrow> nat \<Rightarrow> nat" where
  "find_scanPos c blkPos 0 scanPos = scanPos"
| "find_scanPos c blkPos (Suc n) scanPos =
     (if blkPos = blockPos c scanPos then scanPos else find_scanPos c blkPos n (scanPos + 1))"

definition r_last_sig_coeff :: "'s BinDecIf \<Rightarrow> TuParams \<Rightarrow> CoeffCodingContext \<Rightarrow> 's \<Rightarrow> (nat \<times> 's) option" where
  "r_last_sig_coeff D tu c s = do {
     (PosLastX, s) \<leftarrow> r_prefix D (lastXCtxId c) (fst (maxLastPos tu c)) 0 s;
     (PosLastY, s) \<leftarrow> r_prefix D (lastYCtxId c) (snd (maxLastPos tu c)) 0 s;
     (PosLastX, s) \<leftarrow> r_suffix D PosLastX s;
     (PosLastY, s) \<leftarrow> r_suffix D PosLastY s;
     let blkPos = PosLastX + PosLastY * m_width c;
     Some (find_scanPos c blkPos (m_maxNumCoeff c - 1) 0, s) }"

subsection \<open>The block\<close>

definition note_last :: "TuParams \<Rightarrow> CoeffCodingContext \<Rightarrow> CUCtx \<Rightarrow> CUCtx" where
  "note_last tu c cuCtx =
     (let w = tu_width tu; h = tu_height tu; last = m_scanPosLast c; luma = (tu_compID tu = COMPONENT_Y);
          big = (h \<ge> 4 \<and> w \<ge> 4);
          maxLfnstPos = (if (h = 4 \<and> w = 4) \<or> (h = 8 \<and> w = 8) then 7 else 15);
          cuCtx = (if big then if luma then cuCtx\<lparr>violatesLfnstLuma := violatesLfnstLuma cuCtx \<or> last > maxLfnstPos\<rparr>
                   else cuCtx\<lparr>violatesLfnstChroma := violatesLfnstChroma cuCtx \<or> last > maxLfnstPos\<rparr> else cuCtx);
          cuCtx = (if big then cuCtx\<lparr>lfnstLastScanPos := lfnstLastScanPos cuCtx \<or> last \<ge> 1\<rparr> else cuCtx)
      in if luma \<and> (se_x (m_scan c ! nat last) \<ge> 16 \<or> se_y (m_scan c ! nat last) \<ge> 16)
         then cuCtx\<lparr>violatesMtsCoeffConstraint := True\<rparr> else cuCtx)"

definition scan_coeffs :: "CoeffCodingContext \<Rightarrow> int list \<Rightarrow> nat \<Rightarrow> int \<times> bool list" where
  "scan_coeffs c coeff n = foldl (\<lambda>(scanPosLast, sigGroupFlags) scanPos.
       if coeff ! blockPos c scanPos \<noteq> 0
       then (int scanPos, sigGroupFlags[drop_bit (m_log2CGSize c) scanPos := True])
       else (scanPosLast, sigGroupFlags)) (- 1, replicate 1024 False) [0..<n]"

definition skip_subblock :: "TuParams \<Rightarrow> CoeffCodingContext \<Rightarrow> bool" where
  "skip_subblock tu c \<longleftrightarrow> sbt_zero_out tu
     \<and> (tu_height tu = 32 \<and> m_subSetPosY c \<ge> drop_bit (m_log2CGHeight c) 16
        \<or> tu_width tu = 32 \<and> m_subSetPosX c \<ge> drop_bit (m_log2CGWidth c) 16)"

text \<open>The loops over the subblocks \<open>k - 1\<close> down to \<open>0\<close>.\<close>

fun w_subblocks :: "'s BinEncIf \<Rightarrow> TuParams \<Rightarrow> int list \<Rightarrow> bool list \<Rightarrow> nat \<Rightarrow> nat \<Rightarrow> CoeffCodingContext \<Rightarrow> nat \<Rightarrow> 's \<Rightarrow> 's option" where
  "w_subblocks E tu coeff flags stt 0 c state s = Some s"
| "w_subblocks E tu coeff flags stt (Suc k) c state s = do {
     let c = initSubblock (int k) (flags ! k) c;
     if skip_subblock tu c then w_subblocks E tu coeff flags stt k c state s
     else do {
       ((c, state), s) \<leftarrow> w_residual_coding_subblock E coeff stt c state s;
       w_subblocks E tu coeff flags stt k c state s } }"

fun r_subblocks :: "'s BinDecIf \<Rightarrow> TuParams \<Rightarrow> nat \<Rightarrow> nat \<Rightarrow> CoeffCodingContext \<Rightarrow> nat \<Rightarrow> int list \<Rightarrow> 's \<Rightarrow> (int list \<times> 's) option" where
  "r_subblocks D tu stt 0 c state coeff s = Some (coeff, s)"
| "r_subblocks D tu stt (Suc k) c state coeff s = do {
     let c = initSubblock (int k) False c;
     if skip_subblock tu c then r_subblocks D tu stt k c state coeff s
     else do {
       ((c, state, coeff), s) \<leftarrow> r_residual_coding_subblock D stt c state coeff s;
       r_subblocks D tu stt k c state coeff s } }"

definition tu_context :: "TuParams \<Rightarrow> bool \<Rightarrow> CoeffCodingContext" where
  "tu_context tu signHiding = CoeffCodingContext_new (toChannelType (tu_compID tu)) (tu_width tu) (tu_height tu)
     signHiding (tu_maxLog2TrDynamicRange tu) False"

text \<open>The state transitions of dependent quantisation, and the budget of context coded bins.\<close>

definition stateTab :: "TuParams \<Rightarrow> nat" where
  "stateTab tu = (if tu_depQuantEnabled tu then 32040 else 0)"

definition MAX_TU_LEVEL_CTX_CODED_BIN_CONSTRAINT :: "ComponentID \<Rightarrow> nat" where
  "MAX_TU_LEVEL_CTX_CODED_BIN_CONSTRAINT compID = 28"

definition tu_regBinLimit :: "TuParams \<Rightarrow> int" where
  "tu_regBinLimit tu = int (drop_bit 4 (getTbAreaAfterCoefZeroOut tu * MAX_TU_LEVEL_CTX_CODED_BIN_CONSTRAINT (tu_compID tu)))"

definition w_residual_coding :: "'s BinEncIf \<Rightarrow> TuParams \<Rightarrow> bool \<Rightarrow> int list \<Rightarrow> CUCtx option \<Rightarrow> 's \<Rightarrow> (CUCtx option \<times> 's) option" where
  "w_residual_coding E tu signHiding coeff cuCtx s = do {
     let c = tu_context tu signHiding;
     let (scanPosLast, sigGroupFlags) = scan_coeffs c coeff (m_maxNumCoeff c);
     if scanPosLast < 0 then None
     else do {
       let c = c\<lparr>m_scanPosLast := scanPosLast\<rparr>;
       let cuCtx = map_option (note_last tu c) cuCtx;
       s \<leftarrow> w_last_sig_coeff E tu c s;
       let c = c\<lparr>regBinLimit := tu_regBinLimit tu\<rparr>;
       s \<leftarrow> w_subblocks E tu coeff sigGroupFlags (stateTab tu) (nat (drop_bit (m_log2CGSize c) scanPosLast) + 1) c 0 s;
       Some (cuCtx, s) } }"

definition r_residual_coding :: "'s BinDecIf \<Rightarrow> TuParams \<Rightarrow> bool \<Rightarrow> int list \<Rightarrow> CUCtx \<Rightarrow> 's \<Rightarrow> ((int list \<times> CUCtx) \<times> 's) option" where
  "r_residual_coding D tu signHiding coeff cuCtx s = do {
     let c = tu_context tu signHiding;
     (scanPosLast, s) \<leftarrow> r_last_sig_coeff D tu c s;
     let c = c\<lparr>m_scanPosLast := int scanPosLast\<rparr>;
     let cuCtx = note_last tu c cuCtx;
     let c = c\<lparr>regBinLimit := tu_regBinLimit tu\<rparr>;
     (coeff, s) \<leftarrow> r_subblocks D tu (stateTab tu) (nat (drop_bit (m_log2CGSize c) (int scanPosLast)) + 1) c 0 coeff s;
     Some ((coeff, cuCtx), s) }"

subsection \<open>Agreement\<close>

context cabac_channel
begin

lemma prefix_codec:
  assumes "\<And>j. j < k + n \<Longrightarrow> ctx_in (ctx j)" and "k \<le> G" and "G \<le> k + n"
  shows "bins (\<lambda>s. Option.bind (w_ones E ctx (G - k) k s)
      (\<lambda>s. if G < k + n then w_bin E 0 (fst (ctx G)) (snd (ctx G)) s else Some s)) (r_prefix D ctx n k) G"
  using assms
proof (induction n arbitrary: k)
  case 0
  then show ?case by (intro codec_ext [OF _ _ codec_Some]) simp_all
next
  case (Suc n)
  let ?R = "\<lambda>b s. if b = 0 then Some (k, s) else r_prefix D ctx n (k + 1) s"
  have R: "r_prefix D ctx (Suc n) k s = Option.bind (r_bin D (fst (ctx k)) (snd (ctx k)) s) (\<lambda>(b, s). ?R b s)" for s by simp
  have ctx: "ctx_in (ctx k)" using Suc.prems(1) by simp
  show ?case
  proof (cases "G = k")
    case True
    have "bins (w_bin E 0 (fst (ctx k)) (snd (ctx k))) (\<lambda>s. Option.bind (r_bin D (fst (ctx k)) (snd (ctx k)) s) (\<lambda>(b, s). ?R b s)) k"
      by (intro codec_last [OF bins_in [OF ctx]] codec_ext [OF _ _ codec_Some]) simp_all
    with True have "bins (w_bin E 0 (fst (ctx G)) (snd (ctx G))) (\<lambda>s. Option.bind (r_bin D (fst (ctx k)) (snd (ctx k)) s) (\<lambda>(b, s). ?R b s)) G" by simp
    then show ?thesis by (rule codec_ext [OF _ R, rotated]) (use True in simp)
  next
    case False
    then obtain m where m: "G - k = Suc m" "G - (k + 1) = m" using Suc.prems(2) by (cases "G - k") auto
    have IH: "bins (\<lambda>s. Option.bind (w_ones E ctx (G - (k + 1)) (k + 1) s)
        (\<lambda>s. if G < k + 1 + n then w_bin E 0 (fst (ctx G)) (snd (ctx G)) s else Some s)) (r_prefix D ctx n (k + 1)) G"
      using Suc.IH [of "k + 1"] Suc.prems False by simp
    have "bins (\<lambda>s. Option.bind (w_bin E 1 (fst (ctx k)) (snd (ctx k)) s) (\<lambda>s. Option.bind (w_ones E ctx m (k + 1) s)
        (\<lambda>s. if G < k + 1 + n then w_bin E 0 (fst (ctx G)) (snd (ctx G)) s else Some s)))
      (\<lambda>s. Option.bind (r_bin D (fst (ctx k)) (snd (ctx k)) s) (\<lambda>(b, s). ?R b s)) G"
      by (rule codec_bind [OF bins_in [OF ctx]]) (use IH m in simp_all)
    then show ?thesis by (rule codec_ext [OF _ R, rotated]) (simp add: m)
  qed
qed

lemma ep_bits_codec: "bins (w_ep_bits E v n) (r_ep_bits D n x) (x + v mod 2 ^ n)"
proof (induction n arbitrary: x)
  case 0
  show ?case by (intro codec_ext [OF _ _ codec_Some']) simp_all
next
  case (Suc n)
  have "v mod 2 ^ Suc n = v div 2 ^ n mod 2 * 2 ^ n + v mod 2 ^ n"
    using mod_mult2_eq [of v "2 ^ n" 2] by (simp add: mult.commute)
  then have "x + push_bit n (drop_bit n v mod 2) + v mod 2 ^ n = x + v mod 2 ^ Suc n"
    by (simp add: push_bit_eq_mult drop_bit_eq_div)
  with Suc [of "x + push_bit n (drop_bit n v mod 2)"]
  have IH: "bins (w_ep_bits E v n) (r_ep_bits D n (x + push_bit n (drop_bit n v mod 2))) (x + v mod 2 ^ Suc n)" by simp
  show ?case
    by (rule codec_ext, rule w_ep_bits.simps(2), rule r_ep_bits.simps(2), rule codec_bind [OF bins_EP], simp, rule IH)
qed

end

text \<open>A position is the least of its group plus a suffix of the length of the group.\<close>

lemma group_position:
  assumes "p < 64"
  shows "g_uiGroupIdx ! p \<le> 3 \<Longrightarrow> g_uiGroupIdx ! p = p"
    and "3 < g_uiGroupIdx ! p \<Longrightarrow> g_uiMinInGroup ! (g_uiGroupIdx ! p) \<le> p
      \<and> p - g_uiMinInGroup ! (g_uiGroupIdx ! p) < 2 ^ drop_bit 1 (g_uiGroupIdx ! p - 2)"
    and "q < 64 \<Longrightarrow> p \<le> q \<Longrightarrow> g_uiGroupIdx ! p \<le> g_uiGroupIdx ! q"
proof -
  have "list_all (\<lambda>p. let G = g_uiGroupIdx ! p in (G \<le> 3 \<longrightarrow> G = p)
      \<and> (3 < G \<longrightarrow> g_uiMinInGroup ! G \<le> p \<and> p - g_uiMinInGroup ! G < 2 ^ ((G - 2) div 2))) [0..<64]"
    by code_simp
  then have "let G = g_uiGroupIdx ! p in (G \<le> 3 \<longrightarrow> G = p)
      \<and> (3 < G \<longrightarrow> g_uiMinInGroup ! G \<le> p \<and> p - g_uiMinInGroup ! G < 2 ^ ((G - 2) div 2))"
    using assms by (simp only: list_all_iff set_upt atLeastLessThan_iff le0 simp_thms)
  then show "g_uiGroupIdx ! p \<le> 3 \<Longrightarrow> g_uiGroupIdx ! p = p" "3 < g_uiGroupIdx ! p \<Longrightarrow> g_uiMinInGroup ! (g_uiGroupIdx ! p) \<le> p
      \<and> p - g_uiMinInGroup ! (g_uiGroupIdx ! p) < 2 ^ drop_bit 1 (g_uiGroupIdx ! p - 2)"
    by (simp_all add: Let_def drop_bit_eq_div)
  have "sorted g_uiGroupIdx" "length g_uiGroupIdx = 64" by code_simp+
  then show "q < 64 \<Longrightarrow> p \<le> q \<Longrightarrow> g_uiGroupIdx ! p \<le> g_uiGroupIdx ! q" using assms by (intro sorted_nth_mono) auto
qed

context cabac_channel
begin

lemma suffix_codec:
  assumes "p < 64"
  shows "bins (w_suffix E (g_uiGroupIdx ! p) p) (r_suffix D (g_uiGroupIdx ! p)) p"
proof (rule codec_ext, rule w_suffix_def, rule r_suffix_def, rule codec_if [OF refl])
  let ?G = "g_uiGroupIdx ! p" and ?v = "p - g_uiMinInGroup ! (g_uiGroupIdx ! p)"
  assume "?G > 3"
  note g = group_position(2) [OF assms this]
  then have "?v mod 2 ^ drop_bit 1 (?G - 2) = ?v" by simp
  with ep_bits_codec [of ?v "drop_bit 1 (?G - 2)" 0]
  have e: "bins (w_ep_bits E ?v (drop_bit 1 (?G - 2))) (r_ep_bits D (drop_bit 1 (?G - 2)) 0) ?v" by simp
  show "bins (w_ep_bits E ?v (drop_bit 1 (?G - 2))) (\<lambda>s. Option.bind (r_ep_bits D (drop_bit 1 (?G - 2)) 0 s)
      (\<lambda>(uiTemp, s). Some (g_uiMinInGroup ! ?G + uiTemp, s))) p"
    by (rule codec_last [OF e], rule codec_Some') (use g in simp)
next
  assume "\<not> g_uiGroupIdx ! p > 3"
  with group_position(1) [OF assms] show "bins Some (\<lambda>s. Some (g_uiGroupIdx ! p, s)) p" by (intro codec_Some') simp
qed

lemma w_prefix_codec:
  assumes "\<And>j. j < n \<Longrightarrow> ctx_in (ctx j)" and "G \<le> n"
  shows "bins (w_prefix E ctx G n) (r_prefix D ctx n 0) G"
  using prefix_codec [of 0 n ctx G] assms by (intro codec_ext [OF w_prefix_def refl]) simp

end

subsection \<open>The context of a block\<close>

lemma template_idx_pos:
  assumes "q \<in> set (template_idx w h x y)" and "x < w" and "y < h"
  obtains dx dy where "q = (y + dy) * w + (x + dx)" and "x + dx < w" and "y + dy < h" and "(dx, dy) \<noteq> (0, 0)"
proof -
  have e: "(y + 1) * w = y * w + w" "(y + 2) * w = y * w + 2 * w" by (simp_all add: algebra_simps)
  have "(q = y * w + (x + 1) \<and> x + 1 < w) \<or> (q = y * w + (x + 2) \<and> x + 2 < w) \<or> (q = y * w + w + (x + 1) \<and> x + 1 < w \<and> y + 1 < h)
    \<or> (q = y * w + w + x \<and> y + 1 < h) \<or> (q = y * w + 2 * w + x \<and> y + 2 < h)"
    using assms(1) unfolding template_idx_def Let_def less_diff_conv
    by (cases "x + 1 < w"; cases "x + 2 < w"; cases "y + 1 < h"; cases "y + 2 < h")
      (simp_all only: if_True if_False set_append list.set Un_iff insert_iff empty_iff simp_thms append_Nil append_Nil2 ac_simps)
  then consider "q = y * w + (x + 1)" "x + 1 < w" | "q = y * w + (x + 2)" "x + 2 < w" | "q = y * w + w + (x + 1)" "x + 1 < w" "y + 1 < h"
    | "q = y * w + w + x" "y + 1 < h" | "q = y * w + 2 * w + x" "y + 2 < h" by blast
  then show thesis
  proof cases
    case 1 then show ?thesis using that [of 0 1] assms(3) by simp
  next
    case 2 then show ?thesis using that [of 0 2] assms(3) by simp
  next
    case 3 then show ?thesis using that [of 1 1] e by simp
  next
    case 4 then show ?thesis using that [of 1 0] assms(2) e by simp
  next
    case 5 then show ?thesis using that [of 2 0] assms(2) e by simp
  qed
qed

lemma raster_eq:
  fixes x y x' y' w :: nat
  assumes "y * w + x = y' * w + x'" and "x < w" and "x' < w"
  shows "x = x' \<and> y = y'"
proof -
  have "(y * w + x) mod w = x" "(y' * w + x') mod w = x'" "(y * w + x) div w = y" "(y' * w + x') div w = y'" using assms(2,3) by simp_all
  with assms(1) show ?thesis by metis
qed

lemma raster_less:
  fixes x y w h :: nat
  assumes "x < w" and "y < h"
  shows "y * w + x < w * h"
proof -
  have "y * w + x < Suc y * w" using assms(1) by simp
  also have "\<dots> \<le> h * w" using assms(2) by (intro mult_le_mono1) simp
  finally show ?thesis by (simp add: mult.commute)
qed

text \<open>The members of a new context for a block of \<open>2 ^ a\<close> columns and \<open>2 ^ b\<close> rows.\<close>

definition coded_size :: "nat \<Rightarrow> nat \<Rightarrow> nat" where
  "coded_size a b = 2 ^ min 5 a * 2 ^ min 5 b"

lemma context_scan:
  fixes hide bd M ch
  assumes "a \<le> 7" and "b \<le> 7"
  defines "c \<equiv> CoeffCodingContext_new ch (2 ^ a) (2 ^ b) hide M bd"
  shows "m_width c = 2 ^ a" and "m_height c = 2 ^ b"
    and "i < coded_size a b \<Longrightarrow> m_scan c ! i = scan_elem (2 ^ a) (coded_positions a b ! i)"
    and "coded_size a b \<le> i \<Longrightarrow> i < 2 ^ a * 2 ^ b \<Longrightarrow> m_scan c ! i = scan_elem (2 ^ a) (2 ^ a - 1, 2 ^ b - 1)"
    and "m_maxNumCoeff c = 2 ^ a * 2 ^ b"
proof -
  have s: "m_scan c = grouped_scan SCAN_DIAG (2 ^ a) (2 ^ b)" by (simp add: c_def CoeffCodingContext_new_def Let_def split: prod.split)
  note l = coded_positions_block(3) [OF assms(1,2), folded coded_size_def]
  show "i < coded_size a b \<Longrightarrow> m_scan c ! i = scan_elem (2 ^ a) (coded_positions a b ! i)"
    "coded_size a b \<le> i \<Longrightarrow> i < 2 ^ a * 2 ^ b \<Longrightarrow> m_scan c ! i = scan_elem (2 ^ a) (2 ^ a - 1, 2 ^ b - 1)"
    unfolding s grouped_scan_diag [OF assms(1,2)] by (simp_all add: nth_append l)
qed (simp_all add: c_def CoeffCodingContext_new_def Let_def split: prod.split)

lemma coded_size_le: "coded_size a b \<le> 2 ^ a * 2 ^ b"
  unfolding coded_size_def by (intro mult_le_mono power_increasing) auto

lemma coded_pos_bounds:
  assumes "a \<le> 7" and "b \<le> 7" and "i < coded_size a b"
  shows "fst (coded_positions a b ! i) < 2 ^ min 5 a" and "snd (coded_positions a b ! i) < 2 ^ min 5 b"
    and "fst (coded_positions a b ! i) < 2 ^ a" and "snd (coded_positions a b ! i) < 2 ^ b"
proof -
  have "coded_positions a b ! i \<in> set (coded_positions a b)"
    using assms(3) coded_positions_block(3) [OF assms(1,2)] by (simp add: coded_size_def)
  then have "coded_positions a b ! i \<in> {..<2 ^ min 5 a} \<times> {..<2 ^ min 5 b}" by (simp only: coded_positions_block(2) [OF assms(1,2)])
  then show *: "fst (coded_positions a b ! i) < 2 ^ min 5 a" "snd (coded_positions a b ! i) < 2 ^ min 5 b" by auto
  have "(2::nat) ^ min 5 a \<le> 2 ^ a" "(2::nat) ^ min 5 b \<le> 2 ^ b" by (intro power_increasing; simp)+
  with * show "fst (coded_positions a b ! i) < 2 ^ a" "snd (coded_positions a b ! i) < 2 ^ b" by linarith+
qed

lemma context_scan_ok:
  assumes "a \<le> 7" and "b \<le> 7"
  shows "scan_ok (CoeffCodingContext_new ch (2 ^ a) (2 ^ b) hide M bd) (coded_size a b)"
proof -
  let ?c = "CoeffCodingContext_new ch (2 ^ a) (2 ^ b) hide M bd" and ?P = "\<lambda>i. coded_positions a b ! i"
  note cs = context_scan [OF assms, where ch = ch and hide = hide and M = M and bd = bd]
  note cp = coded_positions_block [OF assms, folded coded_size_def]
  note bd = coded_pos_bounds [OF assms]
  have bp: "blockPos ?c i = snd (?P i) * 2 ^ a + fst (?P i)" if "i < coded_size a b" for i
    using cs(3) [OF that] by (simp add: blockPos_def scan_elem_def)
  have inj: "inj_on (blockPos ?c) {..<coded_size a b}"
  proof (rule inj_onI)
    fix i j assume "i \<in> {..<coded_size a b}" "j \<in> {..<coded_size a b}" "blockPos ?c i = blockPos ?c j"
    moreover from this have "?P i = ?P j" using raster_eq bp bd(3) by (intro prod_eqI) (metis lessThan_iff)+
    ultimately show "i = j" using cp(1,3) by (simp add: nth_eq_iff_index_eq)
  qed
  have tmpl: "q < 2 ^ a * 2 ^ b \<and> (\<forall>j < coded_size a b. blockPos ?c j = q \<longrightarrow> i < j)"
    if i: "i < coded_size a b" and q: "q \<in> set (template_idx (2 ^ a) (2 ^ b) (fst (?P i)) (snd (?P i)))" for i q
  proof -
    from template_idx_pos [OF q bd(3,4) [OF i]] obtain dx dy where
      d: "q = (snd (?P i) + dy) * 2 ^ a + (fst (?P i) + dx)" "fst (?P i) + dx < 2 ^ a" "snd (?P i) + dy < 2 ^ b" "(dx, dy) \<noteq> (0, 0)" .
    have "i < j" if j: "j < coded_size a b" "blockPos ?c j = q" for j
    proof -
      have "snd (?P j) * 2 ^ a + fst (?P j) = (snd (?P i) + dy) * 2 ^ a + (fst (?P i) + dx)" using j bp d(1) by simp
      from raster_eq [OF this bd(3) [OF j(1)] d(2)] have "fst (?P j) = fst (?P i) + dx" "snd (?P j) = snd (?P i) + dy" by auto
      then show ?thesis using cp(4) [of i j "fst (?P i)" "snd (?P i)" "fst (?P j)" "snd (?P j)"] i j(1) cp(3) d(4) by (auto simp: prod_eq_iff)
    qed
    then show ?thesis using raster_less [OF d(2,3)] d(1) by simp
  qed
  have xy: "se_x (m_scan ?c ! i) = fst (?P i)" "se_y (m_scan ?c ! i) = snd (?P i)" if "i < coded_size a b" for i
    using cs(3) [OF that] by (simp_all add: scan_elem_def)
  show ?thesis unfolding scan_ok_def cs(1,2)
    using inj bp bd(3,4) raster_less tmpl by (auto simp: xy)
qed

lemma context_sets_ok:
  assumes "4 \<le> M" and "M \<le> 27"
  shows "sets_ok (CoeffCodingContext_new ch w h hide M bd)"
proof -
  let ?c = "CoeffCodingContext_new ch w h hide M bd"
  have "m_chType ?c = ch" "m_maxLog2TrDynamicRange ?c = M" "m_parFlagCtxSet ?c = ctxSets ch Ctx_ParFlag_0 Ctx_ParFlag_1"
    "m_sigFlagCtxSet ?c = [ctxSets ch Ctx_SigFlag_0 Ctx_SigFlag_1, ctxSets ch Ctx_SigFlag_2 Ctx_SigFlag_3, ctxSets ch Ctx_SigFlag_4 Ctx_SigFlag_5]"
    "m_gtxFlagCtxSet ?c = [ctxSets ch Ctx_GtxFlag_0 Ctx_GtxFlag_1, ctxSets ch Ctx_GtxFlag_2 Ctx_GtxFlag_3]"
    by (simp_all add: CoeffCodingContext_new_def Let_def split: prod.split)
  with assms show ?thesis by (simp only: sets_ok_def simp_thms)
qed

lemma context_groups:
  fixes hide bd M ch
  assumes "a \<le> 7" and "b \<le> 7"
  defines "c \<equiv> CoeffCodingContext_new ch (2 ^ a) (2 ^ b) hide M bd"
  obtains G where "groups_ok c G" and "coded_size a b = G * 2 ^ m_log2CGSize c" and "m_log2CGSize c \<le> 4" and "G \<le> 1024"
proof -
  obtain lw lh where l: "sbbSize (2 ^ a) (2 ^ b) = (lw, lh)" by fastforce
  note le = sbbSize_le [OF assms(1,2), unfolded l fst_conv snd_conv]
  let ?wg = "2 ^ (min 5 a - lw) :: nat" and ?hg = "2 ^ (min 5 b - lh) :: nat"
  have f: "m_widthInGroups c = ?wg" "m_scanCG c = ungrouped_scan SCAN_DIAG ?wg ?hg" "m_log2CGSize c = lw + lh"
    using le by (simp_all add: c_def CoeffCodingContext_new_def l min_zero_out drop_bit_exp Let_def)
  obtain ps where ps: "m_scanCG c = map (scan_elem ?wg) ps" "distinct ps" "set ps = {..<?wg} \<times> {..<?hg}"
    using ungrouped_scan_eq [of ?wg ?hg SCAN_DIAG] unfolding f(2) by (metis zero_less_power zero_less_numeral)
  have len: "length ps = ?wg * ?hg" using distinct_card [OF ps(2)] unfolding ps(3) by simp
  have gp: "groupPos c k = snd (ps ! k) * ?wg + fst (ps ! k)" "fst (ps ! k) < ?wg" "snd (ps ! k) < ?hg" if "k < ?wg * ?hg" for k
  proof -
    show "groupPos c k = snd (ps ! k) * ?wg + fst (ps ! k)" using that len by (simp add: groupPos_def ps(1) scan_elem_def)
    have "ps ! k \<in> {..<?wg} \<times> {..<?hg}" using nth_mem [of k ps] that len ps(3) by simp
    then show "fst (ps ! k) < ?wg" "snd (ps ! k) < ?hg" by auto
  qed
  have "?wg * ?hg \<le> 2 ^ 5 * 2 ^ 5" by (intro mult_le_mono power_increasing) auto
  then have small: "?wg * ?hg \<le> 1024" by simp
  have "inj_on (groupPos c) {..<?wg * ?hg}"
  proof (rule inj_onI)
    fix i j assume "i \<in> {..<?wg * ?hg}" "j \<in> {..<?wg * ?hg}" "groupPos c i = groupPos c j"
    moreover from this have "ps ! i = ps ! j" using raster_eq gp(1,2) by (intro prod_eqI) (metis lessThan_iff)+
    ultimately show "i = j" using ps(2) len by (simp add: nth_eq_iff_index_eq)
  qed
  moreover have "groupPos c k < 1024" if "k < ?wg * ?hg" for k
    using gp [OF that] raster_less [of "fst (ps ! k)" ?wg "snd (ps ! k)" ?hg] small by linarith
  ultimately have "groups_ok c (?wg * ?hg)" by (simp add: groups_ok_def f(1))
  moreover have "coded_size a b = ?wg * ?hg * 2 ^ m_log2CGSize c"
  proof -
    have "2 ^ min 5 a = ?wg * 2 ^ lw" "2 ^ min 5 b = ?hg * 2 ^ lh" using le by (simp_all flip: power_add)
    then show ?thesis by (simp add: coded_size_def f(3) power_add)
  qed
  ultimately show thesis using that le(3) small f(3) by metis
qed

text \<open>The contexts of the last position exist for blocks of up to 64 columns and rows.\<close>

definition last_ctx_ok :: "ChannelType \<Rightarrow> nat \<Rightarrow> bool" where
  "last_ctx_ok ch a \<longleftrightarrow> (\<forall>j < g_uiGroupIdx ! (2 ^ min 5 a - 1).
     (case ch of CHANNEL_TYPE_LUMA \<Rightarrow> prefix_ctx ! a | CHANNEL_TYPE_CHROMA \<Rightarrow> 0)
       + j div 2 ^ (case ch of CHANNEL_TYPE_LUMA \<Rightarrow> (a + 1) div 4 | CHANNEL_TYPE_CHROMA \<Rightarrow> min 2 (2 ^ a div 8))
     < (case ch of CHANNEL_TYPE_LUMA \<Rightarrow> 20 | CHANNEL_TYPE_CHROMA \<Rightarrow> 3))"

lemma last_ctx_all: "a \<le> 6 \<Longrightarrow> last_ctx_ok ch a"
proof -
  have "list_all (\<lambda>a. list_all (\<lambda>j. prefix_ctx ! a + j div 2 ^ ((a + 1) div 4) < 20) [0..<g_uiGroupIdx ! (2 ^ min 5 a - 1)]
    \<and> list_all (\<lambda>j. 0 + j div 2 ^ min 2 (2 ^ a div 8) < 3) [0..<g_uiGroupIdx ! (2 ^ min 5 a - 1)]) [0..<7]"
    by code_simp
  then show "a \<le> 6 \<Longrightarrow> last_ctx_ok ch a"
    by (cases ch) (simp_all add: list_all_iff last_ctx_ok_def del: upt_Suc)
qed

lemma context_last:
  fixes hide bd M ch
  assumes "a \<le> 6" and "b \<le> 6"
  defines "c \<equiv> CoeffCodingContext_new ch (2 ^ a) (2 ^ b) hide M bd"
  shows "m_maxLastPosX c = g_uiGroupIdx ! (2 ^ min 5 a - 1)" and "m_maxLastPosY c = g_uiGroupIdx ! (2 ^ min 5 b - 1)"
    and "j < m_maxLastPosX c \<Longrightarrow> ctx_in (lastXCtxId c j)" and "j < m_maxLastPosY c \<Longrightarrow> ctx_in (lastYCtxId c j)"
proof -
  show p: "m_maxLastPosX c = g_uiGroupIdx ! (2 ^ min 5 a - 1)" "m_maxLastPosY c = g_uiGroupIdx ! (2 ^ min 5 b - 1)"
    by (simp_all add: c_def CoeffCodingContext_new_def Let_def min_zero_out split: prod.split)
  have f: "m_CtxSetLastX c = ctxSets ch Ctx_LastX_0 Ctx_LastX_1" "m_CtxSetLastY c = ctxSets ch Ctx_LastY_0 Ctx_LastY_1"
    "m_lastOffsetX c = (case ch of CHANNEL_TYPE_LUMA \<Rightarrow> prefix_ctx ! a | CHANNEL_TYPE_CHROMA \<Rightarrow> 0)"
    "m_lastOffsetY c = (case ch of CHANNEL_TYPE_LUMA \<Rightarrow> prefix_ctx ! b | CHANNEL_TYPE_CHROMA \<Rightarrow> 0)"
    "m_lastShiftX c = (case ch of CHANNEL_TYPE_LUMA \<Rightarrow> (a + 1) div 4 | CHANNEL_TYPE_CHROMA \<Rightarrow> min 2 (2 ^ a div 8))"
    "m_lastShiftY c = (case ch of CHANNEL_TYPE_LUMA \<Rightarrow> (b + 1) div 4 | CHANNEL_TYPE_CHROMA \<Rightarrow> min 2 (2 ^ b div 8))"
    using assms by (simp_all add: c_def CoeffCodingContext_new_def Let_def floorLog2_power drop_bit_eq_div split: prod.split ChannelType.split)
  show "j < m_maxLastPosX c \<Longrightarrow> ctx_in (lastXCtxId c j)" "j < m_maxLastPosY c \<Longrightarrow> ctx_in (lastYCtxId c j)"
    using last_ctx_all [OF assms(1), of ch] last_ctx_all [OF assms(2), of ch]
    by (cases ch; simp add: p f ctx_in_def lastXCtxId_def lastYCtxId_def last_ctx_ok_def ctxSets_def drop_bit_eq_div)+
qed

subsection \<open>The last position\<close>

lemma scan_coeffs_Suc:
  "scan_coeffs c coeff (Suc n) = (if coeff ! blockPos c n \<noteq> 0
     then (int n, (snd (scan_coeffs c coeff n))[drop_bit (m_log2CGSize c) n := True]) else scan_coeffs c coeff n)"
  by (simp add: scan_coeffs_def split: prod.split)

lemma scan_coeffs_spec:
  shows "length (snd (scan_coeffs c coeff n)) = 1024"
    and "k < 1024 \<Longrightarrow> snd (scan_coeffs c coeff n) ! k \<longleftrightarrow> (\<exists>p < n. coeff ! blockPos c p \<noteq> 0 \<and> p div 2 ^ m_log2CGSize c = k)"
    and "L < n \<Longrightarrow> coeff ! blockPos c L \<noteq> 0 \<Longrightarrow> (\<And>p. L < p \<Longrightarrow> p < n \<Longrightarrow> coeff ! blockPos c p = 0) \<Longrightarrow> fst (scan_coeffs c coeff n) = int L"
proof (induction n)
  case (Suc n)
  show "length (snd (scan_coeffs c coeff (Suc n))) = 1024" using Suc.IH(1) by (simp add: scan_coeffs_Suc)
  show "snd (scan_coeffs c coeff (Suc n)) ! k \<longleftrightarrow> (\<exists>p < Suc n. coeff ! blockPos c p \<noteq> 0 \<and> p div 2 ^ m_log2CGSize c = k)" if "k < 1024"
  proof -
    have "xs[i := True] ! k \<longleftrightarrow> xs ! k \<or> i = k" if "k < length xs" for xs i using that by (cases "i = k") auto
    then show ?thesis using Suc.IH(1) Suc.IH(2) [OF that] that by (auto simp: scan_coeffs_Suc drop_bit_eq_div less_Suc_eq)
  qed
  show "fst (scan_coeffs c coeff (Suc n)) = int L" if L: "L < Suc n" "coeff ! blockPos c L \<noteq> 0" "\<And>p. L < p \<Longrightarrow> p < Suc n \<Longrightarrow> coeff ! blockPos c p = 0"
  proof (cases "L = n")
    case True
    with L(2) show ?thesis by (simp add: scan_coeffs_Suc)
  next
    case False
    with Suc.IH(3) L show ?thesis by (simp add: scan_coeffs_Suc)
  qed
qed (simp_all add: scan_coeffs_def)

lemma find_scanPos_eq:
  assumes "k \<le> L" and "L \<le> k + n" and "\<And>i. k \<le> i \<Longrightarrow> i < L \<Longrightarrow> blockPos c i \<noteq> p" and "L < k + n \<Longrightarrow> blockPos c L = p"
  shows "find_scanPos c p n k = L"
  using assms
proof (induction n arbitrary: k)
  case (Suc n)
  show ?case
  proof (cases "k = L")
    case True
    with Suc.prems(4) show ?thesis by simp
  next
    case False
    with Suc.prems have "find_scanPos c p n (k + 1) = L" by (intro Suc.IH) auto
    moreover have "p \<noteq> blockPos c k" using Suc.prems(1) Suc.prems(3) [of k] False by auto
    ultimately show ?thesis by simp
  qed
qed simp

text \<open>With the zero-out of subblock transforms the last position lies in the first 16 columns and rows.\<close>

definition last_pos_ok :: "TuParams \<Rightarrow> nat \<times> nat \<Rightarrow> bool" where
  "last_pos_ok tu p \<longleftrightarrow> sbt_zero_out tu \<longrightarrow> (tu_width tu = 32 \<longrightarrow> fst p < 16) \<and> (tu_height tu = 32 \<longrightarrow> snd p < 16)"

context cabac_channel
begin

lemma last_sig_codec:
  fixes hide bd M ch
  assumes tu: "tu_width tu = 2 ^ a" "tu_height tu = 2 ^ b" "a \<le> 6" "b \<le> 6"
    and c: "c = CoeffCodingContext_new ch (2 ^ a) (2 ^ b) hide M bd"
    and L: "L < coded_size a b" "last_pos_ok tu (coded_positions a b ! L)"
  shows "bins (w_last_sig_coeff E tu (c\<lparr>m_scanPosLast := int L\<rparr>)) (r_last_sig_coeff D tu c) L"
proof -
  obtain x y where xy: "coded_positions a b ! L = (x, y)" by fastforce
  have ab: "a \<le> 7" "b \<le> 7" using tu by simp_all
  note cs = context_scan [OF ab, where ch = ch and hide = hide and M = M and bd = bd, folded c]
  note cl = context_last [OF tu(3,4), where ch = ch and hide = hide and M = M and bd = bd, folded c]
  have b: "x < 2 ^ min 5 a" "y < 2 ^ min 5 b" "x < 2 ^ a" "y < 2 ^ b" using coded_pos_bounds [OF ab L(1)] by (simp_all add: xy)
  have pw: "(2::nat) ^ min 5 a \<le> 2 ^ 5" "(2::nat) ^ min 5 b \<le> 2 ^ 5" by (intro power_increasing; simp)+
  then have small: "x < 64" "y < 64" using b by simp_all
  have bp: "blockPos c L = y * 2 ^ a + x" using cs(3) [OF L(1)] by (simp add: blockPos_def scan_elem_def xy)
  let ?mx = "fst (maxLastPos tu c)" and ?my = "snd (maxLastPos tu c)"
  have mono: "q < 64 \<Longrightarrow> p \<le> q \<Longrightarrow> g_uiGroupIdx ! p \<le> g_uiGroupIdx ! q" for p q using group_position(3) [of p q] by simp
  have "x \<le> 2 ^ min 5 a - 1" "y \<le> 2 ^ min 5 b - 1" "(2::nat) ^ min 5 a - 1 < 64" "(2::nat) ^ min 5 b - 1 < 64" using b pw by simp_all
  then have gm: "g_uiGroupIdx ! x \<le> m_maxLastPosX c" "g_uiGroupIdx ! y \<le> m_maxLastPosY c" unfolding cl(1,2) by (blast intro: mono)+
  have mx: "g_uiGroupIdx ! x \<le> ?mx" "?mx \<le> m_maxLastPosX c" and my: "g_uiGroupIdx ! y \<le> ?my" "?my \<le> m_maxLastPosY c"
  proof -
    have s: "x \<le> 15" if "sbt_zero_out tu" "tu_width tu = 32" using that L(2) by (simp add: last_pos_ok_def xy)
    have t: "y \<le> 15" if "sbt_zero_out tu" "tu_height tu = 32" using that L(2) by (simp add: last_pos_ok_def xy)
    have "a = 5" if "tu_width tu = 32" using that tu(1) power_inject_exp [of "2::nat" a 5] by simp
    moreover have "b = 5" if "tu_height tu = 32" using that tu(2) power_inject_exp [of "2::nat" b 5] by simp
    moreover have "g_uiGroupIdx ! 15 \<le> g_uiGroupIdx ! 31" by (rule mono) simp_all
    ultimately show "g_uiGroupIdx ! x \<le> ?mx" "?mx \<le> m_maxLastPosX c" "g_uiGroupIdx ! y \<le> ?my" "?my \<le> m_maxLastPosY c"
      using gm s t mono [of 15 x] mono [of 15 y] by (auto simp: maxLastPos_def cl(1,2))
  qed
  let ?c = "c\<lparr>m_scanPosLast := int L\<rparr>"
  have q: "blockPos ?c = blockPos c" "lastXCtxId ?c = lastXCtxId c" "lastYCtxId ?c = lastYCtxId c" "maxLastPos tu ?c = maxLastPos tu c"
    by (intro ext, simp add: blockPos_def lastXCtxId_def lastYCtxId_def maxLastPos_def)+ (simp add: maxLastPos_def)
  have q2: "m_scanPosLast ?c = int L" "m_width ?c = 2 ^ a" using cs(1) by simp_all
  have pos: "(y * 2 ^ a + x) div 2 ^ a = y" "y * 2 ^ a + x - y * 2 ^ a = x" using b by simp_all
  have find: "find_scanPos c (x + y * 2 ^ a) (2 ^ a * 2 ^ b - 1) 0 = L"
  proof (rule find_scanPos_eq)
    show "L \<le> 0 + (2 ^ a * 2 ^ b - 1)" using L(1) coded_size_le [of a b] by linarith
    show "blockPos c i \<noteq> x + y * 2 ^ a" if "i < L" for i
    proof
      assume "blockPos c i = x + y * 2 ^ a"
      then have "blockPos c i = blockPos c L" using bp by simp
      moreover have "inj_on (blockPos c) {..<coded_size a b}"
        using context_scan_ok [OF ab, of ch hide M bd, folded c] by (simp add: scan_ok_def)
      moreover have "i \<in> {..<coded_size a b}" "L \<in> {..<coded_size a b}" using that L(1) by auto
      ultimately have "i = L" by (simp add: inj_on_eq_iff)
      with that show False by simp
    qed
  qed (simp_all add: bp)
  have px: "bins (w_prefix E (lastXCtxId c) (g_uiGroupIdx ! x) ?mx) (r_prefix D (lastXCtxId c) ?mx 0) (g_uiGroupIdx ! x)"
    by (rule w_prefix_codec) (use cl(3) mx in auto)
  have py: "bins (w_prefix E (lastYCtxId c) (g_uiGroupIdx ! y) ?my) (r_prefix D (lastYCtxId c) ?my 0) (g_uiGroupIdx ! y)"
    by (rule w_prefix_codec) (use cl(4) my in auto)
  show ?thesis
    by (rule codec_ext, rule w_last_sig_coeff_def, rule r_last_sig_coeff_def, unfold Let_def,
        simp only: q q2 nat_int bp cs(1,5) pos, rule codec_bind [OF px], rule codec_bind [OF py],
        rule codec_bind [OF suffix_codec [OF small(1)]], rule codec_last [OF suffix_codec [OF small(2)]],
        rule codec_Some', rule find)
qed

end

subsection \<open>The loop over the subblocks\<close>

lemma same_block_place_pos:
  assumes "same_block c c0"
  shows "m_subSetPosY (initSubblock k f c) = m_subSetPosY (place_subblock k c0)"
    and "m_subSetPosX (initSubblock k f c) = m_subSetPosX (place_subblock k c0)"
  using assms
  by (auto simp: initSubblock_def Let_def group_contexts_def setSigGroup_def place_subblock_def same_block_def split: prod.split)

lemma skip_subblock_base:
  assumes "same_block c c0"
  shows "skip_subblock tu (initSubblock k f c) \<longleftrightarrow> skip_subblock tu (place_subblock k c0)"
proof -
  have "same_block (initSubblock k f c) c0" "same_block (place_subblock k c0) c0"
    by (rule same_block_trans [OF same_block_init assms], rule same_block_place)
  then show ?thesis unfolding skip_subblock_def same_block_place_pos [OF assms] by (simp add: same_block_def)
qed

text \<open>What the loop needs of the block: \<open>G\<close> groups of \<open>K\<close> positions each, the last coefficient at \<open>L\<close>.\<close>

definition block_ok :: "TuParams \<Rightarrow> CoeffCodingContext \<Rightarrow> nat \<Rightarrow> nat \<Rightarrow> nat \<Rightarrow> (nat \<Rightarrow> int) \<Rightarrow> bool list \<Rightarrow> bool" where
  "block_ok tu c G K L g flags \<longleftrightarrow>
     scan_ok c (G * K) \<and> sets_ok c \<and> groups_ok c G \<and> K = 2 ^ m_log2CGSize c \<and> m_log2CGSize c \<le> 4
     \<and> (\<forall>i < G * K. \<bar>g i\<bar> \<le> 2 ^ m_maxLog2TrDynamicRange c)
     \<and> m_scanPosLast c = int L \<and> L < G * K \<and> g L \<noteq> 0 \<and> (\<forall>i < G * K. L < i \<longrightarrow> g i = 0)
     \<and> (\<forall>k < G. flags ! k \<longleftrightarrow> (\<exists>i. k * K \<le> i \<and> i < k * K + K \<and> g i \<noteq> 0))
     \<and> (\<forall>k < G. hide_ok c g (nonzeros g (k * K) (k * K + K)))
     \<and> (\<forall>k < G. skip_subblock tu (place_subblock (int k) c) \<longrightarrow> \<not> flags ! k)"

context cabac_channel
begin

lemma subblocks_codec:
  assumes ok: "block_ok tu c0 G K L g flags" and coeff: "view c0 (G * K) coeff g"
    and "k \<le> L div K + 1" and "same_block c c0" and "tmpl_ok (m_tmplCpDiag c, m_tmplCpSum1 c)" and "state < 4"
    and "length (m_sigCoeffGroupFlag c) = 1024" and "\<forall>j < k. \<not> m_sigCoeffGroupFlag c ! groupPos c0 j"
    and "view c0 (G * K) a (\<lambda>i. if i < k * K then 0 else g i)"
  shows "\<exists>a'. bins (w_subblocks E tu coeff flags stt k c state) (r_subblocks D tu stt k c state a) a' \<and> view c0 (G * K) a' g"
  using assms(3-)
proof (induction k arbitrary: c state a)
  case 0
  have "bins (w_subblocks E tu coeff flags stt 0 c state) (r_subblocks D tu stt 0 c state a) a"
    by (rule codec_ext [OF _ _ codec_Some]) simp_all
  moreover have "view c0 (G * K) a g" using 0(7) by simp
  ultimately show ?case by blast
next
  case (Suc k)
  note ok' = ok [unfolded block_ok_def]
  have K: "K = 2 ^ m_log2CGSize c0" "0 < K" using ok' by simp_all
  have kL: "k \<le> L div K" using Suc.prems(1) by simp
  then have kG: "k < G" using ok' K(2) by (metis div_less_iff_less_mult order.strict_trans1)
  have flag: "flags ! k \<longleftrightarrow> (\<exists>i. k * K \<le> i \<and> i < k * K + K \<and> g i \<noteq> 0)" using ok' kG by blast
  have mL: "k * K \<le> L" using kL K(2) by (metis div_times_less_eq_dividend mult_le_mono1 order_trans)
  have mN: "k * K + K \<le> G * K" using kG by (metis Suc_leI add.commute mult_Suc mult_le_mono1)
  define c1 where "c1 = initSubblock (int k) False c"
  have blk: "same_block c1 c0" unfolding c1_def by (rule same_block_trans [OF same_block_init Suc.prems(2)])
  note q = same_block_queries [OF blk]
  have cg: "m_log2CGSize c = m_log2CGSize c0" "m_widthInGroups c = m_widthInGroups c0" "groupPos c = groupPos c0"
    using Suc.prems(2) by (auto simp: same_block_def groupPos_def fun_eq_iff)
  have cw: "initSubblock (int k) (flags ! k) c = (if flags ! k then setSigGroup c1 else c1)"
    using initSubblock_flag [of c "int k"] ok' by (auto simp: c1_def groups_ok_def cg)
  have skips: "skip_subblock tu (initSubblock (int k) f c) \<longleftrightarrow> skip_subblock tu (place_subblock (int k) c0)" for f
    by (rule skip_subblock_base [OF Suc.prems(2)])
  have gp: "groupPos c0 k \<noteq> groupPos c0 j" if "j < k" for j
  proof -
    have "inj_on (groupPos c0) {..<G}" using ok' by (simp add: groups_ok_def)
    then show ?thesis using that kG by (simp add: inj_on_eq_iff)
  qed
  have pos: "m_subSetPos c1 = int (groupPos c0 k)" "m_sigCoeffGroupFlag c1 = m_sigCoeffGroupFlag c" "groupPos c0 k < 1024"
    using kG ok' by (simp_all add: c1_def initSubblock_def Let_def cg groups_ok_def)
  have tm: "tmpl_ok (m_tmplCpDiag c1, m_tmplCpSum1 c1)" using Suc.prems(3) by (simp add: c1_def initSubblock_def Let_def)
  show ?case
  proof (cases "skip_subblock tu (place_subblock (int k) c0)")
    case True
    then have nf: "\<not> flags ! k" using ok' kG by blast
    then have zero: "g i = 0" if "k * K \<le> i" "i < Suc k * K" for i
      using flag that by (auto simp: add.commute)
    have "view c0 (G * K) a (\<lambda>i. if i < k * K then 0 else g i)"
      by (rule view_cong [OF Suc.prems(7)]) (use zero in auto)
    from Suc.IH [OF _ blk tm Suc.prems(4) _ _ this] Suc.prems(1,5,6) pos(2) obtain a' where
      IH: "bins (w_subblocks E tu coeff flags stt k c1 state) (r_subblocks D tu stt k c1 state a) a'" "view c0 (G * K) a' g" by auto
    have "bins (w_subblocks E tu coeff flags stt (Suc k) c state) (r_subblocks D tu stt (Suc k) c state a) a'"
      by (rule codec_ext, rule w_subblocks.simps(2), rule r_subblocks.simps(2), unfold Let_def,
          simp only: skips True if_True, simp only: cw nf if_False c1_def [symmetric], rule IH(1))
    with IH(2) show ?thesis by blast
  next
    case False
    have sub: "\<exists>cw cr st' a'. codec2 emits S (w_residual_coding_subblock E coeff stt (if flags ! k then setSigGroup c1 else c1) state) (cw, st')
        (r_residual_coding_subblock D stt c1 state a) (cr, st', a')
      \<and> view c1 (G * K) a' (\<lambda>i. if i < k * K then 0 else g i) \<and> st' < 4 \<and> tmpl_ok (m_tmplCpDiag cw, m_tmplCpSum1 cw)
      \<and> (k * K \<noteq> 0 \<longrightarrow> cr = cw) \<and> same_block cw c1
      \<and> m_sigCoeffGroupFlag cw \<in> {m_sigCoeffGroupFlag c1, (m_sigCoeffGroupFlag c1)[nat (m_subSetPos c1) := True]}"
    proof (rule subblock_codec)
      show "scan_ok c1 (G * K)" "sets_ok c1" "view c1 (G * K) coeff g" "\<And>i. i < G * K \<Longrightarrow> \<bar>g i\<bar> \<le> 2 ^ m_maxLog2TrDynamicRange c1"
        unfolding q using ok' coeff by auto
      show "ctx_in (m_sigGroupCtxId c1)" unfolding c1_def by (rule initSubblock_ctx)
      show "m_minSubPos c1 = int (k * K)" "m_maxSubPos c1 = int (k * K) + int K - 1"
        by (simp_all add: c1_def initSubblock_def Let_def cg K(1) push_bit_eq_mult)
      have "(2::nat) ^ m_log2CGSize c0 \<le> 2 ^ 4" using ok' by (intro power_increasing) auto
      then show "K \<le> 32" "0 < K" using K by simp_all
      show "k * K + K \<le> G * K" by (fact mN)
      show "isNotFirst c1 \<longleftrightarrow> k * K \<noteq> 0" using K(2) by (simp add: isNotFirst_def c1_def initSubblock_def Let_def)
      show "m_scanPosLast c1 = int L" unfolding q using ok' by simp
      have "m_subSetId c1 = int k" by (simp add: c1_def initSubblock_def Let_def)
      moreover have "m_log2CGSize c1 = m_log2CGSize c0" "m_scanPosLast c1 = int L" using blk ok' by (simp_all add: same_block_def)
      ultimately have "isLast c1 \<longleftrightarrow> int L div int K = int k" by (simp add: isLast_def drop_bit_eq_div K(1))
      also have "\<dots> \<longleftrightarrow> L div K = k" by (simp flip: zdiv_int)
      also have "\<dots> \<longleftrightarrow> L div K < k + 1" using kL by auto
      also have "\<dots> \<longleftrightarrow> L < k * K + K" using K(2) by (simp add: div_less_iff_less_mult add.commute)
      finally show "isLast c1 \<longleftrightarrow> L < k * K + K" .
      show "k * K \<le> L" by (fact mL)
      show "g L \<noteq> 0" "\<And>i. L < i \<Longrightarrow> i < G * K \<Longrightarrow> g i = 0" using ok' by auto
      show "\<not> isSigGroup c1" using Suc.prems(6) by (simp add: isSigGroup_def pos)
      show "isSigGroup (setSigGroup c1)" using Suc.prems(5) pos(3) by (simp add: isSigGroup_def pos(1,2))
      show "flags ! k \<longleftrightarrow> (\<exists>i. k * K \<le> i \<and> i < k * K + K \<and> g i \<noteq> 0)" by (fact flag)
      show "view c1 (G * K) a (\<lambda>i. if i < k * K + K then 0 else g i)" unfolding q using Suc.prems(7) by (simp add: add.commute)
      show "hide_ok c1 g (nonzeros g (k * K) (k * K + K))" unfolding hide_ok_def q using ok' kG unfolding hide_ok_def by blast
    qed (fact Suc.prems tm)+
    then obtain cw cr st' a2 where
      sb: "codec2 emits S (w_residual_coding_subblock E coeff stt (if flags ! k then setSigGroup c1 else c1) state) (cw, st')
        (r_residual_coding_subblock D stt c1 state a) (cr, st', a2)"
      "view c1 (G * K) a2 (\<lambda>i. if i < k * K then 0 else g i)" "st' < 4" "tmpl_ok (m_tmplCpDiag cw, m_tmplCpSum1 cw)"
      "k * K \<noteq> 0 \<longrightarrow> cr = cw" "same_block cw c1"
      "m_sigCoeffGroupFlag cw \<in> {m_sigCoeffGroupFlag c1, (m_sigCoeffGroupFlag c1)[nat (m_subSetPos c1) := True]}" by blast
    have "length (m_sigCoeffGroupFlag cw) = 1024" "\<forall>j < k. \<not> m_sigCoeffGroupFlag cw ! groupPos c0 j"
      using sb(7) Suc.prems(5,6) by (auto simp: pos(1,2) nth_list_update_neq [OF gp])
    with Suc.IH [OF _ same_block_trans [OF sb(6) blk] sb(4,3) _ _ sb(2) [unfolded q]] Suc.prems(1)
    obtain a' where IH: "bins (w_subblocks E tu coeff flags stt k cw st') (r_subblocks D tu stt k cw st' a2) a'" "view c0 (G * K) a' g" by auto
    have "r_subblocks D tu stt k cr st' a2 = r_subblocks D tu stt k cw st' a2"
    proof (cases k)
      case 0
      then show ?thesis by (intro ext) simp
    next
      case Suc
      with sb(5) K(2) show ?thesis by simp
    qed
    with IH(1) have rest: "bins (w_subblocks E tu coeff flags stt k cw st') (r_subblocks D tu stt k cr st' a2) a'" by simp
    have "bins (w_subblocks E tu coeff flags stt (Suc k) c state) (r_subblocks D tu stt (Suc k) c state a) a'"
      by (rule codec_ext, rule w_subblocks.simps(2), rule r_subblocks.simps(2), unfold Let_def,
          simp only: skips False if_False, simp only: cw c1_def [symmetric], rule codec2_then [OF sb(1)], simp only: prod.case, rule rest)
    with IH(2) show ?thesis by blast
  qed
qed

end

subsection \<open>Blocks that can be coded\<close>

text \<open>The conditions on the coefficients of a block: they lie in the part that is coded, fit the dynamic
  range, are not all zero, and with sign hiding the parity of each subblock gives its hidden sign.\<close>

definition coeff_limit :: "TuParams \<Rightarrow> nat \<Rightarrow> nat" where
  "coeff_limit tu side = (if sbt_zero_out tu \<and> side = 32 then 16 else JVET_C0024_ZERO_OUT_TH)"

definition scan_level :: "TuParams \<Rightarrow> int list \<Rightarrow> nat \<Rightarrow> int" where
  "scan_level tu coeff i = coeff ! se_idx (grouped_scan SCAN_DIAG (tu_width tu) (tu_height tu) ! i)"

definition hidden_sign_ok :: "(nat \<Rightarrow> int) \<Rightarrow> nat list \<Rightarrow> bool" where
  "hidden_sign_ok g ix \<longleftrightarrow> ix \<noteq> [] \<and> int (hd ix) - int (last ix) \<ge> SBH_THRESHOLD \<longrightarrow>
     (g (last ix) < 0 \<longleftrightarrow> sum_list (map (\<lambda>i. \<bar>g i\<bar>) ix) mod 2 = 1)"

definition residual_ok :: "TuParams \<Rightarrow> bool \<Rightarrow> int list \<Rightarrow> bool" where
  "residual_ok tu signHiding coeff \<longleftrightarrow>
     (let w = tu_width tu; h = tu_height tu; M = tu_maxLog2TrDynamicRange tu; (lw, lh) = sbbSize w h; K = 2 ^ (lw + lh)
      in w \<in> set (map ((^) 2) [0..<7]) \<and> h \<in> set (map ((^) 2) [0..<7]) \<and> 4 \<le> M \<and> M \<le> 27 \<and> length coeff = w * h
         \<and> (\<forall>p < w * h. coeff ! p \<noteq> 0 \<longrightarrow> p mod w < coeff_limit tu w \<and> p div w < coeff_limit tu h)
         \<and> (\<exists>p < w * h. coeff ! p \<noteq> 0)
         \<and> (\<forall>p < w * h. \<bar>coeff ! p\<bar> \<le> 2 ^ M)
         \<and> (signHiding \<longrightarrow> (\<forall>k < min 32 w * min 32 h div K.
               hidden_sign_ok (scan_level tu coeff) (nonzeros (scan_level tu coeff) (k * K) (k * K + K)))))"

lemma start_queries:
  fixes c :: CoeffCodingContext and x y
  defines "c' \<equiv> c\<lparr>m_scanPosLast := x, regBinLimit := y\<rparr>"
  shows "blockPos c' = blockPos c" and "scan_ok c' = scan_ok c" and "sets_ok c' = sets_ok c" and "groups_ok c' = groups_ok c"
    and "view c' = view c" and "hideSign c' = hideSign c"
proof -
  have f: "m_scan c' = m_scan c" "m_width c' = m_width c" "m_height c' = m_height c" "m_chType c' = m_chType c" "m_scanCG c' = m_scanCG c"
    "m_maxLog2TrDynamicRange c' = m_maxLog2TrDynamicRange c" "m_sigFlagCtxSet c' = m_sigFlagCtxSet c" "m_parFlagCtxSet c' = m_parFlagCtxSet c"
    "m_gtxFlagCtxSet c' = m_gtxFlagCtxSet c" "m_widthInGroups c' = m_widthInGroups c" "m_signHiding c' = m_signHiding c"
    by (simp_all add: c'_def)
  show b: "blockPos c' = blockPos c" by (rule ext) (simp only: blockPos_def f)
  have g: "groupPos c' = groupPos c" by (rule ext) (simp only: groupPos_def f)
  show "scan_ok c' = scan_ok c" "view c' = view c" by (intro ext, simp only: scan_ok_def view_def f b)+
  show "sets_ok c' = sets_ok c" by (simp only: sets_ok_def f)
  show "groups_ok c' = groups_ok c" by (rule ext) (simp only: groups_ok_def f g)
  show "hideSign c' = hideSign c" by (intro ext) (simp only: hideSign_def f)
qed

lemma residual_sizes:
  assumes "residual_ok tu signHiding coeff"
  obtains a b where "tu_width tu = 2 ^ a" and "tu_height tu = 2 ^ b" and "a \<le> 6" and "b \<le> 6"
  using assms by (auto simp: residual_ok_def Let_def split: prod.splits)

text \<open>The coefficients in scan order.\<close>

lemma residual_view:
  assumes ok: "residual_ok tu signHiding coeff" and ab: "tu_width tu = 2 ^ a" "tu_height tu = 2 ^ b" "a \<le> 6" "b \<le> 6"
  defines "c \<equiv> tu_context tu signHiding" and "g \<equiv> scan_level tu coeff"
  shows "view c (coded_size a b) coeff g"
    and "p < 2 ^ a * 2 ^ b \<Longrightarrow> coeff ! p \<noteq> 0 \<Longrightarrow> \<exists>i < coded_size a b. blockPos c i = p"
    and "i < 2 ^ a * 2 ^ b \<Longrightarrow> coeff ! blockPos c i \<noteq> 0 \<Longrightarrow> i < coded_size a b"
    and "i < coded_size a b \<Longrightarrow> coeff ! blockPos c i = g i"
proof -
  have ab7: "a \<le> 7" "b \<le> 7" using ab by simp_all
  have c: "c = CoeffCodingContext_new (toChannelType (tu_compID tu)) (2 ^ a) (2 ^ b) signHiding (tu_maxLog2TrDynamicRange tu) False"
    by (simp add: c_def tu_context_def ab)
  note cs = context_scan [OF ab7, where ch = "toChannelType (tu_compID tu)" and hide = signHiding and M = "tu_maxLog2TrDynamicRange tu" and bd = False, folded c]
  note cp = coded_positions_block [OF ab7, folded coded_size_def]
  have len: "length coeff = 2 ^ a * 2 ^ b" and lim: "\<And>p. p < 2 ^ a * 2 ^ b \<Longrightarrow> coeff ! p \<noteq> 0 \<Longrightarrow> p mod 2 ^ a < 32 \<and> p div 2 ^ a < 32"
    using ok by (auto simp: residual_ok_def Let_def ab coeff_limit_def JVET_C0024_ZERO_OUT_TH_def split: prod.splits if_splits)
  show gi: "i < coded_size a b \<Longrightarrow> coeff ! blockPos c i = g i" for i
  proof -
    have "m_scan c = grouped_scan SCAN_DIAG (2 ^ a) (2 ^ b)" by (simp add: c CoeffCodingContext_new_def Let_def split: prod.split)
    then show ?thesis by (simp add: g_def scan_level_def blockPos_def ab)
  qed
  show ex: "\<exists>i < coded_size a b. blockPos c i = p" if p: "p < 2 ^ a * 2 ^ b" "coeff ! p \<noteq> 0" for p
  proof -
    have "p div 2 ^ a < 2 ^ b" using p(1) by (simp add: div_less_iff_less_mult mult.commute)
    moreover have "p mod 2 ^ a < 2 ^ a" by simp
    moreover have "(2::nat) ^ min 5 n = min 32 (2 ^ n)" for n using min_zero_out [of n] by (simp add: JVET_C0024_ZERO_OUT_TH_def)
    ultimately have "(p mod 2 ^ a, p div 2 ^ a) \<in> set (coded_positions a b)" using lim [OF p] by (simp add: cp(2))
    then obtain i where i: "i < coded_size a b" "coded_positions a b ! i = (p mod 2 ^ a, p div 2 ^ a)" unfolding in_set_conv_nth cp(3) by blast
    then have "blockPos c i = p" using cs(3) [OF i(1)] div_mult_mod_eq [of p "2 ^ a"] by (simp add: blockPos_def scan_elem_def)
    with i(1) show ?thesis by blast
  qed
  show "view c (coded_size a b) coeff g" unfolding view_def cs(1,2) len
    using gi ex by blast
  show "i < coded_size a b" if i: "i < 2 ^ a * 2 ^ b" "coeff ! blockPos c i \<noteq> 0" for i
  proof (rule ccontr)
    assume not: "\<not> i < coded_size a b"
    have bp: "blockPos c i = (2 ^ b - 1) * 2 ^ a + (2 ^ a - 1)" using cs(4) not i(1) by (simp add: blockPos_def scan_elem_def)
    have "(2 ^ b - 1) * 2 ^ a + (2 ^ a - 1) < 2 ^ a * (2 ^ b :: nat)" by (rule raster_less) simp_all
    with lim [of "blockPos c i"] i(2) have m: "((2 ^ b - 1) * 2 ^ a + (2 ^ a - 1)) mod 2 ^ a < (32::nat)" "((2 ^ b - 1) * 2 ^ a + (2 ^ a - 1)) div 2 ^ a < (32::nat)"
      unfolding bp by blast+
    have "((2 ^ b - 1) * 2 ^ a + (2 ^ a - 1)) mod 2 ^ a = (2 ^ a - 1 :: nat)" by (simp only: mod_mult_self3) simp
    moreover have "((2 ^ b - 1) * 2 ^ a + (2 ^ a - 1)) div 2 ^ a = (2 ^ b - 1 :: nat)" by (subst div_mult_self3) simp_all
    ultimately have "(2::nat) ^ a < 2 ^ 6" "(2::nat) ^ b < 2 ^ 6" using m by simp_all
    then have "a < 6" "b < 6" by (simp_all only: power_strict_increasing_iff one_less_numeral_iff num.distinct semiring_norm)
    then have "min 5 a = a" "min 5 b = b" by simp_all
    then have "coded_size a b = 2 ^ a * 2 ^ b" by (simp only: coded_size_def)
    with not i(1) show False by simp
  qed
qed

text \<open>A skipped group holds no coefficients.\<close>

lemma residual_skip:
  assumes ok: "residual_ok tu signHiding coeff" and ab: "tu_width tu = 2 ^ a" "tu_height tu = 2 ^ b" "a \<le> 6" "b \<le> 6"
    and c: "c = tu_context tu signHiding" "K = 2 ^ m_log2CGSize c" "coded_size a b = G * K" and k: "k < G"
    and skip: "skip_subblock tu (place_subblock (int k) (c\<lparr>m_scanPosLast := x, regBinLimit := y\<rparr>))"
    and i: "k * K \<le> i" "i < k * K + K"
  shows "scan_level tu coeff i = 0"
proof (rule ccontr)
  assume nz: "scan_level tu coeff i \<noteq> 0"
  have ab7: "a \<le> 7" "b \<le> 7" using ab by simp_all
  obtain lw lh where l: "sbbSize (2 ^ a) (2 ^ b) = (lw, lh)" by fastforce
  note le = sbbSize_le [OF ab7, unfolded l fst_conv snd_conv]
  let ?wg = "2 ^ (min 5 a - lw) :: nat" and ?hg = "2 ^ (min 5 b - lh) :: nat"
  have f: "m_widthInGroups c = ?wg" "m_scanCG c = ungrouped_scan SCAN_DIAG ?wg ?hg" "m_log2CGSize c = lw + lh"
    "m_log2CGWidth c = lw" "m_log2CGHeight c = lh"
    using le by (simp_all add: c(1) tu_context_def ab CoeffCodingContext_new_def l min_zero_out drop_bit_exp Let_def)
  have K: "K = 2 ^ lw * 2 ^ lh" by (simp add: c(2) f(3) power_add)
  have "coded_size a b = ?wg * ?hg * K"
  proof -
    have "2 ^ min 5 a = ?wg * 2 ^ lw" "2 ^ min 5 b = ?hg * 2 ^ lh" using le by (simp_all flip: power_add)
    then show ?thesis by (simp add: coded_size_def K)
  qed
  then have kG: "k < ?wg * ?hg" using k c(3) by (simp add: K)
  have r: "i = k * (2 ^ lw * 2 ^ lh) + (i - k * K)" "i - k * K < 2 ^ lw * 2 ^ lh" using i by (auto simp: K)
  have iN: "i < coded_size a b" using i k unfolding c(3) by (metis Suc_leI add.commute mult_Suc mult_le_mono1 order.strict_trans2)
  let ?G = "ungrouped_scan SCAN_DIAG ?wg ?hg ! k" and ?P = "coded_positions a b ! i"
  note grp = coded_positions_group [OF ab7 l kG r(2), folded r(1)]
  note run = ungrouped_scan_run [of ?wg ?hg SCAN_DIAG]
  have lo: "length (gen_run (?wg * ?hg) (ScanGenerator_new ?wg ?hg ?wg SCAN_DIAG)) = ?wg * ?hg"
    using distinct_card [OF run(3)] run(4) by simp
  define q where "q = gen_run (?wg * ?hg) (ScanGenerator_new ?wg ?hg ?wg SCAN_DIAG) ! k"
  have "?G = scan_elem ?wg q" unfolding q_def using run(1) lo kG by simp
  moreover have "q \<in> {..<?wg} \<times> {..<?hg}" unfolding q_def using run(4) lo kG by (metis nth_mem zero_less_power zero_less_numeral)
  ultimately have G: "se_idx ?G = se_y ?G * ?wg + se_x ?G" "se_x ?G < ?wg" by (auto simp: scan_elem_def)
  have pos: "m_subSetPosY (place_subblock (int k) (c\<lparr>m_scanPosLast := x, regBinLimit := y\<rparr>)) = int (se_y ?G)"
    "m_subSetPosX (place_subblock (int k) (c\<lparr>m_scanPosLast := x, regBinLimit := y\<rparr>)) = int (se_x ?G)"
  proof -
    let ?c = "place_subblock (int k) (c\<lparr>m_scanPosLast := x, regBinLimit := y\<rparr>)"
    have Y: "m_subSetPosY ?c = int (se_idx ?G) div int ?wg" and X: "m_subSetPosX ?c = int (se_idx ?G) - int (se_idx ?G) div int ?wg * int ?wg"
      by (simp_all only: place_subblock_def Let_def f CoeffCodingContext.simps nat_int) (simp_all add: f)
    have d: "int (se_idx ?G) div int ?wg = int (se_y ?G)"
    proof -
      have "se_idx ?G div ?wg = se_y ?G" unfolding G(1) using G(2) by simp
      then show ?thesis by (simp only: zdiv_int [symmetric])
    qed
    show "m_subSetPosY ?c = int (se_y ?G)" unfolding Y by (fact d)
    have "int (se_idx ?G) = int (se_y ?G) * int ?wg + int (se_x ?G)" unfolding G(1) by (simp only: of_nat_add of_nat_mult)
    then show "m_subSetPosX ?c = int (se_x ?G)" unfolding X d by linarith
  qed
  have fields: "m_log2CGWidth (place_subblock (int k) (c\<lparr>m_scanPosLast := x, regBinLimit := y\<rparr>)) = lw"
    "m_log2CGHeight (place_subblock (int k) (c\<lparr>m_scanPosLast := x, regBinLimit := y\<rparr>)) = lh"
    by (simp_all add: place_subblock_def Let_def f)
  have big: "16 \<le> z" if "drop_bit n (16::int) \<le> int (z div 2 ^ n)" "n \<le> 4" for z n :: nat
  proof -
    have "drop_bit n (16::int) = int (16 div 2 ^ n)" by (simp add: drop_bit_eq_div zdiv_int)
    then have "(16::nat) div 2 ^ n \<le> z div 2 ^ n" using that(1) by (simp only: of_nat_le_iff)
    then have "16 div 2 ^ n * 2 ^ n \<le> z" by (metis div_times_less_eq_dividend mult_le_mono1 order_trans)
    moreover have "(16::nat) div 2 ^ n * 2 ^ n = 16"
    proof -
      have "(2::nat) ^ n dvd 2 ^ 4" using that(2) by (rule le_imp_power_dvd)
      then show ?thesis by simp
    qed
    ultimately show ?thesis by simp
  qed
  have "lw \<le> 4" "lh \<le> 4" using le by simp_all
  with skip have far: "sbt_zero_out tu" "tu_height tu = 32 \<and> 16 \<le> snd ?P \<or> tu_width tu = 32 \<and> 16 \<le> fst ?P"
    unfolding skip_subblock_def pos fields grp [symmetric] by (auto intro: big)
  note rv = residual_view [OF ok ab, folded c(1)]
  have bp: "blockPos c i = snd ?P * 2 ^ a + fst ?P"
    using context_scan(3) [OF ab7 iN] by (simp add: c(1) tu_context_def ab blockPos_def scan_elem_def)
  have lt: "fst ?P < 2 ^ a" "snd ?P < 2 ^ b" using coded_pos_bounds [OF ab7 iN] by simp_all
  then have "blockPos c i < 2 ^ a * 2 ^ b" unfolding bp by (rule raster_less)
  moreover have "coeff ! blockPos c i \<noteq> 0" using rv(4) [OF iN] nz by simp
  ultimately have "blockPos c i mod 2 ^ a < coeff_limit tu (2 ^ a)" "blockPos c i div 2 ^ a < coeff_limit tu (2 ^ b)"
    using ok by (auto simp: residual_ok_def Let_def ab split: prod.splits)
  then have "fst ?P < coeff_limit tu (2 ^ a)" "snd ?P < coeff_limit tu (2 ^ b)" unfolding bp using lt by simp_all
  with far ab(1,2) show False by (auto simp: coeff_limit_def)
qed

lemma residual_block:
  assumes ok: "residual_ok tu signHiding coeff" and ab: "tu_width tu = 2 ^ a" "tu_height tu = 2 ^ b" "a \<le> 6" "b \<le> 6"
    and c: "c = tu_context tu signHiding"
  obtains G K L where "block_ok tu (c\<lparr>m_scanPosLast := int L, regBinLimit := y\<rparr>) G K L (scan_level tu coeff) (snd (scan_coeffs c coeff (m_maxNumCoeff c)))"
    and "fst (scan_coeffs c coeff (m_maxNumCoeff c)) = int L" and "L < coded_size a b" and "coded_size a b = G * K"
    and "K = 2 ^ m_log2CGSize c" and "last_pos_ok tu (coded_positions a b ! L)"
proof -
  let ?N = "coded_size a b" and ?M = "tu_maxLog2TrDynamicRange tu" and ?ch = "toChannelType (tu_compID tu)"
  define g where "g = scan_level tu coeff"
  have ab7: "a \<le> 7" "b \<le> 7" using ab by simp_all
  have cn: "c = CoeffCodingContext_new ?ch (2 ^ a) (2 ^ b) signHiding ?M False" by (simp add: c tu_context_def ab)
  note rv = residual_view [OF ok ab, folded c g_def]
  have parts: "4 \<le> ?M" "?M \<le> 27" "\<exists>p < 2 ^ a * 2 ^ b. coeff ! p \<noteq> 0" "\<And>p. p < 2 ^ a * 2 ^ b \<Longrightarrow> \<bar>coeff ! p\<bar> \<le> 2 ^ ?M"
    "\<And>p. p < 2 ^ a * 2 ^ b \<Longrightarrow> coeff ! p \<noteq> 0 \<Longrightarrow> p mod 2 ^ a < coeff_limit tu (2 ^ a) \<and> p div 2 ^ a < coeff_limit tu (2 ^ b)"
    using ok by (auto simp: residual_ok_def Let_def ab split: prod.splits)
  note cs = context_scan [OF ab7, where ch = ?ch and hide = signHiding and M = ?M and bd = False, folded cn]
  obtain G where G: "groups_ok c G" "?N = G * 2 ^ m_log2CGSize c" "m_log2CGSize c \<le> 4" "G \<le> 1024"
    by (rule context_groups [OF ab7, of ?ch signHiding ?M False, folded cn])
  define K :: nat where "K = 2 ^ m_log2CGSize c"
  have K: "0 < K" "?N = G * K" using G(2) by (simp_all add: K_def)
  have bpN: "blockPos c i < 2 ^ a * 2 ^ b" if "i < ?N" for i
    using context_scan_ok [OF ab7, of ?ch signHiding ?M False, folded cn] that by (simp add: scan_ok_def cs(1,2))
  have leN: "?N \<le> 2 ^ a * 2 ^ b" by (rule coded_size_le)
  have "\<exists>i < ?N. g i \<noteq> 0" using parts(3) rv(2,4) by metis
  then obtain L where L: "L < ?N" "g L \<noteq> 0" "\<And>i. i < ?N \<Longrightarrow> g i \<noteq> 0 \<Longrightarrow> i \<le> L"
  proof -
    let ?A = "{i. i < ?N \<and> g i \<noteq> 0}"
    have fin: "finite ?A" by simp
    moreover assume "\<exists>i < ?N. g i \<noteq> 0"
    ultimately have "Max ?A \<in> ?A" by (intro Max_in) auto
    with that [of "Max ?A"] fin show ?thesis by auto
  qed
  have beyond: "coeff ! blockPos c i = 0" if "L < i" "i < 2 ^ a * 2 ^ b" for i
  proof (rule ccontr)
    assume "coeff ! blockPos c i \<noteq> 0"
    with rv(3) [OF that(2)] rv(4) have "i < ?N" "g i \<noteq> 0" by auto
    with L(3) that(1) show False by fastforce
  qed
  let ?flags = "snd (scan_coeffs c coeff (m_maxNumCoeff c))"
  have last: "fst (scan_coeffs c coeff (m_maxNumCoeff c)) = int L" unfolding cs(5)
    by (rule scan_coeffs_spec(3)) (use L rv(4) beyond leN in auto)
  have flags: "?flags ! k \<longleftrightarrow> (\<exists>i. k * K \<le> i \<and> i < k * K + K \<and> g i \<noteq> 0)" if "k < G" for k
  proof -
    have "?flags ! k \<longleftrightarrow> (\<exists>p < 2 ^ a * 2 ^ b. coeff ! blockPos c p \<noteq> 0 \<and> p div K = k)"
      unfolding cs(5) K_def using that G(4) by (intro scan_coeffs_spec(2)) simp
    also have "\<dots> \<longleftrightarrow> (\<exists>p < ?N. g p \<noteq> 0 \<and> p div K = k)" using rv(3,4) leN by (metis order.strict_trans2)
    also have "\<dots> \<longleftrightarrow> (\<exists>i. k * K \<le> i \<and> i < k * K + K \<and> g i \<noteq> 0)"
    proof -
      have "k * K + K \<le> ?N" unfolding K(2) using that by (metis Suc_leI add.commute mult_Suc mult_le_mono1)
      moreover have "p div K = k \<longleftrightarrow> k * K \<le> p \<and> p < k * K + K" for p
      proof -
        have "p div K = k \<longleftrightarrow> k \<le> p div K \<and> p div K < Suc k" by auto
        then show ?thesis using K(1) by (simp add: less_eq_div_iff_mult_less_eq div_less_iff_less_mult add.commute)
      qed
      ultimately show ?thesis by (auto intro: order.strict_trans2)
    qed
    finally show ?thesis .
  qed
  have hid: "hide_ok c g (nonzeros g (k * K) (k * K + K))" if "k < G" for k
  proof -
    obtain lw lh where l: "sbbSize (2 ^ a) (2 ^ b) = (lw, lh)" by fastforce
    have mn: "(2::nat) ^ min 5 n = min 32 (2 ^ n)" for n using min_zero_out [of n] by (simp add: JVET_C0024_ZERO_OUT_TH_def)
    have f: "m_signHiding c = signHiding" "m_log2CGSize c = lw + lh" by (simp_all add: cn CoeffCodingContext_new_def l Let_def)
    have "min 32 (2 ^ a) * min 32 (2 ^ b) = G * K" using K(2) by (simp only: coded_size_def mn)
    then have "G = min 32 (2 ^ a) * min 32 (2 ^ b) div K" using K(1) by simp
    then have "signHiding \<Longrightarrow> hidden_sign_ok g (nonzeros g (k * K) (k * K + K))"
      using ok that by (simp add: residual_ok_def Let_def ab l g_def K_def f(2))
    then show ?thesis by (auto simp: hide_ok_def hidden_sign_ok_def hideSign_def f(1))
  qed
  have skip: "\<not> ?flags ! k" if "k < G" "skip_subblock tu (place_subblock (int k) (c\<lparr>m_scanPosLast := int L, regBinLimit := y\<rparr>))" for k
    unfolding flags [OF that(1)] using residual_skip [OF ok ab c K_def K(2) that, folded g_def] by blast
  let ?c = "c\<lparr>m_scanPosLast := int L, regBinLimit := y\<rparr>"
  have fields: "m_log2CGSize ?c = m_log2CGSize c" "m_maxLog2TrDynamicRange ?c = ?M" "m_scanPosLast ?c = int L"
    by (simp_all add: cn CoeffCodingContext_new_def Let_def split: prod.split)
  have hide': "hide_ok ?c g ix = hide_ok c g ix" for ix by (simp only: hide_ok_def start_queries)
  have "block_ok tu ?c G K L g ?flags"
    unfolding block_ok_def start_queries fields hide' K(2) [symmetric]
  proof (intro conjI allI impI)
    show "scan_ok c ?N" unfolding cn by (rule context_scan_ok [OF ab7])
    show "sets_ok c" unfolding cn by (rule context_sets_ok [OF parts(1,2)])
    show "\<bar>g i\<bar> \<le> 2 ^ ?M" if "i < ?N" for i using parts(4) [OF bpN [OF that]] rv(4) [OF that] by simp
    show "g i = 0" if "i < ?N" "L < i" for i using L(3) [OF that(1)] that(2) by fastforce
  qed (use G L flags hid skip K_def in blast)+
  moreover have "last_pos_ok tu (coded_positions a b ! L)"
  proof -
    let ?P = "coded_positions a b ! L"
    have bp: "blockPos c L = snd ?P * 2 ^ a + fst ?P" using cs(3) [OF L(1)] by (simp add: blockPos_def scan_elem_def)
    have lt: "fst ?P < 2 ^ a" "snd ?P < 2 ^ b" using coded_pos_bounds [OF ab7 L(1)] by simp_all
    have "coeff ! blockPos c L \<noteq> 0" using rv(4) [OF L(1)] L(2) by simp
    from parts(5) [OF bpN [OF L(1)] this] have "fst ?P < coeff_limit tu (2 ^ a)" "snd ?P < coeff_limit tu (2 ^ b)" unfolding bp using lt by simp_all
    then show ?thesis by (auto simp: last_pos_ok_def coeff_limit_def ab)
  qed
  ultimately show thesis using that [of L G K] last L(1) K(2) K_def unfolding g_def by blast
qed

text \<open>The reader starts from an empty block.\<close>

lemma view_empty:
  assumes "scan_ok c n" and "g = (\<lambda>_. 0)"
  shows "view c n (replicate (m_width c * m_height c) 0) g"
  using assms by (auto simp: view_def scan_ok_def)

context cabac_channel
begin

lemma residual_codec:
  assumes ok: "residual_ok tu signHiding coeff"
  shows "\<exists>cu'. codec2 emits S (w_residual_coding E tu signHiding coeff (Some cu)) (Some cu')
    (r_residual_coding D tu signHiding (replicate (tu_width tu * tu_height tu) 0) cu) (coeff, cu')"
proof -
  obtain a b where ab: "tu_width tu = 2 ^ a" "tu_height tu = 2 ^ b" "a \<le> 6" "b \<le> 6" by (rule residual_sizes [OF ok])
  have ab7: "a \<le> 7" "b \<le> 7" using ab by simp_all
  define c where "c = tu_context tu signHiding"
  have cn: "c = CoeffCodingContext_new (toChannelType (tu_compID tu)) (2 ^ a) (2 ^ b) signHiding (tu_maxLog2TrDynamicRange tu) False"
    by (simp add: c_def tu_context_def ab)
  obtain G K L where blk: "block_ok tu (c\<lparr>m_scanPosLast := int L, regBinLimit := tu_regBinLimit tu\<rparr>) G K L (scan_level tu coeff) (snd (scan_coeffs c coeff (m_maxNumCoeff c)))"
    and L: "fst (scan_coeffs c coeff (m_maxNumCoeff c)) = int L" "L < coded_size a b" and N: "coded_size a b = G * K" "K = 2 ^ m_log2CGSize c"
    and lp: "last_pos_ok tu (coded_positions a b ! L)"
    by (rule residual_block [OF ok ab c_def])
  let ?c = "c\<lparr>m_scanPosLast := int L, regBinLimit := tu_regBinLimit tu\<rparr>"
  note cs = context_scan [OF ab7, where ch = "toChannelType (tu_compID tu)" and hide = signHiding and M = "tu_maxLog2TrDynamicRange tu" and bd = False, folded cn]
  have scan: "scan_ok c (G * K)" using context_scan_ok [OF ab7, folded cn] by (simp add: N(1) [symmetric] cn context_scan_ok ab7)
  have new: "m_tmplCpDiag c = - 1" "m_sigCoeffGroupFlag c = replicate 1024 False"
    by (simp_all add: cn CoeffCodingContext_new_def Let_def split: prod.split)
  have kk: "nat (drop_bit (m_log2CGSize ?c) (int L)) + 1 = L div K + 1" by (simp add: N(2) drop_bit_eq_div nat_div_distrib nat_power_eq)
  have "\<exists>a'. bins (w_subblocks E tu coeff (snd (scan_coeffs c coeff (m_maxNumCoeff c))) (stateTab tu) (L div K + 1) ?c 0)
      (r_subblocks D tu (stateTab tu) (L div K + 1) ?c 0 (replicate (tu_width tu * tu_height tu) 0)) a' \<and> view ?c (G * K) a' (scan_level tu coeff)"
  proof (rule subblocks_codec [OF blk])
    show "view ?c (G * K) coeff (scan_level tu coeff)" unfolding start_queries N(1) [symmetric] c_def by (rule residual_view(1) [OF ok ab])
    show "L div K + 1 \<le> L div K + 1" "same_block ?c ?c" "(0::nat) < 4" by (simp_all add: same_block_def)
    show "tmpl_ok (m_tmplCpDiag ?c, m_tmplCpSum1 ?c)" "length (m_sigCoeffGroupFlag ?c) = 1024" by (simp_all add: tmpl_ok_def new)
    have gr: "groups_ok ?c G" using blk by (simp only: block_ok_def)
    have "L div K < G" using L(2) N by (simp add: div_less_iff_less_mult)
    then have "groupPos ?c j < 1024" if "j < L div K + 1" for j using gr that unfolding groups_ok_def by auto
    then show "\<forall>j < L div K + 1. \<not> m_sigCoeffGroupFlag ?c ! groupPos ?c j" by (simp add: new)
    have "(if i < (L div K + 1) * K then 0 else scan_level tu coeff i) = 0" if "i < G * K" for i
    proof (cases "i < (L div K + 1) * K")
      case False
      have "0 < K" using N(2) by simp
      then have "L < (L div K + 1) * K" using dividend_less_times_div [of K L] by (simp add: mult.commute)
      then have "L < i" using False by linarith
      with blk that show ?thesis unfolding block_ok_def by auto
    qed simp
    then show "view ?c (G * K) (replicate (tu_width tu * tu_height tu) 0) (\<lambda>i. if i < (L div K + 1) * K then 0 else scan_level tu coeff i)"
      unfolding start_queries using view_cong [OF view_empty [OF scan refl, unfolded cs(1,2)]] by (simp only: ab)
  qed
  then obtain a' where sub: "bins (w_subblocks E tu coeff (snd (scan_coeffs c coeff (m_maxNumCoeff c))) (stateTab tu) (L div K + 1) ?c 0)
      (r_subblocks D tu (stateTab tu) (L div K + 1) ?c 0 (replicate (tu_width tu * tu_height tu) 0)) a'" and a': "view ?c (G * K) a' (scan_level tu coeff)"
    by blast
  have eq: "a' = coeff"
    using view_eq [OF a' [unfolded start_queries] residual_view(1) [OF ok ab, folded c_def, unfolded N(1)]] by simp
  have last: "bins (w_last_sig_coeff E tu (c\<lparr>m_scanPosLast := int L\<rparr>)) (r_last_sig_coeff D tu c) L"
    by (rule last_sig_codec [OF ab cn L(2) lp])
  have sc: "scan_coeffs c coeff (m_maxNumCoeff c) = (int L, snd (scan_coeffs c coeff (m_maxNumCoeff c)))" using L(1) by (metis prod.collapse)
  have neg: "(int L < 0) = False" by simp
  have "codec2 emits S (w_residual_coding E tu signHiding coeff (Some cu)) (Some (note_last tu (c\<lparr>m_scanPosLast := int L\<rparr>) cu))
    (r_residual_coding D tu signHiding (replicate (tu_width tu * tu_height tu) 0) cu) (coeff, note_last tu (c\<lparr>m_scanPosLast := int L\<rparr>) cu)"
    by (rule codec2_ext, rule w_residual_coding_def, rule r_residual_coding_def, unfold Let_def c_def [symmetric],
        subst sc, simp only: prod.case neg if_False, rule codec2_step [OF last], simp only: kk,
        rule codec2_step [OF sub [unfolded eq]], simp only: option.map, rule codec2_Some [OF refl refl])
  then show ?thesis by blast
qed

end

lemma codec2_result:
  assumes "codec2 emits S W w R v"
  shows "codec emits S (\<lambda>s. Option.bind (W s) (\<lambda>(x, s). if x = w then Some s else None)) R v"
  using assms unfolding codec2_def codec_def writes_def by fastforce

text \<open>C19: the coefficients of every block that can be coded, of any size up to 64 columns and rows, luma or
  chroma, with or without sign hiding and dependent quantisation, are written by \<^verbatim>\<open>residual_coding\<close> into a
  code word from which the reader recovers exactly these coefficients, and both sides derive the
  same constraints for the transform indices of the coding unit.\<close>

theorem residual_coding_roundtrip:
  assumes "residual_ok tu signHiding coeff"
  shows "\<exists>cu' Y d. encode_with (slice_contexts qp t) (\<lambda>e. do {
        (x, e) \<leftarrow> w_residual_coding BinEncoder_Std tu signHiding coeff (Some cu) e;
        if x = Some cu' then Some e else None }) = Some Y \<and> bytes_ok Y
    \<and> decode_with (slice_contexts qp t)
        (r_residual_coding BinDecoder_Std tu signHiding (replicate (tu_width tu * tu_height tu) 0) cu) Y = Some ((coeff, cu'), d)
    \<and> i_fifo_idx (d_bitstream d) = length (i_fifo (d_bitstream d))"
proof -
  from vtm.residual_codec [OF assms, of qp t cu] obtain cu' where
    "codec2 (enc_emits (slice_contexts qp t)) dec_sources (w_residual_coding BinEncoder_Std tu signHiding coeff (Some cu)) (Some cu')
      (r_residual_coding BinDecoder_Std tu signHiding (replicate (tu_width tu * tu_height tu) 0) cu) (coeff, cu')" by blast
  from bins_roundtrip [OF codec2_result [OF this]] show ?thesis by blast
qed

definition example_tu :: TuParams where
  "example_tu = \<lparr>tu_compID = COMPONENT_Y, tu_width = 4, tu_height = 4, tu_useMTS = True, tu_sbtInfo = 0,
     tu_transQuantBypass = False, tu_depQuantEnabled = False, tu_maxLog2TrDynamicRange = 15\<rparr>"

definition example_coeff :: "int list" where
  "example_coeff = [- 18, 7, 0, 0, 5, 2, 0, 0, - 1, 0, 0, 0, 0, 0, 0, 0]"

definition example_cu :: CUCtx where
  "example_cu = \<lparr>isDQPCoded = False, isChromaQpAdjCoded = False, qgStart = False, lfnstLastScanPos = False, cu_qp = 32,
     violatesLfnstLuma = False, violatesLfnstChroma = False, violatesMtsCoeffConstraint = False\<rparr>"

lemma sbbSize_4: "sbbSize 4 4 = (2, 2)"
proof -
  have "floorLog2 4 = 2" using floorLog2_power [of 2] by simp
  then show ?thesis by (simp add: sbbSize_def g_log2SbbSize_def)
qed

lemma gen_run_numeral: "gen_run (numeral k) g = (m_column g, m_line g) # gen_run (pred_numeral k) (advance g)"
  by (simp add: numeral_eq_Suc)

lemma scan_4: "map se_idx (grouped_scan SCAN_DIAG 4 4) = [0, 4, 1, 8, 5, 2, 12, 9, 6, 3, 13, 10, 7, 14, 11, 15]"
proof -
  have run: "gen_run 16 (ScanGenerator_new 4 4 4 SCAN_DIAG) = [(0, 0), (0, 1), (1, 0), (0, 2), (1, 1), (2, 0), (0, 3), (1, 2), (2, 1), (3, 0),
      (1, 3), (2, 2), (3, 1), (2, 3), (3, 2), (3, 3)]"
    by (simp add: gen_run_numeral ScanGenerator_new_def advance_def advance_diag_def)
  have "gen_run 1 (ScanGenerator_new 1 1 4 SCAN_DIAG) = [(0, 0)]" by (simp add: ScanGenerator_new_def)
  then have "coded_positions 2 2 = gen_run 16 (ScanGenerator_new 4 4 4 SCAN_DIAG)"
    by (simp add: coded_positions_def coded_positions_of_def sbbSize_4 grp_positions_def run grp_place_def)
  with grouped_scan_diag [of 2 2] show ?thesis by (simp add: run scan_elem_def)
qed

lemma example_ok: "residual_ok example_tu True example_coeff"
proof -
  have "length (map se_idx (grouped_scan SCAN_DIAG 4 4)) = 16" unfolding scan_4 by simp
  then have len: "length (grouped_scan SCAN_DIAG 4 4) = 16" by simp
  let ?l = "\<lambda>i. example_coeff ! ([0, 4, 1, 8, 5, 2, 12, 9, 6, 3, 13, 10, 7, 14, 11, 15] ! i)"
  have lev: "scan_level example_tu example_coeff i = ?l i" if "i < 16" for i
  proof -
    have "map se_idx (grouped_scan SCAN_DIAG 4 4) ! i = se_idx (grouped_scan SCAN_DIAG 4 4 ! i)" using that len by (intro nth_map) simp
    then show ?thesis unfolding scan_4 by (simp only: scan_level_def example_tu_def TuParams.simps)
  qed
  have nz: "nonzeros (scan_level example_tu example_coeff) 0 16 = [4, 3, 2, 1, 0]"
  proof -
    have "nonzeros (scan_level example_tu example_coeff) 0 16 = nonzeros ?l 0 16"
      unfolding nonzeros_def by (rule filter_cong) (use lev in auto)
    also have "\<dots> = [4, 3, 2, 1, 0]" 
    proof -
      have "[0..<16] = [0::nat, 1, 2, 3, 4, 5, 6, 7, 8, 9, 10, 11, 12, 13, 14, 15]" by (simp add: upt_conv_Cons)
      then show ?thesis by (simp add: nonzeros_def example_coeff_def del: upt_Suc)
    qed
    finally show ?thesis .
  qed
  have "hidden_sign_ok (scan_level example_tu example_coeff) [4, 3, 2, 1, 0]"
    by (simp add: hidden_sign_ok_def SBH_THRESHOLD_def lev) (simp add: example_coeff_def)
  moreover have "\<forall>p < 16. example_coeff ! p \<noteq> 0 \<longrightarrow> p mod 4 < (32::nat) \<and> p div 4 < (32::nat)" by (auto simp: div_less_iff_less_mult)
  moreover have "\<forall>p < 16. \<bar>example_coeff ! p\<bar> \<le> 2 ^ 15"
    by (simp add: example_coeff_def All_less_Suc numeral_eq_Suc)
  moreover have "\<exists>p < 16. example_coeff ! p \<noteq> 0" by (rule exI [of _ 0]) (simp add: example_coeff_def)
  moreover have "length example_coeff = 16" by (simp add: example_coeff_def)
  moreover have "(4::nat) \<in> (^) 2 ` {0..<7}" by (rule image_eqI [of _ _ 2]) simp_all
  ultimately show ?thesis
    using nz by (simp add: residual_ok_def example_tu_def coeff_limit_def sbt_zero_out_def JVET_C0024_ZERO_OUT_TH_def sbbSize_4 Let_def del: upt_Suc)
qed

theorem residual_coding_roundtrip_witness:
  "\<exists>cu' Y d. encode_with (slice_contexts 32 I_SLICE) (\<lambda>e. do {
        (x, e) \<leftarrow> w_residual_coding BinEncoder_Std example_tu True example_coeff (Some example_cu) e;
        if x = Some cu' then Some e else None }) = Some Y \<and> bytes_ok Y
    \<and> decode_with (slice_contexts 32 I_SLICE)
        (r_residual_coding BinDecoder_Std example_tu True (replicate (tu_width example_tu * tu_height example_tu) 0) example_cu) Y
      = Some ((example_coeff, cu'), d)
    \<and> i_fifo_idx (d_bitstream d) = length (i_fifo (d_bitstream d))"
  by (rule residual_coding_roundtrip [OF example_ok])

end
