(* ===== verification/Sao.thy ===== *)
theory Sao
  imports TransformBlock
begin

section \<open>Sample adaptive offset parameters\<close>

text \<open>
  The parameters of the sample adaptive offset filter of a coding tree unit (\<^verbatim>\<open>SAOOffset\<close> and
  \<^verbatim>\<open>SAOBlkParam\<close> of \<^verbatim>\<open>TypeDef.h\<close>), their syntax in \<^verbatim>\<open>CABACWriter::sao\<close> and \<^verbatim>\<open>CABACReader::sao\<close>, and their
  reconstruction in \<^verbatim>\<open>SampleAdaptiveOffset.cpp\<close>.  Whether the coding tree unit to the left and above
  may be merged with (\<^verbatim>\<open>getCURestricted\<close>) is an argument.
\<close>

datatype SAOMode = SAO_MODE_OFF | SAO_MODE_NEW | SAO_MODE_MERGE

definition SAO_MERGE_LEFT :: int where "SAO_MERGE_LEFT = 0"
definition SAO_MERGE_ABOVE :: int where "SAO_MERGE_ABOVE = 1"
definition SAO_TYPE_START_EO :: int where "SAO_TYPE_START_EO = 0"
definition SAO_TYPE_BO :: int where "SAO_TYPE_BO = 4"
definition SAO_CLASS_EO_PLAIN :: nat where "SAO_CLASS_EO_PLAIN = 2"
definition NUM_SAO_EO_CLASSES :: nat where "NUM_SAO_EO_CLASSES = 5"
definition NUM_SAO_BO_CLASSES :: nat where "NUM_SAO_BO_CLASSES = 32"
definition MAX_NUM_SAO_CLASSES :: nat where "MAX_NUM_SAO_CLASSES = 32"

lemmas sao_consts = SAO_MERGE_LEFT_def SAO_MERGE_ABOVE_def SAO_TYPE_START_EO_def SAO_TYPE_BO_def
  SAO_CLASS_EO_PLAIN_def NUM_SAO_EO_CLASSES_def NUM_SAO_BO_CLASSES_def MAX_NUM_SAO_CLASSES_def

record SAOOffset =
  modeIdc :: SAOMode
  typeIdc :: int
  typeAuxInfo :: int
  sao_offset :: "int list"

type_synonym SAOBlkParam = "ComponentID \<Rightarrow> SAOOffset"

definition SAOOffset_reset :: SAOOffset where
  "SAOOffset_reset = \<lparr>modeIdc = SAO_MODE_OFF, typeIdc = - 1, typeAuxInfo = - 1, sao_offset = replicate MAX_NUM_SAO_CLASSES 0\<rparr>"

definition SAOBlkParam_reset :: SAOBlkParam where
  "SAOBlkParam_reset = (\<lambda>compID. SAOOffset_reset)"

text \<open>Bit depths are at least 8, so the shift is never negative.\<close>

definition getMaxOffsetQVal :: "nat \<Rightarrow> nat" where
  "getMaxOffsetQVal channelBitDepth = 2 ^ (min channelBitDepth 10 - 5) - 1"

text \<open>What \<^verbatim>\<open>sao\<close> reads of the slice and the parameter sets.\<close>

record SaoSlice =
  SAOEnabledFlag :: bool
  slice_sao_luma :: bool
  slice_sao_chroma :: bool
  sao_chroma400 :: bool
  sao_bitDepth :: "ChannelType \<Rightarrow> nat"
  leftMergeAvail :: bool
  aboveMergeAvail :: bool

definition sliceEnabled :: "SaoSlice \<Rightarrow> ComponentID \<Rightarrow> bool" where
  "sliceEnabled sl compID = (if compID = COMPONENT_Y then slice_sao_luma sl else slice_sao_chroma sl \<and> \<not> sao_chroma400 sl)"

subsection \<open>The writer\<close>

text \<open>The four offsets that are sent, in the order of their classes.\<close>

definition sao_class :: "SAOOffset \<Rightarrow> nat \<Rightarrow> nat" where
  "sao_class p i = (if typeIdc p = SAO_TYPE_BO then nat ((typeAuxInfo p + int i) mod int NUM_SAO_BO_CLASSES) else i)"

definition sao_sent :: "SAOOffset \<Rightarrow> int list" where
  "sao_sent p = map (\<lambda>i. sao_offset p ! sao_class p i)
     (filter (\<lambda>i. \<not> (typeIdc p \<noteq> SAO_TYPE_BO \<and> i = SAO_CLASS_EO_PLAIN))
        [0..<if typeIdc p = SAO_TYPE_BO then 4 else NUM_SAO_EO_CLASSES])"

definition isFirstCompOfChType :: "ComponentID \<Rightarrow> bool" where
  "isFirstCompOfChType compID \<longleftrightarrow> (if toChannelType compID = CHANNEL_TYPE_LUMA then COMPONENT_Y else COMPONENT_Cb) = compID"

definition w_sao_type :: "'s BinEncIf \<Rightarrow> SAOOffset \<Rightarrow> 's \<Rightarrow> 's option" where
  "w_sao_type E p s =
     (if modeIdc p = SAO_MODE_OFF then w_bin E 0 Ctx_SaoTypeIdx 0 s
      else if typeIdc p = SAO_TYPE_BO then do { s \<leftarrow> w_bin E 1 Ctx_SaoTypeIdx 0 s; ie_encodeBinEP E 0 s }
      else if \<not> typeIdc p < SAO_TYPE_BO then None
      else do { s \<leftarrow> w_bin E 1 Ctx_SaoTypeIdx 0 s; ie_encodeBinEP E 1 s })"

definition w_sao_sign :: "'s BinEncIf \<Rightarrow> int \<Rightarrow> 's \<Rightarrow> 's option" where
  "w_sao_sign E x s = (if x \<noteq> 0 then ie_encodeBinEP E (of_bool (x < 0)) s else Some s)"

definition w_sao_offsets :: "'s BinEncIf \<Rightarrow> SAOOffset \<Rightarrow> ComponentID \<Rightarrow> nat \<Rightarrow> 's \<Rightarrow> 's option" where
  "w_sao_offsets E p compID bitDepth s =
     (if modeIdc p = SAO_MODE_NEW then do {
        s \<leftarrow> write_list (\<lambda>x. w_unary_max_eqprob E (nat \<bar>x\<bar>) (getMaxOffsetQVal bitDepth)) (sao_sent p) s;
        if typeIdc p = SAO_TYPE_BO then do {
          s \<leftarrow> write_list (w_sao_sign E) (sao_sent p) s;
          ie_encodeBinsEP E (nat (typeAuxInfo p)) 5 s }
        else if isFirstCompOfChType compID
          then if typeIdc p - SAO_TYPE_START_EO < 0 then None else ie_encodeBinsEP E (nat (typeIdc p - SAO_TYPE_START_EO)) 2 s
          else Some s }
      else Some s)"

definition w_sao_offset_pars :: "'s BinEncIf \<Rightarrow> SAOOffset \<Rightarrow> ComponentID \<Rightarrow> bool \<Rightarrow> nat \<Rightarrow> 's \<Rightarrow> 's option" where
  "w_sao_offset_pars E p compID enabled bitDepth s =
     (if \<not> enabled then if modeIdc p \<noteq> SAO_MODE_OFF then None else Some s
      else do {
        s \<leftarrow> (if isFirstCompOfChType compID then w_sao_type E p s else Some s);
        w_sao_offsets E p compID bitDepth s })"

definition w_sao_merge :: "'s BinEncIf \<Rightarrow> bool \<Rightarrow> bool \<Rightarrow> 's \<Rightarrow> 's option" where
  "w_sao_merge E avail isMerge s = (if avail then w_bin E (of_bool isMerge) Ctx_SaoMergeFlag 0 s else Some s)"

definition w_sao_block_pars :: "'s BinEncIf \<Rightarrow> SAOBlkParam \<Rightarrow> (ChannelType \<Rightarrow> nat) \<Rightarrow> (ComponentID \<Rightarrow> bool) \<Rightarrow> bool \<Rightarrow> bool \<Rightarrow> bool \<Rightarrow> 's \<Rightarrow> 's option" where
  "w_sao_block_pars E p bitDepths enabled leftAvail aboveAvail onlyEstMergeInfo s = do {
     let isLeftMerge = (leftAvail \<and> modeIdc (p COMPONENT_Y) = SAO_MODE_MERGE \<and> typeIdc (p COMPONENT_Y) = SAO_MERGE_LEFT);
     s \<leftarrow> w_sao_merge E leftAvail isLeftMerge s;
     let isAboveMerge = (aboveAvail \<and> \<not> isLeftMerge \<and> modeIdc (p COMPONENT_Y) = SAO_MODE_MERGE \<and> typeIdc (p COMPONENT_Y) = SAO_MERGE_ABOVE);
     s \<leftarrow> w_sao_merge E (aboveAvail \<and> \<not> isLeftMerge) isAboveMerge s;
     if onlyEstMergeInfo then Some s
     else if \<not> isLeftMerge \<and> \<not> isAboveMerge
     then write_list (\<lambda>compID. w_sao_offset_pars E (p compID) compID (enabled compID) (bitDepths (toChannelType compID)))
            [COMPONENT_Y, COMPONENT_Cb, COMPONENT_Cr] s
     else Some s }"

definition w_sao :: "'s BinEncIf \<Rightarrow> SaoSlice \<Rightarrow> SAOBlkParam \<Rightarrow> 's \<Rightarrow> 's option" where
  "w_sao E sl p s =
     (if \<not> SAOEnabledFlag sl then Some s
      else if \<not> sliceEnabled sl COMPONENT_Y \<and> \<not> sliceEnabled sl COMPONENT_Cb then Some s
      else w_sao_block_pars E p (sao_bitDepth sl) (sliceEnabled sl) (leftMergeAvail sl) (aboveMergeAvail sl) False s)"

subsection \<open>The parser\<close>

definition r_sao_merge_type :: "'s BinDecIf \<Rightarrow> SaoSlice \<Rightarrow> 's \<Rightarrow> (int \<times> 's) option" where
  "r_sao_merge_type D sl s = do {
     (t, s) \<leftarrow> (if leftMergeAvail sl then do { (b, s) \<leftarrow> r_bin D Ctx_SaoMergeFlag 0 s; Some (- 1 + int b, s) } else Some (- 1, s));
     if t < 0 \<and> aboveMergeAvail sl then do { (b, s) \<leftarrow> r_bin D Ctx_SaoMergeFlag 0 s; Some (t + 2 * int b, s) } else Some (t, s) }"

definition r_sao_type :: "'s BinDecIf \<Rightarrow> SAOOffset \<Rightarrow> 's \<Rightarrow> (SAOOffset \<times> 's) option" where
  "r_sao_type D p s = do {
     (b, s) \<leftarrow> r_bin D Ctx_SaoTypeIdx 0 s;
     if b \<noteq> 0 then do {
       (e, s) \<leftarrow> if_decodeBinEP D s;
       if e \<noteq> 0 then Some (p\<lparr>modeIdc := SAO_MODE_NEW, typeIdc := SAO_TYPE_START_EO\<rparr>, s)
       else Some (p\<lparr>modeIdc := SAO_MODE_NEW, typeIdc := SAO_TYPE_BO\<rparr>, s) }
     else Some (p, s) }"

definition r_sao_sign :: "'s BinDecIf \<Rightarrow> int \<Rightarrow> 's \<Rightarrow> (int \<times> 's) option" where
  "r_sao_sign D x s = (if x \<noteq> 0 then do { (b, s) \<leftarrow> if_decodeBinEP D s; Some (if b \<noteq> 0 then - x else x, s) } else Some (x, s))"

definition put_bands :: "SAOOffset \<Rightarrow> int list \<Rightarrow> SAOOffset" where
  "put_bands p xs = p\<lparr>sao_offset := foldl (\<lambda>os k. os[nat ((typeAuxInfo p + int k) mod int MAX_NUM_SAO_CLASSES) := xs ! k]) (sao_offset p) [0..<4]\<rparr>"

definition put_edges :: "SAOOffset \<Rightarrow> int list \<Rightarrow> SAOOffset" where
  "put_edges p xs = p\<lparr>sao_offset := (sao_offset p)[0 := xs ! 0, 1 := xs ! 1, SAO_CLASS_EO_PLAIN := 0, 3 := - (xs ! 2), 4 := - (xs ! 3)]\<rparr>"

definition r_sao_offset :: "'s BinDecIf \<Rightarrow> nat \<Rightarrow> 's \<Rightarrow> (int \<times> 's) option" where
  "r_sao_offset D maxOffsetQVal s = do { (v, s) \<leftarrow> r_unary_max_eqprob D maxOffsetQVal s; Some (int v, s) }"

definition r_sao_offsets :: "'s BinDecIf \<Rightarrow> SaoSlice \<Rightarrow> ComponentID \<Rightarrow> SAOBlkParam \<Rightarrow> SAOOffset \<Rightarrow> 's \<Rightarrow> (SAOOffset \<times> 's) option" where
  "r_sao_offsets D sl compID p q s =
     (if modeIdc q = SAO_MODE_OFF then Some (q, s)
      else do {
        (offset, s) \<leftarrow> read_list (r_sao_offset D (getMaxOffsetQVal (sao_bitDepth sl (toChannelType compID)))) 4 s;
        if typeIdc q = SAO_TYPE_BO then do {
          (offset, s) \<leftarrow> read_each (r_sao_sign D) offset s;
          (band, s) \<leftarrow> if_decodeBinsEP D 5 s;
          Some (put_bands (q\<lparr>typeAuxInfo := int band\<rparr>) offset, s) }
        else if compID \<noteq> COMPONENT_Cr then do {
          (e, s) \<leftarrow> if_decodeBinsEP D 2 s;
          Some (put_edges (q\<lparr>typeAuxInfo := 0, typeIdc := typeIdc q + int e\<rparr>) offset, s) }
        else Some (put_edges (q\<lparr>typeAuxInfo := 0, typeIdc := typeIdc (p COMPONENT_Cb)\<rparr>) offset, s) })"

definition r_sao_comp :: "'s BinDecIf \<Rightarrow> SaoSlice \<Rightarrow> ComponentID \<Rightarrow> SAOBlkParam \<Rightarrow> 's \<Rightarrow> (SAOBlkParam \<times> 's) option" where
  "r_sao_comp D sl compID p s = do {
     (q, s) \<leftarrow> (if compID \<noteq> COMPONENT_Cr then r_sao_type D (p compID) s
       else Some ((p compID)\<lparr>modeIdc := modeIdc (p COMPONENT_Cb), typeIdc := typeIdc (p COMPONENT_Cb)\<rparr>, s));
     (q, s) \<leftarrow> r_sao_offsets D sl compID p q s;
     Some (p(compID := q), s) }"

definition sao_merge_pars :: "SaoSlice \<Rightarrow> int \<Rightarrow> SAOBlkParam \<Rightarrow> SAOBlkParam" where
  "sao_merge_pars sl t p = (\<lambda>compID. if compID = COMPONENT_Y \<or> sliceEnabled sl compID
     then (p compID)\<lparr>modeIdc := SAO_MODE_MERGE, typeIdc := t\<rparr> else p compID)"

text \<open>The components from \<^verbatim>\<open>firstComp\<close> to \<^verbatim>\<open>lastComp\<close>.\<close>

definition sao_comps :: "SaoSlice \<Rightarrow> ComponentID list" where
  "sao_comps sl = (if sliceEnabled sl COMPONENT_Y then [COMPONENT_Y] else [])
     @ (if sliceEnabled sl COMPONENT_Cb then [COMPONENT_Cb, COMPONENT_Cr] else [])"

fun r_sao_loop :: "'s BinDecIf \<Rightarrow> SaoSlice \<Rightarrow> ComponentID list \<Rightarrow> SAOBlkParam \<Rightarrow> 's \<Rightarrow> (SAOBlkParam \<times> 's) option" where
  "r_sao_loop D sl [] p s = Some (p, s)"
| "r_sao_loop D sl (c # cs) p s = do { (p, s) \<leftarrow> r_sao_comp D sl c p s; r_sao_loop D sl cs p s }"

definition r_sao :: "'s BinDecIf \<Rightarrow> SaoSlice \<Rightarrow> SAOBlkParam \<Rightarrow> 's \<Rightarrow> (SAOBlkParam \<times> 's) option" where
  "r_sao D sl p s =
     (if \<not> SAOEnabledFlag sl then Some (p, s)
      else let p = (\<lambda>compID. (p compID)\<lparr>modeIdc := SAO_MODE_OFF\<rparr>) in
        if \<not> sliceEnabled sl COMPONENT_Y \<and> \<not> sliceEnabled sl COMPONENT_Cb then Some (p, s)
        else do {
          (t, s) \<leftarrow> r_sao_merge_type D sl s;
          if t \<ge> 0 then Some (sao_merge_pars sl t p, s)
          else r_sao_loop D sl (sao_comps sl) p s })"

subsection \<open>What the syntax can express\<close>

text \<open>\<open>p0\<close> are the parameters in the parser's picture before: classes that are not sent keep them.\<close>

definition sao_untouched :: "SAOOffset \<Rightarrow> SAOOffset \<Rightarrow> nat set \<Rightarrow> bool" where
  "sao_untouched p0 p sent \<longleftrightarrow> length (sao_offset p0) = 32 \<and> length (sao_offset p) = 32
     \<and> (\<forall>j < 32. j \<notin> sent \<longrightarrow> sao_offset p ! j = sao_offset p0 ! j)"

definition sao_new_ok :: "nat \<Rightarrow> SAOOffset \<Rightarrow> SAOOffset \<Rightarrow> bool" where
  "sao_new_ok maxQ p0 p \<longleftrightarrow>
     (if typeIdc p = SAO_TYPE_BO
      then 0 \<le> typeAuxInfo p \<and> typeAuxInfo p < 32 \<and> sao_untouched p0 p (sao_class p ` {..<4}) \<and> (\<forall>x \<in> set (sao_sent p). nat \<bar>x\<bar> \<le> maxQ)
      else 0 \<le> typeIdc p \<and> typeIdc p < 4 \<and> typeAuxInfo p = 0 \<and> sao_untouched p0 p {..<5} \<and> (\<forall>x \<in> set (sao_sent p). nat \<bar>x\<bar> \<le> maxQ)
        \<and> 0 \<le> sao_offset p ! 0 \<and> 0 \<le> sao_offset p ! 1 \<and> sao_offset p ! 2 = 0 \<and> sao_offset p ! 3 \<le> 0 \<and> sao_offset p ! 4 \<le> 0)"

definition sao_comp_ok :: "nat \<Rightarrow> SAOOffset \<Rightarrow> SAOOffset \<Rightarrow> bool" where
  "sao_comp_ok maxQ p0 p \<longleftrightarrow> (case modeIdc p of
     SAO_MODE_OFF \<Rightarrow> typeAuxInfo p = typeAuxInfo p0 \<and> sao_offset p = sao_offset p0
   | SAO_MODE_NEW \<Rightarrow> sao_new_ok maxQ p0 p
   | SAO_MODE_MERGE \<Rightarrow> False)"

definition sao_ok :: "SaoSlice \<Rightarrow> SAOBlkParam \<Rightarrow> SAOBlkParam \<Rightarrow> bool" where
  "sao_ok sl p0 p \<longleftrightarrow>
     (let off = (\<lambda>compID. (p0 compID)\<lparr>modeIdc := SAO_MODE_OFF\<rparr>); y = p COMPONENT_Y in
      if \<not> SAOEnabledFlag sl then p = p0
      else if \<not> sliceEnabled sl COMPONENT_Y \<and> \<not> sliceEnabled sl COMPONENT_Cb then p = off
      else if modeIdc y = SAO_MODE_MERGE
      then (leftMergeAvail sl \<and> typeIdc y = SAO_MERGE_LEFT \<or> aboveMergeAvail sl \<and> typeIdc y = SAO_MERGE_ABOVE)
        \<and> p = sao_merge_pars sl (typeIdc y) off
      else
        (\<forall>c. \<not> sliceEnabled sl c \<longrightarrow> p c = off c)
        \<and> (\<forall>c. sliceEnabled sl c \<longrightarrow> sao_comp_ok (getMaxOffsetQVal (sao_bitDepth sl (toChannelType c))) (p0 c) (p c))
        \<and> (\<forall>c. sliceEnabled sl c \<and> c \<noteq> COMPONENT_Cr \<and> modeIdc (p c) = SAO_MODE_OFF \<longrightarrow> typeIdc (p c) = typeIdc (p0 c))
        \<and> (sliceEnabled sl COMPONENT_Cr \<longrightarrow> modeIdc (p COMPONENT_Cr) = modeIdc (p COMPONENT_Cb) \<and> typeIdc (p COMPONENT_Cr) = typeIdc (p COMPONENT_Cb)))"

subsection \<open>Writer and parser agree\<close>

lemma getMaxOffsetQVal_le: "getMaxOffsetQVal b \<le> 31"
proof -
  have "(2::nat) ^ (min b 10 - 5) \<le> 2 ^ 5" by (intro power_increasing) auto
  then show ?thesis by (simp add: getMaxOffsetQVal_def)
qed

lemma sao_sent_BO: "typeIdc p = SAO_TYPE_BO \<Longrightarrow> sao_sent p = map (\<lambda>i. sao_offset p ! sao_class p i) [0, 1, 2, 3]"
  by (simp add: sao_sent_def upt_rec [of _ 4] numeral_eq_Suc)

lemma sao_sent_EO: "typeIdc p \<noteq> SAO_TYPE_BO \<Longrightarrow> sao_sent p = map ((!) (sao_offset p)) [0, 1, 3, 4]"
  by (simp add: sao_sent_def sao_consts sao_class_def upt_rec [of _ 5] numeral_eq_Suc)

lemma foldl_put:
  "length (foldl (\<lambda>os k. os[f k := v (f k)]) l ks) = length l \<and>
   (\<forall>j < length l. foldl (\<lambda>os k. os[f k := v (f k)]) l ks ! j = (if j \<in> f ` set ks then v j else l ! j))"
  by (induction ks arbitrary: l) (auto simp: nth_list_update)

lemma put_bands_sent:
  assumes "typeIdc p = SAO_TYPE_BO" and "sao_untouched p0 p (sao_class p ` {..<4})" and "typeAuxInfo q = typeAuxInfo p"
    and "sao_offset q = sao_offset p0"
  shows "sao_offset (put_bands q (sao_sent p)) = sao_offset p"
proof -
  let ?f = "sao_class p"
  have "foldl (\<lambda>os k. os[nat ((typeAuxInfo q + int k) mod int MAX_NUM_SAO_CLASSES) := sao_sent p ! k]) (sao_offset q) [0..<4]
    = foldl (\<lambda>os k. os[?f k := sao_offset p ! ?f k]) (sao_offset p0) [0..<4]"
    using assms(1,3,4) by (simp add: sao_sent_BO sao_class_def sao_consts upt_rec [of _ 4] numeral_eq_Suc)
  also have "\<dots> = sao_offset p"
    using foldl_put [of ?f "\<lambda>c. sao_offset p ! c" "sao_offset p0" "[0..<4]"] assms(2)
    by (intro nth_equalityI) (auto simp: sao_untouched_def atLeast0LessThan)
  finally show ?thesis by (simp add: put_bands_def)
qed

lemma put_edges_sent:
  assumes "typeIdc p \<noteq> SAO_TYPE_BO" and "sao_untouched p0 p {..<5}" and "sao_offset q = sao_offset p0"
    and "0 \<le> sao_offset p ! 0" "0 \<le> sao_offset p ! 1" "sao_offset p ! 2 = 0" "sao_offset p ! 3 \<le> 0" "sao_offset p ! 4 \<le> 0"
  shows "sao_offset (put_edges q (map abs (sao_sent p))) = sao_offset p"
proof (rule nth_equalityI)
  show "length (sao_offset (put_edges q (map abs (sao_sent p)))) = length (sao_offset p)"
    using assms(2,3) by (simp add: put_edges_def sao_untouched_def)
next
  fix j assume "j < length (sao_offset (put_edges q (map abs (sao_sent p))))"
  then have j: "j < 32" using assms(2,3) by (simp add: put_edges_def sao_untouched_def)
  consider "j = 0" | "j = 1" | "j = 2" | "j = 3" | "j = 4" | "j \<ge> 5" by linarith
  then show "sao_offset (put_edges q (map abs (sao_sent p))) ! j = sao_offset p ! j"
    by cases (use j assms in \<open>simp_all add: put_edges_def sao_sent_EO sao_untouched_def SAO_CLASS_EO_PLAIN_def\<close>)
qed

context cabac_channel
begin

lemma sao_type_codec:
  assumes "modeIdc p \<noteq> SAO_MODE_OFF \<Longrightarrow> typeIdc p \<le> SAO_TYPE_BO"
  shows "bins (w_sao_type E p) (r_sao_type D q) (if modeIdc p = SAO_MODE_OFF then q
    else q\<lparr>modeIdc := SAO_MODE_NEW, typeIdc := if typeIdc p = SAO_TYPE_BO then SAO_TYPE_BO else SAO_TYPE_START_EO\<rparr>)"
  by (rule codec_ext, rule w_sao_type_def, rule r_sao_type_def)
   ((rule codec_decide, (use assms in simp; fail)) | rule codec_branch | rule syntax_rules | (simp; fail))+

lemma sao_abs_codec:
  assumes "\<forall>x \<in> set xs. nat \<bar>x\<bar> \<le> m" and "m \<le> 32" and "n = length xs"
  shows "bins (write_list (\<lambda>x. w_unary_max_eqprob E (nat \<bar>x\<bar>) m) xs) (read_list (r_sao_offset D m) n) (map abs xs)"
proof (rule codec_list_map [OF _ assms(3)])
  fix x assume "x \<in> set xs"
  with assms show "bins (w_unary_max_eqprob E (nat \<bar>x\<bar>) m) (r_sao_offset D m) \<bar>x\<bar>"
    by (intro codec_ext [OF refl r_sao_offset_def] codec_last [OF bins_unary_eqprob] codec_Some') auto
qed

lemma sao_sign_codec: "bins (write_list (w_sao_sign E) xs) (read_each (r_sao_sign D) (map abs xs)) xs"
proof -
  have "bins (w_sao_sign E x) (r_sao_sign D \<bar>x\<bar>) x" for x
    by (rule codec_ext, rule w_sao_sign_def, rule r_sao_sign_def)
      ((rule codec_decide, (simp; fail)) | rule codec_branch | rule syntax_rules | (simp; fail))+
  then have "bins (write_list (w_sao_sign E) xs) (read_each (r_sao_sign D) (map abs xs)) (map (\<lambda>x. x) xs)"
    by (rule codec_each_map)
  then show ?thesis by simp
qed

lemma sao_offsets_codec:
  assumes ok: "sao_comp_ok (getMaxOffsetQVal bd) q0 p" and mode: "modeIdc q = modeIdc p"
    and kept: "sao_offset q = sao_offset q0" "typeAuxInfo q = typeAuxInfo q0"
    and type: "typeIdc q = (if c = COMPONENT_Cr \<or> modeIdc p = SAO_MODE_OFF then typeIdc p
      else if typeIdc p = SAO_TYPE_BO then SAO_TYPE_BO else SAO_TYPE_START_EO)"
    and cr: "c = COMPONENT_Cr \<Longrightarrow> typeIdc (cur COMPONENT_Cb) = typeIdc p"
    and bd: "bd = sao_bitDepth sl (toChannelType c)"
  shows "bins (w_sao_offsets E p c bd) (r_sao_offsets D sl c cur q) p"
proof -
  have first: "isFirstCompOfChType c \<longleftrightarrow> c \<noteq> COMPONENT_Cr"
    by (cases c) (simp_all add: isFirstCompOfChType_def toChannelType_def)
  have len: "4 = length (sao_sent p)" by (cases "typeIdc p = SAO_TYPE_BO") (simp_all add: sao_sent_BO sao_sent_EO)
  have m: "getMaxOffsetQVal bd \<le> 32" using getMaxOffsetQVal_le [of bd] by simp
  note defs = codec_ext [OF w_sao_offsets_def r_sao_offsets_def]
  consider (off) "modeIdc p = SAO_MODE_OFF" | (new) "modeIdc p = SAO_MODE_NEW" "sao_new_ok (getMaxOffsetQVal bd) q0 p"
    using ok by (cases "modeIdc p") (auto simp: sao_comp_ok_def)
  then show ?thesis
  proof cases
    case off
    then have "q = p" using ok mode kept type by (simp add: sao_comp_ok_def)
    with off show ?thesis by (intro defs) (simp add: codec_Some)
  next
    case new
    then have abs: "\<forall>x \<in> set (sao_sent p). nat \<bar>x\<bar> \<le> getMaxOffsetQVal bd" by (auto simp: sao_new_ok_def split: if_splits)
    note step = codec_bind [OF sao_abs_codec [OF abs m len]]
    show ?thesis
    proof (cases "typeIdc p = SAO_TYPE_BO")
      case True
      then have bo: "0 \<le> typeAuxInfo p" "typeAuxInfo p < 32" "sao_untouched q0 p (sao_class p ` {..<4})"
        using new(2) by (auto simp: sao_new_ok_def)
      have p: "put_bands (q\<lparr>typeAuxInfo := int (nat (typeAuxInfo p))\<rparr>) (sao_sent p) = p"
        using put_bands_sent [OF True bo(3), of "q\<lparr>typeAuxInfo := int (nat (typeAuxInfo p))\<rparr>"] bo(1) kept mode type True new(1)
        by (intro SAOOffset.equality) (auto simp: put_bands_def split: if_splits)
      have "bins (\<lambda>s. Option.bind (write_list (\<lambda>x. w_unary_max_eqprob E (nat \<bar>x\<bar>) (getMaxOffsetQVal bd)) (sao_sent p) s) (\<lambda>s.
          Option.bind (write_list (w_sao_sign E) (sao_sent p) s) (ie_encodeBinsEP E (nat (typeAuxInfo p)) 5)))
        (\<lambda>s. Option.bind (read_list (r_sao_offset D (getMaxOffsetQVal bd)) 4 s) (\<lambda>(offset, s).
          Option.bind (read_each (r_sao_sign D) offset s) (\<lambda>(offset, s). Option.bind (if_decodeBinsEP D 5 s) (\<lambda>(band, s).
          Some (put_bands (q\<lparr>typeAuxInfo := int band\<rparr>) offset, s))))) p"
        using bo p by (intro step codec_bind [OF sao_sign_codec] codec_last [OF bins_EPs] codec_Some') auto
      with True new mode type show ?thesis by (intro defs) (simp add: bd split: if_splits)
    next
      case False
      then have eo: "0 \<le> typeIdc p" "typeIdc p < 4" "typeAuxInfo p = 0" "sao_untouched q0 p {..<5}"
        "0 \<le> sao_offset p ! 0" "0 \<le> sao_offset p ! 1" "sao_offset p ! 2 = 0" "sao_offset p ! 3 \<le> 0" "sao_offset p ! 4 \<le> 0"
        using new(2) by (auto simp: sao_new_ok_def)
      have p: "put_edges (q\<lparr>typeAuxInfo := 0, typeIdc := typeIdc p\<rparr>) (map abs (sao_sent p)) = p"
        using put_edges_sent [OF False eo(4) _ eo(5-9), of "q\<lparr>typeAuxInfo := 0, typeIdc := typeIdc p\<rparr>"] eo(3) kept mode
        by (intro SAOOffset.equality) (auto simp: put_edges_def)
      have "bins (\<lambda>s. Option.bind (write_list (\<lambda>x. w_unary_max_eqprob E (nat \<bar>x\<bar>) (getMaxOffsetQVal bd)) (sao_sent p) s) (\<lambda>s.
          if c \<noteq> COMPONENT_Cr then ie_encodeBinsEP E (nat (typeIdc p)) 2 s else Some s))
        (\<lambda>s. Option.bind (read_list (r_sao_offset D (getMaxOffsetQVal bd)) 4 s) (\<lambda>(offset, s).
          if c \<noteq> COMPONENT_Cr then Option.bind (if_decodeBinsEP D 2 s) (\<lambda>(e, s).
            Some (put_edges (q\<lparr>typeAuxInfo := 0, typeIdc := typeIdc q + int e\<rparr>) offset, s))
          else Some (put_edges (q\<lparr>typeAuxInfo := 0, typeIdc := typeIdc (cur COMPONENT_Cb)\<rparr>) offset, s))) p"
        using eo p type cr False new(1)
        by (intro step codec_if codec_last [OF bins_EPs] codec_Some') (auto simp: sao_consts)
      with False new mode type eo show ?thesis by (intro defs) (simp add: bd first sao_consts split: if_splits)
    qed
  qed
qed

lemma sao_comp_codec:
  assumes ok: "sao_comp_ok (getMaxOffsetQVal bd) (old c) (p c)"
    and off: "c \<noteq> COMPONENT_Cr \<Longrightarrow> modeIdc (p c) = SAO_MODE_OFF \<Longrightarrow> typeIdc (p c) = typeIdc (old c)"
    and cr: "c = COMPONENT_Cr \<Longrightarrow> modeIdc (p c) = modeIdc (p COMPONENT_Cb) \<and> typeIdc (p c) = typeIdc (p COMPONENT_Cb)"
    and cur: "cur c = (old c)\<lparr>modeIdc := SAO_MODE_OFF\<rparr>" "c = COMPONENT_Cr \<Longrightarrow> cur COMPONENT_Cb = p COMPONENT_Cb"
    and bd: "bd = sao_bitDepth sl (toChannelType c)"
  shows "bins (w_sao_offset_pars E (p c) c True bd) (r_sao_comp D sl c cur) (cur(c := p c))"
proof (rule codec_ext [OF _ r_sao_comp_def])
  have le: "modeIdc (p c) \<noteq> SAO_MODE_OFF \<Longrightarrow> typeIdc (p c) \<le> SAO_TYPE_BO"
    using ok by (auto simp: sao_comp_ok_def sao_new_ok_def sao_consts split: SAOMode.splits if_splits)
  have first: "isFirstCompOfChType c \<longleftrightarrow> c \<noteq> COMPONENT_Cr"
    by (cases c) (simp_all add: isFirstCompOfChType_def toChannelType_def)
  have mode: "modeIdc (p c) \<noteq> SAO_MODE_OFF \<longleftrightarrow> modeIdc (p c) = SAO_MODE_NEW" using ok by (cases "modeIdc (p c)") (auto simp: sao_comp_ok_def)
  show "w_sao_offset_pars E (p c) c True bd s = Option.bind (if c \<noteq> COMPONENT_Cr then w_sao_type E (p c) s else Some s)
      (w_sao_offsets E (p c) c bd)" for s by (simp add: w_sao_offset_pars_def first)
  show "bins (\<lambda>s. Option.bind (if c \<noteq> COMPONENT_Cr then w_sao_type E (p c) s else Some s) (w_sao_offsets E (p c) c bd))
    (\<lambda>s. do {
     (q, s) \<leftarrow> (if c \<noteq> COMPONENT_Cr then r_sao_type D (cur c) s
       else Some ((cur c)\<lparr>modeIdc := modeIdc (cur COMPONENT_Cb), typeIdc := typeIdc (cur COMPONENT_Cb)\<rparr>, s));
     (q, s) \<leftarrow> r_sao_offsets D sl c cur q s;
     Some (cur(c := q), s) }) (cur(c := p c))" (is "codec _ _ _ ?R _")
  proof (rule codec_wif_bind)
    assume "c \<noteq> COMPONENT_Cr"
    then show "bins (\<lambda>s. Option.bind (w_sao_type E (p c) s) (w_sao_offsets E (p c) c bd)) ?R (cur(c := p c))"
      using off cur(1) cr mode bd
      by (intro codec_rtrue_bind codec_bind [OF sao_type_codec [OF le]] codec_last [OF sao_offsets_codec [OF ok]] codec_Some') auto
  next
    assume "\<not> c \<noteq> COMPONENT_Cr"
    then show "bins (\<lambda>s. Option.bind (Some s) (w_sao_offsets E (p c) c bd)) ?R (cur(c := p c))"
      using cur cr bd
      by (intro codec_rfalse_bind codec_wthen codec_skip codec_last [OF sao_offsets_codec [OF ok]] codec_Some') auto
  qed
qed

lemma sao_merge_codec:
  assumes "left \<longleftrightarrow> leftMergeAvail sl \<and> l" and "up \<longleftrightarrow> aboveMergeAvail sl \<and> \<not> left \<and> a"
  shows "bins (\<lambda>s. Option.bind (w_sao_merge E (leftMergeAvail sl) left s) (w_sao_merge E (aboveMergeAvail sl \<and> \<not> left) up))
    (r_sao_merge_type D sl) (if left then SAO_MERGE_LEFT else if up then SAO_MERGE_ABOVE else - 1)"
  by (cases left; (rule codec_ext, unfold w_sao_merge_def, rule refl, rule r_sao_merge_type_def,
      ((rule codec_decide, (use assms in \<open>simp add: sao_consts\<close>; fail)) | rule codec_branch | rule syntax_rules
       | (use assms in \<open>simp add: sao_consts\<close>; fail))+))

lemma r_sao_loop_fun:
  "r_sao_loop D sl [] p = (\<lambda>s. Some (p, s))"
  "r_sao_loop D sl (c # cs) p = (\<lambda>s. Option.bind (r_sao_comp D sl c p s) (\<lambda>(p, s). r_sao_loop D sl cs p s))"
  by (rule ext, simp)+

lemma sao_codec:
  assumes ok: "sao_ok sl p0 p"
  shows "bins (w_sao E sl p) (r_sao D sl p0) p"
proof -
  define off where "off = (\<lambda>compID. (p0 compID)\<lparr>modeIdc := SAO_MODE_OFF\<rparr>)"
  define left where "left \<longleftrightarrow> leftMergeAvail sl \<and> modeIdc (p COMPONENT_Y) = SAO_MODE_MERGE \<and> typeIdc (p COMPONENT_Y) = SAO_MERGE_LEFT"
  define up where "up \<longleftrightarrow> aboveMergeAvail sl \<and> \<not> left \<and> modeIdc (p COMPONENT_Y) = SAO_MODE_MERGE \<and> typeIdc (p COMPONENT_Y) = SAO_MERGE_ABOVE"
  have merge: "bins (\<lambda>s. Option.bind (w_sao_merge E (leftMergeAvail sl) left s) (w_sao_merge E (aboveMergeAvail sl \<and> \<not> left) up))
    (r_sao_merge_type D sl) (if left then SAO_MERGE_LEFT else if up then SAO_MERGE_ABOVE else - 1)"
    by (rule sao_merge_codec [where l = "modeIdc (p COMPONENT_Y) = SAO_MODE_MERGE \<and> typeIdc (p COMPONENT_Y) = SAO_MERGE_LEFT"
       and a = "modeIdc (p COMPONENT_Y) = SAO_MODE_MERGE \<and> typeIdc (p COMPONENT_Y) = SAO_MERGE_ABOVE"]) (simp_all add: left_def up_def)
  let ?Y = "sliceEnabled sl COMPONENT_Y" and ?C = "sliceEnabled sl COMPONENT_Cb"
  have Cr: "sliceEnabled sl COMPONENT_Cr = ?C" by (simp add: sliceEnabled_def)
  let ?W = "\<lambda>c. w_sao_offset_pars E (p c) c (sliceEnabled sl c) (sao_bitDepth sl (toChannelType c))"
  have loop: "bins (write_list ?W [COMPONENT_Y, COMPONENT_Cb, COMPONENT_Cr]) (r_sao_loop D sl (sao_comps sl) off) p"
    if on: "?Y \<or> ?C" "SAOEnabledFlag sl" "modeIdc (p COMPONENT_Y) \<noteq> SAO_MODE_MERGE"
  proof -
    have new: "(\<forall>c. \<not> sliceEnabled sl c \<longrightarrow> p c = off c)"
      "sliceEnabled sl c \<Longrightarrow> sao_comp_ok (getMaxOffsetQVal (sao_bitDepth sl (toChannelType c))) (p0 c) (p c)"
      "sliceEnabled sl c \<Longrightarrow> c \<noteq> COMPONENT_Cr \<Longrightarrow> modeIdc (p c) = SAO_MODE_OFF \<Longrightarrow> typeIdc (p c) = typeIdc (p0 c)"
      "?C \<Longrightarrow> modeIdc (p COMPONENT_Cr) = modeIdc (p COMPONENT_Cb) \<and> typeIdc (p COMPONENT_Cr) = typeIdc (p COMPONENT_Cb)" for c
      using ok on by (auto simp: sao_ok_def Let_def off_def Cr split: if_splits)
    have disabled: "w_sao_offset_pars E (p c) c False bd = Some" if "\<not> sliceEnabled sl c" for c bd
      using new(1) that by (intro ext) (simp add: w_sao_offset_pars_def off_def)
    have enabled: "bins (?W c) (r_sao_comp D sl c cur) (cur(c := p c))" if "sliceEnabled sl c" "cur c = off c"
      "c = COMPONENT_Cr \<Longrightarrow> cur COMPONENT_Cb = p COMPONENT_Cb" for c cur
      using sao_comp_codec [where old = p0 and p = p and c = c and cur = cur, OF new(2) [OF that(1)] new(3) [OF that(1)]]
        new(4) that Cr by (auto simp: off_def)
    have all: "q = p" if "q COMPONENT_Y = p COMPONENT_Y" "q COMPONENT_Cb = p COMPONENT_Cb" "q COMPONENT_Cr = p COMPONENT_Cr" for q
    proof
      show "q c = p c" for c using that by (cases c) simp_all
    qed
    have step: "bins (\<lambda>s. Option.bind (?W c s) V) (r_sao_loop D sl (c # cs) cur) p"
      if "sliceEnabled sl c" "cur c = off c" "c = COMPONENT_Cr \<Longrightarrow> cur COMPONENT_Cb = p COMPONENT_Cb"
        "bins V (r_sao_loop D sl cs (cur(c := p c))) p" for c cs cur V
      unfolding r_sao_loop_fun by (rule codec_bind [OF enabled [of c cur]]) (use that in simp_all)
    have fin: "bins Some (r_sao_loop D sl [] cur) p" if "cur = p" for cur
      unfolding r_sao_loop_fun by (rule codec_Some') (rule that)
    consider "?Y" "?C" | "?Y" "\<not> ?C" | "\<not> ?Y" "?C" using on(1) by blast
    then show ?thesis
    proof cases
      case 1
      then have "sliceEnabled sl COMPONENT_Cr" by (simp add: Cr)
      with 1 have "bins (\<lambda>s. Option.bind (?W COMPONENT_Y s) (\<lambda>s. Option.bind (?W COMPONENT_Cb s) (\<lambda>s. Option.bind (?W COMPONENT_Cr s) Some)))
        (r_sao_loop D sl [COMPONENT_Y, COMPONENT_Cb, COMPONENT_Cr] off) p"
        by - (rule step fin all | (assumption | simp; fail))+
      with 1 show ?thesis by (simp add: sao_comps_def list_loops)
    next
      case 2
      then have "\<not> sliceEnabled sl COMPONENT_Cr" by (simp add: Cr)
      with 2 have "bins (\<lambda>s. Option.bind (?W COMPONENT_Y s) Some) (r_sao_loop D sl [COMPONENT_Y] off) p"
        using new(1) by - (rule step fin all | (assumption | simp; fail))+
      with 2 Cr show ?thesis by (simp add: sao_comps_def list_loops disabled)
    next
      case 3
      then have "sliceEnabled sl COMPONENT_Cr" by (simp add: Cr)
      with 3 have "bins (\<lambda>s. Option.bind (?W COMPONENT_Cb s) (\<lambda>s. Option.bind (?W COMPONENT_Cr s) Some))
        (r_sao_loop D sl [COMPONENT_Cb, COMPONENT_Cr] off) p"
        using new(1) by - (rule step fin all | (assumption | simp; fail))+
      with 3 show ?thesis by (simp add: sao_comps_def list_loops disabled)
    qed
  qed
  consider (none) "\<not> SAOEnabledFlag sl \<or> \<not> (?Y \<or> ?C)" | (on) "SAOEnabledFlag sl" "?Y \<or> ?C" by blast
  then show ?thesis
  proof cases
    case none
    then have "w_sao E sl p = Some" "r_sao D sl p0 = (\<lambda>s. Some (p, s))"
      using ok by (auto simp: w_sao_def r_sao_def sao_ok_def Let_def)
    then show ?thesis by (simp add: codec_Some)
  next
    case on
    have W: "w_sao E sl p s = do { s \<leftarrow> do { s \<leftarrow> w_sao_merge E (leftMergeAvail sl) left s; w_sao_merge E (aboveMergeAvail sl \<and> \<not> left) up s };
        if \<not> left \<and> \<not> up then write_list ?W [COMPONENT_Y, COMPONENT_Cb, COMPONENT_Cr] s else Some s }" for s
      unfolding w_sao_def w_sao_block_pars_def Let_def left_def [symmetric] up_def [symmetric] using on by auto
    have R: "r_sao D sl p0 s = do { (t, s) \<leftarrow> r_sao_merge_type D sl s;
        if t \<ge> 0 then Some (sao_merge_pars sl t off, s) else r_sao_loop D sl (sao_comps sl) off s }" for s
      unfolding r_sao_def Let_def off_def [symmetric] using on by auto
    show ?thesis
    proof (rule codec_ext [OF W R], rule codec_bind [OF merge], rule codec_wif)
      assume none: "\<not> left \<and> \<not> up"
      then have "modeIdc (p COMPONENT_Y) \<noteq> SAO_MODE_MERGE"
        using ok on by (auto simp: sao_ok_def Let_def left_def up_def)
      with on none show "bins (write_list ?W [COMPONENT_Y, COMPONENT_Cb, COMPONENT_Cr])
        (\<lambda>s. if (if left then SAO_MERGE_LEFT else if up then SAO_MERGE_ABOVE else - 1) \<ge> 0
           then Some (sao_merge_pars sl (if left then SAO_MERGE_LEFT else if up then SAO_MERGE_ABOVE else - 1) off, s)
           else r_sao_loop D sl (sao_comps sl) off s) p"
        by (intro codec_rfalse loop) auto
    next
      assume some: "\<not> (\<not> left \<and> \<not> up)"
      have t: "(if left then SAO_MERGE_LEFT else if up then SAO_MERGE_ABOVE else - 1) = typeIdc (p COMPONENT_Y)" (is "?t = _")
        using some by (auto simp: left_def up_def)
      have y: "0 \<le> typeIdc (p COMPONENT_Y)" and mode: "modeIdc (p COMPONENT_Y) = SAO_MODE_MERGE"
        using some by (auto simp: left_def up_def sao_consts)
      have "sao_merge_pars sl (typeIdc (p COMPONENT_Y)) off = p"
        using ok on mode unfolding sao_ok_def Let_def off_def [symmetric] by (simp split: if_splits)
      then show "bins Some (\<lambda>s. if ?t \<ge> 0 then Some (sao_merge_pars sl ?t off, s) else r_sao_loop D sl (sao_comps sl) off s) p"
        unfolding t by (intro codec_rtrue y codec_Some')
    qed
  qed
qed

end

text \<open>C20: for any sequence of coding tree units, each with parameters that the syntax can express (disabled,
  merged with an available neighbour, band offsets from any of the 32 bands with wrap-around, or edge offsets
  with the signs of their classes; Cr of the type of Cb), the parameters that \<^verbatim>\<open>CABACReader::sao\<close> parses are those
  that \<^verbatim>\<open>CABACWriter::sao\<close> wrote, and the parser stops at the end of the code.\<close>

theorem sao_roundtrip:
  assumes "\<forall>((sl, p0), p) \<in> set ctus. sao_ok sl p0 p"
  shows "\<exists>Y d. encode_with (slice_contexts qp t) (write_list (\<lambda>((sl, p0), p). w_sao BinEncoder_Std sl p) ctus) = Some Y \<and> bytes_ok Y
    \<and> decode_with (slice_contexts qp t) (read_each (\<lambda>(sl, p0). r_sao BinDecoder_Std sl p0) (map fst ctus)) Y = Some (map snd ctus, d)
    \<and> i_fifo_idx (d_bitstream d) = length (i_fifo (d_bitstream d))"
proof (rule bins_roundtrip)
  have "codec (enc_emits (slice_contexts qp t)) dec_sources (write_list (\<lambda>(k, p). (\<lambda>k p. w_sao BinEncoder_Std (fst k) p) k p) ctus)
     (read_each (\<lambda>(sl, p0). r_sao BinDecoder_Std sl p0) (map fst ctus)) (map snd ctus)"
    by (rule codec_each) (use assms in \<open>fastforce intro: vtm.sao_codec\<close>)
  then show "codec (enc_emits (slice_contexts qp t)) dec_sources (write_list (\<lambda>((sl, p0), p). w_sao BinEncoder_Std sl p) ctus)
     (read_each (\<lambda>(sl, p0). r_sao BinDecoder_Std sl p0) (map fst ctus)) (map snd ctus)"
    by (simp add: case_prod_beta')
qed

definition example_band :: SAOOffset where
  "example_band = \<lparr>modeIdc = SAO_MODE_NEW, typeIdc = SAO_TYPE_BO, typeAuxInfo = 30,
     sao_offset = (replicate 32 0)[30 := 3, 31 := - 2, 0 := 1]\<rparr>"

definition example_edge :: SAOOffset where
  "example_edge = \<lparr>modeIdc = SAO_MODE_NEW, typeIdc = 2, typeAuxInfo = 0,
     sao_offset = (replicate 32 0)[0 := 2, 1 := 1, 3 := - 1, 4 := - 3]\<rparr>"

definition example_slice :: "bool \<Rightarrow> SaoSlice" where
  "example_slice left = \<lparr>SAOEnabledFlag = True, slice_sao_luma = True, slice_sao_chroma = True, sao_chroma400 = False,
     sao_bitDepth = (\<lambda>_. 10), leftMergeAvail = left, aboveMergeAvail = False\<rparr>"

definition example_ctu :: SAOBlkParam where
  "example_ctu c = (if c = COMPONENT_Y then example_band else example_edge)"

lemma example_sao_ok: "sao_ok (example_slice False) SAOBlkParam_reset example_ctu"
proof -
  have image: "sao_class example_band ` {..<4} = {0, 1, 30, 31}"
    by (auto simp: sao_class_def example_band_def sao_consts lessThan_nat_numeral lessThan_Suc)
  have band: "typeIdc example_band = SAO_TYPE_BO" "modeIdc example_band = SAO_MODE_NEW" by (simp_all add: example_band_def)
  have "sao_untouched SAOOffset_reset example_band {0, 1, 30, 31}"
    by (simp add: sao_untouched_def SAOOffset_reset_def example_band_def sao_consts)
  moreover have "\<forall>x \<in> set (sao_sent example_band). nat \<bar>x\<bar> \<le> 31"
    unfolding sao_sent_BO [OF band(1)] by (simp add: example_band_def sao_class_def sao_consts)
  ultimately have "sao_comp_ok 31 SAOOffset_reset example_band"
    by (simp add: sao_comp_ok_def sao_new_ok_def band image) (simp add: example_band_def)
  moreover have "sao_comp_ok 31 SAOOffset_reset example_edge"
    by (simp add: sao_comp_ok_def sao_new_ok_def sao_untouched_def SAOOffset_reset_def sao_sent_EO example_edge_def sao_consts)
  ultimately show ?thesis
    by (simp add: sao_ok_def SAOBlkParam_reset_def example_slice_def sliceEnabled_def getMaxOffsetQVal_def example_ctu_def)
      (simp add: example_band_def example_edge_def)
qed


theorem sao_roundtrip_witness:
  "\<exists>Y d. encode_with (slice_contexts 32 I_SLICE) (write_list (\<lambda>((sl, p0), p). w_sao BinEncoder_Std sl p)
       [((example_slice False, SAOBlkParam_reset), example_ctu)]) = Some Y \<and> bytes_ok Y
    \<and> decode_with (slice_contexts 32 I_SLICE) (read_each (\<lambda>(sl, p0). r_sao BinDecoder_Std sl p0)
         [(example_slice False, SAOBlkParam_reset)]) Y = Some ([example_ctu], d)
    \<and> i_fifo_idx (d_bitstream d) = length (i_fifo (d_bitstream d))"
  using sao_roundtrip [where qp = 32 and t = I_SLICE and ctus = "[((example_slice False, SAOBlkParam_reset), example_ctu)]"] example_sao_ok
  by (simp del: write_list.simps read_each.simps)

end
