(* ===== verification/SaoFilter.thy ===== *)
theory SaoFilter
  imports Sao
begin

section \<open>The sample adaptive offset filter\<close>

text \<open>
  \<^verbatim>\<open>SampleAdaptiveOffset::offsetBlock\<close>.  The code compares each pair of neighbours once and carries the sign of
  the comparison from sample to sample (horizontally) or from line to line in \<^verbatim>\<open>m_signLineBuf1\<close> and
  \<^verbatim>\<open>m_signLineBuf2\<close>; the specification classifies each sample from its two neighbours.  A plane of samples is
  a function of the line and the column relative to the block, since the code reads one sample beyond
  each side; the buffers of signs are functions of the column.
\<close>

unbundle bit_operations_syntax

type_synonym plane = "int \<Rightarrow> int \<Rightarrow> int"

record SaoBlock =
  sb_channelBitDepth :: nat
  clpRng_min :: int
  clpRng_max :: int
  sb_offset :: "int list"
  srcBlk :: plane
  sb_width :: int
  sb_height :: int
  isLeftAvail :: bool
  isRightAvail :: bool
  isAboveAvail :: bool
  isBelowAvail :: bool
  isAboveLeftAvail :: bool
  isAboveRightAvail :: bool
  isBelowLeftAvail :: bool
  isBelowRightAvail :: bool
  isCtuCrossedByVirtualBoundaries :: bool
  horVirBndryPos :: "int list"
  verVirBndryPos :: "int list"

definition sao_sgn :: "int \<Rightarrow> int" where
  "sao_sgn val = of_bool (0 < val) - of_bool (val < 0)"

definition ClipPel :: "SaoBlock \<Rightarrow> int \<Rightarrow> int" where
  "ClipPel b a = min (max (clpRng_min b) a) (clpRng_max b)"

definition isProcessDisabled :: "int \<Rightarrow> int \<Rightarrow> int list \<Rightarrow> int list \<Rightarrow> bool" where
  "isProcessDisabled xPos yPos ver hor \<longleftrightarrow>
     list_ex (\<lambda>v. xPos = v \<or> xPos = v - 1) ver \<or> list_ex (\<lambda>v. yPos = v \<or> yPos = v - 1) hor"

definition skip_hor :: "SaoBlock \<Rightarrow> int \<Rightarrow> int \<Rightarrow> bool" where
  "skip_hor b x y \<longleftrightarrow> isCtuCrossedByVirtualBoundaries b \<and> isProcessDisabled x y (verVirBndryPos b) []"

definition skip_ver :: "SaoBlock \<Rightarrow> int \<Rightarrow> int \<Rightarrow> bool" where
  "skip_ver b x y \<longleftrightarrow> isCtuCrossedByVirtualBoundaries b \<and> isProcessDisabled x y [] (horVirBndryPos b)"

definition skip_diag :: "SaoBlock \<Rightarrow> int \<Rightarrow> int \<Rightarrow> bool" where
  "skip_diag b x y \<longleftrightarrow> isCtuCrossedByVirtualBoundaries b \<and> isProcessDisabled x y (verVirBndryPos b) (horVirBndryPos b)"

text \<open>\<^verbatim>\<open>resLine[x] = ClipPel(srcLine[x] + offset[edgeType])\<close> in line \<open>y\<close>; \<^verbatim>\<open>offset\<close> points to the plain class.\<close>

definition edge_value :: "SaoBlock \<Rightarrow> int \<Rightarrow> int \<Rightarrow> int \<Rightarrow> int" where
  "edge_value b y x edgeType = ClipPel b (srcBlk b y x + sb_offset b ! nat (edgeType + 2))"

definition put_edge :: "SaoBlock \<Rightarrow> int \<Rightarrow> int \<Rightarrow> int \<Rightarrow> plane \<Rightarrow> plane" where
  "put_edge b y x edgeType res = res(y := (res y)(x := edge_value b y x edgeType))"

definition eo_startX :: "SaoBlock \<Rightarrow> int" where
  "eo_startX b = (if isLeftAvail b then 0 else 1)"

definition eo_endX :: "SaoBlock \<Rightarrow> int" where
  "eo_endX b = (if isRightAvail b then sb_width b else sb_width b - 1)"

subsection \<open>Horizontal edges\<close>

definition eo0_sample :: "SaoBlock \<Rightarrow> int \<Rightarrow> int \<times> plane \<Rightarrow> int \<Rightarrow> int \<times> plane" where
  "eo0_sample b y = (\<lambda>(signLeft, res) x.
     let signRight = sao_sgn (srcBlk b y x - srcBlk b y (x + 1))
     in if skip_hor b x y then (- signRight, res)
        else (- signRight, put_edge b y x (signRight + signLeft) res))"

definition offsetBlock_EO_0 :: "SaoBlock \<Rightarrow> plane \<Rightarrow> plane" where
  "offsetBlock_EO_0 b res = foldl (\<lambda>res y.
     snd (foldl (eo0_sample b y) (sao_sgn (srcBlk b y (eo_startX b) - srcBlk b y (eo_startX b - 1)), res) [eo_startX b..eo_endX b - 1]))
     res [0..sb_height b - 1]"

subsection \<open>Vertical edges\<close>

definition eo90_sample :: "SaoBlock \<Rightarrow> int \<Rightarrow> (int \<Rightarrow> int) \<times> plane \<Rightarrow> int \<Rightarrow> (int \<Rightarrow> int) \<times> plane" where
  "eo90_sample b y = (\<lambda>(signUpLine, res) x.
     let signDown = sao_sgn (srcBlk b y x - srcBlk b (y + 1) x)
     in if skip_ver b x y then (signUpLine(x := - signDown), res)
        else (signUpLine(x := - signDown), put_edge b y x (signDown + signUpLine x) res))"

definition offsetBlock_EO_90 :: "SaoBlock \<Rightarrow> (int \<Rightarrow> int) \<Rightarrow> plane \<Rightarrow> plane" where
  "offsetBlock_EO_90 b buf1 res =
     (let startY = (if isAboveAvail b then 0 else 1);
          endY = (if isBelowAvail b then sb_height b else sb_height b - 1);
          signUpLine = foldl (\<lambda>l x. l(x := sao_sgn (srcBlk b startY x - srcBlk b (startY - 1) x))) buf1 [0..sb_width b - 1]
      in snd (foldl (\<lambda>st y. foldl (eo90_sample b y) st [0..sb_width b - 1]) (signUpLine, res) [startY..endY - 1]))"

subsection \<open>Diagonal edges\<close>

definition eo135_first :: "SaoBlock \<Rightarrow> (int \<Rightarrow> int) \<Rightarrow> plane \<Rightarrow> int \<Rightarrow> plane" where
  "eo135_first b signUpLine res x =
     (if skip_diag b x 0 then res
      else put_edge b 0 x (sao_sgn (srcBlk b 0 x - srcBlk b (- 1) (x - 1)) - signUpLine (x + 1)) res)"

definition eo135_sample :: "SaoBlock \<Rightarrow> int \<Rightarrow> (int \<Rightarrow> int) \<Rightarrow> (int \<Rightarrow> int) \<times> plane \<Rightarrow> int \<Rightarrow> (int \<Rightarrow> int) \<times> plane" where
  "eo135_sample b y signUpLine = (\<lambda>(signDownLine, res) x.
     let signDown = sao_sgn (srcBlk b y x - srcBlk b (y + 1) (x + 1))
     in if skip_diag b x y then (signDownLine(x + 1 := - signDown), res)
        else (signDownLine(x + 1 := - signDown), put_edge b y x (signDown + signUpLine x) res))"

text \<open>One of the middle lines; the two buffers change places.\<close>

definition eo135_line :: "SaoBlock \<Rightarrow> ((int \<Rightarrow> int) \<times> (int \<Rightarrow> int)) \<times> plane \<Rightarrow> int \<Rightarrow> ((int \<Rightarrow> int) \<times> (int \<Rightarrow> int)) \<times> plane" where
  "eo135_line b = (\<lambda>((signUpLine, signDownLine), res) y.
     let startX = eo_startX b;
         (signDownLine, res) = foldl (eo135_sample b y signUpLine) (signDownLine, res) [startX..eo_endX b - 1];
         signDownLine = signDownLine(startX := sao_sgn (srcBlk b (y + 1) startX - srcBlk b y (startX - 1)))
     in ((signDownLine, signUpLine), res))"

definition eo135_last :: "SaoBlock \<Rightarrow> int \<Rightarrow> (int \<Rightarrow> int) \<Rightarrow> plane \<Rightarrow> int \<Rightarrow> plane" where
  "eo135_last b y signUpLine res x =
     (if skip_diag b x (sb_height b - 1) then res
      else put_edge b y x (sao_sgn (srcBlk b y x - srcBlk b (y + 1) (x + 1)) + signUpLine x) res)"

definition offsetBlock_EO_135 :: "SaoBlock \<Rightarrow> (int \<Rightarrow> int) \<Rightarrow> (int \<Rightarrow> int) \<Rightarrow> plane \<Rightarrow> plane" where
  "offsetBlock_EO_135 b buf1 buf2 res =
     (let startX = eo_startX b; endX = eo_endX b;
          signUpLine = foldl (\<lambda>l x. l(x := sao_sgn (srcBlk b 1 x - srcBlk b 0 (x - 1)))) buf1 [startX..endX];
          firstLineStartX = (if isAboveLeftAvail b then 0 else 1);
          firstLineEndX = (if isAboveAvail b then endX else 1);
          res = foldl (eo135_first b signUpLine) res [firstLineStartX..firstLineEndX - 1];
          ((signUpLine, _), res) = foldl (eo135_line b) ((signUpLine, buf2), res) [1..sb_height b - 2];
          lastLineStartX = (if isBelowAvail b then startX else sb_width b - 1);
          lastLineEndX = (if isBelowRightAvail b then sb_width b else sb_width b - 1)
      in foldl (eo135_last b (max 1 (sb_height b - 1)) signUpLine) res [lastLineStartX..lastLineEndX - 1])"

definition eo45_first :: "SaoBlock \<Rightarrow> (int \<Rightarrow> int) \<Rightarrow> plane \<Rightarrow> int \<Rightarrow> plane" where
  "eo45_first b signUpLine res x =
     (if skip_diag b x 0 then res
      else put_edge b 0 x (sao_sgn (srcBlk b 0 x - srcBlk b (- 1) (x + 1)) - signUpLine (x - 1)) res)"

definition eo45_sample :: "SaoBlock \<Rightarrow> int \<Rightarrow> (int \<Rightarrow> int) \<times> plane \<Rightarrow> int \<Rightarrow> (int \<Rightarrow> int) \<times> plane" where
  "eo45_sample b y = (\<lambda>(signUpLine, res) x.
     let signDown = sao_sgn (srcBlk b y x - srcBlk b (y + 1) (x - 1))
     in if skip_diag b x y then (signUpLine(x - 1 := - signDown), res)
        else (signUpLine(x - 1 := - signDown), put_edge b y x (signDown + signUpLine x) res))"

definition eo45_line :: "SaoBlock \<Rightarrow> (int \<Rightarrow> int) \<times> plane \<Rightarrow> int \<Rightarrow> (int \<Rightarrow> int) \<times> plane" where
  "eo45_line b st y =
     (let endX = eo_endX b; (signUpLine, res) = foldl (eo45_sample b y) st [eo_startX b..endX - 1]
      in (signUpLine(endX - 1 := sao_sgn (srcBlk b (y + 1) (endX - 1) - srcBlk b y endX)), res))"

definition eo45_last :: "SaoBlock \<Rightarrow> int \<Rightarrow> (int \<Rightarrow> int) \<Rightarrow> plane \<Rightarrow> int \<Rightarrow> plane" where
  "eo45_last b y signUpLine res x =
     (if skip_diag b x (sb_height b - 1) then res
      else put_edge b y x (sao_sgn (srcBlk b y x - srcBlk b (y + 1) (x - 1)) + signUpLine x) res)"

definition offsetBlock_EO_45 :: "SaoBlock \<Rightarrow> (int \<Rightarrow> int) \<Rightarrow> plane \<Rightarrow> plane" where
  "offsetBlock_EO_45 b buf1 res =
     (let startX = eo_startX b; endX = eo_endX b;
          signUpLine = foldl (\<lambda>l x. l(x := sao_sgn (srcBlk b 1 x - srcBlk b 0 (x + 1)))) buf1 [startX - 1..endX - 1];
          firstLineStartX = (if isAboveAvail b then startX else sb_width b - 1);
          firstLineEndX = (if isAboveRightAvail b then sb_width b else sb_width b - 1);
          res = foldl (eo45_first b signUpLine) res [firstLineStartX..firstLineEndX - 1];
          (signUpLine, res) = foldl (eo45_line b) (signUpLine, res) [1..sb_height b - 2];
          lastLineStartX = (if isBelowLeftAvail b then 0 else 1);
          lastLineEndX = (if isBelowAvail b then endX else 1)
      in foldl (eo45_last b (max 1 (sb_height b - 1)) signUpLine) res [lastLineStartX..lastLineEndX - 1])"

subsection \<open>Bands, and the dispatch\<close>

definition band_value :: "SaoBlock \<Rightarrow> int \<Rightarrow> int \<Rightarrow> int" where
  "band_value b y x = ClipPel b (srcBlk b y x + sb_offset b ! nat (drop_bit (sb_channelBitDepth b - 5) (srcBlk b y x)))"

definition offsetBlock_BO :: "SaoBlock \<Rightarrow> plane \<Rightarrow> plane" where
  "offsetBlock_BO b res =
     foldl (\<lambda>res y. foldl (\<lambda>res x. res(y := (res y)(x := band_value b y x))) res [0..sb_width b - 1]) res [0..sb_height b - 1]"

definition offsetBlock :: "SaoBlock \<Rightarrow> int \<Rightarrow> (int \<Rightarrow> int) \<Rightarrow> (int \<Rightarrow> int) \<Rightarrow> plane \<Rightarrow> plane option" where
  "offsetBlock b typeIdx buf1 buf2 res =
     (if typeIdx = 0 then Some (offsetBlock_EO_0 b res)
      else if typeIdx = 1 then Some (offsetBlock_EO_90 b buf1 res)
      else if typeIdx = 2 then Some (offsetBlock_EO_135 b buf1 buf2 res)
      else if typeIdx = 3 then Some (offsetBlock_EO_45 b buf1 res)
      else if typeIdx = SAO_TYPE_BO then Some (offsetBlock_BO b res)
      else None)"

subsection \<open>The specification\<close>

text \<open>The class of a sample is found from the neighbour before and the neighbour behind in the direction
  of the edge type; \<open>dx\<close> and \<open>dy\<close> lead to the latter.\<close>

definition eo_class :: "SaoBlock \<Rightarrow> int \<Rightarrow> int \<Rightarrow> int \<Rightarrow> int \<Rightarrow> int" where
  "eo_class b dx dy y x =
     sao_sgn (srcBlk b y x - srcBlk b (y - dy) (x - dx)) + sao_sgn (srcBlk b y x - srcBlk b (y + dy) (x + dx))"

definition sao_value :: "SaoBlock \<Rightarrow> int \<Rightarrow> int \<Rightarrow> int \<Rightarrow> int" where
  "sao_value b typeIdx y x =
     (if typeIdx = 0 then edge_value b y x (eo_class b 1 0 y x)
      else if typeIdx = 1 then edge_value b y x (eo_class b 0 1 y x)
      else if typeIdx = 2 then edge_value b y x (eo_class b 1 1 y x)
      else if typeIdx = 3 then edge_value b y x (eo_class b (- 1) 1 y x)
      else band_value b y x)"

text \<open>
  The samples that are changed, stated without the column bounds of the loops: those whose two neighbours in
  the direction of the edge may be used, which for a neighbour outside the block is said by the flag of the
  side or corner it lies in, and which do not touch a virtual boundary.
\<close>

definition at_virtual_boundary :: "SaoBlock \<Rightarrow> int list \<Rightarrow> int \<Rightarrow> bool" where
  "at_virtual_boundary b bnds pos \<longleftrightarrow> isCtuCrossedByVirtualBoundaries b \<and> (\<exists>v \<in> set bnds. v - 1 \<le> pos \<and> pos \<le> v)"

definition neighbour_usable :: "SaoBlock \<Rightarrow> int \<Rightarrow> int \<Rightarrow> bool" where
  "neighbour_usable b y x \<longleftrightarrow>
     (let w = sb_width b; h = sb_height b in
      if y < 0 then (if x < 0 then isAboveLeftAvail b else if x < w then isAboveAvail b else isAboveRightAvail b)
      else if y < h then (if x < 0 then isLeftAvail b else if x < w then True else isRightAvail b)
      else (if x < 0 then isBelowLeftAvail b else if x < w then isBelowAvail b else isBelowRightAvail b))"

text \<open>The step towards the second neighbour, by edge type.\<close>

definition eo_step :: "int \<Rightarrow> int \<times> int" where
  "eo_step typeIdx =
     (if typeIdx = 0 then (1, 0) else if typeIdx = 1 then (0, 1) else if typeIdx = 2 then (1, 1) else (- 1, 1))"

definition sao_changes :: "SaoBlock \<Rightarrow> int \<Rightarrow> int \<Rightarrow> int \<Rightarrow> bool" where
  "sao_changes b typeIdx y x \<longleftrightarrow>
     0 \<le> y \<and> y < sb_height b \<and> 0 \<le> x \<and> x < sb_width b \<and>
     (typeIdx \<in> {0, 1, 2, 3} \<longrightarrow>
       (let (dx, dy) = eo_step typeIdx in
        neighbour_usable b (y - dy) (x - dx) \<and> neighbour_usable b (y + dy) (x + dx)
        \<and> (typeIdx \<noteq> 1 \<longrightarrow> \<not> at_virtual_boundary b (verVirBndryPos b) x)
        \<and> (typeIdx \<noteq> 0 \<longrightarrow> \<not> at_virtual_boundary b (horVirBndryPos b) y)))"

lemma at_virtual_boundary_code:
  "at_virtual_boundary b (verVirBndryPos b) x \<longleftrightarrow> skip_hor b x y"
  "at_virtual_boundary b (horVirBndryPos b) y \<longleftrightarrow> skip_ver b x y"
  "skip_diag b x y \<longleftrightarrow> skip_hor b x y \<or> skip_ver b x y"
proof -
  have "(v - 1 \<le> z \<and> z \<le> v) \<longleftrightarrow> (z = v \<or> z = v - 1)" for z v :: int by auto
  then show "at_virtual_boundary b (verVirBndryPos b) x \<longleftrightarrow> skip_hor b x y"
    "at_virtual_boundary b (horVirBndryPos b) y \<longleftrightarrow> skip_ver b x y"
    by (simp_all add: at_virtual_boundary_def skip_hor_def skip_ver_def isProcessDisabled_def list_ex_iff)
  show "skip_diag b x y \<longleftrightarrow> skip_hor b x y \<or> skip_ver b x y"
    by (auto simp: skip_hor_def skip_ver_def skip_diag_def isProcessDisabled_def)
qed

text \<open>The same in terms of the bounds of the loops.\<close>

lemma sao_changes_0:
  "sao_changes b 0 y x \<longleftrightarrow> 0 \<le> y \<and> y < sb_height b \<and> 0 \<le> x \<and> x < sb_width b
     \<and> eo_startX b \<le> x \<and> x < eo_endX b \<and> \<not> skip_hor b x y"
  by (auto simp: sao_changes_def eo_step_def at_virtual_boundary_code(1) [where y = y] at_virtual_boundary_code(2) [where x = x]
      at_virtual_boundary_code(3) neighbour_usable_def Let_def
      eo_startX_def eo_endX_def)

lemma sao_changes_1:
  assumes "2 \<le> sb_height b"
  shows "sao_changes b 1 y x \<longleftrightarrow> 0 \<le> y \<and> y < sb_height b \<and> 0 \<le> x \<and> x < sb_width b
     \<and> (0 < y \<or> isAboveAvail b) \<and> (y < sb_height b - 1 \<or> isBelowAvail b) \<and> \<not> skip_ver b x y"
  using assms
  by (auto simp: sao_changes_def eo_step_def at_virtual_boundary_code(1) [where y = y] at_virtual_boundary_code(2) [where x = x]
      at_virtual_boundary_code(3) neighbour_usable_def Let_def)

lemma sao_changes_2:
  assumes "2 \<le> sb_width b" and "2 \<le> sb_height b"
  shows "sao_changes b 2 y x \<longleftrightarrow> 0 \<le> y \<and> y < sb_height b \<and> 0 \<le> x \<and> x < sb_width b \<and> \<not> skip_diag b x y
     \<and> (if y = 0 then (if x = 0 then isAboveLeftAvail b else isAboveAvail b \<and> x < eo_endX b)
        else if y = sb_height b - 1 then (if x = sb_width b - 1 then isBelowRightAvail b else isBelowAvail b \<and> eo_startX b \<le> x)
        else eo_startX b \<le> x \<and> x < eo_endX b)"
  using assms
  by (auto simp: sao_changes_def eo_step_def at_virtual_boundary_code(1) [where y = y] at_virtual_boundary_code(2) [where x = x]
      at_virtual_boundary_code(3) neighbour_usable_def Let_def
      eo_startX_def eo_endX_def)

lemma sao_changes_3:
  assumes "2 \<le> sb_width b" and "2 \<le> sb_height b"
  shows "sao_changes b 3 y x \<longleftrightarrow> 0 \<le> y \<and> y < sb_height b \<and> 0 \<le> x \<and> x < sb_width b \<and> \<not> skip_diag b x y
     \<and> (if y = 0 then (if x = sb_width b - 1 then isAboveRightAvail b else isAboveAvail b \<and> eo_startX b \<le> x)
        else if y = sb_height b - 1 then (if x = 0 then isBelowLeftAvail b else isBelowAvail b \<and> x < eo_endX b)
        else eo_startX b \<le> x \<and> x < eo_endX b)"
  using assms
  by (auto simp: sao_changes_def eo_step_def at_virtual_boundary_code(1) [where y = y] at_virtual_boundary_code(2) [where x = x]
      at_virtual_boundary_code(3) neighbour_usable_def Let_def
      eo_startX_def eo_endX_def)

lemma sao_changes_4:
  "sao_changes b 4 y x \<longleftrightarrow> 0 \<le> y \<and> y < sb_height b \<and> 0 \<le> x \<and> x < sb_width b"
  by (auto simp: sao_changes_def)

subsection \<open>Loops over lines and columns\<close>

lemma foldl_upto_inv:
  assumes "a \<le> b" and "P a s" and "\<And>x s. a \<le> x \<Longrightarrow> x < b \<Longrightarrow> P x s \<Longrightarrow> P (x + 1) (f s x)"
  shows "P b (foldl f s [a..b - 1])"
  using assms
proof (induction b rule: int_ge_induct)
  case (step i)
  then have "P i (foldl f s [a..i - 1])" by simp
  then have "P (i + 1) (f (foldl f s [a..i - 1]) i)" using step by simp
  then show ?case using step.hyps by (simp add: upto_rec2)
qed simp

text \<open>The plane after the samples of a region were set.\<close>

definition paint :: "(int \<Rightarrow> int \<Rightarrow> bool) \<Rightarrow> plane \<Rightarrow> plane \<Rightarrow> plane" where
  "paint A f res = (\<lambda>y x. if A y x then f y x else res y x)"

lemma paint_none: "(\<And>y x. \<not> A y x) \<Longrightarrow> paint A f res = res"
  by (intro ext) (simp add: paint_def)

lemma paint_paint: "paint B f (paint A f res) = paint (\<lambda>y x. A y x \<or> B y x) f res"
  by (intro ext) (simp add: paint_def)

lemma paint_cong: "(\<And>y x. A y x \<longleftrightarrow> B y x) \<Longrightarrow> (\<And>y x. B y x \<Longrightarrow> f y x = g y x) \<Longrightarrow> paint A f res = paint B g res"
  by (intro ext) (auto simp: paint_def)

lemma ex_upto_last: "a \<le> n \<Longrightarrow> (\<exists>k. a \<le> k \<and> k \<le> n \<and> Q k) \<longleftrightarrow> (\<exists>k. a \<le> k \<and> k < n \<and> Q k) \<or> Q (n::int)"
  by (metis order_le_less order_refl)

text \<open>A loop in which step \<open>k\<close> sets the samples of the region \<open>R k\<close> and carries a value along.\<close>

lemma foldl_paint:
  assumes "a \<le> b" and "I a c"
    and "\<And>c res k. a \<le> k \<Longrightarrow> k < b \<Longrightarrow> I k c \<Longrightarrow> I (k + 1) (fst (step (c, res) k)) \<and> snd (step (c, res) k) = paint (R k) f res"
  shows "I b (fst (foldl step (c, res) [a..b - 1])) \<and>
    snd (foldl step (c, res) [a..b - 1]) = paint (\<lambda>y x. \<exists>k. a \<le> k \<and> k < b \<and> R k y x) f res"
  using assms(1)
proof (rule foldl_upto_inv [where P = "\<lambda>n st. I n (fst st) \<and> snd st = paint (\<lambda>y x. \<exists>k. a \<le> k \<and> k < n \<and> R k y x) f res"])
  fix n and st :: "'a \<times> plane"
  assume n: "a \<le> n" "n < b" and st: "I n (fst st) \<and> snd st = paint (\<lambda>y x. \<exists>k. a \<le> k \<and> k < n \<and> R k y x) f res"
  obtain c r where cr: "st = (c, r)" by fastforce
  from st n assms(3) [OF n, of c r] show "I (n + 1) (fst (step st n)) \<and> snd (step st n) = paint (\<lambda>y x. \<exists>k. a \<le> k \<and> k < n + 1 \<and> R k y x) f res"
    by (simp add: cr paint_paint ex_upto_last)
qed (use assms(2) in \<open>auto simp: paint_none\<close>)

lemma foldl_paint0:
  assumes "\<And>res k. a \<le> k \<Longrightarrow> k < b \<Longrightarrow> step res k = paint (R k) f res"
  shows "foldl step res [a..b - 1] = paint (\<lambda>y x. \<exists>k. a \<le> k \<and> k < b \<and> R k y x) f res"
proof (cases "a \<le> b")
  case True
  then show ?thesis
  proof (rule foldl_upto_inv [where P = "\<lambda>n st. st = paint (\<lambda>y x. \<exists>k. a \<le> k \<and> k < n \<and> R k y x) f res"])
    fix n st assume n: "a \<le> n" "n < b" and st: "st = paint (\<lambda>y x. \<exists>k. a \<le> k \<and> k < n \<and> R k y x) f res"
    from n st assms [OF n] show "step st n = paint (\<lambda>y x. \<exists>k. a \<le> k \<and> k < n + 1 \<and> R k y x) f res"
      by (simp add: paint_paint ex_upto_last)
  qed (simp add: paint_none)
qed (auto simp: paint_none)

lemma foldl_store: "foldl (\<lambda>l x. l(x := g x)) l xs = (\<lambda>x. if x \<in> set xs then g x else l x)"
  by (induction xs arbitrary: l) auto

lemma put_edge_paint: "f y x = edge_value b y x edgeType \<Longrightarrow>
    put_edge b y x edgeType res = paint (\<lambda>y' x'. y' = y \<and> x' = x) f res"
  by (intro ext) (auto simp: put_edge_def paint_def)

lemma put_edge_unless:
  assumes "f y x = edge_value b y x edgeType"
  shows "(if skip then res else put_edge b y x edgeType res) = paint (\<lambda>y' x'. y' = y \<and> x' = x \<and> \<not> skip) f res"
  using put_edge_paint [of f y x b edgeType res] assms by (simp add: paint_none)

lemma sao_sgn_minus: "- sao_sgn (a - b) = sao_sgn (b - a)"
  by (simp add: sao_sgn_def)

subsection \<open>Each type against the specification\<close>

lemma eo_bounds:
  assumes "2 \<le> sb_width b"
  shows "0 \<le> eo_startX b" "eo_startX b \<le> 1" "1 \<le> eo_endX b" "sb_width b - 1 \<le> eo_endX b" "eo_endX b \<le> sb_width b"
  using assms by (auto simp: eo_startX_def eo_endX_def)

lemma EO_0_spec:
  assumes "2 \<le> sb_width b"
  shows "offsetBlock_EO_0 b res = paint (sao_changes b 0) (sao_value b 0) res"
proof -
  have line: "snd (foldl (eo0_sample b y) (sao_sgn (srcBlk b y (eo_startX b) - srcBlk b y (eo_startX b - 1)), res) [eo_startX b..eo_endX b - 1])
     = paint (\<lambda>y' x'. \<exists>x. eo_startX b \<le> x \<and> x < eo_endX b \<and> y' = y \<and> x' = x \<and> \<not> skip_hor b x y) (sao_value b 0) res" for y res
  proof (rule foldl_paint [THEN conjunct2, where I1 = "\<lambda>x c. c = sao_sgn (srcBlk b y x - srcBlk b y (x - 1))"])
    fix c res x assume "c = sao_sgn (srcBlk b y x - srcBlk b y (x - 1))"
    then show "fst (eo0_sample b y (c, res) x) = sao_sgn (srcBlk b y (x + 1) - srcBlk b y (x + 1 - 1)) \<and>
        snd (eo0_sample b y (c, res) x) = paint (\<lambda>y' x'. y' = y \<and> x' = x \<and> \<not> skip_hor b x y) (sao_value b 0) res"
      using put_edge_unless [of "sao_value b 0" y x b "c + sao_sgn (srcBlk b y x - srcBlk b y (x + 1))" "skip_hor b x y" res]
      by (auto simp: eo0_sample_def sao_sgn_minus sao_value_def eo_class_def add.commute split: if_splits)
  qed (use eo_bounds [OF assms] in auto)
  show ?thesis unfolding offsetBlock_EO_0_def
    by (rule trans [OF foldl_paint0 paint_cong], rule line)
      (use eo_bounds [OF assms] in \<open>auto simp: sao_changes_0\<close>)
qed

lemma EO_90_spec:
  assumes "2 \<le> sb_width b" and "2 \<le> sb_height b"
  shows "offsetBlock_EO_90 b buf1 res = paint (sao_changes b 1) (sao_value b 1) res"
proof -
  let ?J = "\<lambda>y up. \<forall>x. 0 \<le> x \<and> x < sb_width b \<longrightarrow> up x = sao_sgn (srcBlk b y x - srcBlk b (y - 1) x)"
  have line: "?J (y + 1) (fst (foldl (eo90_sample b y) (up, res) [0..sb_width b - 1])) \<and>
     snd (foldl (eo90_sample b y) (up, res) [0..sb_width b - 1]) =
       paint (\<lambda>y' x'. \<exists>x. 0 \<le> x \<and> x < sb_width b \<and> y' = y \<and> x' = x \<and> \<not> skip_ver b x y) (sao_value b 1) res"
    if up: "?J y up" for y up res
  proof -
    let ?I = "\<lambda>x up. \<forall>x'. 0 \<le> x' \<and> x' < sb_width b \<longrightarrow> up x' = (if x' < x then sao_sgn (srcBlk b (y + 1) x' - srcBlk b y x')
        else sao_sgn (srcBlk b y x' - srcBlk b (y - 1) x'))"
    have "?I (sb_width b) (fst (foldl (eo90_sample b y) (up, res) [0..sb_width b - 1])) \<and>
     snd (foldl (eo90_sample b y) (up, res) [0..sb_width b - 1]) =
       paint (\<lambda>y' x'. \<exists>x. 0 \<le> x \<and> x < sb_width b \<and> y' = y \<and> x' = x \<and> \<not> skip_ver b x y) (sao_value b 1) res"
    proof (rule foldl_paint [where I = ?I])
      fix c :: "int \<Rightarrow> int" and res x assume x: "0 \<le> x" "x < sb_width b" and I: "?I x c"
      then have "c x = sao_sgn (srcBlk b y x - srcBlk b (y - 1) x)" by simp
      then show "?I (x + 1) (fst (eo90_sample b y (c, res) x)) \<and>
        snd (eo90_sample b y (c, res) x) = paint (\<lambda>y' x'. y' = y \<and> x' = x \<and> \<not> skip_ver b x y) (sao_value b 1) res"
        using I put_edge_unless [of "sao_value b 1" y x b "c x + sao_sgn (srcBlk b y x - srcBlk b (y + 1) x)" "skip_ver b x y" res]
        by (auto simp: eo90_sample_def sao_sgn_minus sao_value_def eo_class_def add.commute split: if_splits)
    qed (use assms up in auto)
    then show ?thesis by auto
  qed
  define startY :: int where "startY = (if isAboveAvail b then 0 else 1)"
  define endY where "endY = (if isBelowAvail b then sb_height b else sb_height b - 1)"
  let ?up = "foldl (\<lambda>l x. l(x := sao_sgn (srcBlk b startY x - srcBlk b (startY - 1) x))) buf1 [0..sb_width b - 1]"
  have "snd (foldl (\<lambda>st y. foldl (eo90_sample b y) st [0..sb_width b - 1]) (?up, res) [startY..endY - 1])
    = paint (\<lambda>y' x'. \<exists>y. startY \<le> y \<and> y < endY \<and> (\<exists>x. 0 \<le> x \<and> x < sb_width b \<and> y' = y \<and> x' = x \<and> \<not> skip_ver b x y)) (sao_value b 1) res"
    by (rule foldl_paint [THEN conjunct2, where I1 = ?J])
      (use assms line in \<open>auto simp: foldl_store startY_def endY_def\<close>)
  also have "\<dots> = paint (sao_changes b 1) (sao_value b 1) res"
    using assms by (intro paint_cong refl) (auto simp: sao_changes_1 startY_def endY_def)
  finally show ?thesis
    by (simp add: offsetBlock_EO_90_def Let_def startY_def endY_def)
qed

lemma EO_135_line:
  assumes "2 \<le> sb_width b" and up: "\<forall>x. eo_startX b \<le> x \<and> x \<le> eo_endX b \<longrightarrow> up x = sao_sgn (srcBlk b y x - srcBlk b (y - 1) (x - 1))"
  shows "(\<forall>x. eo_startX b \<le> x \<and> x \<le> eo_endX b \<longrightarrow> fst (fst (eo135_line b ((up, down), res) y)) x = sao_sgn (srcBlk b (y + 1) x - srcBlk b y (x - 1)))
    \<and> snd (eo135_line b ((up, down), res) y) =
      paint (\<lambda>y' x'. \<exists>x. eo_startX b \<le> x \<and> x < eo_endX b \<and> y' = y \<and> x' = x \<and> \<not> skip_diag b x y) (sao_value b 2) res"
proof -
  let ?I = "\<lambda>x down. \<forall>x'. eo_startX b < x' \<and> x' \<le> x \<longrightarrow> down x' = sao_sgn (srcBlk b (y + 1) x' - srcBlk b y (x' - 1))"
  have "?I (eo_endX b) (fst (foldl (eo135_sample b y up) (down, res) [eo_startX b..eo_endX b - 1])) \<and>
     snd (foldl (eo135_sample b y up) (down, res) [eo_startX b..eo_endX b - 1]) =
       paint (\<lambda>y' x'. \<exists>x. eo_startX b \<le> x \<and> x < eo_endX b \<and> y' = y \<and> x' = x \<and> \<not> skip_diag b x y) (sao_value b 2) res"
  proof (rule foldl_paint [where I = ?I])
    fix c :: "int \<Rightarrow> int" and res x assume x: "eo_startX b \<le> x" "x < eo_endX b" and I: "?I x c"
    then have "up x = sao_sgn (srcBlk b y x - srcBlk b (y - 1) (x - 1))" using up by simp
    then show "?I (x + 1) (fst (eo135_sample b y up (c, res) x)) \<and>
      snd (eo135_sample b y up (c, res) x) = paint (\<lambda>y' x'. y' = y \<and> x' = x \<and> \<not> skip_diag b x y) (sao_value b 2) res"
      using I put_edge_unless [of "sao_value b 2" y x b "up x + sao_sgn (srcBlk b y x - srcBlk b (y + 1) (x + 1))" "skip_diag b x y" res]
      by (auto simp: eo135_sample_def sao_sgn_minus sao_value_def eo_class_def add.commute split: if_splits)
  qed (use eo_bounds [OF assms(1)] in auto)
  then show ?thesis by (auto simp: eo135_line_def Let_def split: prod.splits)
qed

lemma EO_135_spec:
  assumes "2 \<le> sb_width b" and "2 \<le> sb_height b"
  shows "offsetBlock_EO_135 b buf1 buf2 res = paint (sao_changes b 2) (sao_value b 2) res"
proof -
  note bounds = eo_bounds [OF assms(1)]
  let ?h = "sb_height b - 1"
  let ?J = "\<lambda>y up. \<forall>x. eo_startX b \<le> x \<and> x \<le> eo_endX b \<longrightarrow> up x = sao_sgn (srcBlk b y x - srcBlk b (y - 1) (x - 1))"
  define up1 where "up1 = foldl (\<lambda>l x. l(x := sao_sgn (srcBlk b 1 x - srcBlk b 0 (x - 1)))) buf1 [eo_startX b..eo_endX b]"
  have up1: "?J 1 up1" by (simp add: up1_def foldl_store)
  define fs fe ls le where "fs = (if isAboveLeftAvail b then 0 else 1 :: int)" and "fe = (if isAboveAvail b then eo_endX b else 1)"
    and "ls = (if isBelowAvail b then eo_startX b else sb_width b - 1)" and "le = (if isBelowRightAvail b then sb_width b else sb_width b - 1)"
  let ?R1 = "\<lambda>y' x'. \<exists>x. fs \<le> x \<and> x < fe \<and> y' = 0 \<and> x' = x \<and> \<not> skip_diag b x 0"
  have first: "foldl (eo135_first b up1) res [fs..fe - 1] = paint ?R1 (sao_value b 2) res"
  proof (rule foldl_paint0)
    fix res x assume x: "fs \<le> x" "x < fe"
    then have "up1 (x + 1) = sao_sgn (srcBlk b 1 (x + 1) - srcBlk b 0 x)"
      using up1 bounds by (auto simp: fs_def fe_def split: if_splits)
    then have "sao_sgn (srcBlk b 0 x - srcBlk b (- 1) (x - 1)) - up1 (x + 1) = eo_class b 1 1 0 x"
      using sao_sgn_minus [of "srcBlk b 1 (x + 1)" "srcBlk b 0 x"] by (simp add: eo_class_def)
    then show "eo135_first b up1 res x = paint (\<lambda>y' x'. y' = 0 \<and> x' = x \<and> \<not> skip_diag b x 0) (sao_value b 2) res"
      unfolding eo135_first_def by (intro put_edge_unless) (simp add: sao_value_def)
  qed
  let ?R2 = "\<lambda>y' x'. \<exists>y. 1 \<le> y \<and> y < ?h \<and> (\<exists>x. eo_startX b \<le> x \<and> x < eo_endX b \<and> y' = y \<and> x' = x \<and> \<not> skip_diag b x y)"
  define M where "M = foldl (eo135_line b) ((up1, buf2), paint ?R1 (sao_value b 2) res) [1..?h - 1]"
  have "?J ?h (fst (fst M)) \<and> snd M = paint ?R2 (sao_value b 2) (paint ?R1 (sao_value b 2) res)"
    unfolding M_def
  proof (rule foldl_paint [where I = "\<lambda>y c. ?J y (fst c)"])
    fix c :: "(int \<Rightarrow> int) \<times> (int \<Rightarrow> int)" and res y assume "?J y (fst c)"
    with EO_135_line [OF assms(1), of "fst c" y "snd c" res]
    show "?J (y + 1) (fst (fst (eo135_line b (c, res) y))) \<and> snd (eo135_line b (c, res) y) =
      paint (\<lambda>y' x'. \<exists>x. eo_startX b \<le> x \<and> x < eo_endX b \<and> y' = y \<and> x' = x \<and> \<not> skip_diag b x y) (sao_value b 2) res"
      by simp
  qed (use assms up1 in auto)
  moreover define up r where "up = fst (fst M)" and "r = snd M"
  ultimately have up: "?J ?h up" and r: "r = paint ?R2 (sao_value b 2) (paint ?R1 (sao_value b 2) res)" by simp_all
  let ?R3 = "\<lambda>y' x'. \<exists>x. ls \<le> x \<and> x < le \<and> y' = ?h \<and> x' = x \<and> \<not> skip_diag b x ?h"
  have last: "foldl (eo135_last b ?h up) r [ls..le - 1] = paint ?R3 (sao_value b 2) r"
  proof (rule foldl_paint0)
    fix res x assume x: "ls \<le> x" "x < le"
    then have "up x = sao_sgn (srcBlk b ?h x - srcBlk b (?h - 1) (x - 1))"
      using up bounds assms(1) by (auto simp: ls_def le_def split: if_splits)
    then show "eo135_last b ?h up res x = paint (\<lambda>y' x'. y' = ?h \<and> x' = x \<and> \<not> skip_diag b x ?h) (sao_value b 2) res"
      unfolding eo135_last_def by (intro put_edge_unless) (simp add: sao_value_def eo_class_def add.commute)
  qed
  have "offsetBlock_EO_135 b buf1 buf2 res = foldl (eo135_last b ?h up) r [ls..le - 1]"
    using assms(2) unfolding up_def r_def M_def first [symmetric]
    by (simp add: offsetBlock_EO_135_def Let_def up1_def fs_def fe_def ls_def le_def case_prod_beta)
  also note last
  also have "paint ?R3 (sao_value b 2) r = paint (sao_changes b 2) (sao_value b 2) res"
    unfolding r paint_paint
  proof (rule paint_cong)
    fix y x
    consider "y < 0" | "y = 0" | "0 < y" "y < ?h" | "y = ?h" | "?h < y" by linarith
    then show "(?R1 y x \<or> ?R2 y x) \<or> ?R3 y x \<longleftrightarrow> sao_changes b 2 y x"
      by cases (use assms bounds in \<open>auto simp: sao_changes_2 fs_def fe_def ls_def le_def\<close>)
  qed simp
  finally show ?thesis .
qed

lemma EO_45_line:
  assumes "2 \<le> sb_width b"
    and up: "\<forall>x. eo_startX b - 1 \<le> x \<and> x < eo_endX b \<longrightarrow> up x = sao_sgn (srcBlk b y x - srcBlk b (y - 1) (x + 1))"
  shows "(\<forall>x. eo_startX b - 1 \<le> x \<and> x < eo_endX b \<longrightarrow> fst (eo45_line b (up, res) y) x = sao_sgn (srcBlk b (y + 1) x - srcBlk b y (x + 1)))
    \<and> snd (eo45_line b (up, res) y) =
      paint (\<lambda>y' x'. \<exists>x. eo_startX b \<le> x \<and> x < eo_endX b \<and> y' = y \<and> x' = x \<and> \<not> skip_diag b x y) (sao_value b 3) res"
proof -
  let ?I = "\<lambda>x up. (\<forall>x'. eo_startX b - 1 \<le> x' \<and> x' < x - 1 \<longrightarrow> up x' = sao_sgn (srcBlk b (y + 1) x' - srcBlk b y (x' + 1)))
     \<and> (\<forall>x'. x \<le> x' \<and> x' < eo_endX b \<longrightarrow> up x' = sao_sgn (srcBlk b y x' - srcBlk b (y - 1) (x' + 1)))"
  have "?I (eo_endX b) (fst (foldl (eo45_sample b y) (up, res) [eo_startX b..eo_endX b - 1])) \<and>
     snd (foldl (eo45_sample b y) (up, res) [eo_startX b..eo_endX b - 1]) =
       paint (\<lambda>y' x'. \<exists>x. eo_startX b \<le> x \<and> x < eo_endX b \<and> y' = y \<and> x' = x \<and> \<not> skip_diag b x y) (sao_value b 3) res"
  proof (rule foldl_paint [where I = ?I])
    fix c :: "int \<Rightarrow> int" and res x assume x: "eo_startX b \<le> x" "x < eo_endX b" and I: "?I x c"
    then have "c x = sao_sgn (srcBlk b y x - srcBlk b (y - 1) (x + 1))" by simp
    then have "snd (eo45_sample b y (c, res) x) = paint (\<lambda>y' x'. y' = y \<and> x' = x \<and> \<not> skip_diag b x y) (sao_value b 3) res"
      using put_edge_unless [of "sao_value b 3" y x b "c x + sao_sgn (srcBlk b y x - srcBlk b (y + 1) (x - 1))" "skip_diag b x y" res]
      by (auto simp: eo45_sample_def Let_def sao_value_def eo_class_def add.commute split: if_splits)
    moreover have "fst (eo45_sample b y (c, res) x) = c(x - 1 := sao_sgn (srcBlk b (y + 1) (x - 1) - srcBlk b y x))"
      by (simp add: eo45_sample_def Let_def sao_sgn_minus)
    ultimately show "?I (x + 1) (fst (eo45_sample b y (c, res) x)) \<and>
      snd (eo45_sample b y (c, res) x) = paint (\<lambda>y' x'. y' = y \<and> x' = x \<and> \<not> skip_diag b x y) (sao_value b 3) res"
      using I by auto
  qed (use eo_bounds [OF assms(1)] up in auto)
  then show ?thesis by (auto simp: eo45_line_def Let_def split: prod.splits)
qed

lemma EO_45_spec:
  assumes "2 \<le> sb_width b" and "2 \<le> sb_height b"
  shows "offsetBlock_EO_45 b buf1 res = paint (sao_changes b 3) (sao_value b 3) res"
proof -
  note bounds = eo_bounds [OF assms(1)]
  let ?h = "sb_height b - 1"
  let ?J = "\<lambda>y up. \<forall>x. eo_startX b - 1 \<le> x \<and> x < eo_endX b \<longrightarrow> up x = sao_sgn (srcBlk b y x - srcBlk b (y - 1) (x + 1))"
  define up1 where "up1 = foldl (\<lambda>l x. l(x := sao_sgn (srcBlk b 1 x - srcBlk b 0 (x + 1)))) buf1 [eo_startX b - 1..eo_endX b - 1]"
  have up1: "?J 1 up1" by (simp add: up1_def foldl_store)
  define fs fe ls le where "fs = (if isAboveAvail b then eo_startX b else sb_width b - 1)"
    and "fe = (if isAboveRightAvail b then sb_width b else sb_width b - 1)"
    and "ls = (if isBelowLeftAvail b then 0 else 1 :: int)" and "le = (if isBelowAvail b then eo_endX b else 1)"
  let ?R1 = "\<lambda>y' x'. \<exists>x. fs \<le> x \<and> x < fe \<and> y' = 0 \<and> x' = x \<and> \<not> skip_diag b x 0"
  have first: "foldl (eo45_first b up1) res [fs..fe - 1] = paint ?R1 (sao_value b 3) res"
  proof (rule foldl_paint0)
    fix res x assume x: "fs \<le> x" "x < fe"
    then have "up1 (x - 1) = sao_sgn (srcBlk b 1 (x - 1) - srcBlk b 0 x)"
      using up1 bounds assms(1) by (auto simp: fs_def fe_def split: if_splits)
    then have "sao_sgn (srcBlk b 0 x - srcBlk b (- 1) (x + 1)) - up1 (x - 1) = eo_class b (- 1) 1 0 x"
      using sao_sgn_minus [of "srcBlk b 1 (x - 1)" "srcBlk b 0 x"] by (simp add: eo_class_def)
    then show "eo45_first b up1 res x = paint (\<lambda>y' x'. y' = 0 \<and> x' = x \<and> \<not> skip_diag b x 0) (sao_value b 3) res"
      unfolding eo45_first_def by (intro put_edge_unless) (simp add: sao_value_def)
  qed
  let ?R2 = "\<lambda>y' x'. \<exists>y. 1 \<le> y \<and> y < ?h \<and> (\<exists>x. eo_startX b \<le> x \<and> x < eo_endX b \<and> y' = y \<and> x' = x \<and> \<not> skip_diag b x y)"
  define M where "M = foldl (eo45_line b) (up1, paint ?R1 (sao_value b 3) res) [1..?h - 1]"
  have "?J ?h (fst M) \<and> snd M = paint ?R2 (sao_value b 3) (paint ?R1 (sao_value b 3) res)"
    unfolding M_def
  proof (rule foldl_paint [where I = ?J])
    fix c :: "int \<Rightarrow> int" and res y assume "?J y c"
    with EO_45_line [OF assms(1), of c y res]
    show "?J (y + 1) (fst (eo45_line b (c, res) y)) \<and> snd (eo45_line b (c, res) y) =
      paint (\<lambda>y' x'. \<exists>x. eo_startX b \<le> x \<and> x < eo_endX b \<and> y' = y \<and> x' = x \<and> \<not> skip_diag b x y) (sao_value b 3) res"
      by simp
  qed (use assms up1 in auto)
  moreover define up r where "up = fst M" and "r = snd M"
  ultimately have up: "?J ?h up" and r: "r = paint ?R2 (sao_value b 3) (paint ?R1 (sao_value b 3) res)" by simp_all
  let ?R3 = "\<lambda>y' x'. \<exists>x. ls \<le> x \<and> x < le \<and> y' = ?h \<and> x' = x \<and> \<not> skip_diag b x ?h"
  have last: "foldl (eo45_last b ?h up) r [ls..le - 1] = paint ?R3 (sao_value b 3) r"
  proof (rule foldl_paint0)
    fix res x assume x: "ls \<le> x" "x < le"
    then have "up x = sao_sgn (srcBlk b ?h x - srcBlk b (?h - 1) (x + 1))"
      using up bounds assms(1) by (auto simp: ls_def le_def split: if_splits)
    then show "eo45_last b ?h up res x = paint (\<lambda>y' x'. y' = ?h \<and> x' = x \<and> \<not> skip_diag b x ?h) (sao_value b 3) res"
      unfolding eo45_last_def by (intro put_edge_unless) (simp add: sao_value_def eo_class_def add.commute)
  qed
  have "offsetBlock_EO_45 b buf1 res = foldl (eo45_last b ?h up) r [ls..le - 1]"
    using assms(2) unfolding up_def r_def M_def first [symmetric]
    by (simp add: offsetBlock_EO_45_def Let_def up1_def fs_def fe_def ls_def le_def case_prod_beta)
  also note last
  also have "paint ?R3 (sao_value b 3) r = paint (sao_changes b 3) (sao_value b 3) res"
    unfolding r paint_paint
  proof (rule paint_cong)
    fix y x
    consider "y < 0" | "y = 0" | "0 < y" "y < ?h" | "y = ?h" | "?h < y" by linarith
    then show "(?R1 y x \<or> ?R2 y x) \<or> ?R3 y x \<longleftrightarrow> sao_changes b 3 y x"
      by cases (use assms bounds in \<open>auto simp: sao_changes_3 fs_def fe_def ls_def le_def\<close>)
  qed simp
  finally show ?thesis .
qed

lemma BO_spec: "offsetBlock_BO b res = paint (sao_changes b 4) (sao_value b 4) res"
proof -
  have line: "foldl (\<lambda>res x. res(y := (res y)(x := band_value b y x))) res [0..sb_width b - 1]
      = paint (\<lambda>y' x'. \<exists>x. 0 \<le> x \<and> x < sb_width b \<and> y' = y \<and> x' = x) (sao_value b 4) res" for y res
    by (rule foldl_paint0) (auto simp: paint_def sao_value_def fun_eq_iff)
  show ?thesis unfolding offsetBlock_BO_def
    by (rule trans [OF foldl_paint0 paint_cong], rule line) (auto simp: sao_changes_4)
qed

lemma offsetBlock_value:
  assumes "2 \<le> sb_width b" and "2 \<le> sb_height b" and "0 \<le> typeIdx" and "typeIdx \<le> SAO_TYPE_BO"
  shows "offsetBlock b typeIdx buf1 buf2 res = Some (paint (sao_changes b typeIdx) (sao_value b typeIdx) res)"
proof -
  consider "typeIdx = 0" | "typeIdx = 1" | "typeIdx = 2" | "typeIdx = 3" | "typeIdx = 4"
    using assms(3,4) unfolding SAO_TYPE_BO_def by linarith
  then show ?thesis
    by cases (simp_all add: offsetBlock_def SAO_TYPE_BO_def EO_0_spec EO_90_spec EO_135_spec EO_45_spec BO_spec assms(1,2))
qed

text \<open>C21: in a block of at least two lines and columns, for every type, every combination of available neighbours
  and every set of virtual boundaries, and whatever the sign buffers hold before, \<^verbatim>\<open>offsetBlock\<close> gives each
  sample that may be changed the value that the classification by its two neighbours (or by its band)
  prescribes, and leaves every other sample of the result as it was.\<close>

theorem offsetBlock_spec:
  assumes "2 \<le> sb_width b" and "2 \<le> sb_height b" and "0 \<le> typeIdx" and "typeIdx \<le> SAO_TYPE_BO"
  shows "offsetBlock b typeIdx buf1 buf2 res =
    Some (\<lambda>y x. if sao_changes b typeIdx y x then sao_value b typeIdx y x else res y x)"
  using offsetBlock_value [OF assms] by (simp add: paint_def)

definition example_block :: SaoBlock where
  "example_block = \<lparr>sb_channelBitDepth = 8, clpRng_min = 0, clpRng_max = 255, sb_offset = (replicate 32 0)[0 := 2, 1 := 1, 3 := - 1, 4 := - 3],
     srcBlk = (\<lambda>y x. if y = x then 9 else 5), sb_width = 4, sb_height = 3, isLeftAvail = True, isRightAvail = False,
     isAboveAvail = True, isBelowAvail = False, isAboveLeftAvail = False, isAboveRightAvail = False,
     isBelowLeftAvail = False, isBelowRightAvail = False, isCtuCrossedByVirtualBoundaries = False, horVirBndryPos = [], verVirBndryPos = []\<rparr>"

theorem offsetBlock_spec_witness:
  "\<exists>r. offsetBlock example_block 3 (\<lambda>_. 0) (\<lambda>_. 0) (srcBlk example_block) = Some r \<and> r 1 1 = 6 \<and> r 1 3 = 5"
  using offsetBlock_spec [of example_block 3 "\<lambda>_. 0" "\<lambda>_. 0" "srcBlk example_block"]
  by (simp add: example_block_def SAO_TYPE_BO_def sao_changes_def sao_value_def edge_value_def eo_class_def ClipPel_def sao_sgn_def
    eo_step_def neighbour_usable_def at_virtual_boundary_def)

subsection \<open>The range of the result\<close>

lemma eo_class_range: "- 2 \<le> eo_class b dx dy y x" "eo_class b dx dy y x \<le> 2"
  by (simp_all add: eo_class_def sao_sgn_def)

lemma ClipPel_near:
  assumes "clpRng_min b \<le> v" and "v \<le> clpRng_max b" and "\<bar>d\<bar> \<le> m"
  shows "clpRng_min b \<le> ClipPel b (v + d)" "ClipPel b (v + d) \<le> clpRng_max b" "\<bar>ClipPel b (v + d) - v\<bar> \<le> m"
  using assms by (auto simp: ClipPel_def min_def max_def)

lemma int_div_less: "a < k * c \<Longrightarrow> 0 < k \<Longrightarrow> a div k < c" for a :: int
proof (rule ccontr)
  assume "a < k * c" "0 < k" "\<not> a div k < c"
  then have "c * k \<le> a div k * k" by (intro mult_right_mono) auto
  moreover have "a div k * k \<le> a" using div_mult_mod_eq [of a k] pos_mod_sign [OF \<open>0 < k\<close>, of a] by linarith
  ultimately show False using \<open>a < k * c\<close> by (simp add: mult.commute)
qed

lemma sao_value_offset:
  assumes "length (sb_offset b) = 32" and "5 \<le> sb_channelBitDepth b" and "0 \<le> srcBlk b y x" and "srcBlk b y x < 2 ^ sb_channelBitDepth b"
  shows "\<exists>d \<in> set (sb_offset b). sao_value b typeIdx y x = ClipPel b (srcBlk b y x + d)"
proof -
  have edge: "\<exists>d \<in> set (sb_offset b). edge_value b y x (eo_class b dx dy y x) = ClipPel b (srcBlk b y x + d)" for dx dy
    unfolding edge_value_def using eo_class_range [of b dx dy y x] assms(1) by (intro bexI nth_mem) auto
  have "(2::int) ^ sb_channelBitDepth b = 2 ^ (sb_channelBitDepth b - 5) * 32"
    using assms(2) power_add [of "2::int" "sb_channelBitDepth b - 5" 5] by simp
  then have "srcBlk b y x < 2 ^ (sb_channelBitDepth b - 5) * 32" using assms(4) by simp
  then have "srcBlk b y x div 2 ^ (sb_channelBitDepth b - 5) < 32" by (simp add: int_div_less)
  then have "\<exists>d \<in> set (sb_offset b). band_value b y x = ClipPel b (srcBlk b y x + d)"
    unfolding band_value_def drop_bit_eq_div using assms(1,3) by (intro bexI nth_mem) (auto simp: nat_less_iff pos_imp_zdiv_nonneg_iff)
  with edge show ?thesis unfolding sao_value_def by auto
qed

text \<open>C22: a sample that \<^verbatim>\<open>offsetBlock\<close> changes stays in the clipping range and differs from the input by at most the largest
  offset, when the input samples are in that range and of the channel's bit depth.\<close>

theorem offsetBlock_bounds:
  assumes "2 \<le> sb_width b" and "2 \<le> sb_height b" and "offsetBlock b typeIdx buf1 buf2 res = Some r"
    and "length (sb_offset b) = 32" and "\<forall>d \<in> set (sb_offset b). \<bar>d\<bar> \<le> m"
    and "0 \<le> clpRng_min b" and "clpRng_max b < 2 ^ sb_channelBitDepth b" and "5 \<le> sb_channelBitDepth b"
    and "clpRng_min b \<le> srcBlk b y x" and "srcBlk b y x \<le> clpRng_max b" and "sao_changes b typeIdx y x"
  shows "clpRng_min b \<le> r y x \<and> r y x \<le> clpRng_max b \<and> \<bar>r y x - srcBlk b y x\<bar> \<le> m"
proof -
  have "0 \<le> typeIdx" "typeIdx \<le> SAO_TYPE_BO" using assms(3) by (auto simp: offsetBlock_def SAO_TYPE_BO_def split: if_splits)
  then have "r y x = sao_value b typeIdx y x"
    using assms(3,11) offsetBlock_value [OF assms(1,2), of typeIdx buf1 buf2 res] by (auto simp: paint_def)
  moreover obtain d where "d \<in> set (sb_offset b)" "sao_value b typeIdx y x = ClipPel b (srcBlk b y x + d)"
    using sao_value_offset [of b y x typeIdx] assms by auto
  ultimately show ?thesis using ClipPel_near [OF assms(9,10), of d m] assms(5) by simp
qed

theorem offsetBlock_bounds_witness:
  "\<exists>r. offsetBlock example_block 3 (\<lambda>_. 0) (\<lambda>_. 0) (srcBlk example_block) = Some r \<and> 0 \<le> r 1 1 \<and> r 1 1 \<le> 255 \<and> \<bar>r 1 1 - 9\<bar> \<le> 3"
proof -
  have large: "sb_width example_block = 4" "sb_height example_block = 3" by (simp_all add: example_block_def)
  obtain r where r: "offsetBlock example_block 3 (\<lambda>_. 0) (\<lambda>_. 0) (srcBlk example_block) = Some r"
    by (simp add: offsetBlock_def)
  moreover have "\<forall>d \<in> set (sb_offset example_block). \<bar>d\<bar> \<le> 3"
    by (simp add: example_block_def numeral_eq_Suc)
  moreover have "sao_changes example_block 3 1 1"
    by (simp add: example_block_def sao_changes_def eo_step_def neighbour_usable_def at_virtual_boundary_def)
  ultimately show ?thesis
    using offsetBlock_bounds [OF _ _ r, of 3 1 1] by (simp add: large) (simp add: example_block_def)
qed

section \<open>Reconstruction of the parameters\<close>

text \<open>\<^verbatim>\<open>xReconstructBlkSAOParams\<close>: the coding tree units are visited in raster order; offsets are scaled, merged
  units copy the parameters of their neighbour, when \<^verbatim>\<open>getCURestricted\<close> finds it.  Of the coding structure
  the code uses the size of the grid of units and the coding unit that covers a luma position, with its
  horizontal position, independent slice, tile, coding structure and index in coding order.\<close>

record RestrictedCU =
  rc_x :: nat
  rc_independentSliceIdx :: nat
  rc_tileIdx :: nat
  rc_cs :: nat
  rc_idx :: nat

record CtuGrid =
  cg_widthInCtus :: nat
  cg_maxCUWidth :: nat
  cg_maxCUHeight :: nat
  cg_entropyCodingSync :: bool
  cg_getCU :: "nat \<times> nat \<Rightarrow> RestrictedCU option"

definition isSameSliceAndTile :: "RestrictedCU \<Rightarrow> RestrictedCU \<Rightarrow> bool" where
  "isSameSliceAndTile cu cu2 \<longleftrightarrow>
     rc_independentSliceIdx cu = rc_independentSliceIdx cu2 \<and> rc_tileIdx cu = rc_tileIdx cu2"

text \<open>\<^verbatim>\<open>getCURestricted\<close> in the luma channel, where positions are not scaled.\<close>

definition getCURestricted :: "CtuGrid \<Rightarrow> nat \<times> nat \<Rightarrow> RestrictedCU \<Rightarrow> RestrictedCU option" where
  "getCURestricted cs pos curCu = do {
     cu \<leftarrow> cg_getCU cs pos;
     let ctuSizeBit = nat (floorLog2 (cg_maxCUWidth cs));
     let addCheck = \<not> (cg_entropyCodingSync cs \<and> drop_bit ctuSizeBit (rc_x curCu) + 1 \<le> drop_bit ctuSizeBit (fst pos));
     if isSameSliceAndTile cu curCu \<and> (rc_cs cu \<noteq> rc_cs curCu \<or> rc_idx cu \<le> rc_idx curCu) \<and> addCheck
     then Some cu else None }"

definition invertQuantOffsets :: "nat \<Rightarrow> int \<Rightarrow> int \<Rightarrow> int list \<Rightarrow> int list option" where
  "invertQuantOffsets offsetStepLog2 typeIdc' typeAuxInfo' coded =
     (let dst = replicate MAX_NUM_SAO_CLASSES 0 in
      if typeIdc' = SAO_TYPE_BO
      then Some (foldl (\<lambda>dst i. let c = nat ((typeAuxInfo' + int i) mod int NUM_SAO_BO_CLASSES) in dst[c := coded ! c * 2 ^ offsetStepLog2]) dst [0..<4])
      else let dst = foldl (\<lambda>dst i. dst[i := coded ! i * 2 ^ offsetStepLog2]) dst [0..<NUM_SAO_EO_CLASSES]
        in if dst ! SAO_CLASS_EO_PLAIN \<noteq> 0 then None else Some dst)"

text \<open>The two candidates, left and above, of the unit \<open>ctuRsAddr\<close>.\<close>

definition getMergeList :: "CtuGrid \<Rightarrow> nat \<Rightarrow> SAOBlkParam list \<Rightarrow> SAOBlkParam option list option" where
  "getMergeList cs ctuRsAddr blkParams =
     (let w = cg_widthInCtus cs; ctuX = ctuRsAddr mod w; ctuY = ctuRsAddr div w in do {
      cu \<leftarrow> cg_getCU cs (ctuX * cg_maxCUWidth cs, ctuY * cg_maxCUHeight cs);
      Some [if ctuX > 0 \<and> getCURestricted cs ((ctuX - 1) * cg_maxCUWidth cs, ctuY * cg_maxCUHeight cs) cu \<noteq> None
            then Some (blkParams ! (ctuRsAddr - 1)) else None,
            if ctuY > 0 \<and> getCURestricted cs (ctuX * cg_maxCUWidth cs, (ctuY - 1) * cg_maxCUHeight cs) cu \<noteq> None
            then Some (blkParams ! (ctuRsAddr - w)) else None] })"

definition reconstruct_comp :: "(ComponentID \<Rightarrow> nat) \<Rightarrow> SAOBlkParam option list \<Rightarrow> SAOBlkParam \<Rightarrow> ComponentID \<Rightarrow> SAOBlkParam option" where
  "reconstruct_comp offsetStepLog2 mergeList recParam component =
     (let p = recParam component in
      case modeIdc p of
        SAO_MODE_OFF \<Rightarrow> Some recParam
      | SAO_MODE_NEW \<Rightarrow> do {
          offset \<leftarrow> invertQuantOffsets (offsetStepLog2 component) (typeIdc p) (typeAuxInfo p) (sao_offset p);
          Some (recParam(component := p\<lparr>sao_offset := offset\<rparr>)) }
      | SAO_MODE_MERGE \<Rightarrow>
          if 0 \<le> typeIdc p \<and> nat (typeIdc p) < length mergeList
          then do { mergeTarget \<leftarrow> mergeList ! nat (typeIdc p); Some (recParam(component := mergeTarget component)) }
          else None)"

fun reconstruct_comps :: "(ComponentID \<Rightarrow> nat) \<Rightarrow> SAOBlkParam option list \<Rightarrow> ComponentID list \<Rightarrow> SAOBlkParam \<Rightarrow> SAOBlkParam option" where
  "reconstruct_comps step mergeList [] p = Some p"
| "reconstruct_comps step mergeList (c # cs) p = do { p \<leftarrow> reconstruct_comp step mergeList p c; reconstruct_comps step mergeList cs p }"

definition reconstructBlkSAOParam :: "(ComponentID \<Rightarrow> nat) \<Rightarrow> bool \<Rightarrow> SAOBlkParam option list \<Rightarrow> SAOBlkParam \<Rightarrow> SAOBlkParam option" where
  "reconstructBlkSAOParam step monochrome mergeList p =
     reconstruct_comps step mergeList (if monochrome then [COMPONENT_Y] else [COMPONENT_Y, COMPONENT_Cb, COMPONENT_Cr]) p"

text \<open>\<open>n\<close> units are left; the flags say which components are used by any unit.\<close>

fun reconstruct_from :: "CtuGrid \<Rightarrow> (ComponentID \<Rightarrow> nat) \<Rightarrow> bool \<Rightarrow> nat \<Rightarrow> nat
    \<Rightarrow> SAOBlkParam list \<times> (ComponentID \<Rightarrow> bool) \<Rightarrow> (SAOBlkParam list \<times> (ComponentID \<Rightarrow> bool)) option" where
  "reconstruct_from cs step monochrome 0 addr st = Some st"
| "reconstruct_from cs step monochrome (Suc n) addr (ps, picSAOEnabled) = do {
     mergeList \<leftarrow> getMergeList cs addr ps;
     p \<leftarrow> reconstructBlkSAOParam step monochrome mergeList (ps ! addr);
     reconstruct_from cs step monochrome n (addr + 1)
       (ps[addr := p], \<lambda>c. picSAOEnabled c \<or> (c = COMPONENT_Y \<or> \<not> monochrome) \<and> modeIdc (p c) \<noteq> SAO_MODE_OFF) }"

definition xReconstructBlkSAOParams :: "CtuGrid \<Rightarrow> (ComponentID \<Rightarrow> nat) \<Rightarrow> bool \<Rightarrow> SAOBlkParam list
    \<Rightarrow> (SAOBlkParam list \<times> (ComponentID \<Rightarrow> bool)) option" where
  "xReconstructBlkSAOParams cs step monochrome ps =
     reconstruct_from cs step monochrome (length ps) 0 (ps, \<lambda>_. False)"

text \<open>
  A coding unit begins at the corner of every coding tree unit.  A neighbouring unit may be merged with if the
  coding units at the two corners are in the same slice and tile and the neighbour is not later in coding order.
\<close>

definition ctu_pos :: "CtuGrid \<Rightarrow> nat \<Rightarrow> nat \<times> nat" where
  "ctu_pos cs a = (a mod cg_widthInCtus cs * cg_maxCUWidth cs, a div cg_widthInCtus cs * cg_maxCUHeight cs)"

definition grid_ok :: "CtuGrid \<Rightarrow> nat \<Rightarrow> bool" where
  "grid_ok cs n \<longleftrightarrow> 0 < cg_widthInCtus cs
     \<and> (\<forall>a < n. \<exists>cu. cg_getCU cs (ctu_pos cs a) = Some cu \<and> rc_x cu = fst (ctu_pos cs a))"

definition may_merge :: "CtuGrid \<Rightarrow> nat \<Rightarrow> nat \<Rightarrow> bool" where
  "may_merge cs a b \<longleftrightarrow> (case (cg_getCU cs (ctu_pos cs a), cg_getCU cs (ctu_pos cs b)) of
     (Some cu, Some nb) \<Rightarrow> rc_independentSliceIdx nb = rc_independentSliceIdx cu \<and> rc_tileIdx nb = rc_tileIdx cu
        \<and> (rc_cs nb = rc_cs cu \<longrightarrow> rc_idx nb \<le> rc_idx cu)
   | _ \<Rightarrow> False)"

text \<open>Parameters as the parser leaves them: merged only with a neighbour that may be used, the band position in
  its range, and edge offsets of the plain class zero.\<close>

definition sao_comp_active :: "bool \<Rightarrow> ComponentID \<Rightarrow> bool" where
  "sao_comp_active monochrome c \<longleftrightarrow> c = COMPONENT_Y \<or> \<not> monochrome"

definition merge_source :: "nat \<Rightarrow> SAOOffset \<Rightarrow> nat \<Rightarrow> nat" where
  "merge_source wCtus p a = (if typeIdc p = SAO_MERGE_LEFT then a - 1 else a - wCtus)"

definition sao_parsed :: "CtuGrid \<Rightarrow> nat \<Rightarrow> SAOOffset \<Rightarrow> bool" where
  "sao_parsed cs a p \<longleftrightarrow> (case modeIdc p of
     SAO_MODE_OFF \<Rightarrow> True
   | SAO_MODE_NEW \<Rightarrow> (if typeIdc p = SAO_TYPE_BO then 0 \<le> typeAuxInfo p \<and> typeAuxInfo p < 32
                      else sao_offset p ! SAO_CLASS_EO_PLAIN = 0)
   | SAO_MODE_MERGE \<Rightarrow> typeIdc p = SAO_MERGE_LEFT \<and> a mod cg_widthInCtus cs > 0 \<and> may_merge cs a (a - 1)
       \<or> typeIdc p = SAO_MERGE_ABOVE \<and> cg_widthInCtus cs \<le> a \<and> may_merge cs a (a - cg_widthInCtus cs))"

text \<open>
  The offsets a new unit gets: of a band offset the four classes from the band position on, modulo 32, of an
  edge offset the five edge classes; each coded value times the step size, all other classes zero.
\<close>

definition class_coded :: "SAOOffset \<Rightarrow> nat \<Rightarrow> bool" where
  "class_coded p k \<longleftrightarrow> (if typeIdc p = SAO_TYPE_BO then (int k - typeAuxInfo p) mod 32 < 4 else k < 5)"

definition scaled_offsets :: "nat \<Rightarrow> SAOOffset \<Rightarrow> int list" where
  "scaled_offsets stepLog2 p = map (\<lambda>k. if class_coded p k then 2 ^ stepLog2 * sao_offset p ! k else 0) [0..<32]"

text \<open>What the reconstruction makes of unit \<open>a\<close>: \<open>old\<close> are the parsed parameters, \<open>ps\<close> the reconstructed ones.\<close>

definition sao_resolved :: "nat \<Rightarrow> nat \<Rightarrow> SAOOffset \<Rightarrow> SAOBlkParam list \<Rightarrow> nat \<Rightarrow> ComponentID \<Rightarrow> bool" where
  "sao_resolved wCtus stepLog2 old ps a c \<longleftrightarrow>
     modeIdc ((ps ! a) c) \<noteq> SAO_MODE_MERGE
     \<and> (case modeIdc old of
          SAO_MODE_OFF \<Rightarrow> (ps ! a) c = old
        | SAO_MODE_NEW \<Rightarrow> (ps ! a) c = old\<lparr>sao_offset := scaled_offsets stepLog2 old\<rparr>
        | SAO_MODE_MERGE \<Rightarrow> merge_source wCtus old a < a \<and> (ps ! a) c = (ps ! merge_source wCtus old a) c)"

lemma band_classes:
  assumes "k < 32" and "0 \<le> t" and "t < 32"
  shows "k \<in> (\<lambda>i. nat ((t + int i) mod 32)) ` set [0..<4] \<longleftrightarrow> (int k - t) mod 32 < 4"
proof -
  have m: "(t + int i) mod 32 = (if t + int i < 32 then t + int i else t + int i - 32)" if "i < 4" for i
  proof (cases "t + int i < 32")
    case False
    then have "(t + int i) mod 32 = (t + int i - 32) mod 32" by (subst minus_mod_self2) (rule refl)
    also have "\<dots> = t + int i - 32" using False that assms(3) by (intro mod_pos_pos_trivial) auto
    finally show ?thesis using False by simp
  qed (use assms(2) in \<open>simp add: mod_pos_pos_trivial\<close>)
  have d: "(int k - t) mod 32 = (if t \<le> int k then int k - t else int k - t + 32)"
  proof (cases "t \<le> int k")
    case False
    then have "(int k - t) mod 32 = (int k - t + 32) mod 32" by (subst mod_add_self2) (rule refl)
    also have "\<dots> = int k - t + 32" using False assms(3) by (intro mod_pos_pos_trivial) auto
    finally show ?thesis using False by simp
  qed (use assms in \<open>simp add: mod_pos_pos_trivial\<close>)
  have "k = nat ((t + int i) mod 32) \<longleftrightarrow> int k = (t + int i) mod 32" for i by auto
  then have "k \<in> (\<lambda>i. nat ((t + int i) mod 32)) ` set [0..<4] \<longleftrightarrow> (\<exists>i < 4. int k = (t + int i) mod 32)"
    by (auto simp: image_iff atLeast0LessThan)
  also have "\<dots> \<longleftrightarrow> (\<exists>i < 4. int k = (if t + int i < 32 then t + int i else t + int i - 32))" by (auto simp: m)
  also have "\<dots> \<longleftrightarrow> (int k - t) mod 32 < 4"
  proof
    assume r: "(int k - t) mod 32 < 4"
    have "nat ((int k - t) mod 32) < 4" using r by simp
    moreover have "int k = (if t + int (nat ((int k - t) mod 32)) < 32 then t + int (nat ((int k - t) mod 32))
        else t + int (nat ((int k - t) mod 32)) - 32)" using assms by (simp add: d)
    ultimately show "\<exists>i < 4. int k = (if t + int i < 32 then t + int i else t + int i - 32)" by blast
  qed (use assms in \<open>auto simp: d split: if_splits\<close>)
  finally show ?thesis .
qed

lemma invertQuantOffsets_ok:
  assumes "if typeIdc p = SAO_TYPE_BO then 0 \<le> typeAuxInfo p \<and> typeAuxInfo p < 32 else sao_offset p ! SAO_CLASS_EO_PLAIN = 0"
  shows "invertQuantOffsets stepLog2 (typeIdc p) (typeAuxInfo p) (sao_offset p) = Some (scaled_offsets stepLog2 p)"
proof -
  let ?v = "\<lambda>c. sao_offset p ! c * 2 ^ stepLog2" and ?z = "replicate 32 (0::int)"
  show ?thesis
  proof (cases "typeIdc p = SAO_TYPE_BO")
    case True
    let ?f = "\<lambda>i. nat ((typeAuxInfo p + int i) mod 32)"
    have "foldl (\<lambda>dst i. dst[?f i := ?v (?f i)]) ?z [0..<4] = scaled_offsets stepLog2 p"
      using foldl_put [of ?f ?v ?z "[0..<4]"] assms True band_classes [of _ "typeAuxInfo p"]
      by (intro nth_equalityI) (auto simp: scaled_offsets_def class_coded_def mult.commute simp del: set_upt)
    then show ?thesis using True by (simp add: invertQuantOffsets_def Let_def sao_consts)
  next
    case False
    have "foldl (\<lambda>dst i. dst[i := ?v i]) ?z [0..<5] = scaled_offsets stepLog2 p"
      using foldl_put [of "\<lambda>i. i" ?v ?z "[0..<5]"] False
      by (intro nth_equalityI) (auto simp: scaled_offsets_def class_coded_def mult.commute)
    moreover have "scaled_offsets stepLog2 p ! SAO_CLASS_EO_PLAIN = 0"
      using assms False by (simp add: scaled_offsets_def sao_consts numeral_2_eq_2)
    ultimately show ?thesis using False by (simp add: invertQuantOffsets_def Let_def sao_consts)
  qed
qed

lemma merge_source_less:
  "a mod w > 0 \<and> typeIdc p = SAO_MERGE_LEFT \<or> w \<le> a \<and> 0 < w \<and> typeIdc p \<noteq> SAO_MERGE_LEFT \<Longrightarrow> merge_source w p a < a"
  by (cases "a = 0") (auto simp: merge_source_def)

text \<open>The candidates are those the neighbours' slices and tiles allow; the restriction for wavefronts never
  applies to a unit to the left or above.\<close>

lemma getCURestricted_merge:
  assumes "cg_getCU cs (ctu_pos cs a) = Some cu" and "fst (ctu_pos cs b) \<le> rc_x cu"
  shows "getCURestricted cs (ctu_pos cs b) cu \<noteq> None \<longleftrightarrow> may_merge cs a b"
proof -
  have "drop_bit k (fst (ctu_pos cs b)) \<le> drop_bit k (rc_x cu)" for k
    using assms(2) by (simp add: drop_bit_eq_div div_le_mono)
  then have "\<not> drop_bit k (rc_x cu) + 1 \<le> drop_bit k (fst (ctu_pos cs b))" for k
    by (simp add: not_le less_Suc_eq_le)
  with assms(1) show ?thesis
    by (auto simp: getCURestricted_def may_merge_def isSameSliceAndTile_def Let_def split: option.splits)
qed

lemma getMergeList_ok:
  assumes "grid_ok cs n" and "a < n"
  shows "getMergeList cs a ps = Some
    [if a mod cg_widthInCtus cs > 0 \<and> may_merge cs a (a - 1) then Some (ps ! (a - 1)) else None,
     if cg_widthInCtus cs \<le> a \<and> may_merge cs a (a - cg_widthInCtus cs) then Some (ps ! (a - cg_widthInCtus cs)) else None]"
proof -
  let ?w = "cg_widthInCtus cs"
  have w: "0 < ?w" using assms(1) by (simp add: grid_ok_def)
  obtain cu where cu: "cg_getCU cs (ctu_pos cs a) = Some cu" "rc_x cu = fst (ctu_pos cs a)"
    using assms by (auto simp: grid_ok_def)
  have left: "(a - 1) mod ?w = a mod ?w - 1" "(a - 1) div ?w = a div ?w" if "a mod ?w > 0"
    using that mod_Suc [of "a - 1" ?w] div_Suc [of "a - 1" ?w] by (cases a; auto split: if_splits)+
  have above: "(a - ?w) mod ?w = a mod ?w" "(a - ?w) div ?w = a div ?w - 1" if "?w \<le> a"
    using that w by (simp_all add: le_mod_geq le_div_geq)
  have up: "a div ?w > 0 \<longleftrightarrow> ?w \<le> a" using w by (simp add: div_greater_zero_iff)
  have "getCURestricted cs ((a mod ?w - 1) * cg_maxCUWidth cs, a div ?w * cg_maxCUHeight cs) cu \<noteq> None \<longleftrightarrow> may_merge cs a (a - 1)"
    if "a mod ?w > 0"
    using getCURestricted_merge [OF cu(1), of "a - 1"] cu(2) left [OF that] by (simp add: ctu_pos_def)
  moreover have "getCURestricted cs (a mod ?w * cg_maxCUWidth cs, (a div ?w - 1) * cg_maxCUHeight cs) cu \<noteq> None
      \<longleftrightarrow> may_merge cs a (a - ?w)" if "?w \<le> a"
    using getCURestricted_merge [OF cu(1), of "a - ?w"] cu(2) above [OF that] by (simp add: ctu_pos_def)
  ultimately show ?thesis using cu(1) up by (auto simp: getMergeList_def Let_def ctu_pos_def)
qed

lemma reconstruct_comp_ok:
  assumes "sao_parsed cs a (p c)" and "grid_ok cs n" and "a < n" and "\<forall>b < a. modeIdc ((ps ! b) c) \<noteq> SAO_MODE_MERGE"
    and "getMergeList cs a ps = Some ml"
  shows "\<exists>q. reconstruct_comp step ml p c = Some (p(c := q)) \<and> modeIdc q \<noteq> SAO_MODE_MERGE
    \<and> (case modeIdc (p c) of SAO_MODE_OFF \<Rightarrow> q = p c
        | SAO_MODE_NEW \<Rightarrow> q = (p c)\<lparr>sao_offset := scaled_offsets (step c) (p c)\<rparr>
        | SAO_MODE_MERGE \<Rightarrow> merge_source (cg_widthInCtus cs) (p c) a < a
            \<and> q = (ps ! merge_source (cg_widthInCtus cs) (p c) a) c)"
proof (cases "modeIdc (p c)")
  case SAO_MODE_NEW
  with assms(1) invertQuantOffsets_ok [of "p c" "step c"] show ?thesis
    by (simp add: reconstruct_comp_def sao_parsed_def Let_def)
next
  case SAO_MODE_MERGE
  let ?b = "merge_source (cg_widthInCtus cs) (p c) a"
  have "0 < cg_widthInCtus cs" using assms(2) by (simp add: grid_ok_def)
  then have b: "?b < a" using assms(1) SAO_MODE_MERGE by (intro merge_source_less) (auto simp: sao_parsed_def sao_consts)
  have ml: "ml = [if a mod cg_widthInCtus cs > 0 \<and> may_merge cs a (a - 1) then Some (ps ! (a - 1)) else None,
     if cg_widthInCtus cs \<le> a \<and> may_merge cs a (a - cg_widthInCtus cs) then Some (ps ! (a - cg_widthInCtus cs)) else None]"
    using getMergeList_ok [OF assms(2,3), of ps] assms(5) by simp
  have "reconstruct_comp step ml p c = Some (p(c := (ps ! ?b) c))"
    using assms(1) SAO_MODE_MERGE unfolding ml
    by (auto simp: reconstruct_comp_def Let_def sao_parsed_def merge_source_def sao_consts)
  with b assms(4) SAO_MODE_MERGE show ?thesis by auto
qed (auto simp: reconstruct_comp_def fun_upd_idem)

lemma reconstruct_comps_ok:
  assumes "\<forall>c \<in> set ks. sao_parsed cs a (p c)" and "grid_ok cs n" and "a < n"
    and "\<forall>c \<in> set ks. \<forall>b < a. modeIdc ((ps ! b) c) \<noteq> SAO_MODE_MERGE"
    and "distinct ks" and "a < length ps" and "getMergeList cs a ps = Some ml"
  shows "\<exists>q. reconstruct_comps step ml ks p = Some q \<and> (\<forall>c. c \<notin> set ks \<longrightarrow> q c = p c)
    \<and> (\<forall>c \<in> set ks. sao_resolved (cg_widthInCtus cs) (step c) (p c) (ps[a := q]) a c)"
  using assms
proof (induction ks arbitrary: p)
  case (Cons c ks)
  let ?w = "cg_widthInCtus cs"
  from Cons.prems have "sao_parsed cs a (p c)" "\<forall>b < a. modeIdc ((ps ! b) c) \<noteq> SAO_MODE_MERGE" by auto
  with reconstruct_comp_ok [OF _ assms(2,3) _ assms(7), of p c step] obtain q where
    q: "reconstruct_comp step ml p c = Some (p(c := q))" and
    qc: "modeIdc q \<noteq> SAO_MODE_MERGE \<and> (case modeIdc (p c) of SAO_MODE_OFF \<Rightarrow> q = p c
        | SAO_MODE_NEW \<Rightarrow> q = (p c)\<lparr>sao_offset := scaled_offsets (step c) (p c)\<rparr>
        | SAO_MODE_MERGE \<Rightarrow> merge_source ?w (p c) a < a \<and> q = (ps ! merge_source ?w (p c) a) c)" by blast
  from Cons.prems have "\<forall>d \<in> set ks. d \<noteq> c" by auto
  with Cons.prems have "\<exists>q'. reconstruct_comps step ml ks (p(c := q)) = Some q' \<and> (\<forall>d. d \<notin> set ks \<longrightarrow> q' d = (p(c := q)) d)
    \<and> (\<forall>d \<in> set ks. sao_resolved ?w (step d) ((p(c := q)) d) (ps[a := q']) a d)"
    by (intro Cons.IH) auto
  then obtain q' where q': "reconstruct_comps step ml ks (p(c := q)) = Some q'"
    "\<forall>d. d \<notin> set ks \<longrightarrow> q' d = (p(c := q)) d" "\<forall>d \<in> set ks. sao_resolved ?w (step d) ((p(c := q)) d) (ps[a := q']) a d" by blast
  have "q' c = q" using q'(2) Cons.prems(5) by simp
  with qc have "sao_resolved ?w (step c) (p c) (ps[a := q']) a c"
    using assms(6) by (cases "modeIdc (p c)") (auto simp: sao_resolved_def)
  moreover have "\<forall>d \<in> set ks. sao_resolved ?w (step d) (p d) (ps[a := q']) a d"
    using q'(3) \<open>\<forall>d \<in> set ks. d \<noteq> c\<close> by auto
  ultimately show ?case using q q'(1,2) by auto
qed auto

lemma reconstructBlk_ok:
  assumes "\<forall>c. sao_comp_active grey c \<longrightarrow> sao_parsed cs a (p c)" and "grid_ok cs n" and "a < n"
    and "\<forall>c. sao_comp_active grey c \<longrightarrow> (\<forall>b < a. modeIdc ((ps ! b) c) \<noteq> SAO_MODE_MERGE)" and "a < length ps"
  shows "\<exists>ml q. getMergeList cs a ps = Some ml \<and> reconstructBlkSAOParam step grey ml p = Some q
    \<and> (\<forall>c. sao_comp_active grey c \<longrightarrow> sao_resolved (cg_widthInCtus cs) (step c) (p c) (ps[a := q]) a c)"
proof -
  let ?ks = "if grey then [COMPONENT_Y] else [COMPONENT_Y, COMPONENT_Cb, COMPONENT_Cr]"
  obtain ml where ml: "getMergeList cs a ps = Some ml" using getMergeList_ok [OF assms(2,3)] by blast
  have ks: "sao_comp_active grey c \<longleftrightarrow> c \<in> set ?ks" for c by (cases c) (auto simp: sao_comp_active_def)
  show ?thesis using reconstruct_comps_ok [of ?ks cs a p n ps ml step] assms ml
    unfolding reconstructBlkSAOParam_def ks by auto
qed

lemma ex_from: "(\<exists>a. k \<le> a \<and> Q a) \<longleftrightarrow> Q k \<or> (\<exists>a. k + 1 \<le> a \<and> Q (a::nat))"
  by (metis Suc_eq_plus1 not_less_eq_eq le_antisym order_refl Suc_leD)

lemma sao_resolved_later: "a < b \<Longrightarrow> sao_resolved w st old (ps[b := q]) a c = sao_resolved w st old ps a c"
  by (auto simp: sao_resolved_def split: SAOMode.splits)

lemma reconstruct_from_ok:
  assumes "addr + n = length ps" and "length old = length ps" and "grid_ok cs (length ps)"
    and "\<forall>a. addr \<le> a \<and> a < length ps \<longrightarrow> ps ! a = old ! a"
    and "\<forall>a < length ps. \<forall>c. sao_comp_active grey c \<longrightarrow> sao_parsed cs a ((old ! a) c)"
    and "\<forall>a < addr. \<forall>c. sao_comp_active grey c \<longrightarrow> sao_resolved (cg_widthInCtus cs) (step c) ((old ! a) c) ps a c"
  shows "\<exists>ps' en'. reconstruct_from cs step grey n addr (ps, en) = Some (ps', en') \<and> length ps' = length ps
    \<and> (\<forall>a < length ps. \<forall>c. sao_comp_active grey c \<longrightarrow> sao_resolved (cg_widthInCtus cs) (step c) ((old ! a) c) ps' a c)
    \<and> (\<forall>a < addr. ps' ! a = ps ! a)
    \<and> (\<forall>c. en' c \<longleftrightarrow> en c \<or> sao_comp_active grey c \<and> (\<exists>a. addr \<le> a \<and> a < length ps \<and> modeIdc ((ps' ! a) c) \<noteq> SAO_MODE_OFF))"
  using assms
proof (induction n arbitrary: addr ps en)
  case (Suc n)
  let ?w = "cg_widthInCtus cs"
  have addr: "addr < length ps" using Suc.prems(1) by simp
  have "\<exists>ml q. getMergeList cs addr ps = Some ml \<and> reconstructBlkSAOParam step grey ml (ps ! addr) = Some q
    \<and> (\<forall>c. sao_comp_active grey c \<longrightarrow> sao_resolved ?w (step c) ((ps ! addr) c) (ps[addr := q]) addr c)"
    using Suc.prems addr by (intro reconstructBlk_ok [where n = "length ps"]) (auto simp: sao_resolved_def)
  then obtain ml q where q: "getMergeList cs addr ps = Some ml" "reconstructBlkSAOParam step grey ml (ps ! addr) = Some q"
    "\<forall>c. sao_comp_active grey c \<longrightarrow> sao_resolved ?w (step c) ((old ! addr) c) (ps[addr := q]) addr c"
    using Suc.prems(4) addr by auto
  let ?ps = "ps[addr := q]" and ?en = "\<lambda>c. en c \<or> sao_comp_active grey c \<and> modeIdc (q c) \<noteq> SAO_MODE_OFF"
  have "\<forall>a < addr + 1. \<forall>c. sao_comp_active grey c \<longrightarrow> sao_resolved ?w (step c) ((old ! a) c) ?ps a c"
    using Suc.prems(6) q(3) by (auto simp: less_Suc_eq sao_resolved_later)
  with Suc.prems have "\<exists>ps' en'. reconstruct_from cs step grey n (addr + 1) (?ps, ?en) = Some (ps', en') \<and> length ps' = length ?ps
    \<and> (\<forall>a < length ?ps. \<forall>c. sao_comp_active grey c \<longrightarrow> sao_resolved ?w (step c) ((old ! a) c) ps' a c)
    \<and> (\<forall>a < addr + 1. ps' ! a = ?ps ! a)
    \<and> (\<forall>c. en' c \<longleftrightarrow> ?en c \<or> sao_comp_active grey c \<and> (\<exists>a. addr + 1 \<le> a \<and> a < length ?ps \<and> modeIdc ((ps' ! a) c) \<noteq> SAO_MODE_OFF))"
    by (intro Suc.IH) auto
  then obtain ps' en' where r: "reconstruct_from cs step grey n (addr + 1) (?ps, ?en) = Some (ps', en')" "length ps' = length ps"
    "\<forall>a < length ps. \<forall>c. sao_comp_active grey c \<longrightarrow> sao_resolved ?w (step c) ((old ! a) c) ps' a c" "\<forall>a < addr + 1. ps' ! a = ?ps ! a"
    "\<forall>c. en' c \<longleftrightarrow> ?en c \<or> sao_comp_active grey c \<and> (\<exists>a. addr + 1 \<le> a \<and> a < length ps \<and> modeIdc ((ps' ! a) c) \<noteq> SAO_MODE_OFF)" by auto
  have "ps' ! addr = q" using r(4) addr by simp
  then have "\<forall>c. en' c \<longleftrightarrow> en c \<or> sao_comp_active grey c \<and> (\<exists>a. addr \<le> a \<and> a < length ps \<and> modeIdc ((ps' ! a) c) \<noteq> SAO_MODE_OFF)"
    using r(5) addr by (subst ex_from) auto
  moreover have "\<forall>a < addr. ps' ! a = ps ! a" using r(4) by auto
  moreover have "reconstruct_from cs step grey (Suc n) addr (ps, en) = Some (ps', en')"
    using q(1,2) r(1) by (simp add: sao_comp_active_def)
  ultimately show ?case using r(2,3) by blast
qed auto

text \<open>C23: for parameters as the parser leaves them, \<^verbatim>\<open>xReconstructBlkSAOParams\<close> succeeds and leaves no unit in merge mode.  A new
  unit gets its coded offsets multiplied by the step size in the four coded bands or the five edge classes and zero in all
  others; a unit merged with the left or upper neighbour, which \<^verbatim>\<open>getCURestricted\<close> finds if it is in the same slice and tile, gets
  the reconstructed parameters of that neighbour (through any chain of merges); and a component is marked as used exactly if one
  of its units is not off.\<close>

theorem xReconstructBlkSAOParams_resolves:
  assumes "grid_ok cs (length ps)"
    and "\<forall>a < length ps. \<forall>c. sao_comp_active monochrome c \<longrightarrow> sao_parsed cs a ((ps ! a) c)"
  shows "\<exists>ps' en. xReconstructBlkSAOParams cs step monochrome ps = Some (ps', en) \<and> length ps' = length ps
    \<and> (\<forall>a < length ps. \<forall>c. sao_comp_active monochrome c \<longrightarrow>
         sao_resolved (cg_widthInCtus cs) (step c) ((ps ! a) c) ps' a c)
    \<and> (\<forall>c. en c \<longleftrightarrow> sao_comp_active monochrome c \<and> (\<exists>a < length ps. modeIdc ((ps' ! a) c) \<noteq> SAO_MODE_OFF))"
  using reconstruct_from_ok [of 0 "length ps" ps ps cs monochrome step "\<lambda>_. False"] assms
  unfolding xReconstructBlkSAOParams_def by auto

definition example_merged :: SAOBlkParam where
  "example_merged c = SAOOffset_reset\<lparr>modeIdc := SAO_MODE_MERGE, typeIdc := SAO_MERGE_LEFT\<rparr>"

text \<open>Two coding tree units of 128 samples side by side.\<close>

definition example_grid :: CtuGrid where
  "example_grid = \<lparr>cg_widthInCtus = 2, cg_maxCUWidth = 128, cg_maxCUHeight = 128, cg_entropyCodingSync = True,
     cg_getCU = (\<lambda>(x, y). Some \<lparr>rc_x = x, rc_independentSliceIdx = 0, rc_tileIdx = 0, rc_cs = 0, rc_idx = x\<rparr>)\<rparr>"

theorem xReconstructBlkSAOParams_resolves_witness:
  "\<exists>ps' en. xReconstructBlkSAOParams example_grid (\<lambda>_. 2) False [example_ctu, example_merged] = Some (ps', en)
     \<and> (ps' ! 1) COMPONENT_Y = (ps' ! 0) COMPONENT_Y \<and> modeIdc ((ps' ! 1) COMPONENT_Y) \<noteq> SAO_MODE_MERGE"
proof -
  let ?ps = "[example_ctu, example_merged]"
  have grid: "grid_ok example_grid (length ?ps)" by (simp add: grid_ok_def example_grid_def ctu_pos_def)
  have "\<forall>a < length ?ps. \<forall>c. sao_comp_active False c \<longrightarrow> sao_parsed example_grid a ((?ps ! a) c)"
    by (simp add: less_Suc_eq sao_parsed_def may_merge_def example_grid_def ctu_pos_def example_ctu_def example_band_def
        example_edge_def example_merged_def sao_consts)
  from xReconstructBlkSAOParams_resolves [OF grid this, of "\<lambda>_. 2"] obtain ps' en where
    r: "xReconstructBlkSAOParams example_grid (\<lambda>_. 2) False ?ps = Some (ps', en)"
      "\<forall>c. sao_comp_active False c \<longrightarrow> sao_resolved 2 2 ((?ps ! 1) c) ps' 1 c" by (auto simp: example_grid_def)
  from r(2) have "sao_resolved 2 2 (example_merged COMPONENT_Y) ps' 1 COMPONENT_Y" by (simp add: sao_comp_active_def)
  then have "(ps' ! 1) COMPONENT_Y = (ps' ! 0) COMPONENT_Y \<and> modeIdc ((ps' ! 1) COMPONENT_Y) \<noteq> SAO_MODE_MERGE"
    by (auto simp: sao_resolved_def example_merged_def merge_source_def)
  with r(1) show ?thesis by blast
qed

end
