(* ===== verification/PartitionTree.thy ===== *)
theory PartitionTree
  imports TransformBlock
begin

section \<open>Partitioning of coding tree units\<close>

text \<open>
  \<^verbatim>\<open>UnitPartitioner.cpp\<close>: the rectangles a split produces and the class \<^verbatim>\<open>QTBTPartitioner\<close>, a stack machine that
  walks through the tree of splits while it keeps the depths of the current node in counters.  Positions
  and sizes are not negative, so they are natural numbers.  The back of \<^verbatim>\<open>m_partStack\<close> is the head of the
  list.  The size limits of the slice (\<^verbatim>\<open>PreCalcValues\<close>) and the picture are parameters; \<^verbatim>\<open>noChroma2x2\<close> is
  constantly false in this version.
\<close>

datatype PartSplit =
    CTU_LEVEL | CU_QUAD_SPLIT | CU_HORZ_SPLIT | CU_VERT_SPLIT | CU_TRIH_SPLIT | CU_TRIV_SPLIT | TU_MAX_TR_SPLIT | TU_NO_ISP
  | TU_1D_HORZ_SPLIT | TU_1D_VERT_SPLIT | SBT_VER_HALF_POS0_SPLIT | SBT_VER_HALF_POS1_SPLIT | SBT_HOR_HALF_POS0_SPLIT
  | SBT_HOR_HALF_POS1_SPLIT | SBT_VER_QUAD_POS0_SPLIT | SBT_VER_QUAD_POS1_SPLIT | SBT_HOR_QUAD_POS0_SPLIT | SBT_HOR_QUAD_POS1_SPLIT
  | CU_MT_SPLIT | CU_BT_SPLIT | CU_DONT_SPLIT

datatype TreeType = TREE_D | TREE_L | TREE_C
datatype ModeType = MODE_TYPE_ALL | MODE_TYPE_INTER | MODE_TYPE_INTRA

record CompArea =
  ca_x :: nat
  ca_y :: nat
  ca_width :: nat
  ca_height :: nat

text \<open>The blocks of the components; the first is luma.\<close>

type_synonym UnitArea = "CompArea list"

definition CompArea_valid :: "CompArea \<Rightarrow> bool" where
  "CompArea_valid a \<longleftrightarrow> ca_width a \<noteq> 0 \<and> ca_height a \<noteq> 0"

definition CompArea_contains :: "CompArea \<Rightarrow> nat \<Rightarrow> nat \<Rightarrow> bool" where
  "CompArea_contains a px py \<longleftrightarrow> px \<ge> ca_x a \<and> px < ca_x a + ca_width a \<and> py \<ge> ca_y a \<and> py < ca_y a + ca_height a"

definition MIN_TB_SIZEY :: nat where "MIN_TB_SIZEY = 4"
definition MAX_TB_SIZEY :: nat where "MAX_TB_SIZEY = 64"
definition MIN_DUALTREE_CHROMA_WIDTH :: nat where "MIN_DUALTREE_CHROMA_WIDTH = 4"
definition MIN_DUALTREE_CHROMA_SIZE :: nat where "MIN_DUALTREE_CHROMA_SIZE = 16"
definition MAX_CU_TILING_PARTITIONS :: nat where "MAX_CU_TILING_PARTITIONS = 64"

lemmas part_consts = MIN_TB_SIZEY_def MAX_TB_SIZEY_def MIN_DUALTREE_CHROMA_WIDTH_def MIN_DUALTREE_CHROMA_SIZE_def MAX_CU_TILING_PARTITIONS_def

subsection \<open>The parts of a split\<close>

definition quad_blk :: "nat \<Rightarrow> CompArea \<Rightarrow> CompArea" where
  "quad_blk i blk =
     (let blk = blk\<lparr>ca_height := ca_height blk div 2, ca_width := ca_width blk div 2\<rparr>;
          blk = (if i \<ge> 2 then blk\<lparr>ca_y := ca_y blk + ca_height blk\<rparr> else blk)
      in if i mod 2 = 1 then blk\<lparr>ca_x := ca_x blk + ca_width blk\<rparr> else blk)"

definition horz_blk :: "nat \<Rightarrow> CompArea \<Rightarrow> CompArea" where
  "horz_blk i blk =
     (let blk = blk\<lparr>ca_height := ca_height blk div 2\<rparr>
      in if i = 1 then blk\<lparr>ca_y := ca_y blk + ca_height blk\<rparr> else blk)"

definition vert_blk :: "nat \<Rightarrow> CompArea \<Rightarrow> CompArea" where
  "vert_blk i blk =
     (let blk = blk\<lparr>ca_width := ca_width blk div 2\<rparr>
      in if i = 1 then blk\<lparr>ca_x := ca_x blk + ca_width blk\<rparr> else blk)"

definition trih_blk :: "nat \<Rightarrow> CompArea \<Rightarrow> CompArea" where
  "trih_blk i blk =
     (let blk = blk\<lparr>ca_height := ca_height blk div 2\<rparr>;
          blk = (if (i + 1) mod 2 = 1 then blk\<lparr>ca_height := ca_height blk div 2\<rparr> else blk);
          blk = (if i = 1 then blk\<lparr>ca_y := ca_y blk + ca_height blk div 2\<rparr> else blk)
      in if i = 2 then blk\<lparr>ca_y := ca_y blk + 3 * ca_height blk\<rparr> else blk)"

definition triv_blk :: "nat \<Rightarrow> CompArea \<Rightarrow> CompArea" where
  "triv_blk i blk =
     (let blk = blk\<lparr>ca_width := ca_width blk div 2\<rparr>;
          blk = (if (i + 1) mod 2 = 1 then blk\<lparr>ca_width := ca_width blk div 2\<rparr> else blk);
          blk = (if i = 1 then blk\<lparr>ca_x := ca_x blk + ca_width blk div 2\<rparr> else blk)
      in if i = 2 then blk\<lparr>ca_x := ca_x blk + 3 * ca_width blk\<rparr> else blk)"

definition checked :: "(CompArea \<Rightarrow> nat) \<Rightarrow> UnitArea list \<Rightarrow> UnitArea list option" where
  "checked dim sub = (if \<exists>a \<in> set sub. dim (hd a) < MIN_TB_SIZEY then None else Some sub)"

definition getCUSubPartitions :: "UnitArea \<Rightarrow> PartSplit \<Rightarrow> UnitArea list option" where
  "getCUSubPartitions cuArea splitType =
     (if splitType = CU_QUAD_SPLIT then checked ca_height (map (\<lambda>i. map (quad_blk i) cuArea) [0..<4])
      else if splitType = CU_HORZ_SPLIT then checked ca_height (map (\<lambda>i. map (horz_blk i) cuArea) [0..<2])
      else if splitType = CU_VERT_SPLIT then checked ca_width (map (\<lambda>i. map (vert_blk i) cuArea) [0..<2])
      else if splitType = CU_TRIH_SPLIT then checked ca_height (map (\<lambda>i. map (trih_blk i) cuArea) [0..<3])
      else if splitType = CU_TRIV_SPLIT then checked ca_width (map (\<lambda>i. map (triv_blk i) cuArea) [0..<3])
      else None)"

definition g_zScanToX :: "nat list" where
  "g_zScanToX =
    [0, 1, 0, 1, 2, 3, 2, 3, 0, 1, 0, 1, 2, 3, 2, 3, 4, 5, 4, 5, 6, 7, 6, 7, 4, 5, 4, 5, 6, 7, 6, 7,
     0, 1, 0, 1, 2, 3, 2, 3, 0, 1, 0, 1, 2, 3, 2, 3, 4, 5, 4, 5, 6, 7, 6, 7, 4, 5, 4, 5, 6, 7, 6, 7]"

definition g_zScanToY :: "nat list" where
  "g_zScanToY =
    [0, 0, 1, 1, 0, 0, 1, 1, 2, 2, 3, 3, 2, 2, 3, 3, 0, 0, 1, 1, 0, 0, 1, 1, 2, 2, 3, 3, 2, 2, 3, 3,
     4, 4, 5, 5, 4, 4, 5, 5, 6, 6, 7, 7, 6, 6, 7, 7, 4, 4, 5, 5, 4, 4, 5, 5, 6, 6, 7, 7, 6, 6, 7, 7]"

definition g_rsScanToZ :: "nat list" where
  "g_rsScanToZ =
    [0, 1, 4, 5, 16, 17, 20, 21, 2, 3, 6, 7, 18, 19, 22, 23, 8, 9, 12, 13, 24, 25, 28, 29, 10, 11, 14, 15, 26, 27, 30, 31,
     32, 33, 36, 37, 48, 49, 52, 53, 34, 35, 38, 39, 50, 51, 54, 55, 40, 41, 44, 45, 56, 57, 60, 61, 42, 43, 46, 47, 58, 59, 62, 63]"

definition tile_blk :: "nat \<Rightarrow> nat \<Rightarrow> nat \<Rightarrow> CompArea \<Rightarrow> CompArea" where
  "tile_blk numTilesH numTilesV i blk =
     (let rsy = i div numTilesH; rsx = i mod numTilesH;
          x = g_zScanToX ! (g_rsScanToZ ! (8 * rsy + rsx)); y = g_zScanToY ! (g_rsScanToZ ! (8 * rsy + rsx))
      in if \<not> CompArea_valid blk then blk
         else let blk = blk\<lparr>ca_width := ca_width blk div numTilesH, ca_height := ca_height blk div numTilesV\<rparr>
           in blk\<lparr>ca_x := ca_x blk + ca_width blk * x, ca_y := ca_y blk + ca_height blk * y\<rparr>)"

definition getMaxTuTiling :: "UnitArea \<Rightarrow> nat \<Rightarrow> UnitArea list option" where
  "getMaxTuTiling cuArea maxTbSize =
     (let area = hd cuArea;
          maxTrSize = (if ca_width area > 64 \<or> ca_height area > 64 then 64 else maxTbSize);
          numTilesH = max 1 (ca_width area div maxTrSize);
          numTilesV = max 1 (ca_height area div maxTrSize);
          numTiles = numTilesH * numTilesV
      in if numTiles > MAX_CU_TILING_PARTITIONS then None
         else Some (map (\<lambda>i. map (tile_blk numTilesH numTilesV i) cuArea) [0..<numTiles]))"

text \<open>The factors of \<^verbatim>\<open>getSbtTuTiling\<close>, in quarters: width, height, horizontal and vertical offset.\<close>

definition sbt_factors :: "PartSplit \<Rightarrow> nat \<Rightarrow> nat \<times> nat \<times> nat \<times> nat" where
  "sbt_factors splitType i =
     (if splitType = SBT_HOR_QUAD_POS0_SPLIT \<or> splitType = SBT_HOR_QUAD_POS1_SPLIT
      then (4, if i = 0 \<and> splitType = SBT_HOR_QUAD_POS0_SPLIT \<or> i = 1 \<and> splitType = SBT_HOR_QUAD_POS1_SPLIT then 1 else 3,
            0, if i = 0 then 0 else if splitType = SBT_HOR_QUAD_POS0_SPLIT then 1 else 3)
      else if splitType = SBT_VER_QUAD_POS0_SPLIT \<or> splitType = SBT_VER_QUAD_POS1_SPLIT
      then (if i = 0 \<and> splitType = SBT_VER_QUAD_POS0_SPLIT \<or> i = 1 \<and> splitType = SBT_VER_QUAD_POS1_SPLIT then 1 else 3, 4,
            if i = 0 then 0 else if splitType = SBT_VER_QUAD_POS0_SPLIT then 1 else 3, 0)
      else if splitType = SBT_HOR_HALF_POS0_SPLIT \<or> splitType = SBT_HOR_HALF_POS1_SPLIT
      then (4, 2, 0, if i = 0 then 0 else 2)
      else (2, 4, if i = 0 then 0 else 2, 0))"

definition sbt_blk :: "nat \<times> nat \<times> nat \<times> nat \<Rightarrow> CompArea \<Rightarrow> CompArea" where
  "sbt_blk f blk = (case f of (widthFactor, heightFactor, xOffsetFactor, yOffsetFactor) \<Rightarrow>
     if \<not> CompArea_valid blk then blk
     else \<lparr>ca_x = ca_x blk + ca_width blk * xOffsetFactor div 4, ca_y = ca_y blk + ca_height blk * yOffsetFactor div 4,
           ca_width = ca_width blk * widthFactor div 4, ca_height = ca_height blk * heightFactor div 4\<rparr>)"

definition is_sbt :: "PartSplit \<Rightarrow> bool" where
  "is_sbt s \<longleftrightarrow> s \<in> {SBT_VER_HALF_POS0_SPLIT, SBT_VER_HALF_POS1_SPLIT, SBT_HOR_HALF_POS0_SPLIT, SBT_HOR_HALF_POS1_SPLIT,
     SBT_VER_QUAD_POS0_SPLIT, SBT_VER_QUAD_POS1_SPLIT, SBT_HOR_QUAD_POS0_SPLIT, SBT_HOR_QUAD_POS1_SPLIT}"

definition getSbtTuTiling :: "UnitArea \<Rightarrow> PartSplit \<Rightarrow> UnitArea list" where
  "getSbtTuTiling cuArea splitType = map (\<lambda>i. map (sbt_blk (sbt_factors splitType i)) cuArea) [0..<2]"

subsection \<open>The partitioner\<close>

record PartCfg =
  pic_width :: nat
  pic_height :: nat
  cfg_MaxBtDepth :: nat
  cfg_MaxBtSize :: nat
  cfg_MinBtSize :: nat
  cfg_MaxTtSize :: nat
  cfg_MinTtSize :: nat
  cfg_MinQtSize :: nat
  cfg_MaxTbSize :: nat
  isDualITree :: bool
  CuQpDeltaSubdiv :: nat
  CuChromaQpOffsetSubdiv :: nat

record PartLevel =
  pl_split :: PartSplit
  pl_parts :: "UnitArea list"
  pl_idx :: nat
  checkdIfImplicit :: bool
  isImplicit :: bool
  implicitSplit :: PartSplit
  firstSubPartSplit :: PartSplit
  canQtSplit :: bool
  qgEnable :: bool
  qgChromaEnable :: bool
  pl_modeType :: ModeType

definition PartLevel_new :: "PartSplit \<Rightarrow> UnitArea list \<Rightarrow> PartLevel" where
  "PartLevel_new split parts = \<lparr>pl_split = split, pl_parts = parts, pl_idx = 0, checkdIfImplicit = False, isImplicit = False,
     implicitSplit = CU_DONT_SPLIT, firstSubPartSplit = CU_DONT_SPLIT, canQtSplit = True, qgEnable = True, qgChromaEnable = True,
     pl_modeType = MODE_TYPE_ALL\<rparr>"

record Partitioner =
  m_partStack :: "PartLevel list"
  currDepth :: nat
  currQtDepth :: nat
  currTrDepth :: nat
  currBtDepth :: nat
  currMtDepth :: nat
  currSubdiv :: nat
  currQgPos :: "nat \<times> nat"
  currQgChromaPos :: "nat \<times> nat"
  currImplicitBtDepth :: nat
  pt_chType :: ChannelType
  pt_treeType :: TreeType
  pt_modeType :: ModeType

abbreviation part_back :: "Partitioner \<Rightarrow> PartLevel" where
  "part_back p \<equiv> hd (m_partStack p)"

definition upd_back :: "(PartLevel \<Rightarrow> PartLevel) \<Rightarrow> Partitioner \<Rightarrow> Partitioner" where
  "upd_back f p = p\<lparr>m_partStack := f (hd (m_partStack p)) # tl (m_partStack p)\<rparr>"

definition currArea :: "Partitioner \<Rightarrow> UnitArea" where
  "currArea p = pl_parts (part_back p) ! pl_idx (part_back p)"

definition lumaPos :: "UnitArea \<Rightarrow> nat \<times> nat" where
  "lumaPos a = (ca_x (a ! 0), ca_y (a ! 0))"

definition chromaPos :: "UnitArea \<Rightarrow> nat \<times> nat" where
  "chromaPos a = (ca_x (a ! 1), ca_y (a ! 1))"

text \<open>The positions of the quantisation groups follow the current area while the groups are enabled.\<close>

definition note_qg :: "Partitioner \<Rightarrow> Partitioner" where
  "note_qg p =
     (let p = (if qgEnable (part_back p) then p\<lparr>currQgPos := lumaPos (currArea p)\<rparr> else p)
      in if qgChromaEnable (part_back p) then p\<lparr>currQgChromaPos := chromaPos (currArea p)\<rparr> else p)"

lemma note_qg_simps [simp]:
  "m_partStack (note_qg p) = m_partStack p" "currDepth (note_qg p) = currDepth p" "currQtDepth (note_qg p) = currQtDepth p"
  "currTrDepth (note_qg p) = currTrDepth p" "currBtDepth (note_qg p) = currBtDepth p" "currMtDepth (note_qg p) = currMtDepth p"
  "currSubdiv (note_qg p) = currSubdiv p" "currImplicitBtDepth (note_qg p) = currImplicitBtDepth p"
  by (simp_all add: note_qg_def Let_def)

definition initCtu :: "UnitArea \<Rightarrow> ChannelType \<Rightarrow> Partitioner" where
  "initCtu ctuArea chType = \<lparr>m_partStack = [PartLevel_new CTU_LEVEL [ctuArea]], currDepth = 0, currQtDepth = 0, currTrDepth = 0,
     currBtDepth = 0, currMtDepth = 0, currSubdiv = 0, currQgPos = lumaPos ctuArea, currQgChromaPos = chromaPos ctuArea,
     currImplicitBtDepth = 0, pt_chType = chType, pt_treeType = TREE_D, pt_modeType = MODE_TYPE_ALL\<rparr>"

text \<open>The split that the picture boundary or the size of the block enforces, and its cached value.\<close>

definition implicit_split :: "PartCfg \<Rightarrow> Partitioner \<Rightarrow> PartSplit" where
  "implicit_split cfg p =
     (let area = currArea p ! 0;
          inPic = CompArea_contains \<lparr>ca_x = 0, ca_y = 0, ca_width = pic_width cfg, ca_height = pic_height cfg\<rparr>;
          isBlInPic = inPic (ca_x area) (ca_y area + ca_height area - 1);
          isTrInPic = inPic (ca_x area + ca_width area - 1) (ca_y area);
          isBtAllowed = (ca_width area \<le> cfg_MaxBtSize cfg \<and> ca_height area \<le> cfg_MaxBtSize cfg);
          isQtAllowed = (ca_width area > cfg_MinQtSize cfg \<and> ca_height area > cfg_MinQtSize cfg \<and> currBtDepth p = 0);
          split = (if \<not> isBlInPic \<and> \<not> isTrInPic \<and> isQtAllowed then CU_QUAD_SPLIT
            else if \<not> isBlInPic \<and> isBtAllowed then CU_HORZ_SPLIT
            else if \<not> isTrInPic \<and> isBtAllowed then CU_VERT_SPLIT
            else if \<not> isBlInPic \<or> \<not> isTrInPic then CU_QUAD_SPLIT
            else CU_DONT_SPLIT);
          split = (if isDualITree cfg \<and> (ca_width area > 64 \<or> ca_height area > 64) then CU_QUAD_SPLIT else split)
      in if (\<not> isBlInPic \<or> \<not> isTrInPic) \<and> (ca_width area > MAX_TB_SIZEY \<or> ca_height area > MAX_TB_SIZEY) then CU_QUAD_SPLIT else split)"

definition getImplicitSplit :: "PartCfg \<Rightarrow> Partitioner \<Rightarrow> PartSplit \<times> Partitioner" where
  "getImplicitSplit cfg p =
     (if checkdIfImplicit (part_back p) then (implicitSplit (part_back p), p)
      else let split = implicit_split cfg p
        in (split, upd_back (\<lambda>l. l\<lparr>checkdIfImplicit := True, isImplicit := split \<noteq> CU_DONT_SPLIT, implicitSplit := split\<rparr>) p))"

record CanSplit =
  canNo :: bool
  canQt :: bool
  canBh :: bool
  canBv :: bool
  canTh :: bool
  canTv :: bool

text \<open>The restrictions on binary and ternary splits, from line 409 on.\<close>

definition can_mtt :: "PartCfg \<Rightarrow> Partitioner \<Rightarrow> CanSplit \<Rightarrow> CanSplit" where
  "can_mtt cfg p c =
     (let area = currArea p ! 0; areaC = currArea p ! 1; chroma = (pt_chType p = CHANNEL_TYPE_CHROMA);
          w = ca_width area; h = ca_height area; sizeC = ca_width areaC * ca_height areaC;
          lastSplit = pl_split (part_back p);
          parlSplit = (if lastSplit = CU_TRIH_SPLIT then CU_HORZ_SPLIT else CU_VERT_SPLIT);
          maxBTD = cfg_MaxBtDepth cfg + currImplicitBtDepth p;
          maxBtSize = cfg_MaxBtSize cfg; minBtSize = cfg_MinBtSize cfg; maxTtSize = cfg_MaxTtSize cfg; minTtSize = cfg_MinTtSize cfg;
          c = (if (lastSplit = CU_TRIH_SPLIT \<or> lastSplit = CU_TRIV_SPLIT) \<and> pl_idx (part_back p) = 1
               then c\<lparr>canBh := parlSplit \<noteq> CU_HORZ_SPLIT, canBv := parlSplit \<noteq> CU_VERT_SPLIT\<rparr> else c);
          canBtt = (currMtDepth p < maxBTD);
          canBtt = (canBtt \<and> \<not> (w \<le> minBtSize \<and> h \<le> minBtSize \<and> w \<le> minTtSize \<and> h \<le> minTtSize));
          canBtt = (canBtt \<and> \<not> ((w > maxBtSize \<or> h > maxBtSize) \<and> (w > maxTtSize \<or> h > maxTtSize)))
      in if \<not> canBtt then c\<lparr>canBh := False, canTh := False, canBv := False, canTv := False\<rparr>
         else
           let inter = (\<lambda>n. pt_modeType p = MODE_TYPE_INTER \<and> w * h = n)
           in c\<lparr>canBh := canBh c \<and> \<not> (w > maxBtSize \<or> h > maxBtSize) \<and> \<not> h \<le> minBtSize \<and> \<not> (w > MAX_TB_SIZEY \<and> h \<le> MAX_TB_SIZEY)
                 \<and> \<not> (chroma \<and> sizeC \<le> MIN_DUALTREE_CHROMA_SIZE) \<and> \<not> inter 32,
               canBv := canBv c \<and> \<not> (w > maxBtSize \<or> h > maxBtSize) \<and> \<not> w \<le> minBtSize \<and> \<not> (w \<le> MAX_TB_SIZEY \<and> h > MAX_TB_SIZEY)
                 \<and> \<not> (chroma \<and> (sizeC \<le> MIN_DUALTREE_CHROMA_SIZE \<or> ca_width areaC = 4)) \<and> \<not> inter 32,
               canTh := canTh c \<and> \<not> (h \<le> 2 * minTtSize \<or> h > maxTtSize \<or> w > maxTtSize) \<and> \<not> (w > MAX_TB_SIZEY \<or> h > MAX_TB_SIZEY)
                 \<and> \<not> (chroma \<and> sizeC \<le> MIN_DUALTREE_CHROMA_SIZE * 2) \<and> \<not> inter 64,
               canTv := canTv c \<and> \<not> (w \<le> 2 * minTtSize \<or> w > maxTtSize \<or> h > maxTtSize) \<and> \<not> (w > MAX_TB_SIZEY \<or> h > MAX_TB_SIZEY)
                 \<and> \<not> (chroma \<and> (sizeC \<le> MIN_DUALTREE_CHROMA_SIZE * 2 \<or> ca_width areaC = 8)) \<and> \<not> inter 64\<rparr>)"

definition canSplit :: "PartCfg \<Rightarrow> Partitioner \<Rightarrow> CanSplit \<times> Partitioner" where
  "canSplit cfg p =
     (let (implicit, p) = getImplicitSplit cfg p;
          area = currArea p ! 0; areaC = currArea p ! 1; chroma = (pt_chType p = CHANNEL_TYPE_CHROMA);
          lastSplit = pl_split (part_back p);
          c = \<lparr>canNo = True,
               canQt = \<not> (lastSplit \<noteq> CTU_LEVEL \<and> lastSplit \<noteq> CU_QUAD_SPLIT) \<and> \<not> ca_width area \<le> cfg_MinQtSize cfg
                 \<and> \<not> (chroma \<and> ca_width areaC \<le> MIN_DUALTREE_CHROMA_WIDTH),
               canBh = True, canBv = True, canTh = True, canTv = True\<rparr>
      in (if pt_treeType p = TREE_C then c\<lparr>canQt := False, canBh := False, canTh := False, canBv := False, canTv := False\<rparr>
          else if implicit \<noteq> CU_DONT_SPLIT
          then c\<lparr>canNo := False, canTh := False, canTv := False, canBh := implicit = CU_HORZ_SPLIT,
                 canBv := implicit = CU_VERT_SPLIT \<and> \<not> (chroma \<and> ca_width areaC = 4)\<rparr>
          else can_mtt cfg p c, p))"

definition canSplit_this :: "PartCfg \<Rightarrow> Partitioner \<Rightarrow> PartSplit \<Rightarrow> (bool \<times> Partitioner) option" where
  "canSplit_this cfg p split =
     (let area = currArea p ! 0; maxTrSize = cfg_MaxTbSize cfg; (c, p) = canSplit cfg p in
      if split = TU_MAX_TR_SPLIT then Some (ca_width area > maxTrSize \<or> ca_height area > maxTrSize, p)
      else if is_sbt split then Some (currTrDepth p = 0, p)
      else if split = CU_QUAD_SPLIT then Some (canQt c, p)
      else if split = CU_DONT_SPLIT then Some (canNo c, p)
      else if split = CU_HORZ_SPLIT then Some (canBh c, p)
      else if split = CU_VERT_SPLIT then Some (canBv c, p)
      else if split = CU_TRIH_SPLIT then Some (canTh c, p)
      else if split = CU_TRIV_SPLIT then Some (canTv c, p)
      else if split = CU_MT_SPLIT then Some (canBh c \<or> canTh c \<or> canBv c \<or> canTv c, p)
      else if split = CU_BT_SPLIT then Some (canBh c \<or> canBv c, p)
      else None)"

definition is_mtt :: "PartSplit \<Rightarrow> bool" where
  "is_mtt s \<longleftrightarrow> s \<in> {CU_HORZ_SPLIT, CU_VERT_SPLIT, CU_TRIH_SPLIT, CU_TRIV_SPLIT}"

definition is_tri :: "PartSplit \<Rightarrow> bool" where
  "is_tri s \<longleftrightarrow> s = CU_TRIH_SPLIT \<or> s = CU_TRIV_SPLIT"

definition split_level :: "PartCfg \<Rightarrow> Partitioner \<Rightarrow> PartSplit \<Rightarrow> PartLevel option" where
  "split_level cfg p split =
     (if split = CU_QUAD_SPLIT \<or> is_mtt split
      then do { parts \<leftarrow> getCUSubPartitions (currArea p) split; Some ((PartLevel_new split parts)\<lparr>pl_modeType := pt_modeType p\<rparr>) }
      else if split = TU_MAX_TR_SPLIT then do { parts \<leftarrow> getMaxTuTiling (currArea p) (cfg_MaxTbSize cfg); Some (PartLevel_new split parts) }
      else if is_sbt split then Some (PartLevel_new split (getSbtTuTiling (currArea p) split))
      else None)"

definition splitCurrArea :: "PartCfg \<Rightarrow> PartSplit \<Rightarrow> Partitioner \<Rightarrow> Partitioner option" where
  "splitCurrArea cfg split p = do {
     let (implicit, p) = getImplicitSplit cfg p;
     let isImplicit' = (split = implicit);
     (canQtSplit', p) \<leftarrow> canSplit_this cfg p CU_QUAD_SPLIT;
     let qgEnable' = qgEnable (part_back p);
     let qgChromaEnable' = qgChromaEnable (part_back p);
     level \<leftarrow> split_level cfg p split;
     let p = p\<lparr>m_partStack := level # m_partStack p, currDepth := currDepth p + 1, currSubdiv := currSubdiv p + 1,
               currTrDepth := (if split = TU_MAX_TR_SPLIT \<or> is_sbt split then currTrDepth p + 1 else 0)\<rparr>;
     p \<leftarrow> (if is_mtt split then
         let p = p\<lparr>currBtDepth := currBtDepth p + 1, currMtDepth := currMtDepth p + 1,
                   currImplicitBtDepth := currImplicitBtDepth p + of_bool isImplicit'\<rparr>;
             p = (if is_tri split then p\<lparr>currBtDepth := currBtDepth p + 1, currSubdiv := currSubdiv p + 1\<rparr> else p)
         in Some (upd_back (\<lambda>l. l\<lparr>canQtSplit := canQtSplit'\<rparr>) p)
       else if split = CU_QUAD_SPLIT then
         if currBtDepth p > 0 then None else if currMtDepth p > 0 then None
         else Some (p\<lparr>currMtDepth := 0, currBtDepth := 0, currQtDepth := currQtDepth p + 1, currSubdiv := currSubdiv p + 1\<rparr>)
       else Some p);
     let qgEnable' = (qgEnable' \<and> currSubdiv p \<le> CuQpDeltaSubdiv cfg);
     let qgChromaEnable' = (qgChromaEnable' \<and> currSubdiv p \<le> CuChromaQpOffsetSubdiv cfg);
     Some (note_qg (upd_back (\<lambda>l. l\<lparr>qgEnable := qgEnable', qgChromaEnable := qgChromaEnable'\<rparr>) p)) }"

text \<open>The counters are unsigned in the code; they are decremented only as often as the levels of the stack have
  incremented them, which the invariant of \<open>PartitionWalk\<close> states, so the differences are taken in the natural numbers.\<close>

definition exitCurrSplit :: "Partitioner \<Rightarrow> Partitioner option" where
  "exitCurrSplit p = do {
     let currSplit = pl_split (part_back p);
     let currIdx = pl_idx (part_back p);
     let p = p\<lparr>m_partStack := tl (m_partStack p)\<rparr>;
     if currDepth p = 0 then None else do {
     let p = note_qg (p\<lparr>currDepth := currDepth p - 1, currSubdiv := currSubdiv p - 1\<rparr>);
     if is_mtt currSplit then
       if \<not> checkdIfImplicit (part_back p) then None else if currBtDepth p = 0 then None else if currMtDepth p = 0 then None
       else do {
         let p = p\<lparr>currMtDepth := currMtDepth p - 1,
                   currImplicitBtDepth := currImplicitBtDepth p - of_bool (isImplicit (part_back p)), currBtDepth := currBtDepth p - 1\<rparr>;
         if is_tri currSplit \<and> currIdx \<noteq> 1
         then if currBtDepth p = 0 then None else Some (p\<lparr>currBtDepth := currBtDepth p - 1, currSubdiv := currSubdiv p - 1\<rparr>)
         else Some p }
     else if currSplit = TU_MAX_TR_SPLIT \<or> is_sbt currSplit
     then if currTrDepth p = 0 then None else Some (p\<lparr>currTrDepth := currTrDepth p - 1\<rparr>)
     else if currTrDepth p > 0 then None
     else if currQtDepth p = 0 then None
     else Some (p\<lparr>currQtDepth := currQtDepth p - 1, currSubdiv := currSubdiv p - 1\<rparr>) } }"

text \<open>\<open>firstSplit\<close> stands for \<^verbatim>\<open>getSplitAtDepth\<close> of the coding unit at the previous position.\<close>

definition nextPart :: "PartSplit \<Rightarrow> Partitioner \<Rightarrow> bool \<times> Partitioner" where
  "nextPart firstSplit p =
     (let currIdx = pl_idx (part_back p) + 1;
          p = upd_back (\<lambda>l. l\<lparr>pl_idx := currIdx, checkdIfImplicit := False, isImplicit := False\<rparr>) p;
          p = (if currIdx = 1 then upd_back (\<lambda>l. l\<lparr>firstSubPartSplit := firstSplit\<rparr>) p else p)
      in if currIdx < length (pl_parts (part_back p))
         then
           let p = (if is_tri (pl_split (part_back p))
                    then if currIdx = 1 then p\<lparr>currBtDepth := currBtDepth p - 1, currSubdiv := currSubdiv p - 1\<rparr>
                         else p\<lparr>currBtDepth := currBtDepth p + 1, currSubdiv := currSubdiv p + 1\<rparr>
                    else p)
           in (True, note_qg p)
         else (False, p))"

definition hasNextPart :: "Partitioner \<Rightarrow> bool" where
  "hasNextPart p \<longleftrightarrow> pl_idx (part_back p) + 1 < length (pl_parts (part_back p))"

subsection \<open>The parts tile the block\<close>

definition tiles :: "CompArea \<Rightarrow> CompArea list \<Rightarrow> bool" where
  "tiles blk parts \<longleftrightarrow>
     (\<forall>px py. CompArea_contains blk px py \<longrightarrow> (\<exists>!i. i < length parts \<and> CompArea_contains (parts ! i) px py))
     \<and> (\<forall>px py. \<forall>i < length parts. CompArea_contains (parts ! i) px py \<longrightarrow> CompArea_contains blk px py)"

definition divides_evenly :: "PartCfg \<Rightarrow> UnitArea \<Rightarrow> PartSplit \<Rightarrow> CompArea \<Rightarrow> bool" where
  "divides_evenly cfg cuArea split blk \<longleftrightarrow>
     (let w = ca_width blk; h = ca_height blk; area = hd cuArea;
          maxTrSize = (if ca_width area > 64 \<or> ca_height area > 64 then 64 else cfg_MaxTbSize cfg);
          numTilesH = max 1 (ca_width area div maxTrSize);
          numTilesV = max 1 (ca_height area div maxTrSize) in
      if split = CU_QUAD_SPLIT then even w \<and> even h
      else if split = CU_HORZ_SPLIT then even h
      else if split = CU_VERT_SPLIT then even w
      else if split = CU_TRIH_SPLIT then 4 dvd h
      else if split = CU_TRIV_SPLIT then 4 dvd w
      else if split = TU_MAX_TR_SPLIT then CompArea_valid blk \<and> numTilesH dvd w \<and> numTilesV dvd h \<and> numTilesH \<le> 8 \<and> numTilesV \<le> 8
      else CompArea_valid blk \<and>
        (if split = SBT_HOR_HALF_POS0_SPLIT \<or> split = SBT_HOR_HALF_POS1_SPLIT then even h
         else if split = SBT_VER_HALF_POS0_SPLIT \<or> split = SBT_VER_HALF_POS1_SPLIT then even w
         else if split = SBT_HOR_QUAD_POS0_SPLIT \<or> split = SBT_HOR_QUAD_POS1_SPLIT then 4 dvd h
         else 4 dvd w))"

lemma tilesI:
  assumes "\<And>i px py. i < n \<Longrightarrow> CompArea_contains (f i) px py \<longleftrightarrow> CompArea_contains b px py \<and> cls px py = i"
    and "\<And>px py. CompArea_contains b px py \<Longrightarrow> cls px py < n"
  shows "tiles b (map f [0..<n])"
proof -
  have "\<exists>!i. i < n \<and> CompArea_contains (f i) px py" if "CompArea_contains b px py" for px py
    using assms that by (intro ex1I [of _ "cls px py"]) auto
  then show ?thesis using assms(1) by (simp add: tiles_def cong: conj_cong)
qed

lemma less_2: "i < 2 \<longleftrightarrow> i = 0 \<or> i = (1::nat)"
  by auto

lemma less_3: "i < 3 \<longleftrightarrow> i = 0 \<or> i = 1 \<or> i = (2::nat)"
  by auto

lemma tiles_quad:
  assumes "even (ca_width b)" and "even (ca_height b)"
  shows "tiles b (map (\<lambda>i. quad_blk i b) [0..<4])"
proof (rule tilesI [where cls = "\<lambda>px py. (if py < ca_y b + ca_height b div 2 then 0 else 2) + (if px < ca_x b + ca_width b div 2 then 0 else 1)"])
  obtain k m where km: "ca_width b = 2 * k" "ca_height b = 2 * m" using assms by (auto elim!: evenE)
  fix i px py assume "i < (4::nat)"
  then consider "i = 0" | "i = 1" | "i = 2" | "i = 3" by linarith
  then show "CompArea_contains (quad_blk i b) px py \<longleftrightarrow> CompArea_contains b px py
      \<and> (if py < ca_y b + ca_height b div 2 then 0 else 2) + (if px < ca_x b + ca_width b div 2 then 0 else 1) = i"
    by cases (auto simp: CompArea_contains_def quad_blk_def km)
qed auto

lemma tiles_horz:
  assumes "even (ca_height b)"
  shows "tiles b (map (\<lambda>i. horz_blk i b) [0..<2])"
proof (rule tilesI [where cls = "\<lambda>px py. if py < ca_y b + ca_height b div 2 then 0 else 1"])
  obtain k where k: "ca_height b = 2 * k" using assms by (auto elim!: evenE)
  show "CompArea_contains (horz_blk i b) px py \<longleftrightarrow> CompArea_contains b px py \<and> (if py < ca_y b + ca_height b div 2 then 0 else 1) = i"
    if "i < 2" for i px py
    using that by (auto simp: CompArea_contains_def horz_blk_def k less_2)
qed auto

lemma tiles_vert:
  assumes "even (ca_width b)"
  shows "tiles b (map (\<lambda>i. vert_blk i b) [0..<2])"
proof (rule tilesI [where cls = "\<lambda>px py. if px < ca_x b + ca_width b div 2 then 0 else 1"])
  obtain k where k: "ca_width b = 2 * k" using assms by (auto elim!: evenE)
  show "CompArea_contains (vert_blk i b) px py \<longleftrightarrow> CompArea_contains b px py \<and> (if px < ca_x b + ca_width b div 2 then 0 else 1) = i"
    if "i < 2" for i px py
    using that by (auto simp: CompArea_contains_def vert_blk_def k less_2)
qed auto

lemma tiles_trih:
  assumes "4 dvd ca_height b"
  shows "tiles b (map (\<lambda>i. trih_blk i b) [0..<3])"
proof -
  obtain k where k: "ca_height b = 4 * k" using assms by (auto elim!: dvdE)
  show ?thesis
    by (rule tilesI [where cls = "\<lambda>px py. if py < ca_y b + k then 0 else if py < ca_y b + 3 * k then 1 else 2"])
      (auto simp: CompArea_contains_def trih_blk_def k less_3)
qed

lemma tiles_triv:
  assumes "4 dvd ca_width b"
  shows "tiles b (map (\<lambda>i. triv_blk i b) [0..<3])"
proof -
  obtain k where k: "ca_width b = 4 * k" using assms by (auto elim!: dvdE)
  show ?thesis
    by (rule tilesI [where cls = "\<lambda>px py. if px < ca_x b + k then 0 else if px < ca_x b + 3 * k then 1 else 2"])
      (auto simp: CompArea_contains_def triv_blk_def k less_3)
qed

lemmas tiles_parts = tiles_quad tiles_horz tiles_vert tiles_trih tiles_triv

text \<open>The first of the two transform units of a subblock transform has \<open>k\<close> quarters of the block.\<close>

lemma tiles_sbt_hor:
  assumes "CompArea_valid b" and "k \<le> 4" and "4 dvd ca_height b * k"
    and "sbt_factors split 0 = (4, k, 0, 0)" and "sbt_factors split 1 = (4, 4 - k, 0, k)"
  shows "tiles b (map (\<lambda>i. sbt_blk (sbt_factors split i) b) [0..<2])"
proof -
  obtain t where t: "ca_height b * k = 4 * t" using assms(3) by (auto elim!: dvdE)
  have "ca_height b * k \<le> ca_height b * 4" using assms(2) by simp
  then have le: "t \<le> ca_height b" using t by simp
  have "ca_height b * (4 - k) = 4 * (ca_height b - t)" using t assms(2) by (simp add: diff_mult_distrib2)
  then show ?thesis using assms(1,4,5) t le
    by (intro tilesI [where cls = "\<lambda>px py. if py < ca_y b + t then 0 else 1"])
      (auto simp: CompArea_contains_def sbt_blk_def less_2)
qed

lemma tiles_sbt_ver:
  assumes "CompArea_valid b" and "k \<le> 4" and "4 dvd ca_width b * k"
    and "sbt_factors split 0 = (k, 4, 0, 0)" and "sbt_factors split 1 = (4 - k, 4, k, 0)"
  shows "tiles b (map (\<lambda>i. sbt_blk (sbt_factors split i) b) [0..<2])"
proof -
  obtain t where t: "ca_width b * k = 4 * t" using assms(3) by (auto elim!: dvdE)
  have "ca_width b * k \<le> ca_width b * 4" using assms(2) by simp
  then have le: "t \<le> ca_width b" using t by simp
  have "ca_width b * (4 - k) = 4 * (ca_width b - t)" using t assms(2) by (simp add: diff_mult_distrib2)
  then show ?thesis using assms(1,4,5) t le
    by (intro tilesI [where cls = "\<lambda>px py. if px < ca_x b + t then 0 else 1"])
      (auto simp: CompArea_contains_def sbt_blk_def less_2)
qed

lemma tiles_sbt:
  assumes "is_sbt split" and "divides_evenly cfg cuArea split b"
  shows "tiles b (map (\<lambda>i. sbt_blk (sbt_factors split i) b) [0..<2])"
proof -
  have twice: "even (n::nat) \<Longrightarrow> 4 dvd n * 2" for n by (elim dvdE) simp
  have v: "CompArea_valid b"
    "split = SBT_HOR_HALF_POS0_SPLIT \<or> split = SBT_HOR_HALF_POS1_SPLIT \<Longrightarrow> even (ca_height b)"
    "split = SBT_VER_HALF_POS0_SPLIT \<or> split = SBT_VER_HALF_POS1_SPLIT \<Longrightarrow> even (ca_width b)"
    "split = SBT_HOR_QUAD_POS0_SPLIT \<or> split = SBT_HOR_QUAD_POS1_SPLIT \<Longrightarrow> 4 dvd ca_height b"
    "split = SBT_VER_QUAD_POS0_SPLIT \<or> split = SBT_VER_QUAD_POS1_SPLIT \<Longrightarrow> 4 dvd ca_width b"
    using assms by (auto simp: divides_evenly_def is_sbt_def Let_def split: if_splits)
  note f = sbt_factors_def
  from assms(1) consider
      "split = SBT_HOR_HALF_POS0_SPLIT \<or> split = SBT_HOR_HALF_POS1_SPLIT"
    | "split = SBT_VER_HALF_POS0_SPLIT \<or> split = SBT_VER_HALF_POS1_SPLIT"
    | "split = SBT_HOR_QUAD_POS0_SPLIT" | "split = SBT_HOR_QUAD_POS1_SPLIT"
    | "split = SBT_VER_QUAD_POS0_SPLIT" | "split = SBT_VER_QUAD_POS1_SPLIT"
    by (auto simp: is_sbt_def)
  then show ?thesis
  proof cases
    case 1 then show ?thesis using v(1,2) twice by (intro tiles_sbt_hor [where k = 2]) (auto simp: f)
  next
    case 2 then show ?thesis using v(1,3) twice by (intro tiles_sbt_ver [where k = 2]) (auto simp: f)
  next
    case 3 then show ?thesis using v(1,4) by (intro tiles_sbt_hor [where k = 1]) (auto simp: f)
  next
    case 4 then show ?thesis using v(1,4) by (intro tiles_sbt_hor [where k = 3]) (auto simp: f)
  next
    case 5 then show ?thesis using v(1,5) by (intro tiles_sbt_ver [where k = 1]) (auto simp: f)
  next
    case 6 then show ?thesis using v(1,5) by (intro tiles_sbt_ver [where k = 3]) (auto simp: f)
  qed
qed

lemma zscan_tables:
  assumes "rsx < 8" and "rsy < 8"
  shows "g_zScanToX ! (g_rsScanToZ ! (8 * rsy + rsx)) = rsx" and "g_zScanToY ! (g_rsScanToZ ! (8 * rsy + rsx)) = rsy"
proof -
  have "\<forall>y \<in> set [0..<8]. \<forall>x \<in> set [0..<8]. g_zScanToX ! (g_rsScanToZ ! (8 * y + x)) = x \<and> g_zScanToY ! (g_rsScanToZ ! (8 * y + x)) = y"
    by (simp add: upt_rec g_zScanToX_def g_zScanToY_def g_rsScanToZ_def)
  with assms show "g_zScanToX ! (g_rsScanToZ ! (8 * rsy + rsx)) = rsx" "g_zScanToY ! (g_rsScanToZ ! (8 * rsy + rsx)) = rsy" by auto
qed

lemma tile_blk_eq:
  assumes "CompArea_valid b" and "i < H * V" and "H \<le> 8" and "V \<le> 8"
  shows "tile_blk H V i b = \<lparr>ca_x = ca_x b + ca_width b div H * (i mod H), ca_y = ca_y b + ca_height b div V * (i div H),
    ca_width = ca_width b div H, ca_height = ca_height b div V\<rparr>"
proof -
  have "0 < H" using assms(2) by (cases H) auto
  then have "i mod H < 8" using assms(3) mod_less_divisor [of H i] by linarith
  moreover have "i div H < 8" using assms(2,4) less_mult_imp_div_less [of i V H] by (simp add: mult.commute)
  ultimately show ?thesis using assms(1) zscan_tables [of "i mod H" "i div H"] by (simp add: tile_blk_def Let_def)
qed

text \<open>Cells of size \<open>t\<close>: each position below \<open>n * t\<close> is in exactly one.\<close>

lemma cell_iff: "0 < (t::nat) \<Longrightarrow> t * k \<le> d \<and> d < t * k + t \<longleftrightarrow> d div t = k"
  by (metis add.commute div_nat_eqI dividend_less_times_div mult.commute mult_Suc_right times_div_less_eq_dividend)

lemma tiles_tu:
  assumes "CompArea_valid b" and "H dvd ca_width b" and "V dvd ca_height b" and "H \<le> 8" and "V \<le> 8"
  shows "tiles b (map (\<lambda>i. tile_blk H V i b) [0..<H * V])"
proof -
  obtain t where t: "ca_width b = H * t" "0 < t" "0 < H" using assms(1,2) by (auto simp: CompArea_valid_def elim!: dvdE)
  obtain u where u: "ca_height b = V * u" "0 < u" "0 < V" using assms(1,3) by (auto simp: CompArea_valid_def elim!: dvdE)
  have part: "CompArea_contains (tile_blk H V i b) px py \<longleftrightarrow>
      ca_x b \<le> px \<and> (px - ca_x b) div t = i mod H \<and> ca_y b \<le> py \<and> (py - ca_y b) div u = i div H" if "i < H * V" for i px py
  proof -
    have "CompArea_contains (tile_blk H V i b) px py \<longleftrightarrow> ca_x b \<le> px \<and> (t * (i mod H) \<le> px - ca_x b \<and> px - ca_x b < t * (i mod H) + t)
      \<and> ca_y b \<le> py \<and> (u * (i div H) \<le> py - ca_y b \<and> py - ca_y b < u * (i div H) + u)"
      unfolding tile_blk_eq [OF assms(1) that assms(4,5)] CompArea_contains_def using t u by auto
    then show ?thesis unfolding cell_iff [OF t(2)] cell_iff [OF u(2)] .
  qed
  have whole: "CompArea_contains b px py \<longleftrightarrow> ca_x b \<le> px \<and> (px - ca_x b) div t < H \<and> ca_y b \<le> py \<and> (py - ca_y b) div u < V" for px py
    using t u by (auto simp: CompArea_contains_def div_less_iff_less_mult mult.commute)
  have mod: "i mod H < H" "i < H * V \<Longrightarrow> i div H < V" for i
    using t(3) by (auto simp: less_mult_imp_div_less mult.commute)
  show ?thesis unfolding tiles_def
  proof (intro conjI allI impI)
    fix px py assume c: "CompArea_contains b px py"
    let ?X = "(px - ca_x b) div t" and ?Y = "(py - ca_y b) div u"
    have XY: "?X < H" "?Y < V" using c whole by auto
    have lt: "?Y * H + ?X < H * V"
    proof -
      have "?Y * H + ?X < (?Y + 1) * H" using XY by simp
      also have "\<dots> \<le> V * H" using XY by (intro mult_le_mono1) simp
      finally show ?thesis by (simp add: mult.commute)
    qed
    show "\<exists>!i. i < length (map (\<lambda>i. tile_blk H V i b) [0..<H * V]) \<and> CompArea_contains (map (\<lambda>i. tile_blk H V i b) [0..<H * V] ! i) px py"
    proof (rule ex1I [of _ "?Y * H + ?X"])
      show "?Y * H + ?X < length (map (\<lambda>i. tile_blk H V i b) [0..<H * V]) \<and>
        CompArea_contains (map (\<lambda>i. tile_blk H V i b) [0..<H * V] ! (?Y * H + ?X)) px py"
        using lt part [OF lt] XY c whole t(3) by auto
      fix i assume "i < length (map (\<lambda>i. tile_blk H V i b) [0..<H * V]) \<and> CompArea_contains (map (\<lambda>i. tile_blk H V i b) [0..<H * V] ! i) px py"
      then have "?X = i mod H" "?Y = i div H" using part [of i] by auto
      then show "i = ?Y * H + ?X" by simp
    qed
  next
    fix px py i assume "i < length (map (\<lambda>i. tile_blk H V i b) [0..<H * V])" "CompArea_contains (map (\<lambda>i. tile_blk H V i b) [0..<H * V] ! i) px py"
    then show "CompArea_contains b px py" using part [of i] whole mod by auto
  qed
qed

lemma map_parts: "c < length a \<Longrightarrow> map (\<lambda>u. u ! c) (map (\<lambda>i. map (f i) a) is) = map (\<lambda>i. f i (a ! c)) is"
  by simp

lemma checked_Some: "checked dim sub = Some parts \<Longrightarrow> parts = sub"
  by (simp add: checked_def split: if_splits)

lemma split_level_tiles:
  assumes "split_level cfg p split = Some level" and "c < length (currArea p)"
    and "divides_evenly cfg (currArea p) split (currArea p ! c)"
  shows "tiles (currArea p ! c) (map (\<lambda>u. u ! c) (pl_parts level))"
proof -
  consider (cu) "split = CU_QUAD_SPLIT \<or> is_mtt split" | (tu) "split = TU_MAX_TR_SPLIT" | (sbt) "is_sbt split"
    using assms(1) by (auto simp: split_level_def split: if_splits)
  then show ?thesis
  proof cases
    case cu
    then obtain parts where "getCUSubPartitions (currArea p) split = Some parts" "pl_parts level = parts"
      using assms(1) by (auto simp: split_level_def PartLevel_new_def split: bind_splits)
    with cu assms(2,3) show ?thesis
      by (auto simp: getCUSubPartitions_def is_mtt_def divides_evenly_def Let_def tiles_parts map_parts
          simp del: map_map dest!: checked_Some split: if_splits)
  next
    case tu
    then show ?thesis using assms
      by (auto simp: split_level_def is_mtt_def getMaxTuTiling_def Let_def PartLevel_new_def divides_evenly_def map_parts
          simp del: map_map intro!: tiles_tu split: if_splits bind_splits)
  next
    case sbt
    then show ?thesis using assms
      by (auto simp: split_level_def is_mtt_def is_sbt_def getSbtTuTiling_def PartLevel_new_def divides_evenly_def Let_def map_parts
          simp del: map_map intro!: tiles_sbt split: if_splits)
  qed
qed

text \<open>C24: whenever a split of any kind (quad, binary, ternary, into transform units of the maximal size or of a subblock
  transform) is carried out on an area, then in every component in which the split divides the sides it cuts without
  remainder (halves need an even side, quarters a multiple of four; for example the 4x2 chroma block of an 8x4 unit under a
  vertical half split) the parts tile the block: each sample of the block is in exactly one part, and no part reaches
  beyond the block.\<close>

theorem split_tiles:
  assumes "split_level cfg p split = Some level" and "c < length (currArea p)"
    and "divides_evenly cfg (currArea p) split (currArea p ! c)"
  shows "tiles (currArea p ! c) (map (\<lambda>u. u ! c) (pl_parts level))"
  using assms by (rule split_level_tiles)

definition example_cfg :: PartCfg where
  "example_cfg = \<lparr>pic_width = 256, pic_height = 192, cfg_MaxBtDepth = 3, cfg_MaxBtSize = 128, cfg_MinBtSize = 4, cfg_MaxTtSize = 64,
     cfg_MinTtSize = 4, cfg_MinQtSize = 8, cfg_MaxTbSize = 64, isDualITree = False, CuQpDeltaSubdiv = 2, CuChromaQpOffsetSubdiv = 2\<rparr>"

definition example_area :: UnitArea where
  "example_area = [\<lparr>ca_x = 0, ca_y = 0, ca_width = 128, ca_height = 128\<rparr>, \<lparr>ca_x = 0, ca_y = 0, ca_width = 64, ca_height = 64\<rparr>,
     \<lparr>ca_x = 0, ca_y = 0, ca_width = 64, ca_height = 64\<rparr>]"

lemma upt_small: "[0..<3] = [0, 1, 2]" "[0..<4] = [0, 1, 2, 3]"
  by (simp_all add: upt_rec)

lemma example_level: "\<exists>level. split_level example_cfg (initCtu example_area CHANNEL_TYPE_LUMA) CU_TRIV_SPLIT = Some level"
  by (simp add: split_level_def is_mtt_def getCUSubPartitions_def checked_def currArea_def initCtu_def PartLevel_new_def example_area_def
      part_consts triv_blk_def upt_small)

theorem split_tiles_witness:
  "\<exists>level. split_level example_cfg (initCtu example_area CHANNEL_TYPE_LUMA) CU_TRIV_SPLIT = Some level
     \<and> tiles \<lparr>ca_x = 0, ca_y = 0, ca_width = 64, ca_height = 64\<rparr> (map (\<lambda>u. u ! 1) (pl_parts level))"
proof -
  obtain level where level: "split_level example_cfg (initCtu example_area CHANNEL_TYPE_LUMA) CU_TRIV_SPLIT = Some level" using example_level by blast
  have area: "currArea (initCtu example_area CHANNEL_TYPE_LUMA) = example_area" by (simp add: currArea_def initCtu_def PartLevel_new_def)
  have "tiles (example_area ! 1) (map (\<lambda>u. u ! 1) (pl_parts level))"
    using split_tiles [OF level, of 1] unfolding area by (simp add: divides_evenly_def example_area_def)
  with level show ?thesis by (auto simp: example_area_def)
qed

end
