(* ===== verification/PartitionWalk.thy ===== *)
theory PartitionWalk
  imports PartitionTree
begin

section \<open>The walk through the partitions\<close>

text \<open>
  The counters that \<^verbatim>\<open>QTBTPartitioner\<close> updates on every split, next part and exit are functions of its stack in every
  state that a coding tree can reach, so that leaving a split always leads back to the values before it.
\<close>

subsection \<open>The counters\<close>

text \<open>What the counters of a partitioner mean in terms of its stack.\<close>

definition is_tu :: "PartSplit \<Rightarrow> bool" where
  "is_tu s \<longleftrightarrow> s = TU_MAX_TR_SPLIT \<or> is_sbt s"

definition bt_weight :: "PartLevel \<Rightarrow> nat" where
  "bt_weight l = (if is_tri (pl_split l) then if pl_idx l = 1 then 1 else 2 else if is_mtt (pl_split l) then 1 else 0)"

definition subdiv_weight :: "PartLevel \<Rightarrow> nat" where
  "subdiv_weight l = (if is_mtt (pl_split l) then bt_weight l else if pl_split l = CU_QUAD_SPLIT then 2 else if is_tu (pl_split l) then 1 else 0)"

fun implicit_count :: "PartLevel list \<Rightarrow> nat" where
  "implicit_count (l # m # ls) = of_bool (is_mtt (pl_split l) \<and> isImplicit m) + implicit_count (m # ls)"
| "implicit_count ls = 0"

text \<open>From the bottom: the unit, quad splits, multi-type splits, splits into transform units.\<close>

definition split_rank :: "PartSplit \<Rightarrow> nat" where
  "split_rank s = (if s = CTU_LEVEL then 0 else if s = CU_QUAD_SPLIT then 1 else if is_mtt s then 2 else if is_tu s then 3 else 4)"

fun stack_ok :: "PartLevel list \<Rightarrow> bool" where
  "stack_ok [] \<longleftrightarrow> False"
| "stack_ok [l] \<longleftrightarrow> pl_split l = CTU_LEVEL \<and> length (pl_parts l) = 1 \<and> pl_idx l = 0"
| "stack_ok (l # m # ls) \<longleftrightarrow> split_rank (pl_split m) \<le> split_rank (pl_split l) \<and> 0 < split_rank (pl_split l) \<and> split_rank (pl_split l) < 4
     \<and> pl_idx m < length (pl_parts m) \<and> (is_mtt (pl_split l) \<longrightarrow> checkdIfImplicit m)
     \<and> pl_idx l \<le> length (pl_parts l) \<and> (is_tri (pl_split l) \<longrightarrow> length (pl_parts l) = 3) \<and> stack_ok (m # ls)"

definition part_inv :: "Partitioner \<Rightarrow> bool" where
  "part_inv p \<longleftrightarrow> (let ls = m_partStack p in
     stack_ok ls
     \<and> (\<forall>l \<in> set ls. checkdIfImplicit l \<longrightarrow> isImplicit l = (implicitSplit l \<noteq> CU_DONT_SPLIT))
     \<and> currDepth p + 1 = length ls
     \<and> currQtDepth p = length (filter (\<lambda>l. pl_split l = CU_QUAD_SPLIT) ls)
     \<and> currTrDepth p = length (filter (\<lambda>l. is_tu (pl_split l)) ls)
     \<and> currMtDepth p = length (filter (\<lambda>l. is_mtt (pl_split l)) ls)
     \<and> currBtDepth p = sum_list (map bt_weight ls)
     \<and> currSubdiv p = sum_list (map subdiv_weight ls)
     \<and> currImplicitBtDepth p = implicit_count ls)"

text \<open>The steps of the coding tree: allowed splits (multi-type and quad splits only outside of transform trees),
  the next part, the end of a split, and the changes of channel, tree and mode type that \<^verbatim>\<open>coding_tree\<close> makes.\<close>

inductive part_step :: "PartCfg \<Rightarrow> Partitioner \<Rightarrow> Partitioner \<Rightarrow> bool" for cfg where
  step_split: "canSplit_this cfg p split = Some (True, r) \<Longrightarrow> splitCurrArea cfg split p = Some q
    \<Longrightarrow> (is_mtt split \<or> split = CU_QUAD_SPLIT \<longrightarrow> currTrDepth p = 0) \<Longrightarrow> pl_idx (part_back p) < length (pl_parts (part_back p))
    \<Longrightarrow> part_step cfg p q"
| step_check: "canSplit cfg p = (c, q) \<Longrightarrow> part_step cfg p q"
| step_next: "0 < currDepth p \<Longrightarrow> pl_idx (part_back p) < length (pl_parts (part_back p)) \<Longrightarrow> nextPart f p = (going, q) \<Longrightarrow> part_step cfg p q"
| step_exit: "0 < currDepth p \<Longrightarrow> exitCurrSplit p = Some q \<Longrightarrow> part_step cfg p q"
| step_type: "part_step cfg p (p\<lparr>pt_chType := ch, pt_treeType := tt, pt_modeType := mt\<rparr>)"

inductive part_reach :: "PartCfg \<Rightarrow> Partitioner \<Rightarrow> bool" for cfg where
  reach_init: "part_reach cfg (initCtu ctuArea ch)"
| reach_step: "part_reach cfg p \<Longrightarrow> part_step cfg p q \<Longrightarrow> part_reach cfg q"

lemma part_inv_init: "part_inv (initCtu a ch)"
  by (simp add: part_inv_def initCtu_def PartLevel_new_def bt_weight_def subdiv_weight_def is_mtt_def is_tri_def is_tu_def is_sbt_def)

lemma stack_ok_Cons: "stack_ok ls \<Longrightarrow> \<exists>l ms. ls = l # ms"
  by (cases ls) auto

lemma stack_ok_ranks: "stack_ok (l # ms) \<Longrightarrow> m \<in> set ms \<Longrightarrow> split_rank (pl_split m) \<le> split_rank (pl_split l)"
proof (induction ms arbitrary: l)
  case (Cons n ms)
  then have "split_rank (pl_split n) \<le> split_rank (pl_split l)" "stack_ok (n # ms)" by auto
  with Cons show ?case by (cases "m = n") (auto intro: order_trans)
qed simp

text \<open>Changes of the fields that do not matter below the top of the stack.\<close>

lemma part_inv_top:
  assumes "part_inv p" and "m_partStack p = l # ms"
    and "pl_split l' = pl_split l" "pl_parts l' = pl_parts l" "pl_idx l' = pl_idx l"
    and "checkdIfImplicit l' \<longrightarrow> isImplicit l' = (implicitSplit l' \<noteq> CU_DONT_SPLIT)"
  shows "part_inv (p\<lparr>m_partStack := l' # ms\<rparr>)"
proof -
  have "stack_ok (l' # ms)" using assms by (cases ms) (auto simp: part_inv_def)
  moreover have "bt_weight l' = bt_weight l" "subdiv_weight l' = subdiv_weight l" using assms by (auto simp: bt_weight_def subdiv_weight_def)
  moreover have "implicit_count (l' # ms) = implicit_count (l # ms)" using assms by (cases ms) auto
  ultimately show ?thesis using assms by (auto simp: part_inv_def Let_def)
qed

lemma part_inv_stack: "part_inv p \<Longrightarrow> \<exists>l ms. m_partStack p = l # ms"
  by (auto simp: part_inv_def Let_def dest: stack_ok_Cons)

lemma part_inv_deep: "part_inv p \<Longrightarrow> 0 < currDepth p \<Longrightarrow> \<exists>l m ms. m_partStack p = l # m # ms"
  by (cases "m_partStack p" rule: stack_ok.cases) (auto simp: part_inv_def Let_def)

lemma getImplicitSplit_back:
  assumes "part_inv p" and "getImplicitSplit cfg p = (i, q)"
  shows "part_inv q" "checkdIfImplicit (part_back q)" "implicitSplit (part_back q) = i" "isImplicit (part_back q) = (i \<noteq> CU_DONT_SPLIT)"
    "m_partStack q = part_back q # tl (m_partStack p)" "pl_split (part_back q) = pl_split (part_back p)"
    "pl_parts (part_back q) = pl_parts (part_back p)" "pl_idx (part_back q) = pl_idx (part_back p)"
    "q = p\<lparr>m_partStack := m_partStack q\<rparr>"
proof -
  obtain l ms where lm: "m_partStack p = l # ms" using part_inv_stack [OF assms(1)] by blast
  let ?l = "\<lambda>s. l\<lparr>checkdIfImplicit := True, isImplicit := s \<noteq> CU_DONT_SPLIT, implicitSplit := s\<rparr>"
  have new: "part_inv (p\<lparr>m_partStack := ?l s # ms\<rparr>)" for s using assms(1) lm by (intro part_inv_top [of p l]) auto
  have "isImplicit l = (implicitSplit l \<noteq> CU_DONT_SPLIT)" if "checkdIfImplicit l" using assms(1) that by (simp add: part_inv_def Let_def lm)
  with assms lm new show "part_inv q" "checkdIfImplicit (part_back q)" "implicitSplit (part_back q) = i"
      "isImplicit (part_back q) = (i \<noteq> CU_DONT_SPLIT)" "m_partStack q = part_back q # tl (m_partStack p)"
      "pl_split (part_back q) = pl_split (part_back p)" "pl_parts (part_back q) = pl_parts (part_back p)"
      "pl_idx (part_back q) = pl_idx (part_back p)" "q = p\<lparr>m_partStack := m_partStack q\<rparr>"
    by (auto simp: getImplicitSplit_def upd_back_def Let_def split: if_splits)
qed

lemma canSplit_state: "snd (canSplit cfg p) = snd (getImplicitSplit cfg p)"
  by (simp add: canSplit_def Let_def case_prod_beta)

lemma canSplit_this_state: "canSplit_this cfg p split = Some (b, q) \<Longrightarrow> q = snd (getImplicitSplit cfg p)"
  by (auto simp: canSplit_this_def Let_def canSplit_state [symmetric] split: prod.splits if_splits)

lemma bt_weight_pos: "is_mtt (pl_split l) \<Longrightarrow> 0 < bt_weight l"
  by (simp add: bt_weight_def)

lemma mtt_kinds: "is_mtt s \<Longrightarrow> \<not> is_tu s \<and> s \<noteq> CU_QUAD_SPLIT \<and> s \<noteq> CTU_LEVEL" "is_tri s \<Longrightarrow> is_mtt s"
  "is_tu s \<Longrightarrow> s \<noteq> CU_QUAD_SPLIT \<and> s \<noteq> CTU_LEVEL"
  by (auto simp: is_mtt_def is_tu_def is_sbt_def is_tri_def)

lemma part_inv_swap:
  assumes "part_inv p" and "m_partStack p = l # m # ms" and "m_partStack p' = l' # m # ms"
    and "pl_split l' = pl_split l" "pl_parts l' = pl_parts l" "pl_idx l' \<le> length (pl_parts l)"
    and "checkdIfImplicit l' \<longrightarrow> isImplicit l' = (implicitSplit l' \<noteq> CU_DONT_SPLIT)"
    and "currDepth p' = currDepth p" "currQtDepth p' = currQtDepth p" "currTrDepth p' = currTrDepth p" "currMtDepth p' = currMtDepth p"
      "currImplicitBtDepth p' = currImplicitBtDepth p" "currBtDepth p' + bt_weight l = currBtDepth p + bt_weight l'"
      "currSubdiv p' + subdiv_weight l = currSubdiv p + subdiv_weight l'"
  shows "part_inv p'"
  using assms by (auto simp: part_inv_def Let_def)

lemma nextPart_inv:
  assumes "part_inv p" and "0 < currDepth p" and "pl_idx (part_back p) < length (pl_parts (part_back p))" and "nextPart f p = (b, q)"
  shows "part_inv q \<and> tl (m_partStack q) = tl (m_partStack p)"
proof -
  obtain l m ms where lm: "m_partStack p = l # m # ms" using part_inv_deep [OF assms(1,2)] by blast
  then have ok: "stack_ok (l # m # ms)" and bt: "currBtDepth p \<ge> bt_weight l" "currSubdiv p \<ge> subdiv_weight l"
    using assms(1) by (auto simp: part_inv_def Let_def)
  define i where "i = pl_idx l + 1"
  define l' where "l' = l\<lparr>pl_idx := i, checkdIfImplicit := False, isImplicit := False, firstSubPartSplit := (if i = 1 then f else firstSubPartSplit l)\<rparr>"
  have q: "m_partStack q = l' # m # ms" "currDepth q = currDepth p" "currQtDepth q = currQtDepth p" "currTrDepth q = currTrDepth p"
    "currMtDepth q = currMtDepth p" "currImplicitBtDepth q = currImplicitBtDepth p"
    "currBtDepth q = (if i < length (pl_parts l) \<and> is_tri (pl_split l) then if i = 1 then currBtDepth p - 1 else currBtDepth p + 1 else currBtDepth p)"
    "currSubdiv q = (if i < length (pl_parts l) \<and> is_tri (pl_split l) then if i = 1 then currSubdiv p - 1 else currSubdiv p + 1 else currSubdiv p)"
    using assms(4) by (auto simp: nextPart_def Let_def upd_back_def lm i_def l'_def split: if_splits)
  have tri: "is_tri (pl_split l) \<Longrightarrow> length (pl_parts l) = 3" using ok by simp
  have "part_inv q"
  proof (rule part_inv_swap [OF assms(1) lm q(1)])
    have cases: "i = 1 \<or> i = 2 \<or> i = 3" if "is_tri (pl_split l)" using assms(3) lm tri [OF that] by (auto simp: i_def)
    have "bt_weight l = (if is_tri (pl_split l) then if i = 2 then 1 else 2 else if is_mtt (pl_split l) then 1 else 0)"
      "bt_weight l' = (if is_tri (pl_split l) then if i = 1 then 1 else 2 else if is_mtt (pl_split l) then 1 else 0)"
      by (simp_all add: bt_weight_def l'_def i_def)
    then show "currBtDepth q + bt_weight l = currBtDepth p + bt_weight l'"
      using cases bt(1) tri unfolding q(7) by (auto split: if_splits)
    have "subdiv_weight l = (if is_tri (pl_split l) then bt_weight l else subdiv_weight l)" "subdiv_weight l' = (if is_tri (pl_split l) then bt_weight l' else subdiv_weight l)"
      using mtt_kinds(2) by (auto simp: subdiv_weight_def l'_def bt_weight_def)
    then show "currSubdiv q + subdiv_weight l = currSubdiv p + subdiv_weight l'"
      using cases bt(2) tri \<open>currBtDepth q + bt_weight l = currBtDepth p + bt_weight l'\<close> \<open>bt_weight l = _\<close> \<open>bt_weight l' = _\<close>
      unfolding q(8) by (auto split: if_splits)
  qed (use q assms(3) lm in \<open>auto simp: l'_def i_def\<close>)
  then show ?thesis using q(1) lm by simp
qed

text \<open>The end of a split: no check fails, and the counters are those of the node that was split.\<close>

lemma exitCurrSplit_fields:
  assumes "m_partStack p = l # m # ms" and "0 < currDepth p"
  shows "is_mtt (pl_split l) \<Longrightarrow> checkdIfImplicit m \<Longrightarrow> bt_weight l \<le> currBtDepth p \<Longrightarrow> 0 < currMtDepth p \<Longrightarrow>
     \<exists>q. exitCurrSplit p = Some q \<and> m_partStack q = m # ms \<and> currDepth q = currDepth p - 1 \<and> currQtDepth q = currQtDepth p
       \<and> currTrDepth q = currTrDepth p \<and> currMtDepth q = currMtDepth p - 1 \<and> currBtDepth q = currBtDepth p - bt_weight l
       \<and> currSubdiv q = currSubdiv p - bt_weight l \<and> currImplicitBtDepth q = currImplicitBtDepth p - of_bool (isImplicit m)"
    and "is_tu (pl_split l) \<Longrightarrow> 0 < currTrDepth p \<Longrightarrow>
     \<exists>q. exitCurrSplit p = Some q \<and> m_partStack q = m # ms \<and> currDepth q = currDepth p - 1 \<and> currQtDepth q = currQtDepth p
       \<and> currTrDepth q = currTrDepth p - 1 \<and> currMtDepth q = currMtDepth p \<and> currBtDepth q = currBtDepth p
       \<and> currSubdiv q = currSubdiv p - 1 \<and> currImplicitBtDepth q = currImplicitBtDepth p"
    and "pl_split l = CU_QUAD_SPLIT \<Longrightarrow> currTrDepth p = 0 \<Longrightarrow> 0 < currQtDepth p \<Longrightarrow>
     \<exists>q. exitCurrSplit p = Some q \<and> m_partStack q = m # ms \<and> currDepth q = currDepth p - 1 \<and> currQtDepth q = currQtDepth p - 1
       \<and> currTrDepth q = currTrDepth p \<and> currMtDepth q = currMtDepth p \<and> currBtDepth q = currBtDepth p
       \<and> currSubdiv q = currSubdiv p - 2 \<and> currImplicitBtDepth q = currImplicitBtDepth p"
proof -
  show "\<exists>q. exitCurrSplit p = Some q \<and> m_partStack q = m # ms \<and> currDepth q = currDepth p - 1 \<and> currQtDepth q = currQtDepth p
       \<and> currTrDepth q = currTrDepth p \<and> currMtDepth q = currMtDepth p - 1 \<and> currBtDepth q = currBtDepth p - bt_weight l
       \<and> currSubdiv q = currSubdiv p - bt_weight l \<and> currImplicitBtDepth q = currImplicitBtDepth p - of_bool (isImplicit m)"
    if "is_mtt (pl_split l)" "checkdIfImplicit m" "bt_weight l \<le> currBtDepth p" "0 < currMtDepth p"
  proof (cases "is_tri (pl_split l) \<and> pl_idx l \<noteq> 1")
    case True
    then have "bt_weight l = 2" by (simp add: bt_weight_def)
    with True that assms show ?thesis by (simp add: exitCurrSplit_def Let_def numeral_2_eq_2)
  next
    case False
    then have "bt_weight l = 1" using that(1) by (auto simp: bt_weight_def)
    moreover have "(is_tri (pl_split l) \<and> pl_idx l \<noteq> 1) = False" using False by simp
    ultimately show ?thesis using that assms by (auto simp: exitCurrSplit_def Let_def)
  qed
  show "\<exists>q. exitCurrSplit p = Some q \<and> m_partStack q = m # ms \<and> currDepth q = currDepth p - 1 \<and> currQtDepth q = currQtDepth p
       \<and> currTrDepth q = currTrDepth p - 1 \<and> currMtDepth q = currMtDepth p \<and> currBtDepth q = currBtDepth p
       \<and> currSubdiv q = currSubdiv p - 1 \<and> currImplicitBtDepth q = currImplicitBtDepth p"
    if "is_tu (pl_split l)" "0 < currTrDepth p"
  proof -
    have "\<not> is_mtt (pl_split l)" "(pl_split l = TU_MAX_TR_SPLIT \<or> is_sbt (pl_split l)) = True"
      using that(1) mtt_kinds(1) by (auto simp: is_tu_def)
    with that assms show ?thesis by (simp add: exitCurrSplit_def Let_def)
  qed
  show "\<exists>q. exitCurrSplit p = Some q \<and> m_partStack q = m # ms \<and> currDepth q = currDepth p - 1 \<and> currQtDepth q = currQtDepth p - 1
       \<and> currTrDepth q = currTrDepth p \<and> currMtDepth q = currMtDepth p \<and> currBtDepth q = currBtDepth p
       \<and> currSubdiv q = currSubdiv p - 2 \<and> currImplicitBtDepth q = currImplicitBtDepth p"
    if "pl_split l = CU_QUAD_SPLIT" "currTrDepth p = 0" "0 < currQtDepth p"
    using that assms by (simp add: exitCurrSplit_def Let_def is_mtt_def is_sbt_def numeral_2_eq_2)
qed

lemma exitCurrSplit_inv:
  assumes "part_inv p" and "0 < currDepth p"
  shows "\<exists>q. exitCurrSplit p = Some q \<and> m_partStack q = tl (m_partStack p) \<and> part_inv q"
proof -
  obtain l m ms where lm: "m_partStack p = l # m # ms" using part_inv_deep [OF assms] by blast
  then have inv: "stack_ok (l # m # ms)" "currDepth p = length ms + 1"
    "currQtDepth p = length (filter (\<lambda>l. pl_split l = CU_QUAD_SPLIT) (l # m # ms))"
    "currTrDepth p = length (filter (\<lambda>l. is_tu (pl_split l)) (l # m # ms))"
    "currMtDepth p = length (filter (\<lambda>l. is_mtt (pl_split l)) (l # m # ms))"
    "currBtDepth p = sum_list (map bt_weight (l # m # ms))" "currSubdiv p = sum_list (map subdiv_weight (l # m # ms))"
    "currImplicitBtDepth p = implicit_count (l # m # ms)"
    "\<forall>l \<in> set (m # ms). checkdIfImplicit l \<longrightarrow> isImplicit l = (implicitSplit l \<noteq> CU_DONT_SPLIT)"
    using assms(1) by (auto simp: part_inv_def Let_def)
  note fields = exitCurrSplit_fields [OF lm assms(2)]
  consider (mtt) "is_mtt (pl_split l)" | (tu) "is_tu (pl_split l)" | (quad) "pl_split l = CU_QUAD_SPLIT"
    using inv(1) by (auto simp: split_rank_def split: if_splits)
  then show ?thesis
  proof cases
    case mtt
    then have w: "subdiv_weight l = bt_weight l" by (simp add: subdiv_weight_def)
    have "checkdIfImplicit m" "bt_weight l \<le> currBtDepth p" "0 < currMtDepth p" using inv mtt by auto
    from fields(1) [OF mtt this] obtain q where q: "exitCurrSplit p = Some q" "m_partStack q = m # ms" "currDepth q = currDepth p - 1"
      "currQtDepth q = currQtDepth p" "currTrDepth q = currTrDepth p" "currMtDepth q = currMtDepth p - 1"
      "currBtDepth q = currBtDepth p - bt_weight l" "currSubdiv q = currSubdiv p - bt_weight l"
      "currImplicitBtDepth q = currImplicitBtDepth p - of_bool (isImplicit m)" by blast
    moreover have "part_inv q" using inv mtt mtt_kinds(1) [OF mtt] w by (simp add: part_inv_def q)
    ultimately show ?thesis using lm by simp
  next
    case tu
    then have k: "\<not> is_mtt (pl_split l)" "pl_split l \<noteq> CU_QUAD_SPLIT" using mtt_kinds by blast+
    then have w: "subdiv_weight l = 1" "bt_weight l = 0" using tu mtt_kinds(2) by (auto simp: subdiv_weight_def bt_weight_def)
    have "0 < currTrDepth p" using inv tu by simp
    from fields(2) [OF tu this] obtain q where q: "exitCurrSplit p = Some q" "m_partStack q = m # ms" "currDepth q = currDepth p - 1"
      "currQtDepth q = currQtDepth p" "currTrDepth q = currTrDepth p - 1" "currMtDepth q = currMtDepth p"
      "currBtDepth q = currBtDepth p" "currSubdiv q = currSubdiv p - 1" "currImplicitBtDepth q = currImplicitBtDepth p" by blast
    moreover have "part_inv q" using inv tu k w by (simp add: part_inv_def q)
    ultimately show ?thesis using lm by simp
  next
    case quad
    then have k: "\<not> is_mtt (pl_split l)" "\<not> is_tu (pl_split l)" by (auto simp: is_mtt_def is_tu_def is_sbt_def)
    then have w: "subdiv_weight l = 2" "bt_weight l = 0" using quad mtt_kinds(2) by (auto simp: subdiv_weight_def bt_weight_def)
    have "\<not> is_tu (pl_split k)" if "k \<in> set (m # ms)" for k
      using stack_ok_ranks [OF inv(1) that] quad by (auto simp: split_rank_def is_mtt_def is_tu_def is_sbt_def split: if_splits)
    then have tr: "currTrDepth p = 0" using k by (simp add: inv(4))
    have "0 < currQtDepth p" using inv quad by simp
    from fields(3) [OF quad tr this] obtain q where q: "exitCurrSplit p = Some q" "m_partStack q = m # ms" "currDepth q = currDepth p - 1"
      "currQtDepth q = currQtDepth p - 1" "currTrDepth q = currTrDepth p" "currMtDepth q = currMtDepth p"
      "currBtDepth q = currBtDepth p" "currSubdiv q = currSubdiv p - 2" "currImplicitBtDepth q = currImplicitBtDepth p" by blast
    moreover have "part_inv q" using inv quad k w by (simp add: part_inv_def q)
    ultimately show ?thesis using lm by simp
  qed
qed

lemma getImplicitSplit_again: "checkdIfImplicit (part_back p) \<Longrightarrow> getImplicitSplit cfg p = (implicitSplit (part_back p), p)"
  by (simp add: getImplicitSplit_def)

lemma canSplit_this_quad: "canSplit_this cfg p CU_QUAD_SPLIT = Some (canQt (fst (canSplit cfg p)), snd (getImplicitSplit cfg p))"
  by (simp add: canSplit_this_def Let_def is_sbt_def case_prod_beta canSplit_state)

lemma split_level_fields:
  assumes "split_level cfg p split = Some level"
  shows "pl_split level = split" "pl_idx level = 0" "checkdIfImplicit level = False" "is_mtt split \<or> is_tu split \<or> split = CU_QUAD_SPLIT"
    "is_tri split \<Longrightarrow> length (pl_parts level) = 3"
  using assms
  by (auto simp: split_level_def PartLevel_new_def is_mtt_def is_tu_def is_tri_def getCUSubPartitions_def checked_def
      split: if_splits bind_splits)

lemma splitCurrArea_fields:
  assumes "getImplicitSplit cfg p = (i, p1)" and "checkdIfImplicit (part_back p1)" and "splitCurrArea cfg split p = Some q"
  shows "\<exists>level level'. split_level cfg p1 split = Some level \<and> m_partStack q = level' # m_partStack p1
     \<and> pl_split level' = pl_split level \<and> pl_parts level' = pl_parts level \<and> pl_idx level' = pl_idx level \<and> checkdIfImplicit level' = checkdIfImplicit level
     \<and> currDepth q = currDepth p1 + 1 \<and> currTrDepth q = (if is_tu split then currTrDepth p1 + 1 else 0)
     \<and> currQtDepth q = currQtDepth p1 + of_bool (split = CU_QUAD_SPLIT)
     \<and> (split = CU_QUAD_SPLIT \<longrightarrow> currBtDepth p1 = 0 \<and> currMtDepth p1 = 0)
     \<and> currMtDepth q = currMtDepth p1 + of_bool (is_mtt split)
     \<and> currBtDepth q = currBtDepth p1 + of_bool (is_mtt split) + of_bool (is_tri split)
     \<and> currSubdiv q = currSubdiv p1 + 1 + of_bool (is_tri split) + of_bool (split = CU_QUAD_SPLIT)
     \<and> currImplicitBtDepth q = currImplicitBtDepth p1 + of_bool (is_mtt split \<and> split = i)"
proof -
  have again: "snd (getImplicitSplit cfg p1) = p1" using getImplicitSplit_again [OF assms(2)] by simp
  obtain level where level: "split_level cfg p1 split = Some level"
    using assms(3) by (auto simp: splitCurrArea_def Let_def assms(1) canSplit_this_quad again split: bind_splits)
  have quad: "\<not> is_mtt CU_QUAD_SPLIT" "\<not> is_tri CU_QUAD_SPLIT" "\<not> is_tu CU_QUAD_SPLIT" by (simp_all add: is_mtt_def is_tri_def is_tu_def is_sbt_def)
  have tu: "split = TU_MAX_TR_SPLIT \<or> is_sbt split \<longleftrightarrow> is_tu split" by (simp add: is_tu_def)
  consider (mtt) "is_mtt split" | (quad) "split = CU_QUAD_SPLIT" | (tu) "is_tu split" "\<not> is_mtt split" "split \<noteq> CU_QUAD_SPLIT"
    using split_level_fields(4) [OF level] by blast
  then show ?thesis
  proof cases
    case mtt
    then have "\<not> is_tu split" "split \<noteq> CU_QUAD_SPLIT" using mtt_kinds by blast+
    with mtt assms(3) level show ?thesis
      by (cases "is_tri split") (auto simp: splitCurrArea_def Let_def assms(1) canSplit_this_quad again tu upd_back_def)
  next
    case quad
    with assms(3) level show ?thesis
      by (auto simp: splitCurrArea_def Let_def assms(1) canSplit_this_quad again tu upd_back_def \<open>\<not> is_mtt CU_QUAD_SPLIT\<close>
          \<open>\<not> is_tri CU_QUAD_SPLIT\<close> \<open>\<not> is_tu CU_QUAD_SPLIT\<close> is_sbt_def split: if_splits)
  next
    case tu
    moreover have "\<not> is_tri split" using tu(2) mtt_kinds(2) by blast
    ultimately show ?thesis using assms(3) level
      by (auto simp: splitCurrArea_def Let_def assms(1) canSplit_this_quad again \<open>split = TU_MAX_TR_SPLIT \<or> is_sbt split \<longleftrightarrow> is_tu split\<close> upd_back_def)
  qed
qed

text \<open>A multi-type split under an implicit split is that split.\<close>

lemma implicit_allowed:
  assumes "canSplit_this cfg p split = Some (True, r)" and "is_mtt split" and "getImplicitSplit cfg p = (i, q)"
  shows "i \<noteq> CU_DONT_SPLIT \<Longrightarrow> split = i"
  using assms by (auto simp: canSplit_this_def canSplit_def Let_def is_mtt_def is_sbt_def split: if_splits prod.splits)

lemma quad_allowed:
  assumes "canSplit_this cfg p CU_QUAD_SPLIT = Some (True, r)" and "getImplicitSplit cfg p = (i, q)"
  shows "pl_split (part_back q) = CTU_LEVEL \<or> pl_split (part_back q) = CU_QUAD_SPLIT"
proof -
  have "canQt (fst (canSplit cfg p))" using assms(1) canSplit_this_quad [of cfg p] by simp
  then show ?thesis by (auto simp: canSplit_def Let_def assms(2) can_mtt_def split: if_splits)
qed

lemma splitCurrArea_inv:
  assumes "part_inv p" and allowed: "canSplit_this cfg p split = Some (True, r)" and split: "splitCurrArea cfg split p = Some q"
    and tr: "is_mtt split \<or> split = CU_QUAD_SPLIT \<longrightarrow> currTrDepth p = 0" and idx: "pl_idx (part_back p) < length (pl_parts (part_back p))"
  shows "part_inv q \<and> tl (m_partStack q) = m_partStack (snd (getImplicitSplit cfg p)) \<and> 0 < currDepth q"
proof -
  obtain i p1 where ip: "getImplicitSplit cfg p = (i, p1)" by fastforce
  note b = getImplicitSplit_back [OF assms(1) ip]
  obtain m ms where m: "m_partStack p1 = m # ms" using b(5) by blast
  from splitCurrArea_fields [OF ip b(2) split] obtain level l where l: "split_level cfg p1 split = Some level" "m_partStack q = l # m # ms"
     "pl_split l = pl_split level" "pl_parts l = pl_parts level" "pl_idx l = pl_idx level" "checkdIfImplicit l = checkdIfImplicit level"
     and q: "currDepth q = currDepth p1 + 1" "currTrDepth q = (if is_tu split then currTrDepth p1 + 1 else 0)"
     "currQtDepth q = currQtDepth p1 + of_bool (split = CU_QUAD_SPLIT)"
     "currMtDepth q = currMtDepth p1 + of_bool (is_mtt split)"
     "currBtDepth q = currBtDepth p1 + of_bool (is_mtt split) + of_bool (is_tri split)"
     "currSubdiv q = currSubdiv p1 + 1 + of_bool (is_tri split) + of_bool (split = CU_QUAD_SPLIT)"
     "currImplicitBtDepth q = currImplicitBtDepth p1 + of_bool (is_mtt split \<and> split = i)" unfolding m by blast
  note lf = split_level_fields [OF l(1)]
  have inv: "stack_ok (m # ms)" "\<forall>l \<in> set (m # ms). checkdIfImplicit l \<longrightarrow> isImplicit l = (implicitSplit l \<noteq> CU_DONT_SPLIT)"
    "currDepth p1 = length ms" "currQtDepth p1 = length (filter (\<lambda>l. pl_split l = CU_QUAD_SPLIT) (m # ms))"
    "currTrDepth p1 = length (filter (\<lambda>l. is_tu (pl_split l)) (m # ms))"
    "currMtDepth p1 = length (filter (\<lambda>l. is_mtt (pl_split l)) (m # ms))"
    "currBtDepth p1 = sum_list (map bt_weight (m # ms))" "currSubdiv p1 = sum_list (map subdiv_weight (m # ms))"
    "currImplicitBtDepth p1 = implicit_count (m # ms)"
    using b(1) by (auto simp: part_inv_def Let_def m)
  have m': "checkdIfImplicit m" "isImplicit m = (i \<noteq> CU_DONT_SPLIT)" "pl_idx m < length (pl_parts m)"
    "pl_split m = pl_split (part_back p1)" using b idx by (simp_all add: m)
  have same: "currTrDepth p1 = currTrDepth p" by (subst b(9)) simp
  have tr0: "filter (\<lambda>l. is_tu (pl_split l)) (m # ms) = []" if "is_mtt split \<or> split = CU_QUAD_SPLIT"
    using tr that same inv(5) by simp
  have rank: "split_rank (pl_split m) \<le> split_rank split"
  proof -
    have "split_rank (pl_split m) < 4" using inv(1) by (cases ms) (auto simp: split_rank_def)
    moreover have "split = CU_QUAD_SPLIT \<Longrightarrow> pl_split m = CTU_LEVEL \<or> pl_split m = CU_QUAD_SPLIT"
      using quad_allowed [of cfg p r i p1] allowed ip m'(4) by auto
    moreover have "is_mtt split \<Longrightarrow> \<not> is_tu (pl_split m)" using tr0 by (auto split: if_splits)
    ultimately show ?thesis using lf(4) mtt_kinds by (auto simp: split_rank_def split: if_splits)
  qed
  have imp: "of_bool (is_mtt split \<and> split = i) = (of_bool (is_mtt split \<and> isImplicit m) :: nat)"
    using implicit_allowed [OF allowed _ ip] m'(2) by (auto simp: is_mtt_def)
  have w: "bt_weight l = of_bool (is_mtt split) + of_bool (is_tri split)"
    "subdiv_weight l = 1 + of_bool (is_tri split) + of_bool (split = CU_QUAD_SPLIT)"
    using lf mtt_kinds l(3,5) by (auto simp: bt_weight_def subdiv_weight_def)
  have "0 < split_rank split" "split_rank split < 4"
    using lf(4) mtt_kinds by (auto simp: split_rank_def)
  then have ok: "stack_ok (l # m # ms)" using inv(1) rank m' lf l(3-6) by simp
  have trd: "currTrDepth q = length (filter (\<lambda>l. is_tu (pl_split l)) (l # m # ms))"
  proof (cases "is_tu split")
    case True
    then show ?thesis using q(2) inv(5) lf(1) l(3) by simp
  next
    case False
    then show ?thesis using q(2) tr0 lf(1,4) l(3) by auto
  qed
  have "part_inv q"
    using ok inv lf l(3-6) w imp trd by (simp add: part_inv_def l(2) q)
  then show ?thesis using l(2) m ip q(1) by simp
qed

lemma part_step_inv: "part_step cfg p q \<Longrightarrow> part_inv p \<Longrightarrow> part_inv q"
proof (induction rule: part_step.induct)
  case (step_split p split r q)
  then show ?case using splitCurrArea_inv by blast
next
  case (step_check p c q)
  then have "q = snd (getImplicitSplit cfg p)" using canSplit_state [of cfg p] by simp
  then show ?case using getImplicitSplit_back(1) [OF step_check(2), of cfg "fst (getImplicitSplit cfg p)"] by simp
next
  case (step_next p f going q)
  then show ?case using nextPart_inv by blast
next
  case (step_exit p q)
  then show ?case using exitCurrSplit_inv [of p] by auto
next
  case (step_type p ch tt mt)
  then show ?case by (simp add: part_inv_def)
qed

lemma part_reach_inv: "part_reach cfg p \<Longrightarrow> part_inv p"
  by (induction rule: part_reach.induct) (auto simp: part_inv_init intro: part_step_inv)

text \<open>\<open>n\<close> calls of \<^verbatim>\<open>nextPart\<close> in a row; \<open>fs\<close> are the values of \<^verbatim>\<open>getSplitAtDepth\<close> they see.\<close>

fun next_parts :: "PartSplit list \<Rightarrow> Partitioner \<Rightarrow> Partitioner option" where
  "next_parts [] p = Some p"
| "next_parts (f # fs) p = (if pl_idx (part_back p) < length (pl_parts (part_back p)) then next_parts fs (snd (nextPart f p)) else None)"

lemma next_parts_inv: "part_inv p \<Longrightarrow> 0 < currDepth p \<Longrightarrow> next_parts fs p = Some q
    \<Longrightarrow> part_inv q \<and> 0 < currDepth q \<and> tl (m_partStack q) = tl (m_partStack p)"
proof (induction fs arbitrary: p)
  case (Cons f fs)
  then have "pl_idx (part_back p) < length (pl_parts (part_back p))" and n: "next_parts fs (snd (nextPart f p)) = Some q" by (auto split: if_splits)
  with nextPart_inv [OF Cons.prems(1,2), of f "fst (nextPart f p)" "snd (nextPart f p)"]
  have i: "part_inv (snd (nextPart f p))" "tl (m_partStack (snd (nextPart f p))) = tl (m_partStack p)" by auto
  moreover have "0 < currDepth (snd (nextPart f p))" using Cons.prems(2) by (simp add: nextPart_def Let_def upd_back_def)
  ultimately show ?case using Cons.IH [OF _ _ n] by simp
qed simp

text \<open>The counters, as the code reads them.\<close>

definition part_counters :: "Partitioner \<Rightarrow> nat list" where
  "part_counters p = [currDepth p, currQtDepth p, currTrDepth p, currBtDepth p, currMtDepth p, currSubdiv p, currImplicitBtDepth p]"

lemma counters_of_stack: "part_inv p \<Longrightarrow> part_inv q \<Longrightarrow> m_partStack p = m_partStack q \<Longrightarrow> part_counters p = part_counters q"
  by (auto simp: part_counters_def part_inv_def Let_def)

text \<open>C25: in every state that a coding tree can bring the partitioner into, the counters are what they stand for: the numbers of
  quad, multi-type and transform levels on the stack, the depth in halvings (the outer parts of a ternary split count
  twice, the inner one once), the number of subdivisions and of implicit splits; quad splits are never below
  multi-type splits, and all part indices are valid.\<close>

theorem partitioner_invariant:
  assumes "part_reach cfg p"
  shows "part_inv p"
  using assms by (rule part_reach_inv)

text \<open>C26: whatever happened inside a split, including further splits, leaving it never fails one of the checks of
  \<^verbatim>\<open>exitCurrSplit\<close>, and brings back the area and all the counters of the node that was split.\<close>

theorem partitioner_returns:
  assumes "part_reach cfg p" and "part_reach cfg q" and "tl (m_partStack q) = m_partStack p"
  shows "\<exists>r. exitCurrSplit q = Some r \<and> part_counters r = part_counters p \<and> currArea r = currArea p"
proof -
  have p: "part_inv p" and q: "part_inv q" using assms part_reach_inv by auto
  obtain l ms where "m_partStack p = l # ms" using part_inv_stack [OF p] by blast
  then have "0 < currDepth q" using q assms(3) by (cases "m_partStack q") (auto simp: part_inv_def Let_def)
  from exitCurrSplit_inv [OF q this] obtain r where r: "exitCurrSplit q = Some r" "m_partStack r = m_partStack p" "part_inv r"
    using assms(3) by auto
  then have "part_counters r = part_counters p" "currArea r = currArea p"
    using counters_of_stack [OF r(3) p] by (simp_all add: currArea_def)
  with r(1) show ?thesis by blast
qed

definition example_start :: Partitioner where
  "example_start = snd (getImplicitSplit example_cfg (initCtu example_area CHANNEL_TYPE_LUMA))"

definition example_inside :: Partitioner where
  "example_inside = the (splitCurrArea example_cfg CU_QUAD_SPLIT example_start)"

lemmas example_eval = example_start_def example_cfg_def example_area_def initCtu_def getImplicitSplit_def implicit_split_def currArea_def
  PartLevel_new_def CompArea_contains_def upd_back_def Let_def part_consts

lemma example_reach: "part_reach example_cfg example_start"
proof (rule reach_step [OF reach_init])
  show "part_step example_cfg (initCtu example_area CHANNEL_TYPE_LUMA) example_start"
    by (rule step_check [of _ _ "fst (canSplit example_cfg (initCtu example_area CHANNEL_TYPE_LUMA))"])
      (simp add: example_start_def canSplit_state [symmetric])
qed

lemma example_split: "\<exists>q. splitCurrArea example_cfg CU_QUAD_SPLIT example_start = Some q \<and> tl (m_partStack q) = m_partStack example_start"
  by (simp add: splitCurrArea_def canSplit_this_quad example_eval split_level_def getCUSubPartitions_def checked_def quad_blk_def upt_small is_mtt_def is_sbt_def)

lemma example_inside: "splitCurrArea example_cfg CU_QUAD_SPLIT example_start = Some example_inside" "tl (m_partStack example_inside) = m_partStack example_start"
  using example_split by (auto simp: example_inside_def)

lemma example_inside_reach: "part_reach example_cfg example_inside"
proof (rule reach_step [OF example_reach step_split])
  show "canSplit_this example_cfg example_start CU_QUAD_SPLIT = Some (True, snd (getImplicitSplit example_cfg example_start))"
    unfolding canSplit_this_quad by (simp add: canSplit_def can_mtt_def example_eval)
  show "splitCurrArea example_cfg CU_QUAD_SPLIT example_start = Some example_inside" by (rule example_inside)
qed (simp_all add: example_eval)

theorem partitioner_invariant_witness: "part_inv example_inside"
  using partitioner_invariant [OF example_inside_reach] .

theorem partitioner_returns_witness:
  "\<exists>r. exitCurrSplit example_inside = Some r \<and> part_counters r = part_counters example_start \<and> currArea r = currArea example_start"
  using partitioner_returns [OF example_reach example_inside_reach example_inside(2)] .

end
