(* ===== verification/SplitSyntax.thy ===== *)
theory SplitSyntax
  imports PartitionTree
begin

section \<open>The split decisions of the coding tree\<close>

text \<open>
  The syntax of one node of the coding tree: the split mode (\<^verbatim>\<open>split_cu_mode\<close>) and the restriction of the
  prediction modes below it (\<^verbatim>\<open>mode_constraint\<close>), in \<^verbatim>\<open>CABACWriter.cpp\<close> and \<^verbatim>\<open>CABACReader.cpp\<close>, with the
  contexts of \<^verbatim>\<open>ContextModelling.cpp\<close>.  The coding units to the left of and above the node that
  \<^verbatim>\<open>getCURestricted\<close> finds are arguments; which splits are allowed comes from \<^verbatim>\<open>canSplit\<close> of
  \<open>PartitionTree\<close>, so that writer and parser are run at the same partitioner.
\<close>

datatype PredMode = MODE_INTER | MODE_INTRA | MODE_IBC | MODE_PLT | NUMBER_OF_PREDICTION_MODES

datatype ChromaFormat = CHROMA_400 | CHROMA_420 | CHROMA_422 | CHROMA_444

definition getChannelTypeScaleX :: "ChannelType \<Rightarrow> ChromaFormat \<Rightarrow> nat" where
  "getChannelTypeScaleX chType fmt = (if chType = CHANNEL_TYPE_LUMA \<or> fmt = CHROMA_444 then 0 else 1)"

definition getChannelTypeScaleY :: "ChannelType \<Rightarrow> ChromaFormat \<Rightarrow> nat" where
  "getChannelTypeScaleY chType fmt = (if chType = CHANNEL_TYPE_LUMA \<or> fmt \<noteq> CHROMA_420 then 0 else 1)"

datatype LdtModeType = LDT_MODE_TYPE_INHERIT | LDT_MODE_TYPE_INFER | LDT_MODE_TYPE_SIGNAL

text \<open>What the contexts read of a neighbouring coding unit: the size of its block in the channel type of the
  node, its quadtree depth and prediction mode.\<close>

record SplitNb =
  nb_width :: nat
  nb_height :: nat
  nb_qtDepth :: nat
  nb_predMode :: PredMode

record SplitCtx =
  ctxSpl :: nat
  ctxQt :: nat
  ctxHv :: nat
  ctxHorBt :: nat
  ctxVerBt :: nat

record SplitEnv =
  se_cfg :: PartCfg
  cuLeft :: "SplitNb option"
  cuAbove :: "SplitNb option"
  se_isIntra :: bool
  se_chromaFormat :: ChromaFormat

definition chType_idx :: "ChannelType \<Rightarrow> nat" where
  "chType_idx chType = (case chType of CHANNEL_TYPE_LUMA \<Rightarrow> 0 | CHANNEL_TYPE_CHROMA \<Rightarrow> 1)"

definition nb_test :: "(SplitNb \<Rightarrow> bool) \<Rightarrow> SplitNb option \<Rightarrow> bool" where
  "nb_test P nb = (case nb of None \<Rightarrow> False | Some c \<Rightarrow> P c)"

definition CtxSplit :: "SplitEnv \<Rightarrow> Partitioner \<Rightarrow> CanSplit \<Rightarrow> SplitCtx" where
  "CtxSplit e p c =
     (let area = currArea p ! chType_idx (pt_chType p);
          ctxSpl' = of_bool (nb_test (\<lambda>l. nb_height l < ca_height area) (cuLeft e))
            + of_bool (nb_test (\<lambda>a. nb_width a < ca_width area) (cuAbove e));
          numSplit = (if canQt c then 2 else 0) + of_bool (canBh c) + of_bool (canBv c) + of_bool (canTh c) + of_bool (canTv c);
          numSplit = (if numSplit > 0 then numSplit - 1 else numSplit);
          numHor = of_bool (canBh c) + of_bool (canTh c); numVer = (of_bool (canBv c) + of_bool (canTv c) :: nat);
          wAbove = (case cuAbove e of None \<Rightarrow> 1 | Some a \<Rightarrow> nb_width a);
          hLeft = (case cuLeft e of None \<Rightarrow> 1 | Some l \<Rightarrow> nb_height l);
          depAbove = ca_width area div wAbove; depLeft = ca_height area div hLeft
      in \<lparr>ctxSpl = ctxSpl' + 3 * (numSplit div 2),
          ctxQt = of_bool (nb_test (\<lambda>l. nb_qtDepth l > currQtDepth p) (cuLeft e))
            + of_bool (nb_test (\<lambda>a. nb_qtDepth a > currQtDepth p) (cuAbove e)) + (if currQtDepth p < 2 then 0 else 3),
          ctxHv = (if numVer = numHor then
              if depAbove = depLeft \<or> cuLeft e = None \<or> cuAbove e = None then 0 else if depAbove < depLeft then 1 else 2
            else if numVer < numHor then 3 else 4),
          ctxHorBt = (if currMtDepth p \<le> 1 then 1 else 0),
          ctxVerBt = (if currMtDepth p \<le> 1 then 3 else 2)\<rparr>)"

text \<open>The neighbours of \<open>e\<close> are those in the channel of the partitioner.  The function asserts that this is luma, which
  holds wherever the flag is coded (a chroma node has a constrained mode type, which it passes on); the context does
  not depend on it and the assertion is not repeated.\<close>

definition CtxModeConsFlag :: "SplitEnv \<Rightarrow> nat" where
  "CtxModeConsFlag e =
     (if nb_test (\<lambda>a. nb_predMode a = MODE_INTRA) (cuAbove e) \<or> nb_test (\<lambda>l. nb_predMode l = MODE_INTRA) (cuLeft e) then 1 else 0)"

subsection \<open>The split mode\<close>

definition w_split_bins :: "'s BinEncIf \<Rightarrow> CanSplit \<Rightarrow> SplitCtx \<Rightarrow> PartSplit \<Rightarrow> 's \<Rightarrow> 's option" where
  "w_split_bins E c x split s =
     (let canSplit = (canBh c \<or> canBv c \<or> canTh c \<or> canTv c \<or> canQt c); isNo = (split = CU_DONT_SPLIT);
          canBtt = (canBh c \<or> canBv c \<or> canTh c \<or> canTv c); isQt = (split = CU_QUAD_SPLIT);
          canHor = (canBh c \<or> canTh c); canVer = (canBv c \<or> canTv c);
          isVer = (split = CU_VERT_SPLIT \<or> split = CU_TRIV_SPLIT);
          can14 = (if isVer then canTv c else canTh c); can12 = (if isVer then canBv c else canBh c);
          is12 = (if isVer then split = CU_VERT_SPLIT else split = CU_HORZ_SPLIT)
      in do {
        s \<leftarrow> (if canNo c \<and> canSplit then w_bin E (of_bool (\<not> isNo)) Ctx_SplitFlag (ctxSpl x) s else Some s);
        if isNo then Some s else do {
          s \<leftarrow> (if canQt c \<and> canBtt then w_bin E (of_bool isQt) Ctx_SplitQtFlag (ctxQt x) s else Some s);
          if isQt then Some s else do {
            s \<leftarrow> (if canVer \<and> canHor then w_bin E (of_bool isVer) Ctx_SplitHvFlag (ctxHv x) s else Some s);
            if can12 \<and> can14 then w_bin E (of_bool is12) Ctx_Split12Flag (if isVer then ctxVerBt x else ctxHorBt x) s
            else Some s } } })"

definition w_split_cu_mode :: "'s BinEncIf \<Rightarrow> SplitEnv \<Rightarrow> Partitioner \<Rightarrow> PartSplit \<Rightarrow> 's \<Rightarrow> (Partitioner \<times> 's) option" where
  "w_split_cu_mode E e p split s =
     (let (c, p) = canSplit (se_cfg e) p in do { s \<leftarrow> w_split_bins E c (CtxSplit e p c) split s; Some (p, s) })"

definition r_split_bins :: "'s BinDecIf \<Rightarrow> CanSplit \<Rightarrow> SplitCtx \<Rightarrow> 's \<Rightarrow> (PartSplit \<times> 's) option" where
  "r_split_bins D c x s =
     (let isSplit = (canBh c \<or> canBv c \<or> canTh c \<or> canTv c \<or> canQt c);
          canBtt = (canBh c \<or> canBv c \<or> canTh c \<or> canTv c); canHor = (canBh c \<or> canTh c)
      in do {
        (isSplit, s) \<leftarrow> (if canNo c \<and> isSplit then do { (b, s) \<leftarrow> r_bin D Ctx_SplitFlag (ctxSpl x) s; Some (b \<noteq> 0, s) }
          else Some (isSplit, s));
        if \<not> isSplit then Some (CU_DONT_SPLIT, s) else do {
          (isQt, s) \<leftarrow> (if canQt c \<and> canBtt then do { (b, s) \<leftarrow> r_bin D Ctx_SplitQtFlag (ctxQt x) s; Some (b \<noteq> 0, s) }
            else Some (canQt c, s));
          if isQt then Some (CU_QUAD_SPLIT, s) else do {
            (isVer, s) \<leftarrow> (if (canBv c \<or> canTv c) \<and> canHor then do { (b, s) \<leftarrow> r_bin D Ctx_SplitHvFlag (ctxHv x) s; Some (b \<noteq> 0, s) }
              else Some (canBv c \<or> canTv c, s));
            (is12, s) \<leftarrow> (if (if isVer then canBv c else canBh c) \<and> (if isVer then canTv c else canTh c)
              then do { (b, s) \<leftarrow> r_bin D Ctx_Split12Flag (if isVer then ctxVerBt x else ctxHorBt x) s; Some (b \<noteq> 0, s) }
              else Some (if isVer then canBv c else canBh c, s));
            Some (if isVer \<and> is12 then CU_VERT_SPLIT else if isVer \<and> \<not> is12 then CU_TRIV_SPLIT
              else if \<not> isVer \<and> is12 then CU_HORZ_SPLIT else CU_TRIH_SPLIT, s) } } })"

definition r_split_cu_mode :: "'s BinDecIf \<Rightarrow> SplitEnv \<Rightarrow> Partitioner \<Rightarrow> 's \<Rightarrow> ((PartSplit \<times> Partitioner) \<times> 's) option" where
  "r_split_cu_mode D e p s =
     (let (c, p) = canSplit (se_cfg e) p in do { (split, s) \<leftarrow> r_split_bins D c (CtxSplit e p c) s; Some ((split, p), s) })"

subsection \<open>The restriction of the prediction modes\<close>

definition signalModeCons :: "SplitEnv \<Rightarrow> PartSplit \<Rightarrow> Partitioner \<Rightarrow> ModeType \<Rightarrow> LdtModeType" where
  "signalModeCons e split p modeTypeParent =
     (if isDualITree (se_cfg e) \<or> modeTypeParent \<noteq> MODE_TYPE_ALL \<or> se_chromaFormat e = CHROMA_444 \<or> se_chromaFormat e = CHROMA_400
      then LDT_MODE_TYPE_INHERIT
      else
        let luma = currArea p ! 0; chroma = currArea p ! 1; minLumaArea = ca_width luma * ca_height luma;
            minLumaArea = (if split = CU_QUAD_SPLIT \<or> split = CU_TRIH_SPLIT \<or> split = CU_TRIV_SPLIT then minLumaArea div 4
              else if split = CU_VERT_SPLIT \<or> split = CU_HORZ_SPLIT then minLumaArea div 2 else minLumaArea);
            minChromaBlock = minLumaArea div 2 ^ (getChannelTypeScaleX CHANNEL_TYPE_CHROMA (se_chromaFormat e)
              + getChannelTypeScaleY CHANNEL_TYPE_CHROMA (se_chromaFormat e));
            is2xNChroma = (ca_width chroma = 4 \<and> split = CU_VERT_SPLIT \<or> ca_width chroma = 8 \<and> split = CU_TRIV_SPLIT)
        in if minChromaBlock \<ge> 16 \<and> \<not> is2xNChroma then LDT_MODE_TYPE_INHERIT
           else if minLumaArea < 32 \<or> se_isIntra e then LDT_MODE_TYPE_INFER else LDT_MODE_TYPE_SIGNAL)"

definition w_mode_constraint :: "'s BinEncIf \<Rightarrow> SplitEnv \<Rightarrow> Partitioner \<Rightarrow> PartSplit \<Rightarrow> ModeType \<Rightarrow> 's \<Rightarrow> 's option" where
  "w_mode_constraint E e p split modeType s =
     (if split = CU_DONT_SPLIT then None
      else case signalModeCons e split p (pt_modeType p) of
        LDT_MODE_TYPE_SIGNAL \<Rightarrow> if modeType = MODE_TYPE_ALL then None
          else w_bin E (of_bool (modeType = MODE_TYPE_INTRA)) Ctx_ModeConsFlag (CtxModeConsFlag e) s
      | LDT_MODE_TYPE_INFER \<Rightarrow> if modeType = MODE_TYPE_INTRA then Some s else None
      | LDT_MODE_TYPE_INHERIT \<Rightarrow> if modeType = pt_modeType p then Some s else None)"

definition r_mode_constraint :: "'s BinDecIf \<Rightarrow> SplitEnv \<Rightarrow> Partitioner \<Rightarrow> PartSplit \<Rightarrow> 's \<Rightarrow> (ModeType \<times> 's) option" where
  "r_mode_constraint D e p split s =
     (case signalModeCons e split p (pt_modeType p) of
        LDT_MODE_TYPE_SIGNAL \<Rightarrow> do {
          (flag, s) \<leftarrow> r_bin D Ctx_ModeConsFlag (CtxModeConsFlag e) s;
          Some (if flag \<noteq> 0 then MODE_TYPE_INTRA else MODE_TYPE_INTER, s) }
      | LDT_MODE_TYPE_INFER \<Rightarrow> Some (MODE_TYPE_INTRA, s)
      | LDT_MODE_TYPE_INHERIT \<Rightarrow> Some (pt_modeType p, s))"

subsection \<open>A node of the coding tree\<close>

text \<open>Up to the descent into the parts: a node of a dual tree that is walked together with its chroma
  partitioner (\<open>joint\<close>) has no mode constraint.  A node that is not split keeps the mode type.\<close>

definition joint_node :: "SplitEnv \<Rightarrow> bool \<Rightarrow> Partitioner \<Rightarrow> bool" where
  "joint_node e joint p = (isDualITree (se_cfg e) \<and> joint \<and> (ca_width (currArea p ! 0) \<ge> 64 \<or> ca_height (currArea p ! 0) \<ge> 64))"

definition w_tree_node :: "'s BinEncIf \<Rightarrow> SplitEnv \<Rightarrow> bool \<Rightarrow> Partitioner \<Rightarrow> PartSplit \<Rightarrow> ModeType \<Rightarrow> 's \<Rightarrow> 's option" where
  "w_tree_node E e joint p split modeType s = do {
     (p, s) \<leftarrow> w_split_cu_mode E e p split s;
     (allowed, p) \<leftarrow> canSplit_this (se_cfg e) p split;
     if \<not> allowed then None
     else if split \<noteq> CU_DONT_SPLIT \<and> \<not> joint_node e joint p then w_mode_constraint E e p split modeType s
     else Some s }"

definition r_tree_node :: "'s BinDecIf \<Rightarrow> SplitEnv \<Rightarrow> bool \<Rightarrow> Partitioner \<Rightarrow> 's \<Rightarrow> ((PartSplit \<times> ModeType) \<times> 's) option" where
  "r_tree_node D e joint p s = do {
     ((split, p), s) \<leftarrow> r_split_cu_mode D e p s;
     (allowed, p) \<leftarrow> canSplit_this (se_cfg e) p split;
     if \<not> allowed then None
     else if split \<noteq> CU_DONT_SPLIT \<and> \<not> joint_node e joint p
     then do { (modeType, s) \<leftarrow> r_mode_constraint D e p split s; Some ((split, modeType), s) }
     else Some ((split, pt_modeType p), s) }"

subsection \<open>Writer and parser agree\<close>

definition allows :: "CanSplit \<Rightarrow> PartSplit \<Rightarrow> bool" where
  "allows c split \<longleftrightarrow> (case split of CU_DONT_SPLIT \<Rightarrow> canNo c | CU_QUAD_SPLIT \<Rightarrow> canQt c | CU_HORZ_SPLIT \<Rightarrow> canBh c
     | CU_VERT_SPLIT \<Rightarrow> canBv c | CU_TRIH_SPLIT \<Rightarrow> canTh c | CU_TRIV_SPLIT \<Rightarrow> canTv c | _ \<Rightarrow> False)"

definition mode_cons_ok :: "SplitEnv \<Rightarrow> Partitioner \<Rightarrow> PartSplit \<Rightarrow> ModeType \<Rightarrow> bool" where
  "mode_cons_ok e p split modeType \<longleftrightarrow> (case signalModeCons e split p (pt_modeType p) of
     LDT_MODE_TYPE_SIGNAL \<Rightarrow> modeType \<noteq> MODE_TYPE_ALL
   | LDT_MODE_TYPE_INFER \<Rightarrow> modeType = MODE_TYPE_INTRA
   | LDT_MODE_TYPE_INHERIT \<Rightarrow> modeType = pt_modeType p)"

definition node_ok :: "SplitEnv \<Rightarrow> bool \<Rightarrow> Partitioner \<Rightarrow> PartSplit \<Rightarrow> ModeType \<Rightarrow> bool" where
  "node_ok e joint p split modeType \<longleftrightarrow> allows (fst (canSplit (se_cfg e) p)) split
     \<and> (if split \<noteq> CU_DONT_SPLIT \<and> \<not> joint_node e joint p then mode_cons_ok e p split modeType else modeType = pt_modeType p)"

lemma CtxSplit_bounds:
  "ctxSpl (CtxSplit e p c) < 9" "ctxQt (CtxSplit e p c) < 6" "ctxHv (CtxSplit e p c) < 5"
  "ctxHorBt (CtxSplit e p c) < 4" "ctxVerBt (CtxSplit e p c) < 4"
  by (simp_all add: CtxSplit_def Let_def)

text \<open>\<^verbatim>\<open>canSplit\<close> only changes the cached implicit split.\<close>

lemma getImplicitSplit_fields:
  assumes "getImplicitSplit cfg p = (i, q)"
  shows "getImplicitSplit cfg q = (i, q)" "currArea q = currArea p" "pt_modeType q = pt_modeType p" "pt_chType q = pt_chType p"
  using assms by (auto simp: getImplicitSplit_def upd_back_def currArea_def Let_def split: if_splits)

lemma canSplit_again:
  assumes "canSplit cfg p = (c, q)"
  shows "canSplit cfg q = (c, q)" "currArea q = currArea p" "pt_modeType q = pt_modeType p"
proof -
  obtain i r where i: "getImplicitSplit cfg p = (i, r)" by fastforce
  then have "q = r" using assms by (simp add: canSplit_def Let_def)
  with assms i getImplicitSplit_fields [OF i] show "canSplit cfg q = (c, q)" "currArea q = currArea p" "pt_modeType q = pt_modeType p"
    by (simp_all add: canSplit_def)
qed

lemma allows_this:
  assumes "canSplit cfg p = (c, q)" and "allows c split"
  shows "canSplit_this cfg q split = Some (True, q)"
  using assms(2) canSplit_again(1) [OF assms(1)]
  by (cases split) (simp_all add: canSplit_this_def allows_def is_sbt_def Let_def)

context cabac_channel
begin

text \<open>A flag that is inferred when it is not coded.\<close>

lemma bins_flag:
  assumes "\<not> c \<Longrightarrow> d = b" and "c \<Longrightarrow> inc < Size cs" and "c \<Longrightarrow> Offset cs + Size cs \<le> 386"
  shows "bins (\<lambda>s. if c then w_bin E (of_bool b) cs inc s else Some s)
    (\<lambda>s. if c then Option.bind (r_bin D cs inc s) (\<lambda>(x, s). Some (x \<noteq> 0, s)) else Some (d, s)) b"
  using assms by (intro codec_if codec_last [OF bins_ctx] codec_Some') auto

lemma split_bins_codec:
  assumes "allows c split" and "ctxSpl x < 9" "ctxQt x < 6" "ctxHv x < 5" "ctxHorBt x < 4" "ctxVerBt x < 4"
  shows "bins (w_split_bins E c x split) (r_split_bins D c x) split"
  by (rule codec_ext [OF w_split_bins_def r_split_bins_def], unfold Let_def)
    (rule codec_bind [OF bins_flag] codec_last [OF bins_flag] codec_if codec_Some'
      | (use assms in \<open>cases split; simp add: allows_def; fail\<close>))+

lemma mode_constraint_codec:
  assumes "split \<noteq> CU_DONT_SPLIT" and "mode_cons_ok e p split modeType"
  shows "bins (w_mode_constraint E e p split modeType) (r_mode_constraint D e p split) modeType"
proof (rule codec_ext [OF w_mode_constraint_def r_mode_constraint_def])
  have inc: "CtxModeConsFlag e < 2" by (simp add: CtxModeConsFlag_def)
  note ok = assms(2) [unfolded mode_cons_ok_def]
  show "bins (\<lambda>s. if split = CU_DONT_SPLIT then None
      else case signalModeCons e split p (pt_modeType p) of
        LDT_MODE_TYPE_SIGNAL \<Rightarrow> if modeType = MODE_TYPE_ALL then None
          else w_bin E (of_bool (modeType = MODE_TYPE_INTRA)) Ctx_ModeConsFlag (CtxModeConsFlag e) s
      | LDT_MODE_TYPE_INFER \<Rightarrow> if modeType = MODE_TYPE_INTRA then Some s else None
      | LDT_MODE_TYPE_INHERIT \<Rightarrow> if modeType = pt_modeType p then Some s else None)
    (\<lambda>s. case signalModeCons e split p (pt_modeType p) of
        LDT_MODE_TYPE_SIGNAL \<Rightarrow> Option.bind (r_bin D Ctx_ModeConsFlag (CtxModeConsFlag e) s) (\<lambda>(flag, s).
          Some (if flag \<noteq> 0 then MODE_TYPE_INTRA else MODE_TYPE_INTER, s))
      | LDT_MODE_TYPE_INFER \<Rightarrow> Some (MODE_TYPE_INTRA, s)
      | LDT_MODE_TYPE_INHERIT \<Rightarrow> Some (pt_modeType p, s)) modeType"
  proof (cases "signalModeCons e split p (pt_modeType p)")
    case LDT_MODE_TYPE_SIGNAL
    have "bins (w_bin E (of_bool (modeType = MODE_TYPE_INTRA)) Ctx_ModeConsFlag (CtxModeConsFlag e))
       (\<lambda>s. Option.bind (r_bin D Ctx_ModeConsFlag (CtxModeConsFlag e) s) (\<lambda>(flag, s).
          Some (if flag \<noteq> 0 then MODE_TYPE_INTRA else MODE_TYPE_INTER, s))) modeType"
      using ok inc LDT_MODE_TYPE_SIGNAL by (intro codec_last [OF bins_ctx] codec_Some') (cases modeType; auto)+
    with assms(1) ok LDT_MODE_TYPE_SIGNAL show ?thesis by simp
  qed (use assms(1) ok in \<open>simp_all add: codec_Some\<close>)
qed

lemma tree_node_codec:
  assumes "node_ok e joint p split modeType"
  shows "bins (w_tree_node E e joint p split modeType) (r_tree_node D e joint p) (split, modeType)"
proof -
  obtain c q where q: "canSplit (se_cfg e) p = (c, q)" by fastforce
  note same = canSplit_again [OF q]
  have c: "allows c split" using assms by (simp add: node_ok_def q)
  note can = allows_this [OF q c]
  have "signalModeCons e split q = signalModeCons e split p" by (rule ext) (simp add: signalModeCons_def same)
  then have cons: "mode_cons_ok e q split modeType = mode_cons_ok e p split modeType"
    by (simp add: mode_cons_ok_def same split: LdtModeType.split)
  have joint: "joint_node e joint q = joint_node e joint p" by (simp add: joint_node_def same)
  define Q where "Q = (\<lambda>split s. do {
     (allowed, p) \<leftarrow> canSplit_this (se_cfg e) q split;
     if \<not> allowed then None
     else if split \<noteq> CU_DONT_SPLIT \<and> \<not> joint_node e joint p
     then do { (modeType, s) \<leftarrow> r_mode_constraint D e p split s; Some ((split, modeType), s) }
     else Some ((split, pt_modeType p), s) })"
  show ?thesis
  proof (rule codec_ext)
    show "w_tree_node E e joint p split modeType s = Option.bind (w_split_bins E c (CtxSplit e q c) split s) (\<lambda>s.
      if split \<noteq> CU_DONT_SPLIT \<and> \<not> joint_node e joint p then w_mode_constraint E e q split modeType s else Some s)" for s
      by (simp add: w_tree_node_def w_split_cu_mode_def q can joint Option.bind_assoc)
    show "r_tree_node D e joint p s = Option.bind (r_split_bins D c (CtxSplit e q c) s) (\<lambda>(split, s). Q split s)" for s
      by (cases "r_split_bins D c (CtxSplit e q c) s") (auto simp: r_tree_node_def r_split_cu_mode_def q Q_def)
    have "bins (\<lambda>s. if split \<noteq> CU_DONT_SPLIT \<and> \<not> joint_node e joint p then w_mode_constraint E e q split modeType s else Some s)
       (\<lambda>s. if split \<noteq> CU_DONT_SPLIT \<and> \<not> joint_node e joint p
         then Option.bind (r_mode_constraint D e q split s) (\<lambda>(modeType, s). Some ((split, modeType), s))
         else Some ((split, pt_modeType q), s)) (split, modeType)"
      using assms cons by (intro codec_if codec_last [OF mode_constraint_codec] codec_Some') (auto simp: node_ok_def same)
    then have "bins (\<lambda>s. if split \<noteq> CU_DONT_SPLIT \<and> \<not> joint_node e joint p then w_mode_constraint E e q split modeType s else Some s)
       (Q split) (split, modeType)"
      by (simp add: Q_def can joint)
    then show "bins (\<lambda>s. Option.bind (w_split_bins E c (CtxSplit e q c) split s) (\<lambda>s.
        if split \<noteq> CU_DONT_SPLIT \<and> \<not> joint_node e joint p then w_mode_constraint E e q split modeType s else Some s))
      (\<lambda>s. Option.bind (r_split_bins D c (CtxSplit e q c) s) (\<lambda>(split, s). Q split s)) (split, modeType)"
      by (rule codec_bind [OF split_bins_codec [OF c CtxSplit_bounds]])
  qed
qed

end

text \<open>C27: at any sequence of nodes of the coding tree, whatever the state of the partitioner and the neighbouring
  coding units, the parser of \<^verbatim>\<open>CABACReader.cpp\<close> returns the split mode and the mode type that the writer of
  \<^verbatim>\<open>CABACWriter.cpp\<close> coded, if the split is one that \<^verbatim>\<open>canSplit\<close> allows and the mode type is one that
  \<^verbatim>\<open>signalModeCons\<close> leaves open; neither side's checks fail, and the parser stops at the end of the code.\<close>

theorem tree_node_roundtrip:
  assumes "\<forall>((e, joint, p), (split, modeType)) \<in> set nodes. node_ok e joint p split modeType"
  shows "\<exists>Y d. encode_with (slice_contexts qp t)
       (write_list (\<lambda>((e, joint, p), (split, modeType)). w_tree_node BinEncoder_Std e joint p split modeType) nodes) = Some Y \<and> bytes_ok Y
    \<and> decode_with (slice_contexts qp t) (read_each (\<lambda>(e, joint, p). r_tree_node BinDecoder_Std e joint p) (map fst nodes)) Y
        = Some (map snd nodes, d)
    \<and> i_fifo_idx (d_bitstream d) = length (i_fifo (d_bitstream d))"
proof (rule bins_roundtrip)
  have "codec (enc_emits (slice_contexts qp t)) dec_sources
     (write_list (\<lambda>(k, v). (\<lambda>(e, joint, p) (split, modeType). w_tree_node BinEncoder_Std e joint p split modeType) k v) nodes)
     (read_each (\<lambda>(e, joint, p). r_tree_node BinDecoder_Std e joint p) (map fst nodes)) (map snd nodes)"
    by (rule codec_each) (use assms in \<open>fastforce intro: vtm.tree_node_codec\<close>)
  then show "codec (enc_emits (slice_contexts qp t)) dec_sources
     (write_list (\<lambda>((e, joint, p), (split, modeType)). w_tree_node BinEncoder_Std e joint p split modeType) nodes)
     (read_each (\<lambda>(e, joint, p). r_tree_node BinDecoder_Std e joint p) (map fst nodes)) (map snd nodes)"
    by (simp add: case_prod_beta')
qed

definition example_env :: SplitEnv where
  "example_env = \<lparr>se_cfg = example_cfg, cuLeft = Some \<lparr>nb_width = 8, nb_height = 8, nb_qtDepth = 3, nb_predMode = MODE_INTRA\<rparr>,
     cuAbove = None, se_isIntra = False, se_chromaFormat = CHROMA_420\<rparr>"

definition example_unit :: UnitArea where
  "example_unit = [\<lparr>ca_x = 16, ca_y = 8, ca_width = 8, ca_height = 8\<rparr>, \<lparr>ca_x = 8, ca_y = 4, ca_width = 4, ca_height = 4\<rparr>,
     \<lparr>ca_x = 8, ca_y = 4, ca_width = 4, ca_height = 4\<rparr>]"

abbreviation example_part :: Partitioner where
  "example_part \<equiv> initCtu example_unit CHANNEL_TYPE_LUMA"

lemma example_node_ok: "node_ok example_env False example_part CU_HORZ_SPLIT MODE_TYPE_INTER"
proof -
  have part: "part_back example_part = PartLevel_new CTU_LEVEL [example_unit]" "currArea example_part = example_unit"
    "pt_treeType example_part = TREE_D" "pt_chType example_part = CHANNEL_TYPE_LUMA" "pt_modeType example_part = MODE_TYPE_ALL"
    "currMtDepth example_part = 0" "currImplicitBtDepth example_part = 0"
    by (simp_all add: initCtu_def currArea_def PartLevel_new_def)
  have "implicit_split example_cfg example_part = CU_DONT_SPLIT"
    by (simp add: implicit_split_def part CompArea_contains_def part_consts Let_def) (simp add: example_unit_def example_cfg_def)
  then have "canBh (fst (canSplit example_cfg example_part))"
    by (simp add: canSplit_def can_mtt_def getImplicitSplit_def upd_back_def Let_def part part_consts)
      (simp add: initCtu_def currArea_def PartLevel_new_def example_unit_def example_cfg_def)
  then show ?thesis
    by (simp add: node_ok_def allows_def joint_node_def mode_cons_ok_def signalModeCons_def part example_env_def Let_def
        getChannelTypeScaleX_def getChannelTypeScaleY_def) (simp add: example_cfg_def example_unit_def)
qed

theorem tree_node_roundtrip_witness:
  "\<exists>Y d. encode_with (slice_contexts 32 B_SLICE)
       (write_list (\<lambda>((e, joint, p), (split, modeType)). w_tree_node BinEncoder_Std e joint p split modeType)
          [((example_env, False, example_part), (CU_HORZ_SPLIT, MODE_TYPE_INTER))]) = Some Y \<and> bytes_ok Y
    \<and> decode_with (slice_contexts 32 B_SLICE) (read_each (\<lambda>(e, joint, p). r_tree_node BinDecoder_Std e joint p)
          [(example_env, False, example_part)]) Y = Some ([(CU_HORZ_SPLIT, MODE_TYPE_INTER)], d)
    \<and> i_fifo_idx (d_bitstream d) = length (i_fifo (d_bitstream d))"
  using tree_node_roundtrip [where qp = 32 and t = B_SLICE
    and nodes = "[((example_env, False, example_part), (CU_HORZ_SPLIT, MODE_TYPE_INTER))]"] example_node_ok
  by (simp del: write_list.simps read_each.simps)

end
