(* ===== verification/CuSyntax.thy ===== *)
theory CuSyntax
  imports SplitSyntax
begin

section \<open>The modes of a coding unit\<close>

text \<open>
  The first part of \<^verbatim>\<open>coding_unit\<close> in \<^verbatim>\<open>CABACWriter.cpp\<close> and \<^verbatim>\<open>CABACReader.cpp\<close>: lossless flag, skip flag, prediction mode
  (inter, intra, intra block copy, palette), adaptive colour transform and block DPCM, with their contexts
  (\<^verbatim>\<open>ContextModelling.cpp\<close>).  The colour transform flag is coded here for intra units only; inter and intra block
  copy units code it in \<^verbatim>\<open>cu_residual\<close>, behind their prediction data, which is not modelled.  The parser fills in a
  coding unit that \<^verbatim>\<open>addCU\<close> takes from a cache and sets up with \<^verbatim>\<open>CodingUnit::initData\<close>.  Of the first prediction unit
  of a coding unit only the merge flag matters here; it is a field of the record.  The coding units that \<^verbatim>\<open>getCURestricted\<close> finds to the left and above are part of the
  environment, for luma and for the channel type of the unit.
\<close>

record CodingUnit =
  cu_blocks :: UnitArea
  cu_chType :: ChannelType
  cu_treeType :: TreeType
  cu_modeType :: ModeType
  cu_predMode :: PredMode
  cu_skip :: bool
  cu_mmvdSkip :: bool
  cu_affine :: bool
  cu_affineType :: nat
  cu_colorTransform :: bool
  cu_triangle :: bool
  cu_transQuantBypass :: bool
  cu_bdpcmMode :: nat
  cu_bdpcmModeChroma :: nat
  cu_imv :: nat
  cu_rootCbf :: bool
  cu_sbtInfo :: nat
  cu_mtsFlag :: nat
  cu_lfnstIdx :: nat
  cu_GBiIdx :: nat
  cu_mipFlag :: bool
  cu_smvdMode :: nat
  cu_ispMode :: nat
  firstPU_mergeFlag :: bool

definition GBI_DEFAULT :: nat where "GBI_DEFAULT = 2"

definition CodingUnit_initData :: "CodingUnit \<Rightarrow> CodingUnit" where
  "CodingUnit_initData cu = cu
     \<lparr>cu_predMode := NUMBER_OF_PREDICTION_MODES, cu_skip := False, cu_mmvdSkip := False, cu_affine := False, cu_affineType := 0,
      cu_colorTransform := False, cu_triangle := False, cu_transQuantBypass := False, cu_bdpcmMode := 0, cu_bdpcmModeChroma := 0,
      cu_rootCbf := True, cu_sbtInfo := 0, cu_mtsFlag := 0, cu_lfnstIdx := 0, cu_imv := 0, cu_GBiIdx := GBI_DEFAULT,
      cu_smvdMode := 0, cu_ispMode := 0, cu_mipFlag := False, cu_treeType := TREE_D, cu_modeType := MODE_TYPE_ALL\<rparr>"

text \<open>\<^verbatim>\<open>CodingStructure::addCU\<close> as far as the unit itself is concerned: \<open>cached\<close> is what the cache delivers, the tree
  type and the mode type are those of the coding structure.\<close>

definition CodingStructure_addCU :: "CodingUnit \<Rightarrow> UnitArea \<Rightarrow> ChannelType \<Rightarrow> TreeType \<Rightarrow> ModeType \<Rightarrow> CodingUnit" where
  "CodingStructure_addCU cached unit chType treeType modeType =
     (let cu = CodingUnit_initData (cached\<lparr>cu_blocks := unit\<rparr>)
      in cu\<lparr>cu_chType := chType, cu_treeType := treeType, cu_modeType := modeType\<rparr>)"

abbreviation lwidth :: "CodingUnit \<Rightarrow> nat" where "lwidth c \<equiv> ca_width (cu_blocks c ! 0)"
abbreviation lheight :: "CodingUnit \<Rightarrow> nat" where "lheight c \<equiv> ca_height (cu_blocks c ! 0)"

definition isConsInter :: "CodingUnit \<Rightarrow> bool" where "isConsInter c \<longleftrightarrow> cu_modeType c = MODE_TYPE_INTER"
definition isConsIntra :: "CodingUnit \<Rightarrow> bool" where "isConsIntra c \<longleftrightarrow> cu_modeType c = MODE_TYPE_INTRA"
definition isIntra :: "CodingUnit \<Rightarrow> bool" where "isIntra c \<longleftrightarrow> cu_predMode c = MODE_INTRA"
definition isInter :: "CodingUnit \<Rightarrow> bool" where "isInter c \<longleftrightarrow> cu_predMode c = MODE_INTER"
definition isIBC :: "CodingUnit \<Rightarrow> bool" where "isIBC c \<longleftrightarrow> cu_predMode c = MODE_IBC"
definition isPLT :: "CodingUnit \<Rightarrow> bool" where "isPLT c \<longleftrightarrow> cu_predMode c = MODE_PLT"

lemmas mode_tests = isIntra_def isInter_def isIBC_def isPLT_def
lemmas cu_tests = isConsInter_def isConsIntra_def mode_tests

text \<open>What the functions read of the slice, the parameter sets and the coded neighbourhood.\<close>

record CuEnv =
  ce_sliceIntra :: bool
  ce_IBCFlag :: bool
  ce_PLTMode :: bool
  ce_TransquantBypassEnabled :: bool
  ce_BDPCMEnabled :: nat
  ce_log2MaxTransformSkip :: nat
  ce_chromaFormat :: ChromaFormat
  ce_isDualITree :: bool
  ce_useColorTrans :: bool
  ce_left :: "CodingUnit option"
  ce_above :: "CodingUnit option"
  ce_left_own :: "CodingUnit option"
  ce_above_own :: "CodingUnit option"

definition isSepTree :: "CuEnv \<Rightarrow> CodingUnit \<Rightarrow> bool" where
  "isSepTree e c \<longleftrightarrow> cu_treeType c \<noteq> TREE_D \<or> ce_isDualITree e"

definition nb_is :: "(CodingUnit \<Rightarrow> bool) \<Rightarrow> CodingUnit option \<Rightarrow> bool" where
  "nb_is P nb = (case nb of None \<Rightarrow> False | Some c \<Rightarrow> P c)"

definition CtxSkipFlag :: "CuEnv \<Rightarrow> nat" where
  "CtxSkipFlag e = of_bool (nb_is cu_skip (ce_left e)) + of_bool (nb_is cu_skip (ce_above e))"

definition CtxPredModeFlag :: "CuEnv \<Rightarrow> nat" where
  "CtxPredModeFlag e = (if nb_is isIntra (ce_above e) \<or> nb_is isIntra (ce_left e) then 1 else 0)"

definition CtxIBCFlag :: "CuEnv \<Rightarrow> nat" where
  "CtxIBCFlag e = of_bool (nb_is isIBC (ce_left_own e)) + of_bool (nb_is isIBC (ce_above_own e))"

lemma Ctx_bounds: "CtxSkipFlag e < 3" "CtxPredModeFlag e < 2" "CtxIBCFlag e < 3"
  by (simp_all add: CtxSkipFlag_def CtxPredModeFlag_def CtxIBCFlag_def)

subsection \<open>Skip flag\<close>

definition w_cu_transquant_bypass_flag :: "'s BinEncIf \<Rightarrow> CodingUnit \<Rightarrow> 's \<Rightarrow> 's option" where
  "w_cu_transquant_bypass_flag E c s = w_bin E (of_bool (cu_transQuantBypass c)) Ctx_TransquantBypassFlag 0 s"

definition r_cu_transquant_bypass_flag :: "'s BinDecIf \<Rightarrow> CodingUnit \<Rightarrow> 's \<Rightarrow> (CodingUnit \<times> 's) option" where
  "r_cu_transquant_bypass_flag D c s = do { (b, s) \<leftarrow> r_bin D Ctx_TransquantBypassFlag 0 s; Some (c\<lparr>cu_transQuantBypass := b \<noteq> 0\<rparr>, s) }"

definition is4x4 :: "CodingUnit \<Rightarrow> bool" where
  "is4x4 c \<longleftrightarrow> lwidth c = 4 \<and> lheight c = 4"

definition below128 :: "CodingUnit \<Rightarrow> bool" where
  "below128 c \<longleftrightarrow> lwidth c < 128 \<and> lheight c < 128"

definition w_cu_skip_flag :: "'s BinEncIf \<Rightarrow> CuEnv \<Rightarrow> CodingUnit \<Rightarrow> 's \<Rightarrow> 's option" where
  "w_cu_skip_flag E e c s =
     (if (ce_sliceIntra e \<or> isConsIntra c) \<and> ce_IBCFlag e
      then if below128 c then w_bin E (of_bool (cu_skip c)) Ctx_SkipFlag (CtxSkipFlag e) s else Some s
      else if \<not> ce_IBCFlag e \<and> is4x4 c then Some s
      else if \<not> ce_IBCFlag e \<and> isConsIntra c then Some s
      else do {
        s \<leftarrow> w_bin E (of_bool (cu_skip c)) Ctx_SkipFlag (CtxSkipFlag e) s;
        if cu_skip c \<and> ce_IBCFlag e
        then if below128 c \<and> \<not> isConsInter c
          then if is4x4 c then Some s else w_bin E (of_bool (isIBC c)) Ctx_IBCFlag (CtxIBCFlag e) s
          else Some s
        else Some s })"

definition set_skip :: "PredMode \<Rightarrow> CodingUnit \<Rightarrow> CodingUnit" where
  "set_skip mode c = c\<lparr>cu_skip := True, cu_rootCbf := False, cu_predMode := mode, cu_mmvdSkip := False\<rparr>"

text \<open>The parser of the skip flag; \<^verbatim>\<open>regularMergeFlag\<close> of the prediction unit is not part of the result.\<close>

definition r_cu_skip_flag :: "'s BinDecIf \<Rightarrow> CuEnv \<Rightarrow> CodingUnit \<Rightarrow> 's \<Rightarrow> (CodingUnit \<times> 's) option" where
  "r_cu_skip_flag D e c s =
     (if (ce_sliceIntra e \<or> isConsIntra c) \<and> ce_IBCFlag e
      then let c = c\<lparr>cu_skip := False, cu_rootCbf := False, cu_predMode := MODE_INTRA, cu_mmvdSkip := False\<rparr> in
        if below128 c
        then do { (skip, s) \<leftarrow> r_bin D Ctx_SkipFlag (CtxSkipFlag e) s; Some (if skip \<noteq> 0 then set_skip MODE_IBC c else c, s) }
        else Some (c, s)
      else if \<not> ce_IBCFlag e \<and> is4x4 c then Some (c, s)
      else if \<not> ce_IBCFlag e \<and> isConsIntra c then Some (c, s)
      else do {
        (skip, s) \<leftarrow> r_bin D Ctx_SkipFlag (CtxSkipFlag e) s;
        if skip \<noteq> 0 \<and> ce_IBCFlag e \<and> below128 c \<and> \<not> isConsInter c \<and> is4x4 c then Some (set_skip MODE_IBC c, s)
        else do {
          (c, s) \<leftarrow> (if skip \<noteq> 0 \<and> ce_IBCFlag e then
              if below128 c \<and> \<not> isConsInter c then do {
                (ibc, s) \<leftarrow> r_bin D Ctx_IBCFlag (CtxIBCFlag e) s;
                Some (if ibc \<noteq> 0 then set_skip MODE_IBC c else c\<lparr>cu_predMode := MODE_INTER\<rparr>, s) }
              else Some (c\<lparr>cu_predMode := MODE_INTER\<rparr>, s)
            else Some (c, s));
          if skip \<noteq> 0 \<and> isInter c \<and> ce_IBCFlag e \<or> skip \<noteq> 0 \<and> \<not> ce_IBCFlag e
          then Some (c\<lparr>cu_skip := True, cu_rootCbf := False, cu_predMode := MODE_INTER\<rparr>, s)
          else Some (c, s) } })"

subsection \<open>Prediction mode\<close>

definition pltAllowed :: "CuEnv \<Rightarrow> CodingUnit \<Rightarrow> bool" where
  "pltAllowed e c \<longleftrightarrow> ce_PLTMode e \<and> lwidth c \<le> 64 \<and> lheight c \<le> 64"

definition w_plt_flag :: "'s BinEncIf \<Rightarrow> CuEnv \<Rightarrow> CodingUnit \<Rightarrow> 's \<Rightarrow> 's option" where
  "w_plt_flag E e c s = (if pltAllowed e c then w_bin E (of_bool (isPLT c)) Ctx_PLTFlag 0 s else Some s)"

definition w_pred_mode :: "'s BinEncIf \<Rightarrow> CuEnv \<Rightarrow> CodingUnit \<Rightarrow> 's \<Rightarrow> 's option" where
  "w_pred_mode E e c s =
     (if ce_IBCFlag e \<and> cu_chType c \<noteq> CHANNEL_TYPE_CHROMA then
        if isConsInter c then if isInter c then Some s else None
        else if ce_sliceIntra e \<or> is4x4 c \<or> isConsIntra c then do {
          s \<leftarrow> (if below128 c then w_bin E (of_bool (isIBC c)) Ctx_IBCFlag (CtxIBCFlag e) s else Some s);
          if \<not> isIBC c then w_plt_flag E e c s else Some s }
        else do {
          s \<leftarrow> w_bin E (of_bool (isIntra c \<or> isPLT c)) Ctx_PredMode (CtxPredModeFlag e) s;
          if isIntra c \<or> isPLT c then w_plt_flag E e c s
          else if below128 c then w_bin E (of_bool (isIBC c)) Ctx_IBCFlag (CtxIBCFlag e) s else Some s }
      else
        if isConsInter c then if isInter c then Some s else None
        else if ce_sliceIntra e \<or> is4x4 c \<or> isConsIntra c then w_plt_flag E e c s
        else do {
          s \<leftarrow> w_bin E (of_bool (isIntra c \<or> isPLT c)) Ctx_PredMode (CtxPredModeFlag e) s;
          if isIntra c \<or> isPLT c then w_plt_flag E e c s else Some s })"

definition r_plt_flag :: "'s BinDecIf \<Rightarrow> CuEnv \<Rightarrow> CodingUnit \<Rightarrow> 's \<Rightarrow> (CodingUnit \<times> 's) option" where
  "r_plt_flag D e c s =
     (if pltAllowed e c
      then do { (b, s) \<leftarrow> r_bin D Ctx_PLTFlag 0 s; Some (if b \<noteq> 0 then c\<lparr>cu_predMode := MODE_PLT\<rparr> else c, s) }
      else Some (c, s))"

definition r_ibc_flag :: "'s BinDecIf \<Rightarrow> CuEnv \<Rightarrow> CodingUnit \<Rightarrow> 's \<Rightarrow> (CodingUnit \<times> 's) option" where
  "r_ibc_flag D e c s =
     (if below128 c
      then do { (b, s) \<leftarrow> r_bin D Ctx_IBCFlag (CtxIBCFlag e) s; Some (if b \<noteq> 0 then c\<lparr>cu_predMode := MODE_IBC\<rparr> else c, s) }
      else Some (c, s))"

definition r_pred_mode :: "'s BinDecIf \<Rightarrow> CuEnv \<Rightarrow> CodingUnit \<Rightarrow> 's \<Rightarrow> (CodingUnit \<times> 's) option" where
  "r_pred_mode D e c s =
     (if ce_IBCFlag e \<and> cu_chType c \<noteq> CHANNEL_TYPE_CHROMA then
        if isConsInter c then Some (c\<lparr>cu_predMode := MODE_INTER\<rparr>, s)
        else if ce_sliceIntra e \<or> is4x4 c \<or> isConsIntra c then do {
          (c, s) \<leftarrow> r_ibc_flag D e (c\<lparr>cu_predMode := MODE_INTRA\<rparr>) s;
          if \<not> isIBC c then r_plt_flag D e c s else Some (c, s) }
        else do {
          (b, s) \<leftarrow> r_bin D Ctx_PredMode (CtxPredModeFlag e) s;
          if b \<noteq> 0 then r_plt_flag D e (c\<lparr>cu_predMode := MODE_INTRA\<rparr>) s
          else r_ibc_flag D e (c\<lparr>cu_predMode := MODE_INTER\<rparr>) s }
      else
        if isConsInter c then Some (c\<lparr>cu_predMode := MODE_INTER\<rparr>, s)
        else if ce_sliceIntra e \<or> is4x4 c \<or> isConsIntra c then r_plt_flag D e (c\<lparr>cu_predMode := MODE_INTRA\<rparr>) s
        else do {
          (b, s) \<leftarrow> r_bin D Ctx_PredMode (CtxPredModeFlag e) s;
          let c = c\<lparr>cu_predMode := if b \<noteq> 0 then MODE_INTRA else MODE_INTER\<rparr>;
          if isIntra c then r_plt_flag D e c s else Some (c, s) })"

subsection \<open>Colour transform and block DPCM\<close>

definition w_adaptive_color_transform :: "'s BinEncIf \<Rightarrow> CuEnv \<Rightarrow> CodingUnit \<Rightarrow> 's \<Rightarrow> 's option" where
  "w_adaptive_color_transform E e c s =
     (if \<not> ce_useColorTrans e then Some s
      else if isSepTree e c then if cu_colorTransform c then None else Some s
      else if isInter c \<or> isIBC c \<or> isIntra c then w_bin E (of_bool (cu_colorTransform c)) Ctx_ACTFlag 0 s
      else Some s)"

definition r_adaptive_color_transform :: "'s BinDecIf \<Rightarrow> CuEnv \<Rightarrow> CodingUnit \<Rightarrow> 's \<Rightarrow> (CodingUnit \<times> 's) option" where
  "r_adaptive_color_transform D e c s =
     (if \<not> ce_useColorTrans e then Some (c, s)
      else if isSepTree e c then Some (c, s)
      else if isInter c \<or> isIBC c \<or> isIntra c
      then do { (b, s) \<leftarrow> r_bin D Ctx_ACTFlag 0 s; Some (c\<lparr>cu_colorTransform := b \<noteq> 0\<rparr>, s) }
      else Some (c, s))"

definition BDPCM_LUMACHROMA :: nat where "BDPCM_LUMACHROMA = 2"

definition bdpcmAllowed :: "CuEnv \<Rightarrow> CodingUnit \<Rightarrow> ComponentID \<Rightarrow> bool" where
  "bdpcmAllowed e c compID \<longleftrightarrow>
     (let maxSize = 2 ^ ce_log2MaxTransformSkip e; blk = cu_blocks c ! (if compID = COMPONENT_Y then 0 else 1)
      in ce_BDPCMEnabled e \<noteq> 0 \<and> (compID = COMPONENT_Y \<or> ce_BDPCMEnabled e = BDPCM_LUMACHROMA) \<and> isIntra c
         \<and> ca_width blk \<le> maxSize \<and> ca_height blk \<le> maxSize)"

definition bdpcm_of :: "ComponentID \<Rightarrow> CodingUnit \<Rightarrow> nat" where
  "bdpcm_of compID c = (if compID = COMPONENT_Y then cu_bdpcmMode c else cu_bdpcmModeChroma c)"

definition set_bdpcm :: "ComponentID \<Rightarrow> nat \<Rightarrow> CodingUnit \<Rightarrow> CodingUnit" where
  "set_bdpcm compID mode c = (if compID = COMPONENT_Y then c\<lparr>cu_bdpcmMode := mode\<rparr> else c\<lparr>cu_bdpcmModeChroma := mode\<rparr>)"

definition w_bdpcm_mode :: "'s BinEncIf \<Rightarrow> CuEnv \<Rightarrow> CodingUnit \<Rightarrow> ComponentID \<Rightarrow> 's \<Rightarrow> 's option" where
  "w_bdpcm_mode E e c compID s =
     (if ce_BDPCMEnabled e = 0 then Some s
      else if \<not> bdpcmAllowed e c compID then Some s
      else do {
        s \<leftarrow> w_bin E (of_bool (bdpcm_of compID c > 0)) Ctx_BDPCMMode 0 s;
        if bdpcm_of compID c \<noteq> 0 then w_bin E (of_bool (bdpcm_of compID c > 1)) Ctx_BDPCMMode 1 s else Some s })"

definition r_bdpcm_mode :: "'s BinDecIf \<Rightarrow> CuEnv \<Rightarrow> CodingUnit \<Rightarrow> ComponentID \<Rightarrow> 's \<Rightarrow> (CodingUnit \<times> 's) option" where
  "r_bdpcm_mode D e c compID s =
     (if \<not> bdpcmAllowed e c compID then
        if compID = COMPONENT_Y
        then let c = c\<lparr>cu_bdpcmMode := 0\<rparr> in Some (if \<not> ce_isDualITree e then c\<lparr>cu_bdpcmModeChroma := 0\<rparr> else c, s)
        else Some (c\<lparr>cu_bdpcmModeChroma := 0\<rparr>, s)
      else do {
        (mode, s) \<leftarrow> r_bin D Ctx_BDPCMMode 0 s;
        (mode, s) \<leftarrow> (if mode \<noteq> 0 then do { (b, s) \<leftarrow> r_bin D Ctx_BDPCMMode 1 s; Some (mode + b, s) } else Some (mode, s));
        Some (set_bdpcm compID mode c, s) })"

subsection \<open>The first part of a coding unit\<close>

text \<open>\<^verbatim>\<open>ComponentID( partitioner.chType )\<close>: luma, or the first chroma component.\<close>

definition comp_of :: "ChannelType \<Rightarrow> ComponentID" where
  "comp_of chType = (if chType = CHANNEL_TYPE_LUMA then COMPONENT_Y else COMPONENT_Cb)"

definition has_skip_flag :: "CuEnv \<Rightarrow> CodingUnit \<Rightarrow> bool" where
  "has_skip_flag e c \<longleftrightarrow> (\<not> ce_sliceIntra e \<or> ce_IBCFlag e) \<and> CompArea_valid (cu_blocks c ! 0)"

text \<open>Everything up to the prediction data; a skipped unit has no mode beyond its skip flag, a palette unit no
  block DPCM.\<close>

definition w_cu_modes :: "'s BinEncIf \<Rightarrow> CuEnv \<Rightarrow> Partitioner \<Rightarrow> CodingUnit \<Rightarrow> 's \<Rightarrow> 's option" where
  "w_cu_modes E e p c s = do {
     s \<leftarrow> (if ce_TransquantBypassEnabled e then w_cu_transquant_bypass_flag E c s else Some s);
     s \<leftarrow> (if has_skip_flag e c then w_cu_skip_flag E e c s else Some s);
     if cu_skip c then if \<not> firstPU_mergeFlag c then None else if cu_colorTransform c then None else Some s
     else do {
       s \<leftarrow> w_pred_mode E e c s;
       s \<leftarrow> (if isIntra c then w_adaptive_color_transform E e c s else Some s);
       if isPLT c then if cu_colorTransform c then None else Some s
       else do {
         s \<leftarrow> w_bdpcm_mode E e c (comp_of (pt_chType p)) s;
         if \<not> ce_isDualITree e \<and> pt_chType p = CHANNEL_TYPE_LUMA then w_bdpcm_mode E e c COMPONENT_Cb s else Some s } } }"

text \<open>The parser first checks the unit against the partitioner and, before the skip flag, adds a prediction unit, whose
  merge flag is off.\<close>

definition r_cu_modes :: "'s BinDecIf \<Rightarrow> CuEnv \<Rightarrow> Partitioner \<Rightarrow> CodingUnit \<Rightarrow> 's \<Rightarrow> (CodingUnit \<times> 's) option" where
  "r_cu_modes D e p c s = (if cu_treeType c \<noteq> pt_treeType p \<or> cu_modeType c \<noteq> pt_modeType p then None else do {
     (c, s) \<leftarrow> (if ce_TransquantBypassEnabled e then r_cu_transquant_bypass_flag D c s else Some (c, s));
     (c, s) \<leftarrow> (let c = c\<lparr>firstPU_mergeFlag := False\<rparr> in if has_skip_flag e c then r_cu_skip_flag D e c s else Some (c, s));
     if cu_skip c then Some (c\<lparr>cu_colorTransform := False\<rparr>, s)
     else do {
       (c, s) \<leftarrow> r_pred_mode D e c s;
       (c, s) \<leftarrow> (if isIntra c then r_adaptive_color_transform D e c s else Some (c, s));
       if isPLT c then Some (c\<lparr>cu_colorTransform := False\<rparr>, s)
       else do {
         (c, s) \<leftarrow> r_bdpcm_mode D e c (comp_of (pt_chType p)) s;
         if \<not> ce_isDualITree e \<and> pt_chType p = CHANNEL_TYPE_LUMA then r_bdpcm_mode D e c COMPONENT_Cb s else Some (c, s) } } })"

subsection \<open>What the syntax can express\<close>

definition intra_only :: "CuEnv \<Rightarrow> CodingUnit \<Rightarrow> bool" where
  "intra_only e c \<longleftrightarrow> ce_sliceIntra e \<or> is4x4 c \<or> isConsIntra c"

definition skip_ok :: "CuEnv \<Rightarrow> CodingUnit \<Rightarrow> bool" where
  "skip_ok e c \<longleftrightarrow> (cu_skip c \<longrightarrow> has_skip_flag e c \<and>
     (if (ce_sliceIntra e \<or> isConsIntra c) \<and> ce_IBCFlag e then below128 c \<and> isIBC c
      else if \<not> ce_IBCFlag e then \<not> is4x4 c \<and> \<not> isConsIntra c \<and> isInter c
      else if below128 c \<and> \<not> isConsInter c then isIBC c \<or> \<not> is4x4 c \<and> isInter c
      else isInter c))"

definition pred_ok :: "CuEnv \<Rightarrow> CodingUnit \<Rightarrow> bool" where
  "pred_ok e c \<longleftrightarrow> (case cu_predMode c of
     MODE_INTER \<Rightarrow> isConsInter c \<or> \<not> intra_only e c
   | MODE_INTRA \<Rightarrow> \<not> isConsInter c
   | MODE_IBC \<Rightarrow> \<not> isConsInter c \<and> ce_IBCFlag e \<and> cu_chType c \<noteq> CHANNEL_TYPE_CHROMA \<and> below128 c
   | MODE_PLT \<Rightarrow> \<not> isConsInter c \<and> pltAllowed e c
   | NUMBER_OF_PREDICTION_MODES \<Rightarrow> False)"

text \<open>A mode that is not coded has the value of \<^verbatim>\<open>initData\<close>.\<close>

definition bdpcm_ok :: "CuEnv \<Rightarrow> CodingUnit \<Rightarrow> bool" where
  "bdpcm_ok e c \<longleftrightarrow>
     (if cu_chType c = CHANNEL_TYPE_LUMA
      then cu_bdpcmMode c \<le> (if bdpcmAllowed e c COMPONENT_Y then 2 else 0)
        \<and> cu_bdpcmModeChroma c \<le> (if \<not> ce_isDualITree e \<and> bdpcmAllowed e c COMPONENT_Cb then 2 else 0)
      else cu_bdpcmMode c = 0 \<and> cu_bdpcmModeChroma c \<le> (if bdpcmAllowed e c COMPONENT_Cb then 2 else 0))"

definition cu_modes_ok :: "CuEnv \<Rightarrow> CodingUnit \<Rightarrow> bool" where
  "cu_modes_ok e c \<longleftrightarrow>
     (cu_transQuantBypass c \<longrightarrow> ce_TransquantBypassEnabled e) \<and> skip_ok e c
     \<and> (if cu_skip c then firstPU_mergeFlag c \<and> \<not> cu_colorTransform c \<and> cu_bdpcmMode c = 0 \<and> cu_bdpcmModeChroma c = 0
        else pred_ok e c \<and> (cu_colorTransform c \<longrightarrow> \<not> isPLT c \<and> ce_useColorTrans e \<and> \<not> isSepTree e c) \<and> bdpcm_ok e c)"

text \<open>The unit belongs to the node of the partitioner.\<close>

definition cu_at :: "Partitioner \<Rightarrow> CodingUnit \<Rightarrow> bool" where
  "cu_at p c \<longleftrightarrow> cu_chType c = pt_chType p \<and> cu_treeType c = pt_treeType p \<and> cu_modeType c = pt_modeType p"

text \<open>The values that are coded here: the colour transform flag only of intra units.\<close>

definition mode_values :: "CodingUnit \<Rightarrow> bool \<times> bool \<times> PredMode \<times> bool \<times> nat \<times> nat" where
  "mode_values c = (cu_transQuantBypass c, cu_skip c, cu_predMode c, isIntra c \<and> cu_colorTransform c, cu_bdpcmMode c,
     cu_bdpcmModeChroma c)"

subsection \<open>Writer and parser agree\<close>

text \<open>The coding unit that the parser has after the skip flag.\<close>

definition after_skip :: "CuEnv \<Rightarrow> CodingUnit \<Rightarrow> CodingUnit \<Rightarrow> CodingUnit" where
  "after_skip e c q =
     (if (ce_sliceIntra e \<or> isConsIntra c) \<and> ce_IBCFlag e
      then q\<lparr>cu_skip := cu_skip c, cu_rootCbf := False, cu_predMode := if cu_skip c then MODE_IBC else MODE_INTRA, cu_mmvdSkip := False\<rparr>
      else if \<not> cu_skip c then q
      else if isIBC c then set_skip MODE_IBC q
      else q\<lparr>cu_skip := True, cu_rootCbf := False, cu_predMode := MODE_INTER\<rparr>)"

text \<open>The same block of the same tree.\<close>

definition same_place :: "CodingUnit \<Rightarrow> CodingUnit \<Rightarrow> bool" where
  "same_place q c \<longleftrightarrow> cu_blocks q = cu_blocks c \<and> cu_chType q = cu_chType c \<and> cu_treeType q = cu_treeType c \<and> cu_modeType q = cu_modeType c"

lemma same_place_tests:
  assumes "same_place q c"
  shows "isConsInter q = isConsInter c" "isConsIntra q = isConsIntra c" "is4x4 q = is4x4 c" "below128 q = below128 c"
    "pltAllowed e q = pltAllowed e c" "has_skip_flag e q = has_skip_flag e c" "isSepTree e q = isSepTree e c"
  using assms by (simp_all add: same_place_def cu_tests is4x4_def below128_def pltAllowed_def has_skip_flag_def isSepTree_def)

context cabac_channel
begin

lemma skip_codec:
  assumes "skip_ok e c" and "has_skip_flag e c" and "same_place q c" and "\<not> cu_skip q"
  shows "bins (w_cu_skip_flag E e c) (r_cu_skip_flag D e q) (after_skip e c q)"
proof -
  note ok = assms(1) [unfolded skip_ok_def] and same = same_place_tests [OF assms(3)] and defs = codec_ext [OF w_cu_skip_flag_def r_cu_skip_flag_def]
  have upd: "below128 (q\<lparr>cu_skip := a, cu_rootCbf := b, cu_predMode := m, cu_mmvdSkip := d\<rparr>) = below128 c" for a b m d
    using same by (simp add: below128_def)
  have ctx: "bins (w_bin E (of_bool b) Ctx_SkipFlag (CtxSkipFlag e)) (r_bin D Ctx_SkipFlag (CtxSkipFlag e)) (of_bool b)"
    "bins (w_bin E (of_bool b) Ctx_IBCFlag (CtxIBCFlag e)) (r_bin D Ctx_IBCFlag (CtxIBCFlag e)) (of_bool b)" for b
    using Ctx_bounds [of e] by (intro bins_ctx; simp)+
  have excl: "isInter c \<longrightarrow> \<not> isIBC c" by (simp add: cu_tests)
  consider (ibc) "(ce_sliceIntra e \<or> isConsIntra c) \<and> ce_IBCFlag e" "below128 c"
    | (ibc_large) "(ce_sliceIntra e \<or> isConsIntra c) \<and> ce_IBCFlag e" "\<not> below128 c" "\<not> cu_skip c"
    | (none) "\<not> ce_IBCFlag e" "is4x4 c \<or> isConsIntra c" "\<not> cu_skip c"
    | (flag) "\<not> ((ce_sliceIntra e \<or> isConsIntra c) \<and> ce_IBCFlag e)" "ce_IBCFlag e \<or> \<not> is4x4 c \<and> \<not> isConsIntra c"
    using ok by (metis (full_types))
  then show ?thesis
  proof cases
    case flag
    have val: "after_skip e c q = (if \<not> cu_skip c then q else if isIBC c then set_skip MODE_IBC q
       else q\<lparr>cu_skip := True, cu_rootCbf := False, cu_predMode := MODE_INTER\<rparr>)"
      using flag(1) by (simp only: after_skip_def if_False)
    have "\<not> cu_skip c \<and> ce_IBCFlag e \<or> \<not> cu_skip c \<and> \<not> ce_IBCFlag e \<and> \<not> is4x4 c \<and> \<not> isConsIntra c
      \<or> cu_skip c \<and> \<not> isIBC c \<and> \<not> ce_IBCFlag e \<and> \<not> is4x4 c \<and> \<not> isConsIntra c
      \<or> cu_skip c \<and> \<not> isIBC c \<and> isInter c \<and> ce_IBCFlag e \<and> \<not> (below128 c \<and> \<not> isConsInter c)
      \<or> cu_skip c \<and> \<not> isIBC c \<and> isInter c \<and> ce_IBCFlag e \<and> below128 c \<and> \<not> isConsInter c \<and> \<not> is4x4 c
      \<or> cu_skip c \<and> isIBC c \<and> ce_IBCFlag e \<and> below128 c \<and> \<not> isConsInter c \<and> \<not> is4x4 c
      \<or> cu_skip c \<and> isIBC c \<and> ce_IBCFlag e \<and> below128 c \<and> \<not> isConsInter c \<and> is4x4 c"
      using flag ok [unfolded if_bool_eq_conj] excl by argo
    then show ?thesis unfolding val
      by (elim disjE conjE) (rule defs, (((rule codec_wdecide codec_decide, (use flag in \<open>simp add: same isInter_def set_skip_def; fail\<close>)) | rule codec_branch
        | rule codec_bind [OF ctx(1)] codec_last [OF ctx(2)] codec_Some' | (simp add: set_skip_def; fail))+)[1])+
  qed (intro defs, unfold Let_def, 
       ((rule codec_wdecide codec_decide, (simp add: same upd; fail)) | rule codec_branch | rule codec_last [OF ctx(1)] codec_Some'
      | (simp add: after_skip_def set_skip_def; fail))+)+
qed

lemma plt_codec:
  assumes "same_place q c" and "isPLT c \<longrightarrow> pltAllowed e c"
  shows "bins (w_plt_flag E e c) (r_plt_flag D e q) (if isPLT c then q\<lparr>cu_predMode := MODE_PLT\<rparr> else q)"
  using assms by (intro codec_ext [OF w_plt_flag_def r_plt_flag_def] codec_if codec_last [OF bins_ctx] codec_Some')
    (auto simp: same_place_tests)

lemma ibc_codec:
  assumes "same_place q c" and "isIBC c \<longrightarrow> below128 c"
  shows "bins (\<lambda>s. if below128 c then w_bin E (of_bool (isIBC c)) Ctx_IBCFlag (CtxIBCFlag e) s else Some s) (r_ibc_flag D e q)
     (if isIBC c then q\<lparr>cu_predMode := MODE_IBC\<rparr> else q)"
  using assms Ctx_bounds [of e] by (intro codec_ext [OF refl r_ibc_flag_def] codec_if codec_last [OF bins_ctx] codec_Some')
    (auto simp: same_place_tests)

lemma pred_mode_codec:
  assumes "pred_ok e c" and "same_place q c"
  shows "bins (w_pred_mode E e c) (r_pred_mode D e q) (q\<lparr>cu_predMode := cu_predMode c\<rparr>)"
proof -
  note same = same_place_tests [OF assms(2)]
  have plt: "isPLT c \<longrightarrow> pltAllowed e c" and ibc: "isIBC c \<longrightarrow> below128 c"
    using assms(1) by (auto simp: pred_ok_def cu_tests split: PredMode.splits)
  have chType: "cu_chType q = cu_chType c" using assms(2) by (simp add: same_place_def)
  have ctx: "bins (w_bin E (of_bool b) Ctx_PredMode (CtxPredModeFlag e)) (r_bin D Ctx_PredMode (CtxPredModeFlag e)) (of_bool b)" for b
    using Ctx_bounds [of e] by (intro bins_ctx; simp)
  show ?thesis
    by (rule codec_ext [OF w_pred_mode_def r_pred_mode_def], unfold Let_def)
     ((rule codec_if, (simp add: chType same mode_tests; fail))
     | (rule codec_wtrue, (use assms(1) in \<open>auto simp: pred_ok_def mode_tests split: PredMode.splits\<close>; fail))
     | rule codec_bind [OF ibc_codec [OF _ ibc]] codec_bind [OF ctx] codec_cong [OF plt_codec [OF _ plt]] codec_cong [OF ibc_codec [OF _ ibc]] codec_Some'
     | (use assms(2) in \<open>simp add: same_place_def; fail\<close>)
     | (use assms(1) in \<open>auto simp: pred_ok_def intra_only_def mode_tests split: PredMode.splits; fail\<close>))+
qed

lemma color_transform_codec:
  assumes "same_place q c" and "cu_predMode q = cu_predMode c" and "\<not> cu_colorTransform q"
    and "cu_colorTransform c \<longrightarrow> \<not> isPLT c \<and> ce_useColorTrans e \<and> \<not> isSepTree e c" and "isIntra c"
  shows "bins (w_adaptive_color_transform E e c) (r_adaptive_color_transform D e q) (q\<lparr>cu_colorTransform := cu_colorTransform c\<rparr>)"
  by (rule codec_ext [OF w_adaptive_color_transform_def r_adaptive_color_transform_def])
   ((rule codec_if, (use assms(2) in \<open>simp add: same_place_tests [OF assms(1)] mode_tests; fail\<close>)) | rule codec_check_writer codec_last [OF bins_ctx] codec_Some'
     | (use assms in \<open>auto simp: mode_tests; fail\<close>))+

lemma bdpcm_codec:
  assumes "same_place q c" and "cu_predMode q = cu_predMode c" and "cu_bdpcmModeChroma q = 0" and "compID \<noteq> COMPONENT_Y \<or> cu_bdpcmMode q = 0"
    and "bdpcm_of compID c \<le> (if bdpcmAllowed e c compID then 2 else 0)"
  shows "bins (w_bdpcm_mode E e c compID) (r_bdpcm_mode D e q compID) (set_bdpcm compID (bdpcm_of compID c) q)"
proof -
  have same: "bdpcmAllowed e q compID = bdpcmAllowed e c compID"
    using assms(1,2) by (simp add: bdpcmAllowed_def same_place_def isIntra_def Let_def)
  show ?thesis
  proof (cases "bdpcmAllowed e c compID")
    case True
    then have "ce_BDPCMEnabled e \<noteq> 0" by (simp add: bdpcmAllowed_def Let_def)
    with True assms(5) show ?thesis
      by (intro codec_ext [OF w_bdpcm_mode_def r_bdpcm_mode_def])
        (simp only: same if_False not_True_eq_False, rule codec_bind [OF bins_ctx], simp, simp, simp, intro codec_last [where v = "bdpcm_of compID c"] codec_if
          codec_last [OF bins_ctx] codec_Some', auto)
  next
    case False
    then have "bdpcm_of compID c = 0" using assms(5) by simp
    moreover have "q\<lparr>cu_bdpcmMode := 0, cu_bdpcmModeChroma := 0\<rparr> = q\<lparr>cu_bdpcmMode := 0\<rparr>" using assms(3) by (cases q) simp
    ultimately have "w_bdpcm_mode E e c compID = Some"
      "r_bdpcm_mode D e q compID = (\<lambda>s. Some (set_bdpcm compID (bdpcm_of compID c) q, s))"
      using False by (auto simp: fun_eq_iff w_bdpcm_mode_def r_bdpcm_mode_def same set_bdpcm_def Let_def)
    then show ?thesis by (simp add: codec_Some)
  qed
qed

lemma bdpcm_both_codec:
  assumes q: "same_place q c" "cu_predMode q = cu_predMode c" "cu_bdpcmMode q = 0" "cu_bdpcmModeChroma q = 0" and ok: "bdpcm_ok e c"
    and t: "cu_chType c = t"
  shows "bins (\<lambda>s. Option.bind (w_bdpcm_mode E e c (comp_of t) s) (\<lambda>s.
      if \<not> ce_isDualITree e \<and> t = CHANNEL_TYPE_LUMA then w_bdpcm_mode E e c COMPONENT_Cb s else Some s))
    (\<lambda>s. Option.bind (r_bdpcm_mode D e q (comp_of t) s) (\<lambda>(c, s).
      if \<not> ce_isDualITree e \<and> t = CHANNEL_TYPE_LUMA then r_bdpcm_mode D e c COMPONENT_Cb s else Some (c, s)))
    (q\<lparr>cu_bdpcmMode := cu_bdpcmMode c, cu_bdpcmModeChroma := cu_bdpcmModeChroma c\<rparr>)"
proof -
  let ?c = "comp_of t"
  let ?q = "set_bdpcm ?c (bdpcm_of ?c c) q"
  have one: "bins (w_bdpcm_mode E e c ?c) (r_bdpcm_mode D e q ?c) ?q"
    using q ok t by (intro bdpcm_codec) (auto simp: bdpcm_ok_def bdpcm_of_def comp_of_def split: if_splits)
  show ?thesis
  proof (rule codec_bind [OF one], rule codec_if [OF refl])
    assume luma: "\<not> ce_isDualITree e \<and> t = CHANNEL_TYPE_LUMA"
    have "bins (w_bdpcm_mode E e c COMPONENT_Cb) (r_bdpcm_mode D e ?q COMPONENT_Cb) (set_bdpcm COMPONENT_Cb (bdpcm_of COMPONENT_Cb c) ?q)"
      using q ok luma t by (intro bdpcm_codec) (auto simp: bdpcm_ok_def bdpcm_of_def comp_of_def set_bdpcm_def same_place_def split: if_splits)
    then show "bins (w_bdpcm_mode E e c COMPONENT_Cb) (r_bdpcm_mode D e ?q COMPONENT_Cb)
        (q\<lparr>cu_bdpcmMode := cu_bdpcmMode c, cu_bdpcmModeChroma := cu_bdpcmModeChroma c\<rparr>)"
      by (rule codec_cong) (simp add: luma comp_of_def set_bdpcm_def bdpcm_of_def)
  next
    assume other: "\<not> (\<not> ce_isDualITree e \<and> t = CHANNEL_TYPE_LUMA)"
    have "?q = q\<lparr>cu_bdpcmMode := cu_bdpcmMode c, cu_bdpcmModeChroma := cu_bdpcmModeChroma c\<rparr>"
      using q ok other t by (cases q) (auto simp: bdpcm_ok_def bdpcm_of_def comp_of_def set_bdpcm_def split: if_splits)
    then show "bins Some (\<lambda>s. Some (?q, s)) (q\<lparr>cu_bdpcmMode := cu_bdpcmMode c, cu_bdpcmModeChroma := cu_bdpcmModeChroma c\<rparr>)"
      by (rule codec_Some')
  qed
qed

lemma cu_modes_codec:
  assumes ok: "cu_modes_ok e c" and at: "cu_at p c"
    and q: "q = CodingStructure_addCU cached (cu_blocks c) (pt_chType p) (pt_treeType p) (pt_modeType p)"
  shows "\<exists>v. bins (w_cu_modes E e p c) (r_cu_modes D e p q) v \<and> mode_values v = mode_values c"
proof -
  define q0 where "q0 = q\<lparr>cu_transQuantBypass := cu_transQuantBypass c\<rparr>"
  define q1 where "q1 = q0\<lparr>firstPU_mergeFlag := False\<rparr>"
  define q2 where "q2 = (if has_skip_flag e c then after_skip e c q1 else q1)"
  define q3 where "q3 = q2\<lparr>cu_predMode := cu_predMode c\<rparr>"
  define q4 where "q4 = q3\<lparr>cu_colorTransform := isIntra c \<and> cu_colorTransform c\<rparr>"
  note init = q CodingStructure_addCU_def CodingUnit_initData_def Let_def
  have one: "bins (\<lambda>s. if ce_TransquantBypassEnabled e then w_cu_transquant_bypass_flag E c s else Some s)
      (\<lambda>s. if ce_TransquantBypassEnabled e then r_cu_transquant_bypass_flag D q s else Some (q, s)) q0"
    using ok by (intro codec_if codec_ext [OF w_cu_transquant_bypass_flag_def r_cu_transquant_bypass_flag_def]
        codec_last [OF bins_ctx] codec_Some') (auto simp: q0_def init cu_modes_ok_def)
  have at1: "same_place q1 c" "\<not> cu_skip q1" "\<not> cu_colorTransform q1" "cu_bdpcmMode q1 = 0" "cu_bdpcmModeChroma q1 = 0"
    "cu_transQuantBypass q1 = cu_transQuantBypass c"
    using at by (simp_all add: q1_def q0_def init same_place_def cu_at_def)
  have two: "bins (\<lambda>s. if has_skip_flag e c then w_cu_skip_flag E e c s else Some s)
      (\<lambda>s. let c = q0\<lparr>firstPU_mergeFlag := False\<rparr> in if has_skip_flag e c then r_cu_skip_flag D e c s else Some (c, s)) q2"
    unfolding Let_def q1_def [symmetric]
    using ok at1 by (intro codec_if codec_cong [OF skip_codec] codec_Some') (auto simp: same_place_tests q2_def cu_modes_ok_def)
  have at2: "same_place q2 c" "\<not> cu_colorTransform q2" "cu_bdpcmMode q2 = 0" "cu_bdpcmModeChroma q2 = 0"
    "cu_transQuantBypass q2 = cu_transQuantBypass c" "cu_skip q2 = cu_skip c"
    using at1 ok by (auto simp: q2_def after_skip_def set_skip_def same_place_def cu_modes_ok_def skip_ok_def)
  have skip: "cu_skip c \<Longrightarrow> cu_predMode q2 = cu_predMode c"
    using ok by (auto simp: q2_def after_skip_def set_skip_def cu_modes_ok_def skip_ok_def mode_tests split: if_splits)
  have check: "\<not> (cu_treeType q \<noteq> pt_treeType p \<or> cu_modeType q \<noteq> pt_modeType p)" by (simp add: init)
  show ?thesis
  proof (cases "cu_skip c")
    case True
    have "bins (w_cu_modes E e p c) (r_cu_modes D e p q) (q2\<lparr>cu_colorTransform := False\<rparr>)"
      using ok True at2
      by (intro codec_ext [OF w_cu_modes_def r_cu_modes_def] codec_rfalse [OF check] codec_bind [OF one] codec_bind [OF two])
        (simp add: cu_modes_ok_def codec_Some)
    moreover have "mode_values (q2\<lparr>cu_colorTransform := False\<rparr>) = mode_values c"
      using ok True at2 skip by (simp add: mode_values_def cu_modes_ok_def isIntra_def)
    ultimately show ?thesis by blast
  next
    case False
    then have ok': "pred_ok e c" "cu_colorTransform c \<longrightarrow> \<not> isPLT c \<and> ce_useColorTrans e \<and> \<not> isSepTree e c" "bdpcm_ok e c"
      using ok by (simp_all add: cu_modes_ok_def)
    have at3: "same_place q3 c" "cu_predMode q3 = cu_predMode c" "\<not> cu_colorTransform q3" "isIntra q3 = isIntra c"
      using at2 by (simp_all add: q3_def same_place_def isIntra_def)
    have at4: "same_place q4 c" "cu_predMode q4 = cu_predMode c" "cu_bdpcmMode q4 = 0" "cu_bdpcmModeChroma q4 = 0" "isPLT q4 = isPLT c"
      using at2 at3 by (simp_all add: q4_def q3_def same_place_def isPLT_def)
    have three: "bins (w_pred_mode E e c) (r_pred_mode D e q2) q3" unfolding q3_def by (rule pred_mode_codec [OF ok'(1) at2(1)])
    have four: "bins (\<lambda>s. if isIntra c then w_adaptive_color_transform E e c s else Some s)
       (\<lambda>s. if isIntra q3 then r_adaptive_color_transform D e q3 s else Some (q3, s)) q4"
      using at3 ok' by (intro codec_if codec_cong [OF color_transform_codec] codec_Some') (auto simp: q4_def)
    have plt: "cu_bdpcmMode c = 0" "cu_bdpcmModeChroma c = 0" if "isPLT c"
      using that ok'(3) by (auto simp: bdpcm_ok_def bdpcmAllowed_def mode_tests Let_def split: if_splits)
    have t: "cu_chType c = pt_chType p" using at by (simp add: cu_at_def)
    have five: "bins (\<lambda>s. if isPLT c then if cu_colorTransform c then None else Some s
      else Option.bind (w_bdpcm_mode E e c (comp_of (pt_chType p)) s) (\<lambda>s.
        if \<not> ce_isDualITree e \<and> pt_chType p = CHANNEL_TYPE_LUMA then w_bdpcm_mode E e c COMPONENT_Cb s else Some s))
      (\<lambda>s. if isPLT q4 then Some (q4\<lparr>cu_colorTransform := False\<rparr>, s)
      else Option.bind (r_bdpcm_mode D e q4 (comp_of (pt_chType p)) s) (\<lambda>(c, s).
        if \<not> ce_isDualITree e \<and> pt_chType p = CHANNEL_TYPE_LUMA then r_bdpcm_mode D e c COMPONENT_Cb s else Some (c, s)))
      (q4\<lparr>cu_bdpcmMode := cu_bdpcmMode c, cu_bdpcmModeChroma := cu_bdpcmModeChroma c\<rparr>)"
    proof (rule codec_if)
      assume "isPLT c"
      moreover from this have "\<not> cu_colorTransform c" using ok'(2) by auto
      moreover from this have "\<not> cu_colorTransform q4" by (simp add: q4_def)
      with at4 have "q4\<lparr>cu_colorTransform := False\<rparr> = q4\<lparr>cu_bdpcmMode := 0, cu_bdpcmModeChroma := 0\<rparr>" by (cases q4) simp
      ultimately show "bins (\<lambda>s. if cu_colorTransform c then None else Some s) (\<lambda>s. Some (q4\<lparr>cu_colorTransform := False\<rparr>, s))
         (q4\<lparr>cu_bdpcmMode := cu_bdpcmMode c, cu_bdpcmModeChroma := cu_bdpcmModeChroma c\<rparr>)"
        by (simp add: plt codec_Some)
    qed (use bdpcm_both_codec [OF at4(1-4) ok'(3) t] at4 in auto)
    have "bins (w_cu_modes E e p c) (r_cu_modes D e p q) (q4\<lparr>cu_bdpcmMode := cu_bdpcmMode c, cu_bdpcmModeChroma := cu_bdpcmModeChroma c\<rparr>)"
      using False at2(6)
      by (intro codec_ext [OF w_cu_modes_def r_cu_modes_def] codec_rfalse [OF check] codec_bind [OF one] codec_bind [OF two]
          codec_wfalse codec_rfalse codec_bind [OF three] codec_bind [OF four] five) simp_all
    moreover have "mode_values (q4\<lparr>cu_bdpcmMode := cu_bdpcmMode c, cu_bdpcmModeChroma := cu_bdpcmModeChroma c\<rparr>) = mode_values c"
      using at2 False by (auto simp: mode_values_def q4_def q3_def isIntra_def)
    ultimately show ?thesis by blast
  qed
qed

end

text \<open>A sequence of structures whose parser returns some value related to what was written.\<close>

lemma each_roundtrip:
  assumes "\<And>x. x \<in> set xs \<Longrightarrow> \<exists>v. codec (enc_emits ms) dec_sources (W x) (R (k x)) v \<and> f v = g x"
  shows "\<exists>Y d vs. encode_with ms (write_list W xs) = Some Y \<and> bytes_ok Y
    \<and> decode_with ms (read_each R (map k xs)) Y = Some (vs, d) \<and> map f vs = map g xs
    \<and> i_fifo_idx (d_bitstream d) = length (i_fifo (d_bitstream d))"
proof -
  from assms obtain h where h: "\<forall>x \<in> set xs. codec (enc_emits ms) dec_sources (W x) (R (k x)) (h x) \<and> f (h x) = g x" by metis
  then have "codec (enc_emits ms) dec_sources (write_list W xs) (read_each R (map k xs)) (map h xs)" by (intro codec_each_map) auto
  note bins_roundtrip [OF this]
  moreover have "map f (map h xs) = map g xs" using h by auto
  ultimately show ?thesis by blast
qed

text \<open>C28: for any sequence of coding units at their nodes of the partitioner, each with modes that the syntax can express
  in its slice, tree and neighbourhood (\<open>cu_modes_ok\<close>), \<^verbatim>\<open>CABACReader\<close> parses into units freshly added to the coding
  structure, whatever the cache they come from holds, the lossless flag, skip flag, prediction mode, colour transform
  flag of intra units and block DPCM modes that \<^verbatim>\<open>CABACWriter\<close> wrote, passes the checks of writer and parser, and stops
  at the end of the code.\<close>

theorem cu_modes_roundtrip:
  assumes "\<forall>(e, p, c) \<in> set cus. cu_modes_ok e c \<and> cu_at p c"
  shows "\<exists>Y d qs. encode_with (slice_contexts qp t) (write_list (\<lambda>(e, p, c). w_cu_modes BinEncoder_Std e p c) cus) = Some Y \<and> bytes_ok Y
    \<and> decode_with (slice_contexts qp t) (read_each (\<lambda>(e, p, q). r_cu_modes BinDecoder_Std e p q)
        (map (\<lambda>(e, p, c). (e, p, CodingStructure_addCU cached (cu_blocks c) (pt_chType p) (pt_treeType p) (pt_modeType p))) cus)) Y = Some (qs, d)
    \<and> map mode_values qs = map (\<lambda>(e, p, c). mode_values c) cus
    \<and> i_fifo_idx (d_bitstream d) = length (i_fifo (d_bitstream d))"
  by (rule each_roundtrip) (use assms vtm.cu_modes_codec [OF _ _ refl] in fastforce)

definition example_cu_env :: CuEnv where
  "example_cu_env = \<lparr>ce_sliceIntra = False, ce_IBCFlag = True, ce_PLTMode = True, ce_TransquantBypassEnabled = False, ce_BDPCMEnabled = 2,
     ce_log2MaxTransformSkip = 5, ce_chromaFormat = CHROMA_444, ce_isDualITree = False, ce_useColorTrans = True, ce_left = None,
     ce_above = None, ce_left_own = None, ce_above_own = None\<rparr>"

text \<open>An intra unit with colour transform and both block DPCM modes, and a skipped inter unit.\<close>

definition example_blocks :: UnitArea where
  "example_blocks = replicate 3 \<lparr>ca_x = 16, ca_y = 8, ca_width = 8, ca_height = 8\<rparr>"

definition example_node :: Partitioner where
  "example_node = initCtu example_blocks CHANNEL_TYPE_LUMA"

definition example_new_cu :: CodingUnit where
  "example_new_cu =
     \<lparr>cu_blocks = example_blocks, cu_chType = CHANNEL_TYPE_LUMA, cu_treeType = TREE_D, cu_modeType = MODE_TYPE_ALL,
      cu_predMode = NUMBER_OF_PREDICTION_MODES, cu_skip = False, cu_mmvdSkip = False, cu_affine = False, cu_affineType = 0,
      cu_colorTransform = False, cu_triangle = False, cu_transQuantBypass = False, cu_bdpcmMode = 0, cu_bdpcmModeChroma = 0,
      cu_imv = 0, cu_rootCbf = True, cu_sbtInfo = 0, cu_mtsFlag = 0, cu_lfnstIdx = 0, cu_GBiIdx = GBI_DEFAULT, cu_mipFlag = False,
      cu_smvdMode = 0, cu_ispMode = 0, firstPU_mergeFlag = False\<rparr>"

definition example_intra :: CodingUnit where
  "example_intra = example_new_cu\<lparr>cu_predMode := MODE_INTRA, cu_colorTransform := True, cu_bdpcmMode := 2, cu_bdpcmModeChroma := 1\<rparr>"

definition example_skip :: CodingUnit where
  "example_skip = example_new_cu\<lparr>cu_predMode := MODE_INTER, cu_skip := True, firstPU_mergeFlag := True\<rparr>"

lemma example_cu_modes_ok:
  "cu_modes_ok example_cu_env example_intra" "cu_modes_ok example_cu_env example_skip"
  "cu_at example_node example_intra" "cu_at example_node example_skip"
  by (simp_all add: cu_modes_ok_def skip_ok_def pred_ok_def bdpcm_ok_def bdpcmAllowed_def BDPCM_LUMACHROMA_def has_skip_flag_def CompArea_valid_def
      isSepTree_def below128_def is4x4_def cu_tests example_intra_def example_skip_def example_cu_env_def example_new_cu_def
      example_blocks_def example_node_def initCtu_def cu_at_def Let_def)

theorem cu_modes_roundtrip_witness:
  "\<exists>Y d qs. encode_with (slice_contexts 32 B_SLICE) (write_list (\<lambda>(e, p, c). w_cu_modes BinEncoder_Std e p c)
       [(example_cu_env, example_node, example_intra), (example_cu_env, example_node, example_skip)]) = Some Y \<and> bytes_ok Y
    \<and> decode_with (slice_contexts 32 B_SLICE) (read_each (\<lambda>(e, p, q). r_cu_modes BinDecoder_Std e p q)
        (map (\<lambda>(e, p, c). (e, p, CodingStructure_addCU example_skip (cu_blocks c) (pt_chType p) (pt_treeType p) (pt_modeType p)))
          [(example_cu_env, example_node, example_intra), (example_cu_env, example_node, example_skip)])) Y = Some (qs, d)
    \<and> map mode_values qs = map (\<lambda>(e, p, c). mode_values c)
        [(example_cu_env, example_node, example_intra), (example_cu_env, example_node, example_skip)]
    \<and> i_fifo_idx (d_bitstream d) = length (i_fifo (d_bitstream d))"
  by (rule cu_modes_roundtrip) (simp add: example_cu_modes_ok)

end
