(* ===== verification/IntraModes.thy ===== *)
theory IntraModes
  imports CuSyntax
begin

section \<open>Intra prediction modes\<close>

text \<open>
  The derivation of the intra modes that the syntax refers to (\<^verbatim>\<open>UnitTools.cpp\<close>): the list of most probable luma
  modes (\<^verbatim>\<open>PU::getIntraMPMs\<close>), the candidates for chroma (\<^verbatim>\<open>PU::getIntraChromaCandModes\<close>), and the code of a luma mode
  outside the list, which counts the modes below it that are not in the list.
\<close>

definition NUM_LUMA_MODE :: nat where "NUM_LUMA_MODE = 67"
definition PLANAR_IDX :: nat where "PLANAR_IDX = 0"
definition DC_IDX :: nat where "DC_IDX = 1"
definition NUM_DIR :: nat where "NUM_DIR = (NUM_LUMA_MODE - 3) div 4 + 1"
definition HOR_IDX :: nat where "HOR_IDX = 1 * (NUM_DIR - 1) + 2"
definition VER_IDX :: nat where "VER_IDX = 3 * (NUM_DIR - 1) + 2"
definition VDIA_IDX :: nat where "VDIA_IDX = 4 * (NUM_DIR - 1) + 2"
definition LM_CHROMA_IDX :: nat where "LM_CHROMA_IDX = NUM_LUMA_MODE"
definition MDLM_L_IDX :: nat where "MDLM_L_IDX = LM_CHROMA_IDX + 1"
definition MDLM_T_IDX :: nat where "MDLM_T_IDX = LM_CHROMA_IDX + 2"
definition NUM_LMC_MODE :: nat where "NUM_LMC_MODE = 1 + 2"
definition DM_CHROMA_IDX :: nat where "DM_CHROMA_IDX = NUM_LUMA_MODE + NUM_LMC_MODE"


record IntraPredictionData =
  intraDir0 :: nat
  intraDir1 :: nat
  mipTransposedFlag :: bool
  multiRefIdx :: nat

definition IntraPredictionData_init :: IntraPredictionData where
  "IntraPredictionData_init = \<lparr>intraDir0 = DC_IDX, intraDir1 = PLANAR_IDX, mipTransposedFlag = False, multiRefIdx = 0\<rparr>"



subsection \<open>Most probable modes\<close>












subsection \<open>Modes outside the list\<close>









subsection \<open>Chroma candidates\<close>

definition getIntraChromaCandModes :: "nat \<Rightarrow> nat list" where
  "getIntraChromaCandModes lumaMode =
     (let first = [PLANAR_IDX, VER_IDX, HOR_IDX, DC_IDX];
          first = (if lumaMode \<in> set first then map (\<lambda>m. if m = lumaMode then VDIA_IDX else m) first else first)
      in first @ [LM_CHROMA_IDX, MDLM_L_IDX, MDLM_T_IDX, DM_CHROMA_IDX])"

definition getLMSymbolList :: "nat list" where
  "getLMSymbolList = [LM_CHROMA_IDX, MDLM_L_IDX, MDLM_T_IDX]"

definition isLMCMode :: "nat \<Rightarrow> bool" where
  "isLMCMode mode \<longleftrightarrow> LM_CHROMA_IDX \<le> mode \<and> mode \<le> MDLM_T_IDX"

text \<open>The first match in a list; the length of the list when there is none.\<close>

fun index_of :: "nat \<Rightarrow> nat list \<Rightarrow> nat" where
  "index_of x [] = 0"
| "index_of x (y # ys) = (if x = y then 0 else Suc (index_of x ys))"

lemma index_of_in: "x \<in> set ys \<Longrightarrow> index_of x ys < length ys \<and> ys ! index_of x ys = x"
  by (induction ys) auto

lemma index_of_out: "x \<notin> set ys \<Longrightarrow> index_of x ys = length ys"
  by (induction ys) auto

lemma index_of_append: "x \<in> set ys \<Longrightarrow> index_of x (ys @ zs) = index_of x ys"
  by (induction ys) auto






end
