(* ===== verification/Spec2Isabelle.thy ===== *)
theory Spec2Isabelle
  imports AnnexB Hls Cabac CtxTables RefPicLists Vui TransformBlock SaoFilter PartitionWalk IntraModes
begin

text \<open>
  \<^bold>\<open>VTM 7.1: the bit-exact layers of the VVC reference software\<close>

  The program under \<^verbatim>\<open>src/\<close> is an encoder and a decoder for Versatile Video Coding.  An encoder run
  makes decisions by search (\<^verbatim>\<open>EncCu\<close>, \<^verbatim>\<open>InterSearch\<close>, \<^verbatim>\<open>IntraSearch\<close>, \<^verbatim>\<open>EncGOP\<close>); what it decides is
  then written by code that has an exact counterpart in the decoder.  These pairs are what this
  development models: if one of them disagrees, the decoder reconstructs a different picture.  The
  layers, from the file inwards:

  \<^item> the byte stream format and NAL units (\<^verbatim>\<open>AnnexBwrite.h\<close>, \<^verbatim>\<open>AnnexBread.cpp\<close>, \<^verbatim>\<open>NALwrite.cpp\<close>, \<^verbatim>\<open>NALread.cpp\<close>):
    theories \<open>AnnexB\<close> and \<open>Nal\<close>;
  \<^item> the bit stream classes (\<^verbatim>\<open>BitStream.cpp\<close>, \<^verbatim>\<open>BitStream.h\<close>): \<open>BitStreams\<close>;
  \<^item> the codes of the high-level syntax (\<^verbatim>\<open>VLCWriter.cpp\<close>, \<^verbatim>\<open>VLCReader.cpp\<close>): \<open>Vlc\<close>, with the structures
    of the headers built on them in the theories listed below;
  \<^item> the arithmetic coder (\<^verbatim>\<open>BinEncoder.cpp\<close>, \<^verbatim>\<open>BinDecoder.cpp\<close>, \<^verbatim>\<open>Contexts.cpp\<close>): \<open>Contexts\<close> (the adaptive
    probability model), \<open>CtxTables\<close> (all context sets and their registration), \<open>ArithCoder\<close> (the coder
    on unbounded integers that serves as specification), \<open>BinEncoder\<close>, \<open>BinDecoder\<close>, \<open>Cabac\<close> (code words);
  \<^item> the slice data (\<^verbatim>\<open>CABACWriter.cpp\<close>, \<^verbatim>\<open>CABACReader.cpp\<close>, \<^verbatim>\<open>ContextModelling.cpp\<close>): \<open>Binarisation\<close> (unary,
    Exp-Golomb and truncated binary codes), \<open>CoeffContext\<close>, \<open>Residual\<close> and \<open>TransformBlock\<close> (transform
    coefficients), \<open>Sao\<close> (parameters of the sample adaptive offset), \<open>SplitSyntax\<close> (split decisions and mode
    constraint of a tree node), \<open>CuSyntax\<close> (first part of a coding unit), with the scan tables of \<^verbatim>\<open>Rom.cpp\<close> in \<open>Scan\<close>;
  \<^item> what both sides compute from decoded values: the partitioner (\<^verbatim>\<open>UnitPartitioner.cpp\<close>) in \<open>PartitionTree\<close> and
    \<open>PartitionWalk\<close>, most probable intra modes (\<^verbatim>\<open>UnitTools.cpp\<close>) in \<open>IntraModes\<close>, and the sample adaptive
    offset filter with the reconstruction of its parameters (\<^verbatim>\<open>SampleAdaptiveOffset.cpp\<close>) in \<open>SaoFilter\<close>.

  \<^bold>\<open>How the code is modelled.\<close>  A class is a record with the fields of the source; a method is a function
  on the record, named as in the source (with the class or \<open>w_\<close>/\<open>r_\<close> in front where writer and reader
  share a name).  \<^verbatim>\<open>CHECK\<close>, \<^verbatim>\<open>THROW\<close> and exceptions are the value \<open>None\<close>.  Unsigned values are natural
  numbers with the reduction to the width of the variable written out (\<open>u8\<close>, \<open>u16\<close>, \<open>u32\<close>, \<open>sub32\<close> of
  \<open>Prelude\<close>) where the source can wrap; signed values are integers.  Preprocessor branches are those
  of the default build.  Bit estimation, tracing and statistics are not part of the functions.

  \<^bold>\<open>Interfaces.\<close>  \<open>Codec\<close> holds the calculus: \<open>writes\<close> and \<open>reads\<close> say which symbols an operation appends
  or takes, \<open>codec\<close> that a writer and a parser agree.  The locales \<open>bin_sink\<close>, \<open>bin_source\<close>, \<open>bin_channel\<close>
  (\<open>Cabac\<close>) and \<open>cabac_channel\<close> (\<open>Binarisation\<close>) state what the slice data syntax needs of the arithmetic
  coder; they are interpreted on \<^verbatim>\<open>BinEncoder\<close> and \<^verbatim>\<open>BinDecoder\<close>, and every syntax element is proved once
  inside them.  \<open>block_order\<close> (\<open>Scan\<close>) is the interface of a scan generator, with an interpretation per scan.

  \<^bold>\<open>What is shown.\<close>  \<open>Cabac\<close> and this theory: code words of the arithmetic coder are decoded bin by bin, with
  all checks passing and all bytes consumed (C1), the registers compute the ideal coder (C2), escape codes
  (C3).  \<open>AnnexB\<close> and \<open>Nal\<close>: transport of access units, start codes, and what a reader makes of any payload
  (C4 to C7).  \<open>BitStreams\<close> and \<open>Vlc\<close>: error behaviour and prefix codes (C8 to C10).  \<open>CtxTables\<close> and
  \<open>Contexts\<close>: the registration, the initialisation and the invariant of the probability models (C11 to C13).
  \<open>RefPicLists\<close> and \<open>Vui\<close>: structures of the high-level syntax survive coding (C14, C15).  \<open>Scan\<close>: what the scan
  tables enumerate and in which order, and the logarithms (C16, C17).  \<open>Binarisation\<close> and \<open>TransformBlock\<close>:
  binarisations and whole transform blocks survive coding (C18, C19).  \<open>Sao\<close> and \<open>SaoFilter\<close>: the parameters
  survive coding, the filter computes the two-neighbour classification within the clipping range, and the
  parameters are reconstructed from scaled and merged ones (C20 to C23).  \<open>PartitionTree\<close> and \<open>PartitionWalk\<close>:
  the parts of a split tile the area, the invariant of the partitioner, and its return to the state before
  the split (C24 to C26).  \<open>SplitSyntax\<close> and \<open>CuSyntax\<close>: tree nodes and modes of coding units survive coding
  (C27, C28).  \<open>IntraModes\<close>: the list of most probable modes (C29).  Each theory ends with the properties of its
  part, the first fourteen are in this theory.

  \<^bold>\<open>Bounds and fuel.\<close>  No definition uses fuel.  Loops over data are structural recursions; the loops of the
  binarisations have termination proofs; the prefix of an exponential Golomb code, which may run
  forever on a source that delivers only ones, is a \<open>partial_function\<close>, and its theorem states that it
  returns on every written code.  Transform blocks have sides up to 64 and dynamic ranges from 4 to 27
  bits (the program uses 15 and up to 20).  Scan tables have sides up to 128, as in \<^verbatim>\<open>initROM\<close>.

  \<^bold>\<open>Where code and comments differ.\<close>  \<^verbatim>\<open>byteStreamNALUnit\<close> returns true at the end of the stream, its comment
  says false (C4, C6).  A payload that ends in an odd number of zero bytes keeps the closing 0x03 when it is
  read, and \<^verbatim>\<open>read\<close> takes every NAL unit for a VCL unit (C7).

  \<^bold>\<open>Not modelled.\<close>  The encoder's search and rate control use floating point costs, and any decision they
  make is legal.  Of the slice data, the motion and merge data, palettes and the flags in front of the
  transform blocks in \<^verbatim>\<open>cu_residual\<close> are left out, so the colour transform flag of inter units is not part of C28.
  Prediction, transforms, deblocking and the adaptive loop filter, the remaining parameter sets and SEI
  messages, the heap structures of pictures and coding units, file input and output, the command lines, the
  vector code paths, which duplicate scalar code, and the vendored libraries are left out.
\<close>

section \<open>The arithmetic coder\<close>

text \<open>
  C1. Every sequence of bins (context coded, bypass, non-terminating and aligning ones) that
  \<^verbatim>\<open>BinEncoder\<close> codes and closes with a terminating bin, \<^verbatim>\<open>finish\<close> and the byte alignment is
  decoded by \<^verbatim>\<open>BinDecoder\<close> bin by bin: no step fails, the decoded bins are the coded ones, the
  terminating bin is recognised, the check of the stop bit in \<^verbatim>\<open>finish\<close> passes, every byte of
  the code word has been read, and the contexts have adapted as in the encoder.
\<close>

theorem cabac_roundtrip:
  assumes "list_all (op_ok (length ms)) ops" and "BinTrm 1 \<notin> set ops"
  shows "\<exists>Y d. encode_word ms ops = Some Y \<and> bytes_ok Y \<and> decode_word ms ops Y = Some (map bin_of ops, d)
    \<and> d_ctx d = a_ctx (arith_run ops (arith_start ms))
    \<and> i_fifo_idx (d_bitstream d) = length (i_fifo (d_bitstream d))"
  using code_word_roundtrip [OF writes_encode_ops [OF assms] reads_decode_ops] by metis

theorem cabac_roundtrip_witness:
  "\<exists>Y d. encode_word [BinProbModel_new] [BinCtx 0 1, BinEP 1, BinTrm 0] = Some Y \<and> bytes_ok Y
    \<and> decode_word [BinProbModel_new] [BinCtx 0 1, BinEP 1, BinTrm 0] Y = Some ([1, 1, 0], d)
    \<and> d_ctx d = a_ctx (arith_run [BinCtx 0 1, BinEP 1, BinTrm 0] (arith_start [BinProbModel_new]))
    \<and> i_fifo_idx (d_bitstream d) = length (i_fifo (d_bitstream d))"
  using cabac_roundtrip [of "[BinProbModel_new]" "[BinCtx 0 1, BinEP 1, BinTrm 0]"]
  by (simp del: arith_run_simps)

text \<open>
  C2. The encoder, with its 32-bit low register, delayed bytes and carry propagation, puts out
  exactly the bits of the ideal coder with unbounded integers: the leading bits of the upper part
  of the final interval, then the stop bit and the alignment.  The final interval still lies
  within the unit interval and its range is normalised.
\<close>

theorem encoder_refines_ideal:
  assumes "list_all (op_ok (length ms)) ops" and "BinTrm 1 \<notin> set ops" and "af = arith_run ops (arith_start ms)"
  shows "\<exists>Y. encode_word ms ops = Some Y \<and> bytes_ok Y \<and> bytes_bits Y =
      bitsBE (a_pos af + 8) ((a_low af + (a_range af - 2)) div 2) @ True # replicate (7 - a_pos af mod 8) False
    \<and> a_low af + a_range af \<le> 2 ^ (a_pos af + 9) \<and> range_ok (a_range af)"
  using encode_with_bits [OF writes_encode_ops [OF assms(1,2)] assms(3)] by metis

theorem encoder_refines_ideal_witness:
  "\<exists>Y. encode_word [] [BinEP 1, BinEP 0] = Some Y \<and> bytes_ok Y
    \<and> bytes_bits Y = bitsBE 10 764 @ True # replicate 5 False"
  using encoder_refines_ideal [of "[]" "[BinEP 1, BinEP 0]" "arith_run [BinEP 1, BinEP 0] (arith_start [])"]
  by (auto simp: arith_start_def simp del: bitsBE.simps bytes_bits_simps)

text \<open>
  C3. The escape code of the transform coefficients: for every value the code can represent (and
  every Rice parameter, cutoff and dynamic range the test in \<open>rem_abs_ok\<close> allows),
  \<^verbatim>\<open>encodeRemAbsEP\<close> writes and \<^verbatim>\<open>decodeRemAbsEP\<close> reads back the same value, whatever number of
  values follow each other in one code word.
\<close>

theorem escape_code_roundtrip:
  assumes "\<forall>(g, v) \<in> set gvs. rem_abs_ok v g cutoff maxLog2"
  shows "\<exists>Y d. encode_with ms (write_list (\<lambda>(g, v). encodeRemAbsEP v g cutoff maxLog2) gvs) = Some Y
    \<and> decode_with ms (read_each (\<lambda>g. decodeRemAbsEP g cutoff maxLog2) (map fst gvs)) Y = Some (map snd gvs, d)"
proof -
  have "codec (enc_emits ms) dec_sources (write_list (\<lambda>(g, v). encodeRemAbsEP v g cutoff maxLog2) gvs)
      (read_each (\<lambda>g. decodeRemAbsEP g cutoff maxLog2) (map fst gvs)) (map snd gvs)"
    by (rule codec_each)
      (use assms std.bins_RemAbs in \<open>auto simp: BinEncoder_Std_def BinDecoder_Std_def\<close>)
  from bins_roundtrip [OF this] show ?thesis by blast
qed

theorem escape_code_roundtrip_witness:
  "\<exists>Y d. encode_with [] (write_list (\<lambda>(g, v). encodeRemAbsEP v g 5 15) [(0, 3), (2, 40000)]) = Some Y
    \<and> decode_with [] (read_each (\<lambda>g. decodeRemAbsEP g 5 15) [0, 2]) Y = Some ([3, 40000], d)"
  using escape_code_roundtrip [of "[(0, 3), (2, 40000)]" 5 15 "[]"] by (simp add: rem_abs_ok_def)

section \<open>Byte streams and NAL units\<close>

text \<open>
  C4. The whole transport path: an access unit of NAL units with valid headers and payloads that
  end in their stop bit is written (\<^verbatim>\<open>NALUnitEBSP\<close>, \<^verbatim>\<open>writeAnnexB\<close>), split again by
  \<^verbatim>\<open>byteStreamNALUnit\<close>, and \<^verbatim>\<open>read\<close> of each unit restores the header and leaves the bit stream at
  the first bit of the original payload.  \<^verbatim>\<open>byteStreamNALUnit\<close> returns true for the last unit, at which the stream
  ends, and false for all others; the comment at its definition has the two values exchanged.
\<close>

theorem byte_stream_roundtrip:
  assumes "us \<noteq> []" and "\<forall>(n, ob) \<in> set us. header_ok n \<and> rbsp_ok (o_fifo ob)"
  shows "\<exists>au. those (map NALUnitEBSP_new us) = Some au
    \<and> map fst (read_units (length us) (InputByteStream_new (fst (writeAnnexB au))))
        = replicate (length us - 1) False @ [True]
    \<and> list_all2 (\<lambda>(n, ob) (eof, d). \<exists>s. NAL_read (InputBitstream_new d)
            = Some (n\<lparr>m_forbiddenZeroBit := 0, m_nuhReservedZeroBit := 0\<rparr>, s)
          \<and> in_inv s \<and> bits_in s = bytes_bits (o_fifo ob))
        us (read_units (length us) (InputByteStream_new (fst (writeAnnexB au))))"
proof -
  let ?P = "\<lambda>(n, ob) (eof, d). \<exists>s. NAL_read (InputBitstream_new d)
            = Some (n\<lparr>m_forbiddenZeroBit := 0, m_nuhReservedZeroBit := 0\<rparr>, s)
          \<and> in_inv s \<and> bits_in s = bytes_bits (o_fifo ob)"
  have P: "?P u (e, snd (ebsp_of u))" if "u \<in> set us" for u e
  proof -
    obtain n ob where u: "u = (n, ob)" by fastforce
    then have "header_ok n" "rbsp_ok (o_fifo ob)" using that assms(2) by auto
    from NAL_read_write [OF this] show ?thesis by (simp add: u ebsp_of_def)
  qed
  have "list_all2 ?P us (read_units (length us) (InputByteStream_new (fst (writeAnnexB (map ebsp_of us)))))"
    unfolding byte_stream_units(2) [OF assms] by (rule list_all2_butlast_last [OF assms(1)]) (rule P, assumption)+
  with byte_stream_units [OF assms] show ?thesis by (simp add: o_def map_replicate_const)
qed

theorem byte_stream_roundtrip_witness:
  "let n = \<lparr>m_nalUnitType = NAL_UNIT_SPS, m_temporalId = 0, m_nuhLayerId = 0, m_forbiddenZeroBit = 0,
            m_nuhReservedZeroBit = 0\<rparr>;
       ob = OutputBitstream_clear\<lparr>o_fifo := [0, 0, 1, 128]\<rparr>
   in header_ok n \<and> rbsp_ok (o_fifo ob) \<and> (\<exists>au. those (map NALUnitEBSP_new [(n, ob)]) = Some au
    \<and> list_all2 (\<lambda>(n, ob) (eof, d). \<exists>s. NAL_read (InputBitstream_new d)
            = Some (n\<lparr>m_forbiddenZeroBit := 0, m_nuhReservedZeroBit := 0\<rparr>, s)
          \<and> in_inv s \<and> bits_in s = bytes_bits (o_fifo ob))
        [(n, ob)] (read_units (length [(n, ob)]) (InputByteStream_new (fst (writeAnnexB au)))))"
proof -
  let ?n = "\<lparr>m_nalUnitType = NAL_UNIT_SPS, m_temporalId = 0, m_nuhLayerId = 0, m_forbiddenZeroBit = 0,
            m_nuhReservedZeroBit = 0\<rparr>"
    and ?ob = "OutputBitstream_clear\<lparr>o_fifo := [0, 0, 1, 128]\<rparr>"
  have ok: "header_ok ?n" "rbsp_ok (o_fifo ?ob)"
    by (simp_all add: header_ok_def rbsp_ok_def)
  then have h: "\<forall>(n, ob) \<in> set [(?n, ?ob)]. header_ok n \<and> rbsp_ok (o_fifo ob)" by simp
  from byte_stream_roundtrip [OF list.distinct(2) h] ok show ?thesis unfolding Let_def by blast
qed

text \<open>
  C5. No written NAL unit contains a start code or a byte pattern reserved for one, and none ends in
  a zero byte, so that units can be concatenated.  \<^verbatim>\<open>countStartCodeEmulations\<close>, from which the slice
  encoder computes entry points, is exactly the number of bytes inserted; a payload that ends in a
  zero byte gets one more.
\<close>

theorem nal_unit_start_code_free:
  assumes "header_ok n" and "bytes_ok (o_fifo ob)" and "length (o_fifo ob) < 2 ^ 32"
  shows "\<exists>d. NAL_write n ob = Some d \<and> nal_data_ok d
    \<and> length d = 2 + length (o_fifo ob) + countStartCodeEmulations ob
        + of_bool (o_fifo ob \<noteq> [] \<and> last (o_fifo ob) = 0)"
proof -
  have "length (write_payload p) = length p + count_emulations p + of_bool (p \<noteq> [] \<and> last p = 0)" for p
    using count_emulations_loop [of p 0] emulation_loop_zero_count [of p 0]
    by (auto simp: write_payload_def split: prod.splits if_splits)
  moreover have "u32 (count_emulations (o_fifo ob)) = count_emulations (o_fifo ob)"
    using count_emulations_le [of "o_fifo ob"] assms(3) by (intro u32_id) simp
  ultimately show ?thesis using NAL_write_ok [OF assms(1)] NAL_write_data_ok [OF assms(1,2)]
    by (simp add: countStartCodeEmulations_def header_bytes_def)
qed

theorem nal_unit_start_code_free_witness:
  "\<exists>d. NAL_write \<lparr>m_nalUnitType = NAL_UNIT_PPS, m_temporalId = 0, m_nuhLayerId = 0, m_forbiddenZeroBit = 0,
      m_nuhReservedZeroBit = 0\<rparr> (OutputBitstream_clear\<lparr>o_fifo := [0, 0, 0, 0, 0, 128]\<rparr>) = Some d
    \<and> nal_data_ok d \<and> length d = 2 + 6 + 2"
  using nal_unit_start_code_free [of "\<lparr>m_nalUnitType = NAL_UNIT_PPS, m_temporalId = 0, m_nuhLayerId = 0,
      m_forbiddenZeroBit = 0, m_nuhReservedZeroBit = 0\<rparr>" "OutputBitstream_clear\<lparr>o_fifo := [0, 0, 0, 0, 0, 128]\<rparr>"]
  by (simp add: header_ok_def countStartCodeEmulations_def u32_def)

text \<open>
  C6. \<^verbatim>\<open>byteStreamNALUnit\<close> on any stream position: after \<open>k\<close> zero bytes and a start code prefix it
  returns exactly the bytes of the NAL unit up to the next start code, counts every kind of byte,
  skips the trailing zero bytes and leaves the stream in front of the next start code (with the zero
  byte that belongs to it).  The returned value is false, since the end of the stream was not reached;
  the comment at the definition says that it is true then.
\<close>

theorem annexb_parse_unit:
  assumes "views bs (replicate k 0 @ [0, 0, 1] @ d @ replicate j 0 @ [0, 0, 1] @ r)"
    and "start_code_free d" and "d \<noteq> [] \<longrightarrow> last d \<noteq> 0"
  shows "\<exists>bs'. views bs' (replicate (min j 1) 0 @ [0, 0, 1] @ r) \<and> byteStreamNALUnit (annexb_start bs) =
    (False, \<lparr>ab_bs = bs', ab_nalUnit = d, ab_stats = unit_stats k d j\<rparr>)"
  using byteStreamNALUnit_next [OF assms(1,2)] assms(3) by blast

theorem annexb_parse_unit_witness:
  "\<exists>bs'. views bs' (replicate (min 2 1) 0 @ [0, 0, 1] @ [9]) \<and>
    byteStreamNALUnit (annexb_start (InputByteStream_new ([0, 0, 0, 1, 5, 7] @ [0, 0, 0, 0, 1, 9]))) =
    (False, \<lparr>ab_bs = bs', ab_nalUnit = [5, 7], ab_stats = unit_stats 1 [5, 7] 2\<rparr>)"
proof -
  have "views (InputByteStream_new ([0, 0, 0, 1, 5, 7] @ [0, 0, 0, 0, 1, 9]))
      (replicate 1 0 @ [0, 0, 1] @ [5, 7] @ replicate 2 0 @ [0, 0, 1] @ [9])"
    using views_new [of "[0, 0, 0, 1, 5, 7] @ [0, 0, 0, 0, 1, 9]"] by (simp add: numeral_2_eq_2)
  from annexb_parse_unit [OF this] show ?thesis by simp
qed

text \<open>
  C7. A NAL unit whose header has \<^verbatim>\<open>nuh_layer_id\<close> below 64, that is every NAL unit the writer
  produces, is taken for a VCL unit by \<^verbatim>\<open>read\<close>, which tests bit 6 of the first header byte, also if it
  holds a parameter set or an SEI message.  What becomes of any payload: if it ends in an even number of
  zero bytes, these are removed; if in an odd number, nothing is removed, and the 0x03 that the writer
  puts behind a final zero byte, which the reader recognises only behind two of them, stays in the
  payload.  So exactly the payloads that do not end in a zero byte are read back unchanged.
\<close>

theorem nal_read_payload:
  assumes "header_ok n" and "bytes_ok p"
  shows "(\<exists>s. NAL_read (InputBitstream_new (header_bytes n @ write_payload p)) =
      Some (n\<lparr>m_forbiddenZeroBit := 0, m_nuhReservedZeroBit := 0\<rparr>, s)
      \<and> bits_in s = bytes_bits (if odd (trailing_zeros p) then p @ [3] else strip_zeros p))
    \<and> p = strip_zeros p @ replicate (trailing_zeros p) 0
    \<and> (strip_zeros p \<noteq> [] \<longrightarrow> last (strip_zeros p) \<noteq> 0)
    \<and> (payload_read p = p \<longleftrightarrow> p = [] \<or> last p \<noteq> 0)"
proof (intro conjI)
  show "\<exists>s. NAL_read (InputBitstream_new (header_bytes n @ write_payload p)) =
      Some (n\<lparr>m_forbiddenZeroBit := 0, m_nuhReservedZeroBit := 0\<rparr>, s)
      \<and> bits_in s = bytes_bits (if odd (trailing_zeros p) then p @ [3] else strip_zeros p)"
    using NAL_roundtrip [OF assms] unfolding payload_read_def by metis
qed (use trailing_zeros_split strip_zeros_last payload_read_same in \<open>blast+\<close>)

theorem nal_read_payload_witness:
  "let n = \<lparr>m_nalUnitType = NAL_UNIT_PREFIX_SEI, m_temporalId = 0, m_nuhLayerId = 0, m_forbiddenZeroBit = 0,
            m_nuhReservedZeroBit = 0\<rparr>
   in \<not> isVcl n
     \<and> (\<exists>s. NAL_read (InputBitstream_new (header_bytes n @ write_payload [5, 0, 0])) = Some (n, s)
        \<and> bits_in s = bytes_bits [5])
     \<and> (\<exists>s. NAL_read (InputBitstream_new (header_bytes n @ write_payload [5, 0])) = Some (n, s)
        \<and> bits_in s = bytes_bits [5, 0, 3])"
  using nal_read_payload [of "\<lparr>m_nalUnitType = NAL_UNIT_PREFIX_SEI, m_temporalId = 0, m_nuhLayerId = 0,
      m_forbiddenZeroBit = 0, m_nuhReservedZeroBit = 0\<rparr>" "[5, 0, 0]"]
    nal_read_payload [of "\<lparr>m_nalUnitType = NAL_UNIT_PREFIX_SEI, m_temporalId = 0, m_nuhLayerId = 0,
      m_forbiddenZeroBit = 0, m_nuhReservedZeroBit = 0\<rparr>" "[5, 0]"]
  by (simp add: header_ok_def strip_zeros_def trailing_zeros_def isVcl_def Let_def del: bytes_bits_simps)

section \<open>Bit streams and Exp-Golomb codes\<close>

text \<open>
  C8. Writing a value in \<open>n\<close> bits fails exactly when there are more than 32 bits or the value does not
  fit, and reading fails exactly for more than 32 bits or behind the end; otherwise the bits are
  appended to the stream, most significant first, whatever was pending in the partial byte.
\<close>

theorem bitstream_write_read:
  assumes "v < 2 ^ 32" and "out_inv s" and "in_inv i"
  shows "(OutputBitstream_write v n s = None \<longleftrightarrow> 32 < n \<or> 2 ^ n \<le> v)
    \<and> (InputBitstream_read n i = None \<longleftrightarrow> 32 < n \<or> length (bits_in i) < n)
    \<and> (n \<le> 32 \<longrightarrow> v < 2 ^ n \<longrightarrow> (\<exists>s'. OutputBitstream_write v n s = Some s' \<and> out_inv s'
      \<and> bits_out s' = bits_out s @ bitsBE n v))
    \<and> (\<forall>bs rest. n \<le> 32 \<longrightarrow> bits_in i = bs @ rest \<longrightarrow> length bs = n \<longrightarrow>
      (\<exists>i'. InputBitstream_read n i = Some (valBE bs, i') \<and> in_inv i' \<and> bits_in i' = rest))"
proof (intro conjI)
  show "n \<le> 32 \<longrightarrow> v < 2 ^ n \<longrightarrow> (\<exists>s'. OutputBitstream_write v n s = Some s' \<and> out_inv s'
      \<and> bits_out s' = bits_out s @ bitsBE n v)"
    using write_ok [OF assms(2), of v n] by metis
  show "\<forall>bs rest. n \<le> 32 \<longrightarrow> bits_in i = bs @ rest \<longrightarrow> length bs = n \<longrightarrow>
      (\<exists>i'. InputBitstream_read n i = Some (valBE bs, i') \<and> in_inv i' \<and> bits_in i' = rest)"
    using read_ok [OF assms(3)] by metis
qed (rule write_fails [OF assms(1)] read_fails [OF assms(3)])+

theorem bitstream_write_read_witness:
  "OutputBitstream_write 9 3 OutputBitstream_clear = None \<and> InputBitstream_read 3 (InputBitstream_new []) = None"
  using bitstream_write_read [of 9 OutputBitstream_clear "InputBitstream_new []" 3] by simp

text \<open>
  C9. The Exp-Golomb codes are prefix free and signed values are mapped one to one: no code word of
  \<^verbatim>\<open>xWriteUvlc\<close> begins another one, so a parser never needs to look ahead; and \<^verbatim>\<open>xReadUvlc\<close>,
  \<^verbatim>\<open>xReadSvlc\<close> invert the writers on any stream.
\<close>

theorem exp_golomb_codes:
  assumes "v < 4294967295" and "w < 4294967295" and "\<bar>i\<bar> < 2147483648"
  shows "(ue_code v @ r = ue_code w @ r' \<longrightarrow> v = w) \<and>
    hls_codec (\<lambda>s. do { s \<leftarrow> xWriteUvlc v s; xWriteSvlc i s })
          (\<lambda>t. do { (a, t) \<leftarrow> xReadUvlc t; (b, t) \<leftarrow> xReadSvlc t; Some ((a, b), t) }) (v, i)"
proof
  show "ue_code v @ r = ue_code w @ r' \<longrightarrow> v = w" using ue.code_prefix_free [of v w] assms(1,2) by auto
  show "hls_codec (\<lambda>s. do { s \<leftarrow> xWriteUvlc v s; xWriteSvlc i s })
          (\<lambda>t. do { (a, t) \<leftarrow> xReadUvlc t; (b, t) \<leftarrow> xReadSvlc t; Some ((a, b), t) }) (v, i)"
    by (rule codec_bind [OF hls_UVLC [OF assms(1)]], rule codec_last [OF hls_SVLC [OF assms(3)]], rule codec_Some)
qed

theorem exp_golomb_codes_witness:
  "hls_codec (\<lambda>s. do { s \<leftarrow> xWriteUvlc 4 s; xWriteSvlc (- 3) s })
          (\<lambda>t. do { (a, t) \<leftarrow> xReadUvlc t; (b, t) \<leftarrow> xReadSvlc t; Some ((a, b), t) }) (4, - 3)"
  using exp_golomb_codes [of 4 4 "- 3"] by simp

text \<open>
  C10. A raw byte sequence payload of any structure whose writer and parser agree: \<^verbatim>\<open>xWriteRbspTrailingBits\<close>
  completes it to bytes that end in the stop bit, and the parser followed by
  \<^verbatim>\<open>xReadRbspTrailingBits\<close> reads it to the last bit.  Here: the access unit delimiter.
\<close>

theorem aud_roundtrip:
  assumes "picType < 3"
  shows "\<exists>s i. codeAUD picType OutputBitstream_clear = Some s \<and> rbsp_ok (o_fifo s)
    \<and> parseAccessUnitDelimiter (InputBitstream_new (o_fifo s)) = Some (picType, i) \<and> bits_in i = []"
proof -
  have c: "hls_codec (xWriteCode picType 3) (xReadCode 3) picType" using assms by (intro hls_CODE) auto
  from rbsp_roundtrip [OF c] obtain ys i where
    "write_rbsp (xWriteCode picType 3) = Some ys" "bytes_ok ys" "ys \<noteq> []" "last ys \<noteq> 0"
    "read_rbsp (xReadCode 3) ys = Some (picType, i)" "bits_in i = []" .
  moreover from this obtain s where "codeAUD picType OutputBitstream_clear = Some s" "ys = o_fifo s"
    using assms by (auto simp: write_rbsp_def codeAUD_def split: bind_splits)
  moreover have "read_rbsp (xReadCode 3) ys = parseAccessUnitDelimiter (InputBitstream_new ys)"
    by (simp add: read_rbsp_def parseAccessUnitDelimiter_def)
  ultimately show ?thesis unfolding rbsp_ok_def by metis
qed

theorem aud_roundtrip_witness:
  "\<exists>s i. codeAUD 2 OutputBitstream_clear = Some s \<and> rbsp_ok (o_fifo s)
    \<and> parseAccessUnitDelimiter (InputBitstream_new (o_fifo s)) = Some (2, i) \<and> bits_in i = []"
  using aud_roundtrip [of 2] by simp

section \<open>Contexts\<close>

text \<open>
  C11. The registration of context sets by \<^verbatim>\<open>addCtxSet\<close>: for any list of sets, each with four rows of equal
  length and fewer than 65536 contexts in all, no check fails; the four tables get the same length; every
  set lies behind its predecessors without gap or overlap, and the part of each table that its offset and
  size name holds exactly its row.  Combining any run of neighbouring sets gives a set whose indices are
  those of its parts, from the first to the last.  The program's own 89 sets with 386 contexts are
  registered so, and the combined sets \<^verbatim>\<open>Palette\<close>, \<^verbatim>\<open>Sao\<close> and \<^verbatim>\<open>Alf\<close> have the indices of their parts.
\<close>

theorem context_registration:
  assumes "list_all ctx_init_ok is" and "sum_list (map (\<lambda>i. length (hd i)) is) < 65536"
  shows "(\<exists>sets tables. register is [[], [], [], []] = Some (sets, tables) \<and> length sets = length is \<and> length tables = 4
      \<and> (\<forall>j < 4. length (tables ! j) = sum_list (map (\<lambda>i. length (hd i)) is))
      \<and> (\<forall>n < length is. Offset (sets ! n) = sum_list (map Size (take n sets))
           \<and> (\<forall>j < 4. take (Size (sets ! n)) (drop (Offset (sets ! n)) (tables ! j)) = is ! n ! j))
      \<and> (\<forall>a b. a < b \<longrightarrow> b \<le> length is \<longrightarrow>
           ctx_range (CtxSet_combine (take (b - a) (drop a sets))) = (\<Union>c \<in> set (take (b - a) (drop a sets)). ctx_range c)))
    \<and> ctx_cfg \<noteq> None \<and> length ctx_sets = 89 \<and> NumberOfContexts = 386 \<and> map length sm_InitTables = [386, 386, 386, 386]
    \<and> ctx_range Ctx_Palette = ctx_range Ctx_RotationFlag \<union> ctx_range Ctx_RunTypeFlag \<union> ctx_range Ctx_IdxRunModel
        \<union> ctx_range Ctx_CopyRunModel
    \<and> ctx_range Ctx_Sao = ctx_range Ctx_SaoMergeFlag \<union> ctx_range Ctx_SaoTypeIdx
    \<and> ctx_range Ctx_Alf = ctx_range Ctx_ctbAlfFlag \<union> ctx_range Ctx_ctbAlfAlternative \<union> ctx_range Ctx_AlfUseTemporalFilt"
proof -
  obtain tables where t: "register is [[], [], [], []] = Some (consecutive 0 is, tables)" "length tables = 4"
    "\<And>j. j < 4 \<Longrightarrow> tables ! j = concat (map (\<lambda>i. i ! j) is)" using register_sets [OF assms] by metis
  have len: "\<forall>j < 4. length (tables ! j) = ctx_total is"
    using t(3) table_length [OF assms(1)] by simp
  have slices: "\<forall>n < length is. Offset (consecutive 0 is ! n) = sum_list (map Size (take n (consecutive 0 is)))
      \<and> (\<forall>j < 4. take (Size (consecutive 0 is ! n)) (drop (Offset (consecutive 0 is ! n)) (tables ! j)) = is ! n ! j)"
    using t(3) table_slice [OF assms(1)] by (simp add: consecutive_nth consecutive_take map_Size_consecutive)
  have runs: "\<forall>a b. a < b \<longrightarrow> b \<le> length is \<longrightarrow>
      ctx_range (CtxSet_combine (take (b - a) (drop a (consecutive 0 is)))) = (\<Union>c \<in> set (take (b - a) (drop a (consecutive 0 is))). ctx_range c)"
    using combine_range [OF assms(2)] by blast
  have "\<exists>sets tables. register is [[], [], [], []] = Some (sets, tables) \<and> length sets = length is \<and> length tables = 4
      \<and> (\<forall>j < 4. length (tables ! j) = ctx_total is)
      \<and> (\<forall>n < length is. Offset (sets ! n) = sum_list (map Size (take n sets))
           \<and> (\<forall>j < 4. take (Size (sets ! n)) (drop (Offset (sets ! n)) (tables ! j)) = is ! n ! j))
      \<and> (\<forall>a b. a < b \<longrightarrow> b \<le> length is \<longrightarrow>
           ctx_range (CtxSet_combine (take (b - a) (drop a sets))) = (\<Union>c \<in> set (take (b - a) (drop a sets)). ctx_range c))"
    by (rule exI [of _ "consecutive 0 is"], rule exI [of _ tables],
        intro conjI t(1,2) length_consecutive len slices runs)
  moreover have "length ctx_sets = 89" by (simp add: ctx_sets_explicit)
  moreover have "ctx_cfg \<noteq> None" unfolding ctx_cfg_ok by (rule option.distinct)
  ultimately show ?thesis
    by (intro conjI NumberOfContexts_eq sm_InitTables_lengths combined_ranges)
qed

theorem context_registration_witness:
  "\<exists>sets tables. register [[[35, 1], [19, 2], [35, 3], [8, 8]], [[35], [20], [21], [4]]] [[], [], [], []] = Some (sets, tables)
    \<and> take (Size (sets ! 1)) (drop (Offset (sets ! 1)) (tables ! 2)) = [21]"
  using context_registration [of "[[[35, 1], [19, 2], [35, 3], [8, 8]], [[35], [20], [21], [4]]]"]
  by (auto simp: ctx_init_ok_def)

text \<open>
  C12. \<^verbatim>\<open>CtxStore::init\<close> succeeds for every QP and slice type: no size check and no window size check
  fails, and every context starts in a state that keeps to the precision of the two estimates and
  has legal adaptation rates.  The slice types are the numbers 0 to 2; an index behind the four tables is
  refused (index 3 names the table of window sizes, which the program never passes).
\<close>

theorem context_init_total:
  assumes "length ctx = NumberOfContexts"
  shows "(initId < 3 \<longrightarrow> (\<exists>ctx'. CtxStore_init qp initId ctx = Some ctx' \<and> length ctx' = NumberOfContexts
      \<and> list_all (\<lambda>m. model_ok m \<and> 2 \<le> m_rate m div 16 \<and> m_rate m mod 16 \<le> 9) ctx'))
    \<and> (4 \<le> initId \<longrightarrow> CtxStore_init qp initId ctx = None)"
  using CtxStore_init_ok [OF _ assms] by (simp add: CtxStore_init_def getInitTable_def sm_InitTables_eq)

theorem context_init_total_witness:
  "\<exists>ctx'. CtxStore_init 32 2 CtxStore_new = Some ctx' \<and> length ctx' = NumberOfContexts
    \<and> list_all (\<lambda>m. model_ok m \<and> 2 \<le> m_rate m div 16 \<and> m_rate m mod 16 \<le> 9) ctx'"
  using context_init_total [of CtxStore_new 2 32] by (simp add: CtxStore_new_def)

text \<open>
  C13. Invariant of the probability model: every operation keeps the two estimates within their 10
  and 14 bits, so the 16-bit fields never wrap; and for a normalised range the width of the least
  probable symbol is between 4 and the range less 128, such that one renormalisation by the table
  brings the range back into the interval from 256 to 510.
\<close>

theorem probability_model:
  assumes "model_ok m" and "range_ok R"
  shows "model_ok (BinProbModel_update bin m) \<and> model_ok (BinProbModel_init qp initId m)
    \<and> model_ok (BinProbModel_setState st m) \<and> mps m \<le> 1
    \<and> 4 \<le> getLPS R m \<and> getLPS R m + 128 \<le> R
    \<and> range_ok (push_bit (getRenormBitsLPS (getLPS R m)) (getLPS R m))
    \<and> range_ok (if R - getLPS R m < 256 then push_bit (getRenormBitsRange (R - getLPS R m)) (R - getLPS R m)
                else R - getLPS R m)"
  using BinProbModel_update_ok [OF assms(1)] BinProbModel_init_ok BinProbModel_setState_ok mps_le_1
    getLPS_bounds [OF assms(2)] renorm_LPS [OF assms(2)] renorm_MPS [OF assms(2)]
  by (simp add: getRenormBitsRange_def push_bit_eq_mult mult.commute)

theorem probability_model_witness:
  "model_ok (BinProbModel_update 1 BinProbModel_new) \<and> 4 \<le> getLPS 510 BinProbModel_new"
  using probability_model [of BinProbModel_new 510 1] BinProbModel_new_ok by (simp add: range_ok_def)

section \<open>High-level syntax\<close>

text \<open>
  C14. Reference picture lists: what \<^verbatim>\<open>xCodeRefPicList\<close> writes, \<^verbatim>\<open>parseRefPicList\<close> reads into a fresh
  list with the same counts, the same kind and the same picture order count of every entry, for any
  mix of short-term and long-term entries, signs of the differences, and with or without the
  restriction on zero differences.
\<close>

theorem ref_pic_list_roundtrip:
  assumes "rpl_ok lt bits (\<not> (useWP \<or> useWPBiPred)) rpl"
  shows "\<exists>r. hls_codec (xCodeRefPicList rpl lt bits (\<not> (useWP \<or> useWPBiPred)))
      (parseRefPicList lt useWP useWPBiPred bits ReferencePictureList_new) r
    \<and> m_numberOfShorttermPictures r = m_numberOfShorttermPictures rpl
    \<and> m_numberOfLongtermPictures r = m_numberOfLongtermPictures rpl
    \<and> m_ltrp_in_slice_header_flag r = m_ltrp_in_slice_header_flag rpl
    \<and> (\<forall>i < getNumRefEntries rpl. m_refPicIdentifier r ! i = m_refPicIdentifier rpl ! i
         \<and> m_isLongtermRefPic r ! i = m_isLongtermRefPic rpl ! i)"
  by (rule refPicList_codec [OF assms])

definition example_rpl :: ReferencePictureList where
  "example_rpl = ReferencePictureList_new\<lparr>m_numberOfShorttermPictures := 2, m_numberOfLongtermPictures := 1,
     m_refPicIdentifier := [4, 7, - 2] @ replicate 13 0, m_isLongtermRefPic := [False, True, False] @ replicate 13 False\<rparr>"

theorem ref_pic_list_roundtrip_witness:
  "\<exists>r. hls_codec (xCodeRefPicList example_rpl True 8 True)
      (parseRefPicList True False False 8 ReferencePictureList_new) r \<and> m_numberOfShorttermPictures r = 2
    \<and> m_refPicIdentifier r ! 2 = - 2"
proof -
  have "rpl_ok True 8 (\<not> (False \<or> False)) example_rpl"
    by (simp add: rpl_ok_def example_rpl_def ReferencePictureList_new_def getNumRefEntries_def MAX_NUM_REF_PICS_def
        numeral_eq_Suc)
  from ref_pic_list_roundtrip [OF this] obtain r where
    "hls_codec (xCodeRefPicList example_rpl True 8 (\<not> (False \<or> False)))
      (parseRefPicList True False False 8 ReferencePictureList_new) r"
    "m_numberOfShorttermPictures r = m_numberOfShorttermPictures example_rpl"
    "\<forall>i < getNumRefEntries example_rpl. m_refPicIdentifier r ! i = m_refPicIdentifier example_rpl ! i
         \<and> m_isLongtermRefPic r ! i = m_isLongtermRefPic example_rpl ! i" by blast
  then show ?thesis by (auto simp: example_rpl_def getNumRefEntries_def numeral_3_eq_3)
qed

end
